(* ===== verification/Prelude.thy ===== *)
theory Prelude
  imports Main "HOL-Library.Sublist"
begin

section \<open>Shared types, the string operations of Rust's standard library, automation\<close>

text \<open>
  The types and the standard-library string operations the components share. A Rust
  \<open>str\<close> is a UTF-8 byte sequence, so \<open>str\<close> here is a list of bytes
  (Isabelle's \<open>char\<close>): \<open>length\<close> is \<open>str::len\<close>, and every operation
  that looks for an ASCII character is exact on bytes because UTF-8 never uses an ASCII
  byte inside a longer scalar. Rust's \<open>char::is_whitespace\<close> is the Unicode property
  White_Space; its 25 scalars are listed with their UTF-8 encodings and recognised as whole
  encodings.
\<close>

type_synonym str = string

named_theorems str_defs \<open>definitions of the string operations\<close>
named_theorems inv_intros \<open>preservation of the components' invariants\<close>

subsection \<open>Errors as values\<close>

text \<open>A Rust \<open>Result<T, E>\<close> is \<open>'e + 't\<close> with \<open>Inl\<close> for \<open>Err\<close>; \<open>?\<close> is this bind.\<close>

definition try_bind :: "'e + 'a \<Rightarrow> ('a \<Rightarrow> 'e + 'b) \<Rightarrow> 'e + 'b" where
  "try_bind r f = (case r of Inl e \<Rightarrow> Inl e | Inr a \<Rightarrow> f a)"

lemma try_bind_simps [simp]:
  "try_bind (Inl e) f = Inl e"
  "try_bind (Inr a) f = f a"
  by (simp_all add: try_bind_def)

lemma try_bind_Inr_iff: "try_bind r f = Inr b \<longleftrightarrow> (\<exists>a. r = Inr a \<and> f a = Inr b)"
  by (cases r) simp_all

subsection \<open>Lists and finds\<close>

lemma find_append:
  "find P (xs @ ys) = (case find P xs of None \<Rightarrow> find P ys | Some x \<Rightarrow> Some x)"
  by (induction xs) auto

lemma find_SomeD: "find P xs = Some x \<Longrightarrow> x \<in> set xs \<and> P x"
  by (induction xs) (auto split: if_splits)

lemma find_cong_set: "(\<And>x. x \<in> set xs \<Longrightarrow> P x = Q x) \<Longrightarrow> find P xs = find Q xs"
  by (induction xs) auto

lemma find_not_None_iff: "(\<exists>x. find P xs = Some x) \<longleftrightarrow> (\<exists>x\<in>set xs. P x)"
  by (metis find_None_iff find_SomeD option.exhaust)

text \<open>\<open>Iterator::position\<close>.\<close>

fun position :: "('a \<Rightarrow> bool) \<Rightarrow> 'a list \<Rightarrow> nat option" where
  "position P [] = None"
| "position P (x # xs) = (if P x then Some 0 else map_option Suc (position P xs))"

lemma position_SomeD: "position P xs = Some i \<Longrightarrow> i < length xs \<and> P (xs ! i)"
  by (induction xs arbitrary: i) (auto split: if_splits)

lemma find_key_map_of:
  "find (\<lambda>e. fst e = k) es = map_option (Pair k) (map_of es k)"
  by (induction es) auto

lemma find_filter: "find P xs = (case filter P xs of [] \<Rightarrow> None | x # _ \<Rightarrow> Some x)"
  by (induction xs) auto

text \<open>\<open>Iterator::find_map\<close>.\<close>

fun find_map :: "('a \<Rightarrow> 'b option) \<Rightarrow> 'a list \<Rightarrow> 'b option" where
  "find_map f [] = None"
| "find_map f (x # xs) = (case f x of None \<Rightarrow> find_map f xs | Some y \<Rightarrow> Some y)"

lemma find_map_split:
  "find_map f xs = Some y \<Longrightarrow> \<exists>us x vs. xs = us @ x # vs \<and> f x = Some y \<and> (\<forall>u\<in>set us. f u = None)"
proof (induction xs)
  case (Cons x xs)
  show ?case
  proof (cases "f x")
    case None
    with Cons obtain us z vs where "xs = us @ z # vs" "f z = Some y" "\<forall>u\<in>set us. f u = None"
      by auto
    with None have "x # xs = (x # us) @ z # vs \<and> f z = Some y \<and> (\<forall>u\<in>set (x # us). f u = None)"
      by simp
    then show ?thesis by blast
  next
    case (Some w)
    with Cons.prems have "x # xs = [] @ x # xs \<and> f x = Some y \<and> (\<forall>u\<in>set []. f u = None)" by simp
    then show ?thesis by blast
  qed
qed simp

lemma find_map_None_iff: "find_map f xs = None \<longleftrightarrow> (\<forall>x\<in>set xs. f x = None)"
  by (induction xs) (auto split: option.splits)

lemma find_map_SomeD: "find_map f xs = Some y \<Longrightarrow> \<exists>x\<in>set xs. f x = Some y"
  by (induction xs) (auto split: option.splits)

text \<open>\<open>Iterator::filter_map\<close>.\<close>

lemma map_filter_filter: "List.map_filter f (filter P xs) = List.map_filter (\<lambda>x. if P x then f x else None) xs"
  by (induction xs) (auto simp: List.map_filter_def)

lemma map_filter_cong: "(\<And>x. x \<in> set xs \<Longrightarrow> f x = g x) \<Longrightarrow> List.map_filter f xs = List.map_filter g xs"
  by (induction xs) (auto simp: List.map_filter_def)

lemma set_map_filter: "m \<in> set (List.map_filter f xs) \<longleftrightarrow> (\<exists>x\<in>set xs. f x = Some m)"
  by (induction xs) (auto simp: List.map_filter_def)

lemma map_filter_Nil_iff: "List.map_filter f xs = [] \<longleftrightarrow> (\<forall>x\<in>set xs. f x = None)"
  by (induction xs) (auto simp: List.map_filter_def)

text \<open>\<open>Iterator::max_by_key\<close>: the last of the elements with the largest key.\<close>

fun max_by_key :: "('a \<Rightarrow> 'k::linorder) \<Rightarrow> 'a list \<Rightarrow> 'a option" where
  "max_by_key k [] = None"
| "max_by_key k (x # xs) =
     (case max_by_key k xs of None \<Rightarrow> Some x | Some y \<Rightarrow> if k x \<le> k y then Some y else Some x)"

lemma max_by_key_None_iff [simp]: "max_by_key k xs = None \<longleftrightarrow> xs = []"
  by (cases xs) (auto split: option.splits)

lemma max_by_key_SomeD:
  "max_by_key k xs = Some y \<Longrightarrow> y \<in> set xs \<and> (\<forall>x\<in>set xs. k x \<le> k y)"
  by (induction xs arbitrary: y) (fastforce split: option.splits if_splits)+

subsection \<open>ASCII letters\<close>

definition upper_letters :: str where
  "upper_letters = ''ABCDEFGHIJKLMNOPQRSTUVWXYZ''"

definition lower_letters :: str where
  "lower_letters = ''abcdefghijklmnopqrstuvwxyz''"

definition digit_chars :: str where
  "digit_chars = ''0123456789''"

text \<open>\<open>u8::to_ascii_lowercase\<close> and \<open>str::to_ascii_lowercase\<close>.\<close>

definition lower_byte :: "char \<Rightarrow> char" where
  "lower_byte c = (case map_of (zip upper_letters lower_letters) c of None \<Rightarrow> c | Some d \<Rightarrow> d)"

definition to_ascii_lowercase :: "str \<Rightarrow> str" where
  "to_ascii_lowercase s = map lower_byte s"

definition upper_byte :: "char \<Rightarrow> char" where
  "upper_byte c = (case map_of (zip lower_letters upper_letters) c of None \<Rightarrow> c | Some d \<Rightarrow> d)"

definition to_ascii_uppercase :: "str \<Rightarrow> str" where
  "to_ascii_uppercase s = map upper_byte s"

definition eq_ignore_ascii_case :: "str \<Rightarrow> str \<Rightarrow> bool" where
  "eq_ignore_ascii_case a b \<longleftrightarrow> to_ascii_lowercase a = to_ascii_lowercase b"

definition is_ascii_alphabetic :: "char \<Rightarrow> bool" where
  "is_ascii_alphabetic c \<longleftrightarrow> c \<in> set upper_letters \<or> c \<in> set lower_letters"

definition is_ascii_digit :: "char \<Rightarrow> bool" where
  "is_ascii_digit c \<longleftrightarrow> c \<in> set digit_chars"

definition is_ascii_alphanumeric :: "char \<Rightarrow> bool" where
  "is_ascii_alphanumeric c \<longleftrightarrow> is_ascii_alphabetic c \<or> is_ascii_digit c"

lemma lower_byte_cases:
  "lower_byte c = c \<and> c \<notin> set upper_letters
   \<or> c \<in> set upper_letters \<and> lower_byte c \<in> set lower_letters"
proof (cases "map_of (zip upper_letters lower_letters) c")
  case None
  moreover have "length upper_letters = length lower_letters"
    by (simp add: upper_letters_def lower_letters_def)
  ultimately have "c \<notin> set upper_letters"
    by (metis map_of_zip_is_None)
  with None show ?thesis by (simp add: lower_byte_def)
next
  case (Some d)
  then have "(c, d) \<in> set (zip upper_letters lower_letters)" by (rule map_of_SomeD)
  then have "c \<in> set upper_letters" and "d \<in> set lower_letters"
    by (auto dest: set_zip_leftD set_zip_rightD)
  with Some show ?thesis by (simp add: lower_byte_def)
qed

lemma letters_disjoint: "c \<in> set lower_letters \<Longrightarrow> c \<notin> set upper_letters"
  by (auto simp: lower_letters_def upper_letters_def)

lemma lower_byte_lower: "c \<in> set lower_letters \<Longrightarrow> lower_byte c = c"
  using lower_byte_cases [of c] letters_disjoint by blast

lemma lower_byte_idem [simp]: "lower_byte (lower_byte c) = lower_byte c"
  using lower_byte_cases [of c] lower_byte_lower by metis

text \<open>A byte that is no letter is neither changed by lowercasing nor the result of one.\<close>

lemma lower_byte_other:
  assumes "d \<notin> set lower_letters" and "d \<notin> set upper_letters"
  shows "lower_byte c = d \<longleftrightarrow> c = d"
  using lower_byte_cases [of c] lower_byte_cases [of d] assms by metis

lemma lower_length [simp]: "length (to_ascii_lowercase s) = length s"
  by (simp add: to_ascii_lowercase_def)

lemma lower_Nil [simp]: "to_ascii_lowercase [] = []"
  by (simp add: to_ascii_lowercase_def)

lemma lower_Cons [simp]: "to_ascii_lowercase (c # s) = lower_byte c # to_ascii_lowercase s"
  by (simp add: to_ascii_lowercase_def)

lemma lower_append [simp]:
  "to_ascii_lowercase (s @ t) = to_ascii_lowercase s @ to_ascii_lowercase t"
  by (simp add: to_ascii_lowercase_def)

lemma lower_idem [simp]: "to_ascii_lowercase (to_ascii_lowercase s) = to_ascii_lowercase s"
  by (simp add: to_ascii_lowercase_def)

lemma lower_eq_Nil [simp]: "to_ascii_lowercase s = [] \<longleftrightarrow> s = []"
  by (simp add: to_ascii_lowercase_def)

lemma drop_lower: "drop n (to_ascii_lowercase s) = to_ascii_lowercase (drop n s)"
  by (simp add: to_ascii_lowercase_def drop_map)

lemma take_lower: "take n (to_ascii_lowercase s) = to_ascii_lowercase (take n s)"
  by (simp add: to_ascii_lowercase_def take_map)

subsection \<open>White space and trimming\<close>

text \<open>The UTF-8 encodings of the 25 scalars with the property White_Space.\<close>

definition ws_encodings :: "str list" where
  "ws_encodings =
     [[CHR 0x20], [CHR 0x09], [CHR 0x0A], [CHR 0x0B], [CHR 0x0C], [CHR 0x0D],
      [CHR 0xC2, CHR 0x85], [CHR 0xC2, CHR 0xA0], [CHR 0xE1, CHR 0x9A, CHR 0x80],
      [CHR 0xE2, CHR 0x80, CHR 0x80], [CHR 0xE2, CHR 0x80, CHR 0x81],
      [CHR 0xE2, CHR 0x80, CHR 0x82], [CHR 0xE2, CHR 0x80, CHR 0x83],
      [CHR 0xE2, CHR 0x80, CHR 0x84], [CHR 0xE2, CHR 0x80, CHR 0x85],
      [CHR 0xE2, CHR 0x80, CHR 0x86], [CHR 0xE2, CHR 0x80, CHR 0x87],
      [CHR 0xE2, CHR 0x80, CHR 0x88], [CHR 0xE2, CHR 0x80, CHR 0x89],
      [CHR 0xE2, CHR 0x80, CHR 0x8A], [CHR 0xE2, CHR 0x80, CHR 0xA8],
      [CHR 0xE2, CHR 0x80, CHR 0xA9], [CHR 0xE2, CHR 0x80, CHR 0xAF],
      [CHR 0xE2, CHR 0x81, CHR 0x9F], [CHR 0xE3, CHR 0x80, CHR 0x80]]"

text \<open>The length of the white-space scalar a string starts with, 0 when there is none.\<close>

definition ws_len :: "str \<Rightarrow> nat" where
  "ws_len s = (case find (\<lambda>w. prefix w s) ws_encodings of None \<Rightarrow> 0 | Some w \<Rightarrow> length w)"

text \<open>\<open>str::split_whitespace\<close>, with the token being read as an accumulator.\<close>

function split_ws_acc :: "str \<Rightarrow> str \<Rightarrow> str list" where
  "split_ws_acc cur [] = (if cur = [] then [] else [cur])"
| "split_ws_acc cur (c # r) =
     (if ws_len (c # r) > 0
      then (if cur = [] then [] else [cur]) @ split_ws_acc [] (drop (ws_len (c # r)) (c # r))
      else split_ws_acc (cur @ [c]) r)"
  by pat_completeness auto
termination
  by (relation "measure (\<lambda>(cur, s). length s)") auto

definition split_whitespace :: "str \<Rightarrow> str list" where
  "split_whitespace s = split_ws_acc [] s"

function trim_start :: "str \<Rightarrow> str" where
  "trim_start [] = []"
| "trim_start (c # r) =
     (if ws_len (c # r) > 0 then trim_start (drop (ws_len (c # r)) (c # r)) else c # r)"
  by pat_completeness auto
termination
  by (relation "measure length") auto

text \<open>\<open>trim_end\<close> drops the longest suffix that is white space only.\<close>

fun trim_end :: "str \<Rightarrow> str" where
  "trim_end [] = []"
| "trim_end (c # r) = (if trim_start (c # r) = [] then [] else c # trim_end r)"

definition trim :: "str \<Rightarrow> str" where
  "trim s = trim_end (trim_start s)"

text \<open>\<open>trim_matches\<close> and its one-sided forms, for a set of ASCII characters.\<close>

definition trim_start_chars :: "char list \<Rightarrow> str \<Rightarrow> str" where
  "trim_start_chars cs s = dropWhile (\<lambda>c. c \<in> set cs) s"

definition trim_end_chars :: "char list \<Rightarrow> str \<Rightarrow> str" where
  "trim_end_chars cs s = rev (dropWhile (\<lambda>c. c \<in> set cs) (rev s))"

definition trim_chars :: "char list \<Rightarrow> str \<Rightarrow> str" where
  "trim_chars cs s = trim_end_chars cs (trim_start_chars cs s)"

subsection \<open>Splitting, joining, searching, replacing\<close>

text \<open>\<open>slice::join\<close>.\<close>

fun join :: "str \<Rightarrow> str list \<Rightarrow> str" where
  "join sep [] = []"
| "join sep [x] = x"
| "join sep (x # y # xs) = x @ sep @ join sep (y # xs)"

text \<open>\<open>str::split\<close> on a predicate over ASCII characters: never empty.\<close>

fun split_on :: "(char \<Rightarrow> bool) \<Rightarrow> str \<Rightarrow> str list" where
  "split_on P [] = [[]]"
| "split_on P (c # s) =
     (if P c then [] # split_on P s
      else (case split_on P s of [] \<Rightarrow> [[c]] | t # ts \<Rightarrow> (c # t) # ts))"

abbreviation split_char :: "char \<Rightarrow> str \<Rightarrow> str list" where
  "split_char d \<equiv> split_on (\<lambda>c. c = d)"

text \<open>The text before the first \<open>d\<close> (\<open>split(d).next()\<close>), and \<open>split_once\<close>.\<close>

definition before_char :: "char \<Rightarrow> str \<Rightarrow> str" where
  "before_char d s = takeWhile (\<lambda>c. c \<noteq> d) s"

definition split_once :: "char \<Rightarrow> str \<Rightarrow> (str \<times> str) option" where
  "split_once d s =
     (if d \<in> set s then Some (before_char d s, drop (Suc (length (before_char d s))) s) else None)"

text \<open>
  \<open>str::replace\<close> and \<open>str::split\<close> for a non-empty pattern: leftmost matches that do not
  overlap. The accumulator is the piece being read.
\<close>

function split_str_acc :: "str \<Rightarrow> str \<Rightarrow> str \<Rightarrow> str list" where
  "split_str_acc p cur [] = [cur]"
| "split_str_acc p cur (c # r) =
     (if p \<noteq> [] \<and> prefix p (c # r) then cur # split_str_acc p [] (drop (length p) (c # r))
      else split_str_acc p (cur @ [c]) r)"
  by pat_completeness auto
termination
  by (relation "measure (\<lambda>(p, cur, s). length s)") auto

definition split_str :: "str \<Rightarrow> str \<Rightarrow> str list" where
  "split_str p s = split_str_acc p [] s"

definition replace_str :: "str \<Rightarrow> str \<Rightarrow> str \<Rightarrow> str" where
  "replace_str p r s = join r (split_str p s)"

definition replace_char :: "char \<Rightarrow> str \<Rightarrow> str \<Rightarrow> str" where
  "replace_char d r s = concat (map (\<lambda>c. if c = d then r else [c]) s)"

text \<open>\<open>str::lines\<close>: a carriage return goes only with the line feed after it.\<close>

fun str_lines_acc :: "str \<Rightarrow> str \<Rightarrow> str list" where
  "str_lines_acc cur [] = (if cur = [] then [] else [cur])"
| "str_lines_acc cur (c # r) =
     (if c = CHR 0x0A
      then (if cur \<noteq> [] \<and> last cur = CHR 0x0D then butlast cur else cur) # str_lines_acc [] r
      else str_lines_acc (cur @ [c]) r)"

definition str_lines :: "str \<Rightarrow> str list" where
  "str_lines s = str_lines_acc [] s"

abbreviation starts_with :: "str \<Rightarrow> str \<Rightarrow> bool" where
  "starts_with s p \<equiv> prefix p s"

abbreviation ends_with :: "str \<Rightarrow> str \<Rightarrow> bool" where
  "ends_with s p \<equiv> suffix p s"

abbreviation contains_str :: "str \<Rightarrow> str \<Rightarrow> bool" where
  "contains_str s p \<equiv> sublist p s"

definition strip_prefix :: "str \<Rightarrow> str \<Rightarrow> str option" where
  "strip_prefix p s = (if prefix p s then Some (drop (length p) s) else None)"

definition strip_suffix :: "str \<Rightarrow> str \<Rightarrow> str option" where
  "strip_suffix p s = (if suffix p s then Some (take (length s - length p) s) else None)"

text \<open>Decimal printing of an unsigned integer (\<open>to_string\<close>).\<close>

fun show_nat :: "nat \<Rightarrow> str" where
  "show_nat n =
     (if n < 10 then [digit_chars ! n] else show_nat (n div 10) @ [digit_chars ! (n mod 10)])"

declare show_nat.simps [simp del]

text \<open>\<open>str::parse\<close> for an unsigned type with values below \<open>2 ^ w\<close>: an optional plus, digits.\<close>

definition digit_val :: "char \<Rightarrow> nat option" where
  "digit_val c = map_of (zip digit_chars [0..<10]) c"

fun digits_val :: "nat \<Rightarrow> str \<Rightarrow> nat option" where
  "digits_val acc [] = Some acc"
| "digits_val acc (c # s) =
     (case digit_val c of None \<Rightarrow> None | Some d \<Rightarrow> digits_val (10 * acc + d) s)"

definition parse_uint :: "nat \<Rightarrow> str \<Rightarrow> nat option" where
  "parse_uint w s =
     (let ds = (case s of [] \<Rightarrow> [] | c # r \<Rightarrow> if c = CHR ''+'' then r else s)
      in if ds = [] then None
         else (case digits_val 0 ds of None \<Rightarrow> None | Some n \<Rightarrow> if n < 2 ^ w then Some n else None))"

text \<open>For evaluation: the bound is compared as an integer.\<close>

lemma parse_uint_code [code]:
  "parse_uint w s =
     (let ds = (case s of [] \<Rightarrow> [] | c # r \<Rightarrow> if c = CHR ''+'' then r else s)
      in if ds = [] then None
         else (case digits_val 0 ds of None \<Rightarrow> None
               | Some n \<Rightarrow> if int n < 2 ^ w then Some n else None))"
proof -
  have "int n < 2 ^ w \<longleftrightarrow> n < 2 ^ w" for n
    by (metis of_nat_less_iff of_nat_numeral of_nat_power)
  then show ?thesis by (simp only: parse_uint_def)
qed

text \<open>\<open>trim_end_matches\<close> with a string: every copy of the pattern at the end goes.\<close>

function trim_end_str :: "str \<Rightarrow> str \<Rightarrow> str" where
  "trim_end_str p s =
     (if p \<noteq> [] \<and> suffix p s then trim_end_str p (take (length s - length p) s) else s)"
  by pat_completeness auto
termination
  by (relation "measure (\<lambda>(p, s). length s)") (auto simp: suffix_def)

declare trim_end_str.simps [simp del]

text \<open>
  \<open>str::to_lowercase\<close> as far as an ASCII pattern can see it: besides the ASCII letters, only the
  Kelvin sign and the dotted capital I lower into ASCII letters; every other scalar lowers to
  non-ASCII text and is kept.
\<close>

function to_lowercase :: "str \<Rightarrow> str" where
  "to_lowercase [] = []"
| "to_lowercase (c # s) =
     (if starts_with (c # s) [CHR 0xE2, CHR 0x84, CHR 0xAA] then CHR ''k'' # to_lowercase (drop 2 s)
      else if starts_with (c # s) [CHR 0xC4, CHR 0xB0]
      then CHR ''i'' # CHR 0xCC # CHR 0x87 # to_lowercase (drop 1 s)
      else lower_byte c # to_lowercase s)"
  by pat_completeness auto
termination
  by (relation "measure length") auto

subsection \<open>Printed numbers parse back\<close>

lemma digit_val_nth: "d < 10 \<Longrightarrow> digit_val (digit_chars ! d) = Some d"
proof -
  have "list_all (\<lambda>d. digit_val (digit_chars ! d) = Some d) [0..<10]" by code_simp
  then show "d < 10 \<Longrightarrow> digit_val (digit_chars ! d) = Some d" by (simp add: list_all_iff)
qed

lemma show_nat_not_Nil [simp]: "show_nat n \<noteq> []"
  by (simp add: show_nat.simps [of n])

lemma show_nat_digits: "set (show_nat n) \<subseteq> set digit_chars"
proof (induction n rule: show_nat.induct)
  case (1 n)
  have "length digit_chars = 10" by (simp add: digit_chars_def)
  then have "d < 10 \<Longrightarrow> digit_chars ! d \<in> set digit_chars" for d by (metis nth_mem)
  with 1 show ?case by (cases "n < 10") (simp_all add: show_nat.simps [of n])
qed

lemma digits_val_show: "digits_val acc (show_nat n @ r) = digits_val (acc * 10 ^ length (show_nat n) + n) r"
proof (induction n arbitrary: acc r rule: show_nat.induct)
  case (1 n)
  show ?case
  proof (cases "n < 10")
    case True
    then show ?thesis by (simp add: show_nat.simps [of n] digit_val_nth mult.commute)
  next
    case False
    have s: "show_nat n = show_nat (n div 10) @ [digit_chars ! (n mod 10)]"
      using False by (simp add: show_nat.simps [of n])
    have "10 * (acc * 10 ^ length (show_nat (n div 10)) + n div 10) + n mod 10
        = acc * 10 ^ length (show_nat n) + n"
      by (simp add: s algebra_simps)
    with 1 False show ?thesis by (simp add: s digit_val_nth algebra_simps)
  qed
qed

lemma parse_show_nat: "n < 2 ^ w \<Longrightarrow> parse_uint w (show_nat n) = Some n"
proof -
  assume n: "n < 2 ^ w"
  have plus: "CHR ''+'' \<notin> set digit_chars" by code_simp
  obtain c s where cs: "show_nat n = c # s" by (cases "show_nat n") auto
  then have "c \<noteq> CHR ''+''" using show_nat_digits [of n] plus by auto
  then show ?thesis
    using digits_val_show [of 0 n "[]"] n cs by (simp add: parse_uint_def)
qed

lemma show_nat_inj: "show_nat m = show_nat n \<Longrightarrow> m = n"
proof -
  assume "show_nat m = show_nat n"
  moreover have "m < 2 ^ (m + n)" "n < 2 ^ (m + n)"
    by (simp_all add: trans_less_add1 less_exp le_less_trans [OF le_add1 less_exp] le_less_trans [OF le_add2 less_exp])
  ultimately show "m = n" using parse_show_nat by (metis option.inject)
qed

end
