(* ===== verification/Text_Lemmas.thy ===== *)
theory Text_Lemmas
  imports Prelude
begin

section \<open>Facts about the string operations\<close>

text \<open>
  What the components use of the standard library's string operations: white-space scalars
  are recognised the same way whatever follows them, \<open>split_whitespace\<close> yields non-empty
  words without white space, joining such words with a blank and splitting gives them back,
  ASCII lowercasing commutes with splitting, and trimming does not change the words.
\<close>

subsection \<open>White-space scalars\<close>

lemma ws_encodings_prefix_free:
  "\<forall>w\<in>set ws_encodings. \<forall>w'\<in>set ws_encodings. prefix w w' \<longrightarrow> w = w'"
  by code_simp

lemma ws_encodings_nonempty: "\<forall>w\<in>set ws_encodings. w \<noteq> []"
  by code_simp

lemma ws_encodings_blank: "\<forall>w\<in>set ws_encodings. w = '' '' \<or> CHR '' '' \<notin> set w"
  by code_simp

lemma ws_encodings_letters:
  "\<forall>w\<in>set ws_encodings. \<forall>c\<in>set w. c \<notin> set lower_letters \<and> c \<notin> set upper_letters"
  by code_simp

lemma ws_encodings_heads:
  "\<forall>w\<in>set ws_encodings. \<forall>c\<in>set (tl w). \<forall>w'\<in>set ws_encodings. hd w' \<noteq> c"
  by code_simp

lemma ws_len_unique:
  assumes "w \<in> set ws_encodings" and "prefix w s"
  shows "ws_len s = length w"
proof -
  obtain w' where w': "find (\<lambda>w. prefix w s) ws_encodings = Some w'"
    using assms find_not_None_iff [of "\<lambda>w. prefix w s" ws_encodings] by blast
  then have "w' \<in> set ws_encodings" and "prefix w' s"
    by (auto dest: find_SomeD)
  with assms have "w' = w"
    using ws_encodings_prefix_free prefix_same_cases by metis
  with w' show ?thesis by (simp add: ws_len_def)
qed

lemma ws_len_posD:
  assumes "0 < ws_len s"
  obtains w where "w \<in> set ws_encodings" and "prefix w s" and "ws_len s = length w"
proof -
  from assms obtain w where w: "find (\<lambda>w. prefix w s) ws_encodings = Some w"
    by (cases "find (\<lambda>w. prefix w s) ws_encodings") (auto simp: ws_len_def)
  moreover from w have "w \<in> set ws_encodings" and "prefix w s"
    by (auto dest: find_SomeD)
  ultimately show ?thesis using that by (simp add: ws_len_def)
qed

lemma ws_len_0_iff: "ws_len s = 0 \<longleftrightarrow> (\<forall>w\<in>set ws_encodings. \<not> prefix w s)"
  by (metis ws_len_posD ws_len_unique ws_encodings_nonempty gr0I length_0_conv)

lemma ws_len_Nil [simp]: "ws_len [] = 0"
  using ws_encodings_nonempty by (simp add: ws_len_0_iff)

lemma ws_len_le: "ws_len s \<le> length s"
proof (cases "ws_len s = 0")
  case False
  then obtain w where "prefix w s" and "ws_len s = length w" by (auto elim: ws_len_posD)
  then show ?thesis by (simp add: prefix_length_le)
qed simp

lemma ws_len_mono: "0 < ws_len s \<Longrightarrow> ws_len (s @ t) = ws_len s"
  by (metis prefix_prefix ws_len_posD ws_len_unique)

lemma ws_len_0_prefix: "ws_len (s @ t) = 0 \<Longrightarrow> ws_len s = 0"
  using ws_len_mono [of s t] by (cases "ws_len s = 0") auto

lemma ws_len_blank [simp]: "ws_len (CHR '' '' # s) = Suc 0"
proof -
  have "[CHR '' ''] \<in> set ws_encodings" by code_simp
  then show ?thesis using ws_len_unique [of "[CHR '' '']"] by simp
qed

text \<open>A blank after a non-empty string neither makes nor breaks a white-space scalar.\<close>

lemma prefix_before_blank:
  assumes "w \<in> set ws_encodings" and "s \<noteq> []"
  shows "prefix w (s @ CHR '' '' # t) \<longleftrightarrow> prefix w s"
proof
  assume p: "prefix w (s @ CHR '' '' # t)"
  show "prefix w s"
  proof (cases "w = '' ''")
    case True
    with p assms(2) show ?thesis by (cases s) auto
  next
    case False
    then have "CHR '' '' \<notin> set w" using assms(1) ws_encodings_blank by blast
    have "us = []" if "w = s @ us" and "prefix us (CHR '' '' # t)" for us
      using that \<open>CHR '' '' \<notin> set w\<close> by (cases us) auto
    with p show ?thesis by (auto simp: prefix_append)
  qed
qed (simp add: prefix_append)

lemma ws_len_before_blank: "s \<noteq> [] \<Longrightarrow> ws_len (s @ CHR '' '' # t) = ws_len s"
  by (metis gr0I prefix_before_blank ws_len_0_iff ws_len_mono)

lemma prefix_lower_iff:
  assumes "\<forall>c\<in>set w. c \<notin> set lower_letters \<and> c \<notin> set upper_letters"
  shows "prefix w (to_ascii_lowercase s) \<longleftrightarrow> prefix w s"
  using assms
proof (induction w arbitrary: s)
  case (Cons a w)
  then show ?case by (cases s) (auto simp: lower_byte_other eq_commute [of a])
qed simp

lemma ws_len_lower [simp]: "ws_len (to_ascii_lowercase s) = ws_len s"
proof -
  have "find (\<lambda>w. prefix w (to_ascii_lowercase s)) ws_encodings = find (\<lambda>w. prefix w s) ws_encodings"
    by (rule find_cong_set) (metis prefix_lower_iff ws_encodings_letters)
  then show ?thesis by (simp add: ws_len_def)
qed

subsection \<open>Words\<close>

fun no_ws :: "str \<Rightarrow> bool" where
  "no_ws [] = True"
| "no_ws (c # t) = (ws_len (c # t) = 0 \<and> no_ws t)"

definition is_word :: "str \<Rightarrow> bool" where
  "is_word t \<longleftrightarrow> t \<noteq> [] \<and> no_ws t"

lemma no_ws_iff: "no_ws t \<longleftrightarrow> (\<forall>k<length t. ws_len (drop k t) = 0)"
  by (induction t) (auto simp: less_Suc_eq_0_disj)

lemma no_ws_no_blank: "no_ws t \<Longrightarrow> CHR '' '' \<notin> set t"
  by (induction t) (auto simp: no_ws.simps)

lemma drop_append_le: "n \<le> length xs \<Longrightarrow> drop n (xs @ ys) = drop n xs @ ys"
  by simp

lemma split_ws_acc_blank:
  "split_ws_acc cur (a @ CHR '' '' # b) = split_ws_acc cur a @ split_ws_acc [] b"
proof (induction cur a rule: split_ws_acc.induct)
  case (1 cur)
  then show ?case by simp
next
  case (2 cur c r)
  have eq: "ws_len (c # r @ CHR '' '' # b) = ws_len (c # r)"
    using ws_len_before_blank [of "c # r" b] by simp
  show ?case
  proof (cases "0 < ws_len (c # r)")
    case True
    have "drop (ws_len (c # r)) ((c # r) @ CHR '' '' # b)
        = drop (ws_len (c # r)) (c # r) @ CHR '' '' # b"
      by (rule drop_append_le) (rule ws_len_le)
    with True "2.IH"(1) eq show ?thesis by simp
  next
    case False
    with "2.IH"(2) eq show ?thesis by simp
  qed
qed

lemma split_whitespace_blank:
  "split_whitespace (a @ CHR '' '' # b) = split_whitespace a @ split_whitespace b"
  by (simp add: split_whitespace_def split_ws_acc_blank)

lemma split_ws_acc_word:
  "no_ws t \<Longrightarrow> split_ws_acc cur t = (if cur @ t = [] then [] else [cur @ t])"
  by (induction t arbitrary: cur) (auto simp: no_ws.simps)

lemma split_whitespace_word: "is_word t \<Longrightarrow> split_whitespace t = [t]"
  by (simp add: is_word_def split_whitespace_def split_ws_acc_word)

lemma split_whitespace_Nil [simp]: "split_whitespace [] = []"
  by (simp add: split_whitespace_def)

lemma join_Cons: "xs \<noteq> [] \<Longrightarrow> join sep (x # xs) = x @ sep @ join sep xs"
  by (cases xs) simp_all

text \<open>Round trip: words joined by blanks split into the same words.\<close>

lemma split_whitespace_join:
  "(\<And>t. t \<in> set ts \<Longrightarrow> is_word t) \<Longrightarrow> split_whitespace (join '' '' ts) = ts"
proof (induction ts)
  case (Cons t ts)
  then show ?case
    by (cases "ts = []")
      (simp_all add: split_whitespace_word join_Cons split_whitespace_blank)
qed simp

lemma split_ws_acc_words:
  assumes "\<And>k. k < length cur \<Longrightarrow> ws_len (drop k cur @ s) = 0"
  shows "t \<in> set (split_ws_acc cur s) \<Longrightarrow> is_word t"
  using assms
proof (induction cur s rule: split_ws_acc.induct)
  case (1 cur)
  then show ?case by (auto simp: is_word_def no_ws_iff split: if_splits)
next
  case (2 cur c r)
  show ?case
  proof (cases "0 < ws_len (c # r)")
    case True
    have "cur \<noteq> [] \<Longrightarrow> is_word cur"
      using "2.prems"(2) ws_len_0_prefix by (fastforce simp: is_word_def no_ws_iff)
    with True "2.prems"(1) "2.IH"(1) show ?thesis by (auto split: if_splits)
  next
    case False
    have "ws_len (drop k (cur @ [c]) @ r) = 0" if "k < length (cur @ [c])" for k
    proof (cases "k = length cur")
      case True
      with False show ?thesis by simp
    next
      case False
      with that "2.prems"(2) [of k] show ?thesis by simp
    qed
    with False "2.prems"(1) "2.IH"(2) show ?thesis by simp
  qed
qed

lemma split_whitespace_words: "t \<in> set (split_whitespace s) \<Longrightarrow> is_word t"
  unfolding split_whitespace_def by (rule split_ws_acc_words) auto

lemma split_whitespace_join_split [simp]:
  "split_whitespace (join '' '' (split_whitespace s)) = split_whitespace s"
  by (rule split_whitespace_join) (rule split_whitespace_words)

lemma split_ws_acc_lower:
  "split_ws_acc (to_ascii_lowercase cur) (to_ascii_lowercase s)
   = map to_ascii_lowercase (split_ws_acc cur s)"
proof (induction cur s rule: split_ws_acc.induct)
  case (2 cur c r)
  have len: "ws_len (lower_byte c # to_ascii_lowercase r) = ws_len (c # r)"
    using ws_len_lower [of "c # r"] by simp
  show ?case
  proof (cases "0 < ws_len (c # r)")
    case True
    have "drop (ws_len (c # r)) (lower_byte c # to_ascii_lowercase r)
        = to_ascii_lowercase (drop (ws_len (c # r)) (c # r))"
      using drop_lower [of "ws_len (c # r)" "c # r"] by simp
    with True "2.IH"(1) len show ?thesis by simp
  next
    case False
    with "2.IH"(2) len show ?thesis by simp
  qed
qed simp

lemma split_whitespace_lower:
  "split_whitespace (to_ascii_lowercase s) = map to_ascii_lowercase (split_whitespace s)"
  unfolding split_whitespace_def using split_ws_acc_lower [of "[]" s] by simp

lemma no_ws_lower [simp]: "no_ws (to_ascii_lowercase t) = no_ws t"
  by (simp add: no_ws_iff drop_lower)

lemma is_word_lower [simp]: "is_word (to_ascii_lowercase t) = is_word t"
  by (simp add: is_word_def)

text \<open>A joined word list followed by a blank is a prefix only of longer word lists.\<close>

lemma join_blank_prefix:
  assumes us: "\<And>t. t \<in> set us \<Longrightarrow> is_word t" and vs: "\<And>t. t \<in> set vs \<Longrightarrow> is_word t"
    and p: "prefix (join '' '' us @ '' '') (join '' '' vs)"
  shows "prefix us vs"
proof -
  from p obtain z where z: "join '' '' vs = join '' '' us @ CHR '' '' # z"
    by (auto simp: prefix_def)
  have "vs = split_whitespace (join '' '' us @ CHR '' '' # z)"
    using split_whitespace_join [of vs] vs z by metis
  also have "\<dots> = us @ split_whitespace z"
    using split_whitespace_join [of us] us by (simp add: split_whitespace_blank)
  finally show ?thesis by (metis prefixI)
qed

subsection \<open>Trimming\<close>

lemma split_ws_acc_all_ws:
  "trim_start s = [] \<Longrightarrow> split_ws_acc cur s = (if cur = [] then [] else [cur])"
proof (induction s arbitrary: cur rule: trim_start.induct)
  case (2 c r)
  then show ?case
    by (cases "0 < ws_len (c # r)") auto
qed simp

lemma split_whitespace_trim_start: "split_whitespace (trim_start s) = split_whitespace s"
  unfolding split_whitespace_def
  by (induction s rule: trim_start.induct) auto

lemma trim_end_prefix: "prefix (trim_end s) s"
  by (induction s) auto

lemma trim_start_ws0: "ws_len s = 0 \<Longrightarrow> trim_start s = s"
  by (cases s) auto

text \<open>A byte inside a white-space scalar starts no white-space scalar of its own.\<close>

lemma ws_len_inside:
  assumes w: "w \<in> set ws_encodings" "prefix w s" and k: "0 < k" "k < length w"
  shows "ws_len (drop k s) = 0"
proof -
  from w(2) obtain z where s: "s = w @ z" by (auto simp: prefix_def)
  have hd: "hd (drop k s) \<in> set (tl w)"
    using k by (simp add: s hd_append hd_drop_conv_nth nth_tl [symmetric] less_diff_conv)
      (metis One_nat_def Suc_pred diff_less_mono length_tl nth_mem nth_tl less_Suc_eq_le leI not_less_eq)
  have "\<not> prefix w' (drop k s)" if "w' \<in> set ws_encodings" for w'
  proof
    assume "prefix w' (drop k s)"
    moreover have "w' \<noteq> []" using that ws_encodings_nonempty by blast
    ultimately have "hd w' = hd (drop k s)" by (auto simp: prefix_def)
    with hd that w(1) show False using ws_encodings_heads by blast
  qed
  then show ?thesis by (simp add: ws_len_0_iff)
qed

lemma trim_end_Cons: "trim_start (c # r) \<noteq> [] \<Longrightarrow> trim_end (c # r) = c # trim_end r"
  by simp

lemma trim_end_take:
  assumes "\<And>k. k < n \<Longrightarrow> trim_start (drop k s) \<noteq> []" and "n \<le> length s"
  shows "trim_end s = take n s @ trim_end (drop n s)"
  using assms
proof (induction n arbitrary: s)
  case (Suc n)
  then obtain c r where s: "s = c # r" by (cases s) auto
  have "trim_start (drop k r) \<noteq> []" if "k < n" for k
    using Suc.prems(1) [of "Suc k"] that s by simp
  with Suc.prems(2) s have "trim_end r = take n r @ trim_end (drop n r)"
    by (intro Suc.IH) auto
  moreover have "trim_end (c # r) = c # trim_end r"
    by (rule trim_end_Cons) (use Suc.prems(1) [of 0] s in simp)
  ultimately show ?case unfolding s by (simp del: trim_end.simps)
qed simp

lemma trim_end_ws:
  assumes "0 < ws_len s" and "trim_start s \<noteq> []"
  shows "trim_end s = take (ws_len s) s @ trim_end (drop (ws_len s) s)"
proof (rule trim_end_take)
  fix k assume k: "k < ws_len s"
  obtain w where w: "w \<in> set ws_encodings" "prefix w s" "ws_len s = length w"
    using assms(1) by (rule ws_len_posD)
  show "trim_start (drop k s) \<noteq> []"
  proof (cases "k = 0")
    case False
    then have "ws_len (drop k s) = 0" using w k ws_len_inside by simp
    moreover have "drop k s \<noteq> []" using k ws_len_le [of s] by simp
    ultimately show ?thesis by (simp add: trim_start_ws0)
  qed (simp add: assms(2))
qed (rule ws_len_le)

lemma split_ws_acc_trim_end: "split_ws_acc cur (trim_end s) = split_ws_acc cur s"
proof (induction cur s rule: split_ws_acc.induct)
  case (2 cur c r)
  show ?case
  proof (cases "trim_start (c # r) = []")
    case True
    then show ?thesis by (simp add: split_ws_acc_all_ws del: split_ws_acc.simps(2) trim_start.simps)
  next
    case False
    show ?thesis
    proof (cases "0 < ws_len (c # r)")
      case True
      define n where "n = ws_len (c # r)"
      define y where "y = trim_end (drop n (c # r))"
      have te: "trim_end (c # r) = take n (c # r) @ y"
        unfolding n_def y_def using True False by (rule trim_end_ws)
      obtain w where w: "w \<in> set ws_encodings" "prefix w (c # r)" "n = length w"
        using True n_def by (auto elim: ws_len_posD)
      have "take n (c # r) = w" using w by (auto simp: prefix_def)
      then have len: "ws_len (trim_end (c # r)) = n"
        using ws_len_unique [of w "trim_end (c # r)"] w te by (simp add: prefix_def)
      obtain c' r' where cr: "trim_end (c # r) = c' # r'"
        using len True n_def by (cases "trim_end (c # r)") auto
      have "drop n (c' # r') = y"
        using te cr \<open>take n (c # r) = w\<close> w(3) by (metis append_eq_conv_conj)
      then have "split_ws_acc cur (c' # r') = (if cur = [] then [] else [cur]) @ split_ws_acc [] y"
        using len True cr n_def by simp
      with True "2.IH"(1) cr show ?thesis by (simp add: n_def y_def)
    next
      case F: False
      obtain z where "r = trim_end r @ z"
        using trim_end_prefix [of r] by (auto simp: prefix_def)
      then have "ws_len (c # trim_end r) = 0"
        using F ws_len_0_prefix [of "c # trim_end r" z] by simp
      with F False "2.IH"(2) show ?thesis by simp
    qed
  qed
qed simp

lemma split_whitespace_trim [simp]: "split_whitespace (trim s) = split_whitespace s"
  unfolding trim_def using split_ws_acc_trim_end [of "[]" "trim_start s"] split_whitespace_trim_start
  by (simp add: split_whitespace_def)

subsection \<open>Text without white space\<close>

lemma no_ws_drop: "no_ws t \<Longrightarrow> no_ws (drop k t)"
  by (auto simp: no_ws_iff)

lemma no_ws_suffix: "suffix s t \<Longrightarrow> no_ws t \<Longrightarrow> no_ws s"
  by (metis no_ws_drop suffix_def append_eq_conv_conj)

lemma no_ws_prefix: "prefix s t \<Longrightarrow> no_ws t \<Longrightarrow> no_ws s"
  by (auto simp: no_ws_iff prefix_def) (metis drop_append_le less_imp_le ws_len_0_prefix trans_less_add1)

lemma trim_no_ws: "no_ws t \<Longrightarrow> trim t = t"
proof -
  have "trim_end t = t" if "no_ws t" for t
    using that by (induction t) (auto simp: no_ws.simps)
  then show "no_ws t \<Longrightarrow> trim t = t"
    by (cases t) (simp_all add: trim_def no_ws.simps)
qed

lemma digits_no_ws:
  assumes "set s \<subseteq> set (CHR ''.'' # digit_chars)"
  shows "no_ws s"
proof -
  have heads: "\<forall>w\<in>set ws_encodings. hd w \<notin> set (CHR ''.'' # digit_chars)" by code_simp
  show ?thesis
    using assms
  proof (induction s)
    case (Cons c s)
    then have "ws_len (c # s) = 0"
      using heads ws_encodings_nonempty by (fastforce simp: ws_len_0_iff prefix_Cons)
    with Cons show ?case by simp
  qed simp
qed

lemma show_nat_no_ws: "no_ws (show_nat n)"
  using show_nat_digits [of n] by (intro digits_no_ws) auto

lemma trim_show_nat [simp]: "trim (show_nat n) = show_nat n"
  by (rule trim_no_ws) (rule show_nat_no_ws)

lemma split_on_not_Nil [simp]: "split_on P s \<noteq> []"
  by (induction s) (auto split: list.splits)

lemma split_on_join: "P c \<Longrightarrow> split_on P (a @ c # b) = split_on P a @ split_on P b"
proof (induction a)
  case (Cons x a)
  then show ?case by (cases "split_on P a") auto
qed simp

subsection \<open>Trimming a set of characters, components of a split\<close>

lemma dropWhile_hd: "dropWhile P xs = [] \<or> \<not> P (hd (dropWhile P xs))"
  by (metis hd_dropWhile)

lemma dropWhile_end:
  fixes P :: "'a \<Rightarrow> bool"
  defines "t xs \<equiv> rev (dropWhile P (rev xs))"
  shows "t xs = [] \<or> hd (t xs) = hd xs \<and> \<not> P (last (t xs))"
proof (cases "t xs = []")
  case False
  have "rev xs = takeWhile P (rev xs) @ dropWhile P (rev xs)" by simp
  then have "xs = t xs @ rev (takeWhile P (rev xs))" unfolding t_def by (metis rev_append rev_rev_ident)
  with False have "hd xs = hd (t xs)" by (metis hd_append2)
  moreover have "\<not> P (last (t xs))" using False dropWhile_hd [of P "rev xs"] by (auto simp: t_def last_rev)
  ultimately show ?thesis by simp
qed simp

lemma trim_chars_ends:
  "trim_chars cs s = [] \<or> (hd (trim_chars cs s) \<notin> set cs \<and> last (trim_chars cs s) \<notin> set cs)"
proof -
  let ?d = "\<lambda>c. c \<in> set cs"
  have t: "trim_chars cs s = rev (dropWhile ?d (rev (dropWhile ?d s)))"
    by (simp only: trim_chars_def trim_end_chars_def trim_start_chars_def)
  from dropWhile_hd [of ?d s] show ?thesis
  proof
    assume "dropWhile ?d s = []"
    then have "trim_chars cs s = []" unfolding t by (simp only: rev.simps dropWhile.simps)
    then show ?thesis ..
  next
    assume "hd (dropWhile ?d s) \<notin> set cs"
    then show ?thesis unfolding t using dropWhile_end [of ?d "dropWhile ?d s"] by metis
  qed
qed

lemma trim_chars_iff:
  assumes k: "k \<noteq> []" "hd k \<notin> set cs" "last k \<notin> set cs"
  shows "trim_chars cs s = k \<longleftrightarrow> (\<exists>a b. set a \<subseteq> set cs \<and> set b \<subseteq> set cs \<and> s = a @ k @ b)"
proof
  assume t: "trim_chars cs s = k"
  let ?d = "\<lambda>c. c \<in> set cs"
  let ?r = "dropWhile ?d s"
  have "s = takeWhile ?d s @ ?r" by simp
  moreover have "?r = rev (dropWhile ?d (rev ?r)) @ rev (takeWhile ?d (rev ?r))"
    by (metis rev_append rev_rev_ident takeWhile_dropWhile_id)
  moreover have "rev (dropWhile ?d (rev ?r)) = k"
    using t by (simp add: trim_chars_def trim_end_chars_def trim_start_chars_def)
  moreover have "set (takeWhile ?d xs) \<subseteq> set cs" "set (rev (takeWhile ?d xs)) \<subseteq> set cs" for xs
    by (auto dest: set_takeWhileD)
  ultimately show "\<exists>a b. set a \<subseteq> set cs \<and> set b \<subseteq> set cs \<and> s = a @ k @ b" by metis
next
  assume "\<exists>a b. set a \<subseteq> set cs \<and> set b \<subseteq> set cs \<and> s = a @ k @ b"
  then obtain a b where ab: "set a \<subseteq> set cs" "set b \<subseteq> set cs" and s: "s = a @ k @ b" by blast
  let ?d = "\<lambda>c. c \<in> set cs"
  have all: "\<And>c. c \<in> set a \<Longrightarrow> ?d c" "\<And>c. c \<in> set (rev b) \<Longrightarrow> ?d c" using ab by auto
  have "dropWhile ?d s = k @ b"
    using k all(1) unfolding s by (cases k) (auto simp: dropWhile_append2)
  moreover have "dropWhile ?d (rev b @ rev k) = dropWhile ?d (rev k)"
    by (rule dropWhile_append2) (rule all(2))
  moreover have "dropWhile ?d (rev k) = rev k"
    using k by (cases k rule: rev_cases) auto
  ultimately show "trim_chars cs s = k"
    by (simp add: trim_chars_def trim_end_chars_def trim_start_chars_def)
qed

lemma split_on_absent: "(\<And>c. c \<in> set s \<Longrightarrow> \<not> P c) \<Longrightarrow> split_on P s = [s]"
  by (induction s) auto

text \<open>The components of a split are the stretches without the separator that end at one, or at an
  end of the text, on either side.\<close>

lemma in_split_char:
  "x \<in> set (split_char c s) \<longleftrightarrow>
     c \<notin> set x \<and> (\<exists>a b. s = a @ x @ b \<and> (a = [] \<or> last a = c) \<and> (b = [] \<or> hd b = c))"
proof
  assume "x \<in> set (split_char c s)"
  then show "c \<notin> set x \<and> (\<exists>a b. s = a @ x @ b \<and> (a = [] \<or> last a = c) \<and> (b = [] \<or> hd b = c))"
  proof (induction s rule: length_induct)
    case (1 s)
    show ?case
    proof (cases "c \<in> set s")
      case False
      then have "split_char c s = [s]" by (intro split_on_absent) auto
      with 1(2) False have "c \<notin> set x" "s = [] @ x @ []" by simp_all
      then show ?thesis by blast
    next
      case True
      then obtain u v where s: "s = u @ c # v" and u: "c \<notin> set u" by (meson split_list_first)
      have "split_char c u = [u]" by (rule split_on_absent) (use u in auto)
      then have sp: "split_char c s = u # split_char c v" by (simp add: s split_on_join)
      show ?thesis
      proof (cases "x = u")
        case True
        with u have "c \<notin> set x" "s = [] @ x @ (c # v)" by (simp_all add: s)
        then show ?thesis by (metis list.sel(1))
      next
        case False
        with 1(2) sp have "x \<in> set (split_char c v)" by simp
        moreover have "length v < length s" by (simp add: s)
        ultimately obtain a b where "c \<notin> set x" and v: "v = a @ x @ b" "a = [] \<or> last a = c" "b = [] \<or> hd b = c"
          using 1(1) by blast
        moreover have "s = (u @ c # a) @ x @ b" "last (u @ c # a) = c" using v by (auto simp: s)
        ultimately show ?thesis by blast
      qed
    qed
  qed
next
  assume "c \<notin> set x \<and> (\<exists>a b. s = a @ x @ b \<and> (a = [] \<or> last a = c) \<and> (b = [] \<or> hd b = c))"
  then obtain a b where x: "c \<notin> set x" and s: "s = a @ x @ b" and a: "a = [] \<or> last a = c" and b: "b = [] \<or> hd b = c"
    by blast
  have "split_char c x = [x]" by (rule split_on_absent) (use x in auto)
  then have "x \<in> set (split_char c (x @ b))" using b split_on_join [of "\<lambda>d. d = c" c x] by (cases b) auto
  then show "x \<in> set (split_char c s)"
    using a split_on_join [of "\<lambda>d. d = c" c] by (cases a rule: rev_cases) (auto simp: s)
qed

end
