(* ===== verification/Allow_Interface.thy ===== *)
theory Allow_Interface
  imports Text_Lemmas
begin

section \<open>The interface between allow-rule matchers and the policies that use them\<close>

text \<open>
  Two matchers decide whether an allow rule covers a command: \<open>BashArityDict\<close> of the
  execpolicy crate and the arity-aware prefix match of \<open>command_safety\<close>. Both promise
  that a rule covers only commands that begin with its words (\<open>covers\<close>); the first
  promises moreover that no rule covers a command that executes a payload. A policy searches
  a list of rules for the first that matches, and relies on nothing else.
\<close>

definition is_flag :: "str \<Rightarrow> bool" where
  "is_flag t \<longleftrightarrow> starts_with t ''-''"

definition positional_words :: "str list \<Rightarrow> str list" where
  "positional_words tokens = map to_ascii_lowercase (filter (\<lambda>t. \<not> is_flag t) tokens)"

text \<open>The words of the rule start the command's positional words, or the command itself.\<close>

definition covers :: "str \<Rightarrow> str \<Rightarrow> bool" where
  "covers rule command \<longleftrightarrow>
     prefix (map to_ascii_lowercase (split_whitespace rule)) (positional_words (split_whitespace command))
     \<or> prefix (map to_ascii_lowercase (split_whitespace rule))
              (map to_ascii_lowercase (split_whitespace command))"

locale prefix_matcher =
  fixes allows :: "str \<Rightarrow> str \<Rightarrow> bool"
  assumes allows_covers: "allows rule command \<Longrightarrow> covers rule command"
begin

lemma first_rule_covers:
  "find (\<lambda>rule. allows rule command) rules = Some rule \<Longrightarrow> rule \<in> set rules \<and> covers rule command"
  by (auto dest: find_SomeD allows_covers)

lemma uncovered_not_found:
  "(\<And>rule. rule \<in> set rules \<Longrightarrow> \<not> covers rule command)
   \<Longrightarrow> find (\<lambda>rule. allows rule command) rules = None"
  by (auto simp: find_None_iff dest: allows_covers)

end

locale hardened_matcher = prefix_matcher +
  fixes executes_payload :: "str \<Rightarrow> bool"
  assumes payload_not_allowed: "executes_payload command \<Longrightarrow> \<not> allows rule command"
begin

lemma payload_not_found:
  "executes_payload command \<Longrightarrow> find (\<lambda>rule. allows rule command) rules = None"
  by (simp add: find_None_iff payload_not_allowed)

lemma found_no_payload:
  "find (\<lambda>rule. allows rule command) rules = Some rule \<Longrightarrow> \<not> executes_payload command"
  using payload_not_found by fastforce

end

subsection \<open>Facts both matchers need\<close>

lemma positional_words_words:
  "(\<And>t. t \<in> set ts \<Longrightarrow> is_word t) \<Longrightarrow> t \<in> set (positional_words ts) \<Longrightarrow> is_word t"
  by (auto simp: positional_words_def)

lemma covers_positional:
  assumes "to_ascii_lowercase (trim rule) = join '' '' (take k (positional_words (split_whitespace command)))"
  shows "covers rule command"
proof -
  let ?ps = "positional_words (split_whitespace command)"
  have "map to_ascii_lowercase (split_whitespace rule) = split_whitespace (to_ascii_lowercase (trim rule))"
    by (simp add: split_whitespace_lower)
  also have "\<dots> = take k ?ps"
    unfolding assms
    by (rule split_whitespace_join) (metis in_set_takeD positional_words_words split_whitespace_words)
  finally show ?thesis by (simp add: covers_def take_is_prefix)
qed

lemma covers_normalized:
  assumes "join '' '' (map to_ascii_lowercase (split_whitespace command))
             = join '' '' (map to_ascii_lowercase (split_whitespace rule))
           \<or> prefix (join '' '' (map to_ascii_lowercase (split_whitespace rule)) @ '' '')
               (join '' '' (map to_ascii_lowercase (split_whitespace command)))"
  shows "covers rule command"
proof -
  let ?rs = "map to_ascii_lowercase (split_whitespace rule)"
  let ?cs = "map to_ascii_lowercase (split_whitespace command)"
  have words: "t \<in> to_ascii_lowercase ` set (split_whitespace s) \<Longrightarrow> is_word t" for s t
    by (auto dest: split_whitespace_words)
  from assms have "prefix ?rs ?cs"
  proof
    assume "join '' '' ?cs = join '' '' ?rs"
    then have "?cs = ?rs" using split_whitespace_join words by (metis set_map)
    then show ?thesis by simp
  next
    assume "prefix (join '' '' ?rs @ '' '') (join '' '' ?cs)"
    then show ?thesis by (rule join_blank_prefix [rotated 2]) (auto intro: words)
  qed
  then show ?thesis by (simp add: covers_def)
qed

lemma trim_word: "is_word t \<Longrightarrow> trim t = t"
proof -
  have "trim_end t = t" if "no_ws t" for t
    using that by (induction t) (auto simp: no_ws.simps)
  then show "is_word t \<Longrightarrow> trim t = t"
    by (cases t) (simp_all add: is_word_def trim_def no_ws.simps)
qed

end
