(* ===== verification/BashArity.thy ===== *)
theory BashArity
  imports Allow_Interface
begin

section \<open>The bash arity dictionary\<close>

text \<open>
  \<^verbatim>\<open>crates/execpolicy/src/bash_arity.rs\<close>: the dictionary of command prefixes, the classification
  of a command by its positional words, and the arity-aware match of an allow rule against a
  command. The table is split along the source's own section comments. An arity is a \<open>u8\<close>
  in the source; it is only ever read through \<open>as usize\<close> and is a \<open>nat\<close> here.
\<close>

subsection \<open>The static table\<close>

definition arity_git :: "(str \<times> nat) list" where
  "arity_git =
    [(''git add'', 2), (''git am'', 2), (''git apply'', 2), (''git bisect'', 2),
     (''git blame'', 2), (''git branch'', 2), (''git cat-file'', 2), (''git checkout'', 2),
     (''git cherry-pick'', 2), (''git clean'', 2), (''git clone'', 2), (''git commit'', 2),
     (''git config'', 2), (''git describe'', 2), (''git diff'', 2), (''git fetch'', 2),
     (''git format-patch'', 2), (''git grep'', 2), (''git init'', 2), (''git log'', 2),
     (''git ls-files'', 2), (''git merge'', 2), (''git mv'', 2), (''git notes'', 2),
     (''git pull'', 2), (''git push'', 2), (''git rebase'', 2), (''git reflog'', 2),
     (''git remote'', 2), (''git reset'', 2), (''git restore'', 2), (''git revert'', 2),
     (''git rm'', 2), (''git show'', 2), (''git stash'', 2), (''git status'', 2),
     (''git submodule'', 2), (''git switch'', 2), (''git tag'', 2), (''git worktree'', 2)]"

definition arity_npm :: "(str \<times> nat) list" where
  "arity_npm =
    [(''npm audit'', 2), (''npm build'', 2), (''npm cache'', 2), (''npm ci'', 2),
     (''npm dedupe'', 2), (''npm fund'', 2), (''npm help'', 2), (''npm info'', 2),
     (''npm init'', 2), (''npm install'', 2), (''npm link'', 2), (''npm list'', 2),
     (''npm ls'', 2), (''npm outdated'', 2), (''npm pack'', 2), (''npm prune'', 2),
     (''npm publish'', 2), (''npm rebuild'', 2), (''npm run'', 3), (''npm start'', 2),
     (''npm stop'', 2), (''npm test'', 2), (''npm uninstall'', 2), (''npm update'', 2),
     (''npm version'', 2), (''npm view'', 2)]"

definition arity_yarn :: "(str \<times> nat) list" where
  "arity_yarn =
    [(''yarn add'', 2), (''yarn audit'', 2), (''yarn build'', 2), (''yarn install'', 2),
     (''yarn run'', 3), (''yarn start'', 2), (''yarn test'', 2), (''yarn upgrade'', 2),
     (''yarn workspace'', 3)]"

definition arity_pnpm :: "(str \<times> nat) list" where
  "arity_pnpm =
    [(''pnpm add'', 2), (''pnpm build'', 2), (''pnpm install'', 2), (''pnpm run'', 3),
     (''pnpm start'', 2), (''pnpm test'', 2), (''pnpm update'', 2)]"

definition arity_cargo :: "(str \<times> nat) list" where
  "arity_cargo =
    [(''cargo add'', 2), (''cargo bench'', 2), (''cargo build'', 2), (''cargo check'', 2),
     (''cargo clean'', 2), (''cargo clippy'', 2), (''cargo doc'', 2), (''cargo fix'', 2),
     (''cargo fmt'', 2), (''cargo generate'', 2), (''cargo install'', 2),
     (''cargo metadata'', 2), (''cargo package'', 2), (''cargo publish'', 2),
     (''cargo remove'', 2), (''cargo search'', 2), (''cargo test'', 2), (''cargo tree'', 2),
     (''cargo uninstall'', 2), (''cargo update'', 2), (''cargo yank'', 2)]"

definition arity_docker :: "(str \<times> nat) list" where
  "arity_docker =
    [(''docker build'', 2), (''docker compose'', 3), (''docker container'', 3),
     (''docker cp'', 2), (''docker image'', 3), (''docker images'', 2),
     (''docker inspect'', 2), (''docker kill'', 2), (''docker logs'', 2),
     (''docker network'', 3), (''docker ps'', 2), (''docker pull'', 2),
     (''docker push'', 2), (''docker rm'', 2), (''docker rmi'', 2), (''docker run'', 2),
     (''docker start'', 2), (''docker stop'', 2), (''docker system'', 3),
     (''docker tag'', 2), (''docker volume'', 3)]"

definition arity_kubectl :: "(str \<times> nat) list" where
  "arity_kubectl =
    [(''kubectl apply'', 2), (''kubectl create'', 3), (''kubectl delete'', 3),
     (''kubectl describe'', 3), (''kubectl explain'', 2), (''kubectl get'', 3),
     (''kubectl label'', 2), (''kubectl logs'', 2), (''kubectl patch'', 2),
     (''kubectl port-forward'', 2), (''kubectl rollout'', 3), (''kubectl scale'', 2),
     (''kubectl set'', 2), (''kubectl top'', 3)]"

definition arity_go :: "(str \<times> nat) list" where
  "arity_go =
    [(''go build'', 2), (''go clean'', 2), (''go env'', 2), (''go fmt'', 2),
     (''go generate'', 2), (''go get'', 2), (''go install'', 2), (''go list'', 2),
     (''go mod'', 3), (''go test'', 2), (''go vet'', 2), (''go work'', 3)]"

definition arity_python :: "(str \<times> nat) list" where
  "arity_python =
    [(''pip install'', 2), (''pip uninstall'', 2), (''pip list'', 2), (''pip show'', 2),
     (''pip freeze'', 2), (''pip3 install'', 2), (''pip3 uninstall'', 2),
     (''pip3 list'', 2), (''pip3 show'', 2)]"

definition arity_make :: "(str \<times> nat) list" where
  "arity_make =
    [(''make'', 1), (''cmake'', 1)]"

definition arity_gh :: "(str \<times> nat) list" where
  "arity_gh =
    [(''gh pr'', 3), (''gh issue'', 3), (''gh repo'', 3), (''gh release'', 3),
     (''gh workflow'', 3), (''gh run'', 3), (''gh secret'', 3)]"

definition arity_rustup :: "(str \<times> nat) list" where
  "arity_rustup =
    [(''rustup default'', 2), (''rustup install'', 2), (''rustup show'', 2),
     (''rustup target'', 3), (''rustup toolchain'', 3), (''rustup update'', 2)]"

definition arity_deno_bun :: "(str \<times> nat) list" where
  "arity_deno_bun =
    [(''deno test'', 2), (''deno fmt'', 2), (''deno lint'', 2), (''bun add'', 2),
     (''bun build'', 2), (''bun install'', 2), (''bun test'', 2)]"

definition arity_aws :: "(str \<times> nat) list" where
  "arity_aws =
    [(''aws s3'', 3), (''aws ec2'', 3), (''aws iam'', 3), (''aws lambda'', 3),
     (''aws cloudformation'', 3), (''aws ecs'', 3), (''aws eks'', 3), (''aws rds'', 3),
     (''aws sts'', 3), (''aws configure'', 2)]"

definition arity_terraform :: "(str \<times> nat) list" where
  "arity_terraform =
    [(''terraform init'', 2), (''terraform plan'', 2), (''terraform apply'', 2),
     (''terraform destroy'', 2), (''terraform validate'', 2), (''terraform output'', 2),
     (''terraform state'', 3), (''terraform workspace'', 3)]"

definition arity_helm :: "(str \<times> nat) list" where
  "arity_helm =
    [(''helm install'', 2), (''helm upgrade'', 2), (''helm uninstall'', 2),
     (''helm list'', 2), (''helm repo'', 3), (''helm status'', 2), (''helm template'', 2)]"

definition BASH_ARITY_TABLE :: "(str \<times> nat) list" where
  "BASH_ARITY_TABLE =
     arity_git @ arity_npm @ arity_yarn @ arity_pnpm @ arity_cargo @ arity_docker @ arity_kubectl
     @ arity_go @ arity_python @ arity_make @ arity_gh @ arity_rustup @ arity_deno_bun
     @ arity_aws @ arity_terraform @ arity_helm"

record bash_arity_dict =
  entries :: "(str \<times> nat) list"

text \<open>\<open>new\<close>: \<open>sort_by_key(Reverse(len))\<close> is stable, as \<open>sort_key\<close> is.\<close>

definition dict_new :: bash_arity_dict where
  "dict_new = \<lparr>entries = sort_key (\<lambda>e. - int (length (fst e))) BASH_ARITY_TABLE\<rparr>"

subsection \<open>Classification\<close>

text \<open>The loop \<open>for depth in (1..=max_depth).rev()\<close>; depth 0 is the code after the loop.\<close>

fun classify_depth :: "bash_arity_dict \<Rightarrow> str list \<Rightarrow> nat \<Rightarrow> str" where
  "classify_depth d positional 0 = hd positional"
| "classify_depth d positional (Suc n) =
     (let candidate = join '' '' (take (Suc n) positional)
      in case find (\<lambda>e. fst e = candidate) (entries d) of
           Some (key, arity) \<Rightarrow> join '' '' (take (min arity (length positional)) positional)
         | None \<Rightarrow> classify_depth d positional n)"

definition classify :: "bash_arity_dict \<Rightarrow> str list \<Rightarrow> str" where
  "classify d tokens =
     (if tokens = [] then []
      else let positional = positional_words tokens
           in if positional = [] then []
              else classify_depth d positional (min (length positional) 3))"

subsection \<open>Commands an allow rule never covers\<close>

definition exec_capable_git_keys :: "str list" where
  "exec_capable_git_keys =
     [''core.sshcommand='', ''core.editor='', ''core.pager='', ''credential.helper='',
      ''diff.external='', ''core.fsmonitor='']"

definition is_exec_capable_git_key :: "str \<Rightarrow> bool" where
  "is_exec_capable_git_key token = list_ex (\<lambda>key. contains_str token key) exec_capable_git_keys"

definition git_config_exec_keys :: "str list" where
  "git_config_exec_keys =
     [''core.sshcommand'', ''core.editor'', ''core.pager'', ''credential.helper'',
      ''diff.external'', ''core.fsmonitor'']"

definition git_config_carries_exec_key :: "str list \<Rightarrow> bool" where
  "git_config_carries_exec_key tokens =
     (if length tokens < 3 then False
      else if to_ascii_lowercase (hd tokens) \<noteq> ''git'' then False
      else case position (\<lambda>t. eq_ignore_ascii_case t ''config'') (drop 1 tokens) of
             None \<Rightarrow> False
           | Some cfg \<Rightarrow>
               list_ex (\<lambda>token.
                   let lower = to_ascii_lowercase token;
                       key = trim_chars ''-'' (before_char (CHR ''='') lower)
                   in key \<in> set git_config_exec_keys \<or> is_exec_capable_git_key lower)
                 (drop (cfg + 2) tokens))"

definition has_executing_transport :: "str list \<Rightarrow> bool" where
  "has_executing_transport tokens =
     list_ex (\<lambda>t. starts_with t ''ext::'' \<or> starts_with t ''transport::'') tokens"

text \<open>
  The closure \<open>contains_exec_capable_flag\<close> runs on every token with its successor
  (\<open>tokens.get(idx + 1)\<close>).
\<close>

definition exec_capable_token :: "str \<Rightarrow> str option \<Rightarrow> bool" where
  "exec_capable_token token next_token =
     (let lower = to_ascii_lowercase token;
          flag_name = before_char (CHR ''='') lower
      in if flag_name = ''--receive-pack'' \<or> flag_name = ''--upload-pack''
            \<or> flag_name = ''--exec'' \<or> starts_with flag_name ''--exec-''
            \<or> starts_with flag_name ''-exec'' then True
         else if starts_with lower ''-o'' \<and> starts_with (drop 2 lower) ''proxy'' then True
         else if lower = ''-o'' \<and>
                 (case next_token of None \<Rightarrow> False
                  | Some n \<Rightarrow> starts_with (to_ascii_lowercase n) ''proxy'') then True
         else is_exec_capable_git_key lower)"

fun any_exec_capable_token :: "str list \<Rightarrow> bool" where
  "any_exec_capable_token [] = False"
| "any_exec_capable_token (t # ts) =
     (exec_capable_token t (case ts of [] \<Rightarrow> None | n # _ \<Rightarrow> Some n) \<or> any_exec_capable_token ts)"

definition contains_exec_capable_flag :: "str list \<Rightarrow> bool" where
  "contains_exec_capable_flag tokens \<longleftrightarrow>
     any_exec_capable_token tokens \<or> git_config_carries_exec_key tokens
     \<or> has_executing_transport tokens"

definition is_exec_by_positioning :: "str list \<Rightarrow> bool" where
  "is_exec_by_positioning tokens =
     (let base = to_ascii_lowercase (case tokens of [] \<Rightarrow> [] | t # _ \<Rightarrow> t)
      in if 2 \<le> length tokens
            \<and> base \<in> set [''kubectl'', ''docker'', ''podman'', ''nerdctl'']
            \<and> (eq_ignore_ascii_case (tokens ! 1) ''exec'' \<or> eq_ignore_ascii_case (tokens ! 1) ''run'')
         then True
         else if 2 \<le> length tokens
            \<and> base \<in> set [''go'', ''cargo'', ''bun'', ''deno'', ''python'', ''python3'']
            \<and> (let sub = to_ascii_lowercase (tokens ! 1)
               in if base = ''python'' \<or> base = ''python3'' then sub = ''-m'' \<or> sub = ''-c''
                  else sub = ''run'')
         then True
         else base \<in> set [''ssh'', ''xargs'', ''sudo'', ''npx''])"

subsection \<open>The allow-rule match\<close>

definition positional_count :: "str list \<Rightarrow> nat" where
  "positional_count tokens = length (filter (\<lambda>t. \<not> is_flag t) tokens)"

definition governs_subcommands :: "bash_arity_dict \<Rightarrow> str \<Rightarrow> bool" where
  "governs_subcommands d base = list_ex (\<lambda>e. starts_with (fst e) (base @ '' '')) (entries d)"

text \<open>The fallback after the primary check: a plain prefix test bounded by the table.\<close>

definition allow_rule_fallback :: "bash_arity_dict \<Rightarrow> str \<Rightarrow> str \<Rightarrow> str list \<Rightarrow> bool" where
  "allow_rule_fallback d pattern_lower command command_tokens =
     (let command_lower = to_ascii_lowercase (trim command);
          pattern_norm = join '' '' (split_whitespace pattern_lower);
          command_norm = join '' '' (split_whitespace command_lower);
          base_word = before_char (CHR '' '') pattern_norm
      in if pattern_norm = base_word \<and> governs_subcommands d base_word then False
         else case find (\<lambda>e. fst e = pattern_norm) (entries d) of
                Some (key, arity) \<Rightarrow>
                  positional_count command_tokens \<le> arity
                  \<and> starts_with command_norm (pattern_norm @ '' '')
              | None \<Rightarrow>
                  if governs_subcommands d pattern_norm then False
                  else command_norm = pattern_norm \<or> starts_with command_norm (pattern_norm @ '' ''))"

definition allow_rule_matches :: "bash_arity_dict \<Rightarrow> str \<Rightarrow> str \<Rightarrow> bool" where
  "allow_rule_matches d pattern command =
     (let pattern_lower = to_ascii_lowercase (trim pattern);
          command_tokens = split_whitespace command
      in if contains_exec_capable_flag command_tokens \<or> is_exec_by_positioning command_tokens
         then False
         else if classify d command_tokens = pattern_lower
         then (if CHR '' '' \<notin> set pattern_lower \<and> governs_subcommands d pattern_lower
               then positional_count command_tokens = 1
               else True)
         else allow_rule_fallback d pattern_lower command command_tokens)"

subsection \<open>The order of the dictionary does not matter for lookups\<close>

text \<open>
  \<open>dict_new\<close> sorts the table; the sort is stable, so every lookup gives what the table
  in source order gives. \<open>dict_table\<close> is that table, for evaluation.
\<close>

definition dict_table :: bash_arity_dict where
  "dict_table = \<lparr>entries = BASH_ARITY_TABLE\<rparr>"

lemma set_entries_new: "set (entries dict_new) = set (entries dict_table)"
  by (simp add: dict_new_def dict_table_def)

text \<open>Entries with equal keys have equal length, so the stable sort keeps their order.\<close>

lemma find_sort_key_len:
  "find (\<lambda>e. fst e = k) (sort_key (\<lambda>e. - int (length (fst e))) (es :: (str \<times> nat) list)) = find (\<lambda>e. fst e = k) es"
proof -
  let ?len = "\<lambda>e::str \<times> nat. - int (length (fst e))"
  let ?same = "\<lambda>es. filter (\<lambda>e. ?len e = - int (length k)) es"
  have restrict: "filter (\<lambda>e. fst e = k) fs = filter (\<lambda>e. fst e = k) (?same fs)" for fs :: "(str \<times> nat) list"
    by (induction fs) auto
  have "filter (\<lambda>e. fst e = k) (sort_key ?len es) = filter (\<lambda>e. fst e = k) (?same (sort_key ?len es))"
    by (rule restrict)
  also have "?same (sort_key ?len es) = ?same es"
    by (rule sort_key_stable)
  also have "filter (\<lambda>e. fst e = k) (?same es) = filter (\<lambda>e. fst e = k) es"
    by (rule restrict [symmetric])
  finally show ?thesis by (simp only: find_filter)
qed

lemma find_entries_new:
  "find (\<lambda>e. fst e = k) (entries dict_new) = find (\<lambda>e. fst e = k) (entries dict_table)"
  by (simp only: dict_new_def dict_table_def bash_arity_dict.select_convs find_sort_key_len)

lemma classify_new: "classify dict_new tokens = classify dict_table tokens"
proof -
  have "classify_depth dict_new ps n = classify_depth dict_table ps n" for ps n
    by (induction n) (auto simp: find_entries_new Let_def split: option.splits)
  then show ?thesis by (simp add: classify_def Let_def)
qed

lemma governs_subcommands_new: "governs_subcommands dict_new b = governs_subcommands dict_table b"
  by (simp add: governs_subcommands_def list_ex_iff set_entries_new)

lemma allow_rule_matches_new: "allow_rule_matches dict_new p c = allow_rule_matches dict_table p c"
  by (simp add: allow_rule_matches_def allow_rule_fallback_def classify_new
      governs_subcommands_new find_entries_new)

subsection \<open>What a classification and a match say of the command\<close>

lemma classify_depth_take:
  "ps \<noteq> [] \<Longrightarrow> \<exists>k. classify_depth d ps n = join '' '' (take k ps)"
proof (induction n)
  case 0
  then have "classify_depth d ps 0 = join '' '' (take 1 ps)" by (cases ps) simp_all
  then show ?case ..
next
  case (Suc n)
  then show ?case by (auto simp: Let_def split: option.split)
qed

lemma classify_take: "\<exists>k. classify d tokens = join '' '' (take k (positional_words tokens))"
proof (cases "tokens = [] \<or> positional_words tokens = []")
  case True
  then show ?thesis by (auto simp: classify_def positional_words_def Let_def)
next
  case False
  then show ?thesis using classify_depth_take by (simp add: classify_def Let_def)
qed

lemma fallback_covers:
  assumes "allow_rule_fallback d (to_ascii_lowercase (trim pattern)) command (split_whitespace command)"
  shows "covers pattern command"
proof (rule covers_normalized)
  have "split_whitespace (to_ascii_lowercase (trim s)) = map to_ascii_lowercase (split_whitespace s)" for s
    by (simp add: split_whitespace_lower)
  then show "join '' '' (map to_ascii_lowercase (split_whitespace command))
             = join '' '' (map to_ascii_lowercase (split_whitespace pattern))
           \<or> prefix (join '' '' (map to_ascii_lowercase (split_whitespace pattern)) @ '' '')
               (join '' '' (map to_ascii_lowercase (split_whitespace command)))"
    using assms by (auto simp: allow_rule_fallback_def Let_def split: if_splits option.splits)
qed

lemma matches_covers: "allow_rule_matches d pattern command \<Longrightarrow> covers pattern command"
proof -
  assume m: "allow_rule_matches d pattern command"
  obtain k where k: "classify d (split_whitespace command)
      = join '' '' (take k (positional_words (split_whitespace command)))"
    using classify_take by blast
  show "covers pattern command"
  proof (cases "classify d (split_whitespace command) = to_ascii_lowercase (trim pattern)")
    case True
    with k show ?thesis by (intro covers_positional) simp
  next
    case False
    with m show ?thesis
      by (intro fallback_covers) (auto simp: allow_rule_matches_def Let_def split: if_splits)
  qed
qed

definition executes_payload :: "str \<Rightarrow> bool" where
  "executes_payload command \<longleftrightarrow>
     contains_exec_capable_flag (split_whitespace command)
     \<or> is_exec_by_positioning (split_whitespace command)"

interpretation arity: hardened_matcher "allow_rule_matches d" executes_payload for d
  by unfold_locales (auto simp: matches_covers allow_rule_matches_def executes_payload_def Let_def)

subsection \<open>Bare commands and the arity window\<close>

lemma before_char_absent: "d \<notin> set s \<Longrightarrow> before_char d s = s"
  by (auto simp: before_char_def takeWhile_eq_all_conv)

lemma blank_not_in_word: "is_word t \<Longrightarrow> CHR '' '' \<notin> set t"
  by (simp add: is_word_def no_ws_no_blank)

lemma positional_count_length: "positional_count ts = length (positional_words ts)"
  by (simp add: positional_count_def positional_words_def)

lemma positional_words_split: "t \<in> set (positional_words (split_whitespace c)) \<Longrightarrow> is_word t"
  by (metis positional_words_words split_whitespace_words)

text \<open>No entry has more than two words, and an entry of one word has arity one.\<close>

lemma table_shape:
  "list_all (\<lambda>e. count_list (fst e) (CHR '' '') \<le> 1
     \<and> (count_list (fst e) (CHR '' '') = 0 \<longrightarrow> snd e = 1)) BASH_ARITY_TABLE"
  by code_simp

lemma count_blank_word: "is_word t \<Longrightarrow> count_list t (CHR '' '') = 0"
  by (simp add: blank_not_in_word count_list_0_iff)

lemma count_blank_join:
  "(\<And>t. t \<in> set ts \<Longrightarrow> is_word t) \<Longrightarrow> count_list (join '' '' ts) (CHR '' '') = length ts - 1"
proof (induction ts)
  case (Cons t ts)
  then show ?case
    by (cases "ts = []") (auto simp: join_Cons count_blank_word Suc_diff_le length_greater_0_conv [symmetric]
        simp del: length_greater_0_conv)
qed simp

lemma find_key_table:
  assumes "find (\<lambda>e. fst e = k) (entries dict_table) = Some (k', a)"
  shows "k' = k \<and> map_of BASH_ARITY_TABLE k = Some a
     \<and> count_list k (CHR '' '') \<le> 1 \<and> (count_list k (CHR '' '') = 0 \<longrightarrow> a = 1)"
proof -
  from assms have m: "k' = k" "map_of BASH_ARITY_TABLE k = Some a"
    by (auto simp: dict_table_def find_key_map_of)
  have "(k, a) \<in> set BASH_ARITY_TABLE" using m(2) by (rule map_of_SomeD)
  with table_shape have "count_list (fst (k, a)) (CHR '' '') \<le> 1
      \<and> (count_list (fst (k, a)) (CHR '' '') = 0 \<longrightarrow> snd (k, a) = 1)"
    unfolding list_all_iff by blast
  with m show ?thesis by simp
qed

text \<open>
  A classification that takes fewer words than the arity of its result leaves no positional
  word beyond the arity.
\<close>

lemma key_words:
  assumes "map_of BASH_ARITY_TABLE (join '' '' kw) = Some a" and "\<And>t. t \<in> set kw \<Longrightarrow> is_word t"
  shows "length kw \<le> 2 \<and> (length kw = 1 \<longrightarrow> a = 1)"
  using find_key_table [of "join '' '' kw" "join '' '' kw" a] assms count_blank_join [of kw]
  by (auto simp: dict_table_def find_key_map_of)

lemma classify_depth_window:
  assumes words: "\<And>t. t \<in> set ps \<Longrightarrow> is_word t"
    and key: "map_of BASH_ARITY_TABLE (join '' '' kw) = Some a"
    and kw: "\<And>t. t \<in> set kw \<Longrightarrow> is_word t" "kw \<noteq> []" "length kw < a"
  shows "ps \<noteq> [] \<Longrightarrow> n \<le> length ps \<Longrightarrow> classify_depth dict_table ps n = join '' '' kw
    \<Longrightarrow> length ps \<le> a"
proof (induction n)
  case 0
  note key_shape = key_words [OF key kw(1)]
  from 0 have "split_whitespace (hd ps) = kw" and "is_word (hd ps)"
    using split_whitespace_join [of kw] kw(1) words [OF hd_in_set, OF 0(1)] by simp_all
  then have "length kw = 1" using split_whitespace_word by fastforce
  with key_shape kw(3) show ?case by simp
next
  case (Suc n)
  define cand where "cand = join '' '' (take (Suc n) ps)"
  have ws_take: "split_whitespace (join '' '' (take m ps)) = take m ps" for m
    by (rule split_whitespace_join) (meson in_set_takeD words)
  have kw_split: "split_whitespace (join '' '' kw) = kw"
    by (rule split_whitespace_join) (rule kw(1))
  show ?case
  proof (cases "find (\<lambda>e. fst e = cand) (entries dict_table)")
    case None
    with Suc show ?thesis by (simp add: cand_def Let_def)
  next
    case (Some e)
    then obtain a' where e: "e = (cand, a')" and a': "map_of BASH_ARITY_TABLE cand = Some a'"
      and shape: "count_list cand (CHR '' '') \<le> 1" "count_list cand (CHR '' '') = 0 \<longrightarrow> a' = 1"
      using find_key_table [of cand "fst e" "snd e"] by (metis prod.collapse)
    have blanks: "count_list cand (CHR '' '') = n"
      unfolding cand_def using Suc.prems(2) count_blank_join [of "take (Suc n) ps"] words
      by (metis diff_Suc_1 in_set_takeD length_take min.absorb2)
    have "join '' '' (take (min a' (length ps)) ps) = join '' '' kw"
      using Suc.prems(3) Some e by (simp add: cand_def Let_def)
    then have kw_take: "kw = take (min a' (length ps)) ps"
      using kw_split ws_take by metis
    show ?thesis
    proof (rule ccontr)
      assume "\<not> length ps \<le> a"
      then have len: "length kw = a'" using kw_take kw(3) by (auto simp: min_def split: if_splits)
      have "a' = Suc n"
      proof (cases n)
        case 0
        with shape blanks show ?thesis by simp
      next
        case (Suc m)
        moreover have "n \<le> 1" using shape(1) blanks by simp
        moreover have "length kw \<noteq> 0" "length kw \<noteq> 1" "length kw \<le> 2"
          using key_words [OF key kw(1)] kw(2,3) by auto
        ultimately show ?thesis using len by linarith
      qed
      then have "cand = join '' '' kw" using kw_take Suc.prems(2) by (simp add: cand_def min_def)
      with a' key len kw(3) show False by simp
    qed
  qed
qed

subsection \<open>Properties\<close>

text \<open>Flags never count. Two token lists with the same positional words are classified the
  same way, whatever flags they carry and wherever.\<close>

theorem classify_ignores_flags:
  "positional_words ts = positional_words us \<Longrightarrow> classify dict_new ts = classify dict_new us"
  by (cases "ts = []"; cases "us = []") (simp_all add: classify_def positional_words_def Let_def)

theorem classify_ignores_flags_witness:
  "classify dict_new [''git'', ''-P'', ''status'', ''-s''] = classify dict_new [''GIT'', ''status'']"
  by (rule classify_ignores_flags) code_simp

text \<open>A rule that is a bare command the table has subcommands for (such as \<open>git\<close>) covers only
  the bare command itself: the command's one positional word is the rule.\<close>

theorem bare_rule_covers_bare_command:
  assumes "is_word rule" and "governs_subcommands dict_new (to_ascii_lowercase rule)"
    and "allow_rule_matches dict_new rule command"
  shows "positional_words (split_whitespace command) = [to_ascii_lowercase rule]"
proof -
  let ?ps = "positional_words (split_whitespace command)"
  have w: "is_word (to_ascii_lowercase rule)" using assms(1) by simp
  then have norm: "join '' '' (split_whitespace (to_ascii_lowercase rule)) = to_ascii_lowercase rule"
    by (simp add: split_whitespace_word)
  have "classify dict_new (split_whitespace command) = to_ascii_lowercase rule"
    and "positional_count (split_whitespace command) = 1"
    using assms blank_not_in_word [OF w] norm
    by (auto simp: allow_rule_matches_def allow_rule_fallback_def trim_word before_char_absent
        Let_def split: if_splits)
  moreover then obtain k where "to_ascii_lowercase rule = join '' '' (take k ?ps)"
    using classify_take by metis
  moreover from calculation obtain x where "?ps = [x]"
    by (auto simp: positional_count_length length_Suc_conv)
  ultimately show ?thesis using w by (cases k) (auto simp: is_word_def)
qed

theorem bare_rule_covers_bare_command_witness:
  "positional_words (split_whitespace ''git --no-pager'') = [to_ascii_lowercase ''git'']"
proof (rule bare_rule_covers_bare_command)
  show "is_word ''git''" by code_simp
  show "governs_subcommands dict_new (to_ascii_lowercase ''git'')"
    unfolding governs_subcommands_new by code_simp
  show "allow_rule_matches dict_new ''git'' ''git --no-pager''"
    unfolding allow_rule_matches_new by code_simp
qed

text \<open>The arity window. A rule that is a key of the table with a free slot (its arity exceeds
  its words, as \<open>docker compose\<close> with arity 3) matches no command with more positional words
  than the arity, so nothing past the window rides the rule.\<close>

theorem rule_within_arity_window:
  assumes key: "map_of BASH_ARITY_TABLE
      (join '' '' (map to_ascii_lowercase (split_whitespace rule))) = Some a"
    and slot: "length (split_whitespace rule) < a"
    and match: "allow_rule_matches dict_new rule command"
  shows "length (positional_words (split_whitespace command)) \<le> a"
proof -
  let ?kw = "map to_ascii_lowercase (split_whitespace rule)"
  let ?ts = "split_whitespace command"
  let ?ps = "positional_words ?ts"
  have kw: "t \<in> set ?kw \<Longrightarrow> is_word t" for t by (auto dest: split_whitespace_words)
  have norm: "split_whitespace (to_ascii_lowercase (trim rule)) = ?kw"
    by (simp add: split_whitespace_lower)
  from match have m: "allow_rule_matches dict_table rule command"
    by (simp add: allow_rule_matches_new)
  show ?thesis
  proof (cases "classify dict_table ?ts = to_ascii_lowercase (trim rule)")
    case True
    obtain k where "to_ascii_lowercase (trim rule) = join '' '' (take k ?ps)"
      using classify_take True by metis
    moreover have "split_whitespace (join '' '' (take k ?ps)) = take k ?ps"
      by (rule split_whitespace_join) (meson in_set_takeD positional_words_split)
    ultimately have cl: "classify dict_table ?ts = join '' '' ?kw"
      using True norm by simp
    show ?thesis
    proof (cases "?kw = [] \<or> ?ps = []")
      case False
      then have "classify_depth dict_table ?ps (min (length ?ps) 3) = join '' '' ?kw"
        using cl by (cases "?ts = []") (simp_all add: classify_def positional_words_def Let_def)
      with False kw slot key positional_words_split show ?thesis
        by (intro classify_depth_window [where kw = ?kw and n = "min (length ?ps) 3"]) auto
    next
      case True
      moreover have "map_of BASH_ARITY_TABLE [] = None" by code_simp
      ultimately show ?thesis using key by auto
    qed
  next
    case False
    with m have "allow_rule_fallback dict_table (to_ascii_lowercase (trim rule)) command ?ts"
      by (simp add: allow_rule_matches_def Let_def split: if_splits)
    then show ?thesis using key norm
      by (auto simp: allow_rule_fallback_def Let_def positional_count_length dict_table_def
          find_key_map_of split: if_splits)
  qed
qed

theorem rule_within_arity_window_witness:
  "length (positional_words (split_whitespace ''kubectl get pods -w'')) \<le> 3"
proof (rule rule_within_arity_window [of "''kubectl get''"])
  show "map_of BASH_ARITY_TABLE
      (join '' '' (map to_ascii_lowercase (split_whitespace ''kubectl get''))) = Some 3"
    by code_simp
  show "length (split_whitespace ''kubectl get'') < 3" by code_simp
  show "allow_rule_matches dict_new ''kubectl get'' ''kubectl get pods -w''"
    unfolding allow_rule_matches_new by code_simp
qed

text \<open>
  What runs a payload, stated on the words of the command line alone. A word (in lower case)
  does so by itself when it is one of the three flags git runs through the transport, bare or
  with a value; when it belongs to the families \<open>--exec-...\<close> and \<open>-exec...\<close>; when it
  carries a \<open>Proxy...\<close> option of ssh; or when it sets one of the six git keys whose value
  is executed.
\<close>

definition payload_flags :: "str set" where
  "payload_flags = {''--exec'', ''--upload-pack'', ''--receive-pack''}"

definition executed_keys :: "str set" where
  "executed_keys = {''core.sshcommand'', ''core.editor'', ''core.pager'', ''credential.helper'',
     ''diff.external'', ''core.fsmonitor''}"

inductive payload_word :: "str \<Rightarrow> bool" where
  bare_flag: "f \<in> payload_flags \<Longrightarrow> payload_word f"
| flag_value: "f \<in> payload_flags \<Longrightarrow> payload_word (f @ ''='' @ v)"
| long_family: "payload_word (''--exec-'' @ v)"
| find_family: "payload_word (''-exec'' @ v)"
| proxy_option: "payload_word (''-oproxy'' @ v)"
| sets_key: "k \<in> executed_keys \<Longrightarrow> payload_word (u @ k @ ''='' @ v)"

text \<open>A word after \<open>git config\<close> names such a key, bare or with a value, whatever dashes
  surround it.\<close>

definition only_dashes :: "str \<Rightarrow> bool" where
  "only_dashes s \<longleftrightarrow> set s \<subseteq> {CHR ''-''}"

inductive names_executed_key :: "str \<Rightarrow> bool" where
  bare_key: "k \<in> executed_keys \<Longrightarrow> only_dashes a \<Longrightarrow> only_dashes b \<Longrightarrow> names_executed_key (a @ k @ b)"
| key_value: "k \<in> executed_keys \<Longrightarrow> only_dashes a \<Longrightarrow> only_dashes b
    \<Longrightarrow> names_executed_key (a @ k @ b @ ''='' @ v)"

inductive payload_line :: "str list \<Rightarrow> bool" where
  by_word: "payload_word (to_ascii_lowercase w) \<Longrightarrow> payload_line (us @ w # vs)"
| by_split_proxy: "to_ascii_lowercase opt = ''-o'' \<Longrightarrow> to_ascii_lowercase n = ''proxy'' @ v
    \<Longrightarrow> payload_line (us @ opt # n # vs)"
| by_transport: "payload_line (us @ (''ext::'' @ v) # vs)"
| by_transport_helper: "payload_line (us @ (''transport::'' @ v) # vs)"
| by_git_config: "to_ascii_lowercase g = ''git'' \<Longrightarrow> to_ascii_lowercase c = ''config''
    \<Longrightarrow> names_executed_key (to_ascii_lowercase w) \<Longrightarrow> payload_line (g # us @ c # vs @ w # ws)"
| by_container: "to_ascii_lowercase t \<in> {''kubectl'', ''docker'', ''podman'', ''nerdctl''}
    \<Longrightarrow> to_ascii_lowercase s \<in> {''exec'', ''run''} \<Longrightarrow> payload_line (t # s # us)"
| by_runner: "to_ascii_lowercase t \<in> {''go'', ''cargo'', ''bun'', ''deno''}
    \<Longrightarrow> to_ascii_lowercase s = ''run'' \<Longrightarrow> payload_line (t # s # us)"
| by_python: "to_ascii_lowercase t \<in> {''python'', ''python3''}
    \<Longrightarrow> to_ascii_lowercase s \<in> {''-m'', ''-c''} \<Longrightarrow> payload_line (t # s # us)"
| by_launcher: "to_ascii_lowercase t \<in> {''ssh'', ''xargs'', ''sudo'', ''npx''} \<Longrightarrow> payload_line (t # us)"

subsection \<open>The code's scan finds exactly these lines\<close>

lemma before_char_split: "before_char (CHR ''='') s = f \<Longrightarrow> s = f \<or> (\<exists>v. s = f @ ''='' @ v)"
proof (induction s arbitrary: f)
  case (Cons c s)
  then show ?case by (cases "c = CHR ''=''") (auto simp: before_char_def)
qed (simp add: before_char_def)

lemma before_char_append: "CHR ''='' \<notin> set p \<Longrightarrow> before_char (CHR ''='') (p @ z) = p @ before_char (CHR ''='') z"
  unfolding before_char_def by (rule takeWhile_append2) auto

lemma before_char_value: "CHR ''='' \<notin> set p \<Longrightarrow> before_char (CHR ''='') (p @ ''='' @ z) = p"
  by (simp add: before_char_append) (simp add: before_char_def)

lemma before_char_self: "CHR ''='' \<notin> set p \<Longrightarrow> before_char (CHR ''='') p = p"
  using before_char_append [of p "[]"] by (simp add: before_char_def)

lemma before_char_family:
  assumes "CHR ''='' \<notin> set p"
  shows "starts_with (before_char (CHR ''='') s) p \<longleftrightarrow> (\<exists>v. s = p @ v)"
proof
  assume "starts_with (before_char (CHR ''='') s) p"
  moreover have "prefix (before_char (CHR ''='') s) s" by (simp add: before_char_def takeWhile_is_prefix)
  ultimately show "\<exists>v. s = p @ v" using prefix_order.trans prefixE by metis
qed (auto simp: before_char_append assms)

lemma no_equals: "f \<in> payload_flags \<union> executed_keys \<Longrightarrow> CHR ''='' \<notin> set f"
  by (auto simp: payload_flags_def executed_keys_def)

lemma payload_flag_iff:
  "before_char (CHR ''='') s \<in> payload_flags \<longleftrightarrow> s \<in> payload_flags \<or> (\<exists>f v. f \<in> payload_flags \<and> s = f @ ''='' @ v)"
proof
  assume f: "before_char (CHR ''='') s \<in> payload_flags"
  from before_char_split [OF refl, of s] show "s \<in> payload_flags \<or> (\<exists>f v. f \<in> payload_flags \<and> s = f @ ''='' @ v)"
  proof
    assume "s = before_char (CHR ''='') s"
    with f show ?thesis by simp
  next
    assume "\<exists>v. s = before_char (CHR ''='') s @ ''='' @ v"
    with f show ?thesis by blast
  qed
next
  assume "s \<in> payload_flags \<or> (\<exists>f v. f \<in> payload_flags \<and> s = f @ ''='' @ v)"
  then show "before_char (CHR ''='') s \<in> payload_flags"
  proof
    assume f: "s \<in> payload_flags"
    then have "before_char (CHR ''='') s = s" using no_equals [of s] before_char_self by blast
    with f show ?thesis by simp
  next
    assume "\<exists>f v. f \<in> payload_flags \<and> s = f @ ''='' @ v"
    then obtain f v where f: "f \<in> payload_flags" and s: "s = f @ ''='' @ v" by blast
    from f have "CHR ''='' \<notin> set f" using no_equals by blast
    from before_char_value [OF this] f show ?thesis unfolding s by simp
  qed
qed

lemma git_key_iff:
  "is_exec_capable_git_key s \<longleftrightarrow> (\<exists>u k v. k \<in> executed_keys \<and> s = u @ k @ ''='' @ v)"
proof -
  have keys: "set exec_capable_git_keys = (\<lambda>k. k @ ''='') ` executed_keys"
    unfolding exec_capable_git_keys_def executed_keys_def by simp
  have "is_exec_capable_git_key s \<longleftrightarrow> (\<exists>k\<in>executed_keys. sublist (k @ ''='') s)"
    unfolding is_exec_capable_git_key_def list_ex_iff keys by blast
  also have "\<dots> \<longleftrightarrow> (\<exists>u k v. k \<in> executed_keys \<and> s = u @ k @ ''='' @ v)"
    unfolding sublist_def append.assoc by blast
  finally show ?thesis .
qed

lemma exec_capable_token_iff:
  "exec_capable_token w n \<longleftrightarrow> payload_word (to_ascii_lowercase w)
     \<or> to_ascii_lowercase w = ''-o'' \<and> (\<exists>m v. n = Some m \<and> to_ascii_lowercase m = ''proxy'' @ v)"
proof -
  let ?l = "to_ascii_lowercase w"
  let ?f = "before_char (CHR ''='') ?l"
  have proxy: "starts_with ?l ''-o'' \<and> starts_with (drop 2 ?l) ''proxy'' \<longleftrightarrow> (\<exists>v. ?l = ''-oproxy'' @ v)"
    by (auto simp: prefix_def)
  have flags: "?f = ''--receive-pack'' \<or> ?f = ''--upload-pack'' \<or> ?f = ''--exec'' \<longleftrightarrow> ?f \<in> payload_flags"
    unfolding payload_flags_def by blast
  have long: "starts_with ?f ''--exec-'' \<longleftrightarrow> (\<exists>v. ?l = ''--exec-'' @ v)"
    and short: "starts_with ?f ''-exec'' \<longleftrightarrow> (\<exists>v. ?l = ''-exec'' @ v)"
    by (rule before_char_family; simp)+
  have word: "payload_word ?l \<longleftrightarrow> ?f \<in> payload_flags \<or> starts_with ?f ''--exec-'' \<or> starts_with ?f ''-exec''
      \<or> (\<exists>v. ?l = ''-oproxy'' @ v) \<or> is_exec_capable_git_key ?l"
    unfolding payload_word.simps [of ?l] payload_flag_iff git_key_iff long short by blast
  have split: "(case n of None \<Rightarrow> False | Some m \<Rightarrow> starts_with (to_ascii_lowercase m) ''proxy'')
      \<longleftrightarrow> (\<exists>m v. n = Some m \<and> to_ascii_lowercase m = ''proxy'' @ v)"
    by (auto simp: prefix_def split: option.split)
  show ?thesis unfolding exec_capable_token_def Let_def proxy split word using flags by argo
qed

lemma any_exec_capable_token_iff:
  "any_exec_capable_token ts \<longleftrightarrow>
     (\<exists>us w vs. ts = us @ w # vs \<and> exec_capable_token w (case vs of [] \<Rightarrow> None | n # _ \<Rightarrow> Some n))"
proof (induction ts)
  case (Cons t ts)
  show ?case unfolding any_exec_capable_token.simps Cons.IH by (auto simp: Cons_eq_append_conv; metis)
qed simp

lemma only_dashes_simps: "only_dashes [] \<longleftrightarrow> True" "only_dashes (c # s) \<longleftrightarrow> c = CHR ''-'' \<and> only_dashes s"
  by (auto simp: only_dashes_def)

lemma trim_dashes_iff:
  assumes "k \<noteq> []" "hd k \<noteq> CHR ''-''" "last k \<noteq> CHR ''-''"
  shows "trim_chars ''-'' s = k \<longleftrightarrow> (\<exists>a b. only_dashes a \<and> only_dashes b \<and> s = a @ k @ b)"
  using trim_chars_iff [of k "''-''" s] assms by (simp add: only_dashes_def)

lemma key_ends: "k \<in> executed_keys \<Longrightarrow> k \<noteq> [] \<and> hd k \<noteq> CHR ''-'' \<and> last k \<noteq> CHR ''-''"
  by (auto simp: executed_keys_def)

lemma names_executed_key_iff:
  "names_executed_key s \<longleftrightarrow> trim_chars ''-'' (before_char (CHR ''='') s) \<in> executed_keys"
proof
  assume "names_executed_key s"
  then show "trim_chars ''-'' (before_char (CHR ''='') s) \<in> executed_keys"
  proof cases
    case (bare_key k a b)
    then have "CHR ''='' \<notin> set (a @ k @ b)" using no_equals [of k] by (auto simp: only_dashes_def)
    then have "before_char (CHR ''='') s = a @ k @ b"
      using before_char_append [of "a @ k @ b" "[]"] bare_key(1) by (simp add: before_char_def)
    then show ?thesis using trim_dashes_iff key_ends bare_key by metis
  next
    case (key_value k a b v)
    then have "CHR ''='' \<notin> set (a @ k @ b)" using no_equals [of k] by (auto simp: only_dashes_def)
    then have "before_char (CHR ''='') s = a @ k @ b"
      using before_char_value [of "a @ k @ b" v] key_value(1) by simp
    then show ?thesis using trim_dashes_iff key_ends key_value by metis
  qed
next
  assume k: "trim_chars ''-'' (before_char (CHR ''='') s) \<in> executed_keys"
  then obtain a b where ab: "only_dashes a" "only_dashes b"
    and e: "before_char (CHR ''='') s = a @ trim_chars ''-'' (before_char (CHR ''='') s) @ b"
    using trim_dashes_iff key_ends by metis
  from before_char_split [OF e] have "s = a @ trim_chars ''-'' (before_char (CHR ''='') s) @ b
     \<or> (\<exists>v. s = a @ trim_chars ''-'' (before_char (CHR ''='') s) @ b @ ''='' @ v)" by simp
  then show "names_executed_key s" using names_executed_key.intros [OF k ab] by metis
qed

lemma drop_position:
  "position P xs = Some i \<Longrightarrow> w \<in> set (drop (Suc i) xs) \<Longrightarrow> \<exists>us c vs ws. xs = us @ c # vs @ w # ws \<and> P c"
proof (induction xs arbitrary: i)
  case (Cons x xs)
  show ?case
  proof (cases "P x")
    case True
    with Cons.prems have "w \<in> set xs" by auto
    then obtain vs ws where "xs = vs @ w # ws" by (meson split_list)
    then have "x # xs = [] @ x # vs @ w # ws" by simp
    with True show ?thesis by blast
  next
    case False
    with Cons.prems obtain j where "position P xs = Some j" "w \<in> set (drop (Suc j) xs)" by auto
    from Cons.IH [OF this] obtain us c vs ws where "xs = us @ c # vs @ w # ws" "P c" by blast
    then have "x # xs = (x # us) @ c # vs @ w # ws \<and> P c" by simp
    then show ?thesis by blast
  qed
qed simp

lemma position_before:
  "P c \<Longrightarrow> \<exists>i. position P (us @ c # zs) = Some i \<and> set zs \<subseteq> set (drop (Suc i) (us @ c # zs))"
  by (induction us) fastforce+

lemma ignore_case_lower:
  "to_ascii_lowercase p = p \<Longrightarrow> eq_ignore_ascii_case t p \<longleftrightarrow> to_ascii_lowercase t = p"
  by (simp add: eq_ignore_ascii_case_def)

lemma config_word: "eq_ignore_ascii_case t ''config'' \<longleftrightarrow> to_ascii_lowercase t = ''config''"
  and exec_word: "eq_ignore_ascii_case t ''exec'' \<longleftrightarrow> to_ascii_lowercase t = ''exec''"
  and run_word: "eq_ignore_ascii_case t ''run'' \<longleftrightarrow> to_ascii_lowercase t = ''run''"
  by (rule ignore_case_lower, code_simp)+

lemma git_config_iff:
  "git_config_carries_exec_key ts \<longleftrightarrow>
     (\<exists>g us c vs w ws. ts = g # us @ c # vs @ w # ws \<and> to_ascii_lowercase g = ''git''
        \<and> to_ascii_lowercase c = ''config''
        \<and> (names_executed_key (to_ascii_lowercase w) \<or> is_exec_capable_git_key (to_ascii_lowercase w)))"
  (is "_ \<longleftrightarrow> (\<exists>g us c vs w ws. ?line g us c vs w ws)")
proof
  let ?P = "\<lambda>t. eq_ignore_ascii_case t ''config''"
  assume "git_config_carries_exec_key ts"
  then obtain g xs i w where ts: "ts = g # xs" and g: "to_ascii_lowercase g = ''git''"
    and p: "position ?P xs = Some i" "w \<in> set (drop (Suc i) xs)"
    and w: "names_executed_key (to_ascii_lowercase w) \<or> is_exec_capable_git_key (to_ascii_lowercase w)"
    by (cases ts) (auto simp: git_config_carries_exec_key_def names_executed_key_iff executed_keys_def
        git_config_exec_keys_def list_ex_iff Let_def split: option.splits if_splits)
  from drop_position [OF p] obtain us c vs ws where "xs = us @ c # vs @ w # ws" "?P c" by blast
  then have "?line g us c vs w ws" using ts g w unfolding config_word by blast
  then show "\<exists>g us c vs w ws. ?line g us c vs w ws" by blast
next
  let ?P = "\<lambda>t. eq_ignore_ascii_case t ''config''"
  assume "\<exists>g us c vs w ws. ?line g us c vs w ws"
  then obtain g us c vs w ws where line: "?line g us c vs w ws" by blast
  then have "?P c" unfolding config_word by blast
  from position_before [where P = ?P, OF this, of us "vs @ w # ws"] obtain i
    where "position ?P (us @ c # vs @ w # ws) = Some i"
      and "w \<in> set (drop (Suc i) (us @ c # vs @ w # ws))" by auto
  then show "git_config_carries_exec_key ts" using line
    by (auto simp: git_config_carries_exec_key_def names_executed_key_iff executed_keys_def
        git_config_exec_keys_def list_ex_iff Let_def)
qed

lemma positioning_iff:
  "is_exec_by_positioning ts \<longleftrightarrow> (\<exists>t us. ts = t # us \<and>
     (to_ascii_lowercase t \<in> {''ssh'', ''xargs'', ''sudo'', ''npx''}
      \<or> (\<exists>s vs. us = s # vs \<and>
          (to_ascii_lowercase t \<in> {''kubectl'', ''docker'', ''podman'', ''nerdctl''} \<and> to_ascii_lowercase s \<in> {''exec'', ''run''}
           \<or> to_ascii_lowercase t \<in> {''go'', ''cargo'', ''bun'', ''deno''} \<and> to_ascii_lowercase s = ''run''
           \<or> to_ascii_lowercase t \<in> {''python'', ''python3''} \<and> to_ascii_lowercase s \<in> {''-m'', ''-c''}))))"
proof (cases ts)
  case Nil
  then show ?thesis by (simp add: is_exec_by_positioning_def)
next
  case (Cons t us)
  then show ?thesis
    by (cases us) (auto simp: is_exec_by_positioning_def exec_word run_word Let_def)
qed

lemma payload_line_iff:
  "payload_line ts \<longleftrightarrow> contains_exec_capable_flag ts \<or> is_exec_by_positioning ts"
proof
  assume "payload_line ts"
  then show "contains_exec_capable_flag ts \<or> is_exec_by_positioning ts"
  proof cases
    case (by_word w us vs)
    then show ?thesis
      unfolding contains_exec_capable_flag_def any_exec_capable_token_iff exec_capable_token_iff by blast
  next
    case (by_split_proxy opt n v us vs)
    then have "exec_capable_token opt (case n # vs of [] \<Rightarrow> None | n # _ \<Rightarrow> Some n)"
      unfolding exec_capable_token_iff by simp
    with by_split_proxy(1) show ?thesis
      unfolding contains_exec_capable_flag_def any_exec_capable_token_iff by blast
  next
    case (by_git_config g c w us vs ws)
    then show ?thesis unfolding contains_exec_capable_flag_def git_config_iff by blast
  qed (auto simp: contains_exec_capable_flag_def has_executing_transport_def positioning_iff)
next
  assume "contains_exec_capable_flag ts \<or> is_exec_by_positioning ts"
  then consider "any_exec_capable_token ts" | "git_config_carries_exec_key ts"
    | "has_executing_transport ts" | "is_exec_by_positioning ts"
    unfolding contains_exec_capable_flag_def by blast
  then show "payload_line ts"
  proof cases
    case 1
    then obtain us w vs where ts: "ts = us @ w # vs"
      and w: "exec_capable_token w (case vs of [] \<Rightarrow> None | n # _ \<Rightarrow> Some n)"
      unfolding any_exec_capable_token_iff by blast
    then show ?thesis
      using payload_line.by_word payload_line.by_split_proxy
      unfolding exec_capable_token_iff ts by (fastforce split: list.splits)
  next
    case 2
    then obtain g us c vs w ws where ts: "ts = g # us @ c # vs @ w # ws"
      and g: "to_ascii_lowercase g = ''git''" "to_ascii_lowercase c = ''config''"
      and w: "names_executed_key (to_ascii_lowercase w) \<or> is_exec_capable_git_key (to_ascii_lowercase w)"
      unfolding git_config_iff by blast
    from w show ?thesis
    proof
      assume "names_executed_key (to_ascii_lowercase w)"
      with g show ?thesis unfolding ts by (rule payload_line.by_git_config)
    next
      assume "is_exec_capable_git_key (to_ascii_lowercase w)"
      then have "payload_word (to_ascii_lowercase w)" unfolding git_key_iff payload_word.simps [of "to_ascii_lowercase w"] by blast
      from payload_line.by_word [OF this, of "g # us @ c # vs" ws] show ?thesis unfolding ts by simp
    qed
  next
    case 3
    then obtain w v where w: "w \<in> set ts" "w = ''ext::'' @ v \<or> w = ''transport::'' @ v"
      unfolding has_executing_transport_def list_ex_iff prefix_def by blast
    from w(1) obtain us vs where ts: "ts = us @ w # vs" by (meson split_list)
    from w(2) show ?thesis
      using payload_line.by_transport payload_line.by_transport_helper unfolding ts by metis
  next
    case 4
    then show ?thesis unfolding positioning_iff
      using payload_line.by_container payload_line.by_runner payload_line.by_python payload_line.by_launcher
      by blast
  qed
qed

text \<open>C1: no allow rule whatever covers a command line that runs a payload: through \<open>ssh\<close>,
  \<open>xargs\<close>, \<open>sudo\<close> or \<open>npx\<close>, \<open>kubectl exec\<close> and its container kin,
  \<open>go run\<close> and its kin, \<open>python -m\<close> or \<open>-c\<close>; with a word that is an
  execution flag (bare or with a value), an ssh proxy option (attached or split), an executed
  git key or an executing transport; or as a \<open>git config\<close> that names such a key.
  \<open>payload_line\<close> lists these lines by their words; \<open>payload_line_iff\<close> says that they
  are all the lines the code's own scan refuses.\<close>

theorem payload_never_allowed:
  "payload_line (split_whitespace command) \<Longrightarrow> \<not> allow_rule_matches dict_new rule command"
  by (rule arity.payload_not_allowed) (simp add: executes_payload_def payload_line_iff)

theorem payload_never_allowed_witness:
  "\<not> allow_rule_matches dict_new ''git fetch'' ''git fetch --upload-pack /tmp/evil origin''"
proof (rule payload_never_allowed)
  have words: "split_whitespace ''git fetch --upload-pack /tmp/evil origin''
      = [''git'', ''fetch''] @ ''--upload-pack'' # [''/tmp/evil'', ''origin'']" by code_simp
  have "to_ascii_lowercase ''--upload-pack'' = ''--upload-pack''" by code_simp
  then have "payload_word (to_ascii_lowercase ''--upload-pack'')"
    by (simp add: payload_word.bare_flag payload_flags_def)
  then show "payload_line (split_whitespace ''git fetch --upload-pack /tmp/evil origin'')"
    unfolding words by (rule payload_line.by_word)
qed

end
