(* ===== verification/ExecPolicy.thy ===== *)
theory ExecPolicy
  imports BashArity
begin

section \<open>The execution policy engine (crates/execpolicy/src/lib.rs)\<close>

text \<open>
  Layered rulesets, the engine with its merged caches, and \<open>check\<close>, which runs before
  every tool invocation. The engine's legacy lists \<open>trusted_prefixes\<close> and
  \<open>denied_prefixes\<close> are the fields \<open>legacy_trusted\<close> and \<open>legacy_denied\<close>, since
  a ruleset has fields of these names. \<open>check\<close> returns a \<open>Result\<close> that is never
  an error, so it is a total function here.
\<close>

subsection \<open>Data\<close>

datatype ruleset_layer = BuiltinDefault | Agent | User

fun layer_ord :: "ruleset_layer \<Rightarrow> nat" where
  "layer_ord BuiltinDefault = 0"
| "layer_ord Agent = 1"
| "layer_ord User = 2"

lemma layer_ord_inj [simp]: "layer_ord a = layer_ord b \<longleftrightarrow> a = b"
  by (cases a; cases b) simp_all


text \<open>The derived \<open>Ord\<close>.\<close>

instantiation ruleset_layer :: linorder
begin

definition less_eq_ruleset_layer :: "ruleset_layer \<Rightarrow> ruleset_layer \<Rightarrow> bool" where
  "less_eq_ruleset_layer a b \<longleftrightarrow> layer_ord a \<le> layer_ord b"

definition less_ruleset_layer :: "ruleset_layer \<Rightarrow> ruleset_layer \<Rightarrow> bool" where
  "less_ruleset_layer a b \<longleftrightarrow> layer_ord a < layer_ord b"

instance
  by standard (auto simp: less_eq_ruleset_layer_def less_ruleset_layer_def)

end

record tool_ask_rule =
  tool :: str
  command :: "str option"
  path :: "str option"

definition ask_rule_new :: "str \<Rightarrow> tool_ask_rule" where
  "ask_rule_new t = \<lparr>tool = t, command = None, path = None\<rparr>"

definition ask_rule_exec_shell :: "str \<Rightarrow> tool_ask_rule" where
  "ask_rule_exec_shell c = \<lparr>tool = ''exec_shell'', command = Some c, path = None\<rparr>"

definition ask_rule_file_path :: "str \<Rightarrow> str \<Rightarrow> tool_ask_rule" where
  "ask_rule_file_path t p = \<lparr>tool = t, command = None, path = Some p\<rparr>"

definition label :: "tool_ask_rule \<Rightarrow> str" where
  "label r = join '' '' ([''tool='' @ tool r]
     @ (case command r of None \<Rightarrow> [] | Some c \<Rightarrow> [''command='' @ c])
     @ (case path r of None \<Rightarrow> [] | Some p \<Rightarrow> [''path='' @ p]))"

record ruleset =
  layer :: ruleset_layer
  trusted_prefixes :: "str list"
  denied_prefixes :: "str list"
  ask_rules :: "tool_ask_rule list"

definition ruleset_builtin_default :: ruleset where
  "ruleset_builtin_default =
     \<lparr>layer = BuiltinDefault, trusted_prefixes = [], denied_prefixes = [], ask_rules = []\<rparr>"

definition ruleset_agent :: "str list \<Rightarrow> str list \<Rightarrow> ruleset" where
  "ruleset_agent trusted denied =
     \<lparr>layer = Agent, trusted_prefixes = trusted, denied_prefixes = denied, ask_rules = []\<rparr>"

definition ruleset_user :: "str list \<Rightarrow> str list \<Rightarrow> ruleset" where
  "ruleset_user trusted denied =
     \<lparr>layer = User, trusted_prefixes = trusted, denied_prefixes = denied, ask_rules = []\<rparr>"

definition with_ask_rules :: "ruleset \<Rightarrow> tool_ask_rule list \<Rightarrow> ruleset" where
  "with_ask_rules r rules = r\<lparr>ask_rules := rules\<rparr>"

datatype ask_for_approval =
    UnlessTrusted
  | OnFailure
  | OnRequest
  | Reject (sandbox_approval: bool) (rules: bool) (mcp_elicitations: bool)
  | Never

text \<open>\<open>ExecPolicyAmendment\<close> has the one field \<open>prefixes\<close>.\<close>

record exec_policy_amendment =
  prefixes :: "str list"

datatype network_rule_action = ActionAllow | ActionDeny

record network_policy_amendment =
  amend_host :: str
  amend_action :: network_rule_action

datatype exec_approval_requirement =
    Skip bool "exec_policy_amendment option"
  | NeedsApproval str "exec_policy_amendment option" "network_policy_amendment list"
  | Forbidden str

fun requirement_reason :: "exec_approval_requirement \<Rightarrow> str" where
  "requirement_reason (Skip _ _) = ''Execution allowed by policy.''"
| "requirement_reason (NeedsApproval reason _ _) = reason"
| "requirement_reason (Forbidden reason) = reason"

fun phase :: "exec_approval_requirement \<Rightarrow> str" where
  "phase (Skip _ _) = ''allowed''"
| "phase (NeedsApproval _ _ _) = ''needs_approval''"
| "phase (Forbidden _) = ''forbidden''"

record exec_policy_decision =
  allow :: bool
  requires_approval :: bool
  requirement :: exec_approval_requirement
  matched_rule :: "str option"

definition decision_reason :: "exec_policy_decision \<Rightarrow> str" where
  "decision_reason d = requirement_reason (requirement d)"

record exec_policy_context =
  ctx_command :: str
  ctx_cwd :: str
  ctx_tool :: "str option"
  ctx_path :: "str option"
  ctx_ask_for_approval :: ask_for_approval
  ctx_sandbox_mode :: "str option"

record exec_policy_engine =
  rulesets :: "ruleset list"
  legacy_trusted :: "str list"
  legacy_denied :: "str list"
  merged_trusted :: "str list"
  merged_denied :: "str list"
  merged_denied_normalized :: "str list"
  approved_for_session :: "str set"
  arity_dict :: bash_arity_dict

subsection \<open>Normalisation\<close>

definition normalize_command :: "str \<Rightarrow> str" where
  "normalize_command value = to_ascii_lowercase (join '' '' (split_whitespace value))"

definition dequote_for_deny :: "str \<Rightarrow> str" where
  "dequote_for_deny value = filter (\<lambda>c. c \<noteq> CHR 0x22 \<and> c \<noteq> CHR 0x27 \<and> c \<noteq> CHR 0x5C) value"

definition wrapper_commands :: "str list" where
  "wrapper_commands = [''env'', ''nohup'', ''exec'', ''command'', ''xargs'']"

text \<open>The loop that strips wrapper commands, with the assignments after \<open>env\<close>.\<close>

function strip_wrappers :: "str list \<Rightarrow> str list" where
  "strip_wrappers [] = []"
| "strip_wrappers (t # ts) =
     (if t \<in> set wrapper_commands
      then strip_wrappers
             (if t = ''env'' then dropWhile (\<lambda>u. CHR ''='' \<in> set u \<and> \<not> starts_with u ''-'') ts else ts)
      else t # ts)"
  by pat_completeness auto
termination
  by (relation "measure length") (auto simp: le_imp_less_Suc length_dropWhile_le)

definition base_name :: "str \<Rightarrow> str" where
  "base_name word = last (split_char (CHR ''/'') (replace_char (CHR 0x5C) ''/'' word))"

definition normalize_deny_segment :: "str \<Rightarrow> str" where
  "normalize_deny_segment segment =
     (let tokens = strip_wrappers (split_whitespace (dequote_for_deny (normalize_command segment)))
      in join '' '' (case tokens of [] \<Rightarrow> [] | t # ts \<Rightarrow> base_name t # ts))"

definition segment_separators :: "char list" where
  "segment_separators =
     [CHR '';'', CHR ''|'', CHR ''&'', CHR 0x0A, CHR 0x0D, CHR 0x60]"

definition command_segments :: "str \<Rightarrow> str list" where
  "command_segments c =
     filter (\<lambda>segment. segment \<noteq> [])
       (map trim (concat (map (split_str ''$('') (split_on (\<lambda>x. x \<in> set segment_separators) c))))"

definition deny_prefix_matches_normalized :: "str \<Rightarrow> str \<Rightarrow> bool" where
  "deny_prefix_matches_normalized rule segment \<longleftrightarrow>
     rule \<noteq> [] \<and> (segment = rule
       \<or> (case strip_prefix rule segment of None \<Rightarrow> False | Some rest \<Rightarrow> starts_with rest '' ''))"

definition first_token :: "str \<Rightarrow> str" where
  "first_token c = (case split_whitespace c of [] \<Rightarrow> [] | t # _ \<Rightarrow> t)"

definition normalize_path_value :: "str \<Rightarrow> str" where
  "normalize_path_value value =
     to_ascii_lowercase (trim_chars [CHR ''/''] (trim (replace_char (CHR 0x5C) ''/'' value)))"

definition ask_rule_specificity :: "tool_ask_rule \<Rightarrow> nat" where
  "ask_rule_specificity rule =
     length (tool rule)
     + (case command rule of None \<Rightarrow> 0 | Some c \<Rightarrow> length c + 1000)
     + (case path rule of None \<Rightarrow> 0 | Some p \<Rightarrow> length p + 1000)"

subsection \<open>The engine\<close>

definition resolve_prefixes :: "exec_policy_engine \<Rightarrow> str list \<times> str list" where
  "resolve_prefixes e =
     (if rulesets e = [] then (legacy_trusted e, legacy_denied e)
      else (legacy_trusted e @ concat (map trusted_prefixes (rev (rulesets e))),
            legacy_denied e @ concat (map denied_prefixes (rev (rulesets e)))))"

definition rebuild_merged_prefixes :: "exec_policy_engine \<Rightarrow> exec_policy_engine" where
  "rebuild_merged_prefixes e =
     (let (trusted, denied) = resolve_prefixes e
      in e\<lparr>merged_trusted := trusted, merged_denied := denied,
           merged_denied_normalized := map (\<lambda>rule. dequote_for_deny (normalize_command rule)) denied\<rparr>)"

definition engine_with :: "ruleset list \<Rightarrow> str list \<Rightarrow> str list \<Rightarrow> exec_policy_engine" where
  "engine_with rs trusted denied =
     \<lparr>rulesets = rs, legacy_trusted = trusted, legacy_denied = denied,
      merged_trusted = [], merged_denied = [], merged_denied_normalized = [],
      approved_for_session = {}, arity_dict = dict_new\<rparr>"

definition engine_new :: "str list \<Rightarrow> str list \<Rightarrow> exec_policy_engine" where
  "engine_new trusted denied = rebuild_merged_prefixes (engine_with [] trusted denied)"

definition with_rulesets :: "ruleset list \<Rightarrow> exec_policy_engine" where
  "with_rulesets rs = rebuild_merged_prefixes (engine_with (sort_key layer rs) [] [])"

definition add_ruleset :: "exec_policy_engine \<Rightarrow> ruleset \<Rightarrow> exec_policy_engine" where
  "add_ruleset e r =
     rebuild_merged_prefixes (e\<lparr>rulesets := sort_key layer (rulesets e @ [r])\<rparr>)"

definition remember_session_approval :: "exec_policy_engine \<Rightarrow> str \<Rightarrow> exec_policy_engine" where
  "remember_session_approval e key =
     e\<lparr>approved_for_session := insert key (approved_for_session e)\<rparr>"

definition is_session_approved :: "exec_policy_engine \<Rightarrow> str \<Rightarrow> bool" where
  "is_session_approved e key \<longleftrightarrow> key \<in> approved_for_session e"

definition ask_rule_applies :: "exec_policy_engine \<Rightarrow> exec_policy_context \<Rightarrow> tool_ask_rule \<Rightarrow> bool" where
  "ask_rule_applies e ctx rule \<longleftrightarrow>
     tool rule = (case ctx_tool ctx of None \<Rightarrow> ''exec_shell'' | Some t \<Rightarrow> t)
     \<and> (case command rule of None \<Rightarrow> True
         | Some c \<Rightarrow> allow_rule_matches (arity_dict e) c (ctx_command ctx))
     \<and> (case path rule of None \<Rightarrow> True
         | Some pattern \<Rightarrow>
             (case ctx_path ctx of None \<Rightarrow> False
              | Some p \<Rightarrow> normalize_path_value pattern = normalize_path_value p))"

definition matching_ask_rule :: "exec_policy_engine \<Rightarrow> exec_policy_context \<Rightarrow> tool_ask_rule option" where
  "matching_ask_rule e ctx =
     find_map (\<lambda>r. max_by_key ask_rule_specificity (filter (ask_rule_applies e ctx) (ask_rules r)))
       (rev (rulesets e))"

definition denied_rule :: "exec_policy_engine \<Rightarrow> str \<Rightarrow> str option" where
  "denied_rule e c =
     (let normalized_segments =
        (if merged_denied e = [] then [] else map normalize_deny_segment (command_segments c))
      in map_option fst
        (find (\<lambda>(_, normalized_rule). list_ex (deny_prefix_matches_normalized normalized_rule) normalized_segments)
          (zip (merged_denied e) (merged_denied_normalized e))))"

definition trusted_rule :: "exec_policy_engine \<Rightarrow> str \<Rightarrow> str option" where
  "trusted_rule e c =
     (if 1 < length (command_segments c) then None
      else find (\<lambda>rule. allow_rule_matches (arity_dict e) rule c) (merged_trusted e))"

definition skip_requirement :: exec_approval_requirement where
  "skip_requirement = Skip False None"

definition needs_approval_requirement :: "bool \<Rightarrow> str \<Rightarrow> exec_approval_requirement" where
  "needs_approval_requirement is_trusted c =
     NeedsApproval
       (if is_trusted then ''Approval requested by policy mode.''
        else ''Unmatched command prefix requires approval.'')
       (if is_trusted then None else Some \<lparr>prefixes = [first_token c]\<rparr>)
       []"

text \<open>The \<open>match\<close> on the approval mode; its guards fall through to the last arm.\<close>

definition mode_requirement ::
  "ask_for_approval \<Rightarrow> tool_ask_rule option \<Rightarrow> bool \<Rightarrow> str \<Rightarrow> exec_approval_requirement" where
  "mode_requirement mode ask_rule is_trusted c =
     (case mode of
        Never \<Rightarrow>
          (case ask_rule of
             Some rule \<Rightarrow> Forbidden (''Typed ask rule '' @ [CHR 0x27] @ label rule @ [CHR 0x27]
                 @ '' requires approval, but approval policy is never.'')
           | None \<Rightarrow>
               if \<not> is_trusted
               then Forbidden ''Command does not match a trusted prefix and approval policy is never.''
               else skip_requirement)
      | UnlessTrusted \<Rightarrow>
          if is_trusted then skip_requirement else needs_approval_requirement is_trusted c
      | OnFailure \<Rightarrow> skip_requirement
      | Reject _ reject_rules _ \<Rightarrow>
          if reject_rules then Forbidden ''Policy is configured to reject rule-exceptions.''
          else needs_approval_requirement is_trusted c
      | OnRequest \<Rightarrow> needs_approval_requirement is_trusted c)"

definition check :: "exec_policy_engine \<Rightarrow> exec_policy_context \<Rightarrow> exec_policy_decision" where
  "check e ctx =
     (case denied_rule e (ctx_command ctx) of
        Some rule \<Rightarrow>
          \<lparr>allow = False, requires_approval = False,
           requirement = Forbidden (''Command blocked by denied prefix rule '' @ [CHR 0x27] @ rule @ [CHR 0x27]),
           matched_rule = Some rule\<rparr>
      | None \<Rightarrow>
          (let trusted = trusted_rule e (ctx_command ctx);
               ask = (if ctx_ask_for_approval ctx = Never then matching_ask_rule e ctx else None);
               req = mode_requirement (ctx_ask_for_approval ctx) ask (trusted \<noteq> None) (ctx_command ctx)
           in \<lparr>allow = (case req of Skip _ _ \<Rightarrow> True | NeedsApproval _ _ _ \<Rightarrow> True | Forbidden _ \<Rightarrow> False),
               requires_approval = (case req of NeedsApproval _ _ _ \<Rightarrow> True | _ \<Rightarrow> False),
               requirement = req,
               matched_rule = (case map_option label ask of Some l \<Rightarrow> Some l | None \<Rightarrow> trusted)\<rparr>))"

subsection \<open>The caches\<close>

text \<open>What every constructor and operation keeps: the caches are those of the rules, the
  rulesets are sorted by layer and the dictionary is the built-in one.\<close>

definition caches_ok :: "exec_policy_engine \<Rightarrow> bool" where
  "caches_ok e \<longleftrightarrow>
     resolve_prefixes e = (merged_trusted e, merged_denied e)
     \<and> merged_denied_normalized e = map (\<lambda>rule. dequote_for_deny (normalize_command rule)) (merged_denied e)
     \<and> sorted (map layer (rulesets e)) \<and> arity_dict e = dict_new"

lemma caches_ok_rebuild:
  "sorted (map layer (rulesets e)) \<Longrightarrow> arity_dict e = dict_new \<Longrightarrow> caches_ok (rebuild_merged_prefixes e)"
  by (simp add: caches_ok_def rebuild_merged_prefixes_def resolve_prefixes_def)

lemma caches_ok_new [inv_intros]: "caches_ok (engine_new trusted denied)"
  unfolding engine_new_def by (rule caches_ok_rebuild) (simp_all add: engine_with_def)

lemma caches_ok_with_rulesets [inv_intros]: "caches_ok (with_rulesets rs)"
  unfolding with_rulesets_def by (rule caches_ok_rebuild) (simp_all add: engine_with_def)

lemma caches_ok_add_ruleset [inv_intros]: "caches_ok e \<Longrightarrow> caches_ok (add_ruleset e r)"
  unfolding add_ruleset_def by (rule caches_ok_rebuild) (simp_all add: caches_ok_def)

lemma caches_ok_remember [inv_intros]: "caches_ok e \<Longrightarrow> caches_ok (remember_session_approval e key)"
  by (auto simp: caches_ok_def remember_session_approval_def resolve_prefixes_def split: if_splits)

text \<open>The engines a program can build.\<close>

inductive engine_reach :: "exec_policy_engine \<Rightarrow> bool" where
  reach_new: "engine_reach (engine_new trusted denied)"
| reach_with_rulesets: "engine_reach (with_rulesets rs)"
| reach_add: "engine_reach e \<Longrightarrow> engine_reach (add_ruleset e r)"
| reach_remember: "engine_reach e \<Longrightarrow> engine_reach (remember_session_approval e key)"

lemma engine_reach_caches: "engine_reach e \<Longrightarrow> caches_ok e"
  by (induction rule: engine_reach.induct) (auto intro: inv_intros)

subsection \<open>Which commands are denied, which are trusted\<close>

definition rule_denies :: "str \<Rightarrow> str \<Rightarrow> bool" where
  "rule_denies rule c \<longleftrightarrow>
     (\<exists>segment\<in>set (command_segments c).
        deny_prefix_matches_normalized (dequote_for_deny (normalize_command rule))
          (normalize_deny_segment segment))"

definition all_denied :: "exec_policy_engine \<Rightarrow> str list" where
  "all_denied e = legacy_denied e @ concat (map denied_prefixes (rev (rulesets e)))"

definition all_trusted :: "exec_policy_engine \<Rightarrow> str list" where
  "all_trusted e = legacy_trusted e @ concat (map trusted_prefixes (rev (rulesets e)))"

lemma resolve_prefixes_all: "resolve_prefixes e = (all_trusted e, all_denied e)"
  by (simp add: resolve_prefixes_def all_trusted_def all_denied_def)

lemma find_zip_map: "map_option fst (find (\<lambda>(_, b). P b) (zip xs (map f xs))) = find (\<lambda>x. P (f x)) xs"
  by (induction xs) auto

lemma denied_rule_find:
  assumes "caches_ok e"
  shows "denied_rule e c = find (\<lambda>rule. rule_denies rule c) (all_denied e)"
proof (cases "all_denied e = []")
  case True
  with assms show ?thesis
    by (simp add: denied_rule_def caches_ok_def resolve_prefixes_all)
next
  case False
  with assms show ?thesis
    by (simp add: denied_rule_def caches_ok_def resolve_prefixes_all find_zip_map rule_denies_def
        list_ex_iff)
qed

lemma trusted_rule_find:
  assumes "caches_ok e"
  shows "trusted_rule e c = (if 1 < length (command_segments c) then None
           else find (\<lambda>rule. allow_rule_matches dict_new rule c) (all_trusted e))"
  using assms by (simp add: trusted_rule_def caches_ok_def resolve_prefixes_all)

lemma check_denied:
  "denied_rule e (ctx_command ctx) = Some rule \<Longrightarrow>
     \<not> allow (check e ctx) \<and> \<not> requires_approval (check e ctx)
     \<and> phase (requirement (check e ctx)) = ''forbidden'' \<and> matched_rule (check e ctx) = Some rule"
  by (simp add: check_def)

lemma find_concat_map:
  "find P (concat (map f xs)) = find_map (\<lambda>x. find P (f x)) xs"
  by (induction xs) (auto simp: find_append split: option.splits)

lemma sorted_rev_split_last:
  assumes "sorted (map k xs)" and "rev xs = us @ x # vs" and "y \<in> set xs" and "k x < k y"
  shows "y \<in> set us"
proof -
  have xs: "xs = rev vs @ x # rev us" using arg_cong [OF assms(2), of rev] by simp
  with assms(1) have "\<forall>v\<in>set vs. k v \<le> k x" by (auto simp: sorted_append)
  with xs assms(3,4) show ?thesis by auto
qed

text \<open>
  The first match in a search from the highest layer down: no ruleset of a higher layer has a
  match of its own.
\<close>

lemma find_map_highest_layer:
  assumes "sorted (map layer rs)" and "find_map f (rev rs) = Some y"
  shows "\<exists>r\<in>set rs. f r = Some y \<and> (\<forall>s\<in>set rs. layer r < layer s \<longrightarrow> f s = None)"
proof -
  obtain us r vs where split: "rev rs = us @ r # vs" "f r = Some y" "\<forall>u\<in>set us. f u = None"
    using find_map_split [OF assms(2)] by blast
  then have "r \<in> set rs" by (metis in_set_conv_decomp set_rev)
  moreover have "f s = None" if "s \<in> set rs" "layer r < layer s" for s
    using sorted_rev_split_last [OF assms(1) split(1) that] split(3) by blast
  ultimately show ?thesis using split(2) by blast
qed

lemma trusted_rule_SomeD:
  assumes "caches_ok e" and "trusted_rule e c = Some rule"
  shows "length (command_segments c) \<le> 1 \<and> rule \<in> set (all_trusted e) \<and> covers rule c
    \<and> \<not> executes_payload c"
  using assms arity.first_rule_covers arity.found_no_payload
  by (auto simp: trusted_rule_find split: if_splits)

subsection \<open>Segments and programs\<close>








text \<open>For evaluation: the searches of the two constructors without their dictionary.\<close>

lemma denied_rule_new: "denied_rule (engine_new trusted denied) c = find (\<lambda>rule. rule_denies rule c) denied"
  by (simp add: denied_rule_find [OF caches_ok_new])
    (simp add: all_denied_def engine_new_def engine_with_def rebuild_merged_prefixes_def resolve_prefixes_def)

lemma rulesets_with [simp]: "rulesets (with_rulesets rs) = sort_key layer rs"
  by (simp add: with_rulesets_def engine_with_def rebuild_merged_prefixes_def resolve_prefixes_def)

lemma legacy_with [simp]: "legacy_denied (with_rulesets rs) = []" "legacy_trusted (with_rulesets rs) = []"
  by (simp_all add: with_rulesets_def engine_with_def rebuild_merged_prefixes_def resolve_prefixes_def)

subsection \<open>Properties\<close>

text \<open>The invariant of the engine. Whatever sequence of constructors and operations built it,
  its caches are those of its rules, its rulesets are sorted by layer, and its dictionary is the
  built-in one, so \<open>check\<close> never reads a stale rule.\<close>

theorem reachable_engine_caches:
  "engine_reach e \<Longrightarrow> merged_trusted e = all_trusted e \<and> merged_denied e = all_denied e
     \<and> merged_denied_normalized e = map (\<lambda>rule. dequote_for_deny (normalize_command rule)) (all_denied e)
     \<and> sorted (map layer (rulesets e)) \<and> arity_dict e = dict_new"
  using engine_reach_caches by (simp add: caches_ok_def resolve_prefixes_all)

theorem reachable_engine_caches_witness:
  "merged_denied (add_ruleset (engine_new [] [''dd'']) (ruleset_agent [] [''rm''])) = [''dd'', ''rm'']"
  using reachable_engine_caches [OF reach_add, OF reach_new, of "[]" "[''dd'']" "ruleset_agent [] [''rm'']"]
  by (simp add: all_denied_def add_ruleset_def rebuild_merged_prefixes_def engine_new_def
      engine_with_def ruleset_agent_def resolve_prefixes_def)

text \<open>C2: deny always wins. If a deny rule of any layer (or of the legacy lists) matches any segment
  of the command, \<open>check\<close> forbids the command in every approval mode, whatever is trusted.\<close>

theorem deny_wins_in_every_mode:
  assumes "engine_reach e" and "rule \<in> set (all_denied e)" and "rule_denies rule (ctx_command ctx)"
  shows "\<not> allow (check e ctx) \<and> \<not> requires_approval (check e ctx)
    \<and> phase (requirement (check e ctx)) = ''forbidden''"
proof -
  obtain r where "denied_rule e (ctx_command ctx) = Some r"
    using assms find_not_None_iff denied_rule_find [OF engine_reach_caches] by metis
  from check_denied [OF this] show ?thesis by simp
qed

theorem deny_wins_in_every_mode_witness:
  "\<not> allow (check (with_rulesets [ruleset_user [''git status''] [], ruleset_agent [] [''rm'']])
     \<lparr>ctx_command = ''git status && /bin/r\"m\" -rf /'', ctx_cwd = ''/'', ctx_tool = None, ctx_path = None,
      ctx_ask_for_approval = OnFailure, ctx_sandbox_mode = None\<rparr>)"
proof (rule deny_wins_in_every_mode [where rule = "''rm''", THEN conjunct1, OF reach_with_rulesets])
  show "''rm'' \<in> set (all_denied (with_rulesets [ruleset_user [''git status''] [], ruleset_agent [] [''rm'']]))"
    by (simp add: all_denied_def ruleset_agent_def)
  have "rule_denies ''rm'' ''git status && /bin/r\"m\" -rf /''" by code_simp
  then show "rule_denies ''rm'' (ctx_command \<lparr>ctx_command = ''git status && /bin/r\"m\" -rf /'',
      ctx_cwd = ''/'', ctx_tool = None, ctx_path = None,
      ctx_ask_for_approval = OnFailure, ctx_sandbox_mode = None\<rparr>)"
    by simp
qed

text \<open>What an unprompted run rests on. When \<open>check\<close> skips the approval in the modes
  \<open>UnlessTrusted\<close> and \<open>Never\<close>, the command is a single segment, no deny rule of any
  layer matches it, and some trusted rule covers it (its words start the command's positional
  words) although it carries no executable payload.\<close>

theorem unprompted_runs_are_trusted:
  assumes "engine_reach e" and "ctx_ask_for_approval ctx \<in> {UnlessTrusted, Never}"
    and "allow (check e ctx)" and "\<not> requires_approval (check e ctx)"
  shows "length (command_segments (ctx_command ctx)) \<le> 1
    \<and> (\<forall>rule\<in>set (all_denied e). \<not> rule_denies rule (ctx_command ctx))
    \<and> (\<exists>rule\<in>set (all_trusted e). covers rule (ctx_command ctx))
    \<and> \<not> executes_payload (ctx_command ctx)"
proof -
  note ok = engine_reach_caches [OF assms(1)]
  have "denied_rule e (ctx_command ctx) = None"
    using assms(3) check_denied by (cases "denied_rule e (ctx_command ctx)") auto
  moreover from this assms(2-4) obtain rule where "trusted_rule e (ctx_command ctx) = Some rule"
    by (auto simp: check_def mode_requirement_def needs_approval_requirement_def Let_def
        split: option.splits if_splits)
  ultimately show ?thesis
    using trusted_rule_SomeD [OF ok] denied_rule_find [OF ok] by (auto simp: find_None_iff)
qed

theorem unprompted_runs_are_trusted_witness:
  "covers ''git status'' ''git status -s''"
proof -
  let ?e = "engine_new [''git status''] [''rm'']"
  let ?ctx = "\<lparr>ctx_command = ''git status -s'', ctx_cwd = ''/'', ctx_tool = None, ctx_path = None,
      ctx_ask_for_approval = UnlessTrusted, ctx_sandbox_mode = None\<rparr>"
  have "allow_rule_matches dict_new ''git status'' ''git status -s''"
    unfolding allow_rule_matches_new by code_simp
  moreover have "command_segments ''git status -s'' = [''git status -s'']"
    and "normalize_deny_segment ''git status -s'' = ''git status -s''"
    and "dequote_for_deny (normalize_command ''rm'') = ''rm''"
    and "\<not> deny_prefix_matches_normalized ''rm'' ''git status -s''"
    by code_simp+
  ultimately have "allow (check ?e ?ctx) \<and> \<not> requires_approval (check ?e ?ctx)"
    by (simp add: check_def engine_new_def rebuild_merged_prefixes_def engine_with_def
        resolve_prefixes_def denied_rule_def trusted_rule_def mode_requirement_def skip_requirement_def)
  then show ?thesis
    using unprompted_runs_are_trusted [of ?e ?ctx, OF reach_new]
    by (auto simp: all_trusted_def engine_new_def rebuild_merged_prefixes_def engine_with_def
        resolve_prefixes_def)
qed

text \<open>Attribution. The deny rule a decision reports belongs to the legacy lists or to a layer
  above which no ruleset has a matching deny rule.\<close>

theorem denied_rule_of_highest_layer:
  assumes "engine_reach e" and "denied_rule e c = Some rule"
  shows "rule_denies rule c \<and>
    (rule \<in> set (legacy_denied e)
     \<or> (\<exists>r\<in>set (rulesets e). rule \<in> set (denied_prefixes r)
          \<and> (\<forall>s\<in>set (rulesets e). layer r < layer s \<longrightarrow>
               (\<forall>d\<in>set (denied_prefixes s). \<not> rule_denies d c))))"
proof -
  note ok = engine_reach_caches [OF assms(1)]
  let ?P = "\<lambda>rule. rule_denies rule c"
  from assms(2) have f: "find ?P (all_denied e) = Some rule" by (simp add: denied_rule_find [OF ok])
  then have denies: "rule_denies rule c" using find_SomeD by fast
  show ?thesis
  proof (cases "find ?P (legacy_denied e)")
    case None
    with f have "find_map (\<lambda>r. find ?P (denied_prefixes r)) (rev (rulesets e)) = Some rule"
      by (simp add: all_denied_def find_append find_concat_map)
    from find_map_highest_layer [OF _ this] ok obtain r where "r \<in> set (rulesets e)"
      "find ?P (denied_prefixes r) = Some rule"
      "\<forall>s\<in>set (rulesets e). layer r < layer s \<longrightarrow> find ?P (denied_prefixes s) = None"
      by (auto simp: caches_ok_def)
    with denies show ?thesis by (auto simp: find_None_iff dest: find_SomeD)
  next
    case (Some r)
    with f have "r = rule" by (simp add: all_denied_def find_append)
    with Some denies show ?thesis by (auto dest: find_SomeD)
  qed
qed

theorem denied_rule_of_highest_layer_witness:
  "rule_denies ''rm'' ''ls; rm x''"
proof -
  let ?e = "with_rulesets [ruleset_agent [] [''rm'']]"
  have "rule_denies ''rm'' ''ls; rm x''" by code_simp
  then have "denied_rule ?e ''ls; rm x'' = Some ''rm''"
    by (simp add: denied_rule_find [OF caches_ok_with_rulesets] all_denied_def ruleset_agent_def)
  then show ?thesis using denied_rule_of_highest_layer [of ?e, OF reach_with_rulesets] by blast
qed

text \<open>Adding a ruleset of whatever layer never lets a denied command through: the set of denied
  commands only grows.\<close>

theorem add_ruleset_keeps_denials:
  assumes "engine_reach e" and "denied_rule e (ctx_command ctx) \<noteq> None"
  shows "\<not> allow (check (add_ruleset e r) ctx)"
proof -
  have "set (all_denied e) \<subseteq> set (all_denied (add_ruleset e r))"
    by (auto simp: all_denied_def add_ruleset_def rebuild_merged_prefixes_def split: prod.splits)
  then have "denied_rule (add_ruleset e r) (ctx_command ctx) \<noteq> None"
    using assms engine_reach_caches [OF reach_add] engine_reach_caches
    by (auto simp: denied_rule_find find_None_iff)
  then show ?thesis using check_denied by blast
qed

theorem add_ruleset_keeps_denials_witness:
  "\<not> allow (check (add_ruleset (engine_new [] [''rm'']) (ruleset_user [''rm''] []))
     \<lparr>ctx_command = ''rm x'', ctx_cwd = ''/'', ctx_tool = None, ctx_path = None,
      ctx_ask_for_approval = OnFailure, ctx_sandbox_mode = None\<rparr>)"
proof (rule add_ruleset_keeps_denials [OF reach_new])
  have "rule_denies ''rm'' ''rm x''" by code_simp
  then show "denied_rule (engine_new [] [''rm'']) (ctx_command \<lparr>ctx_command = ''rm x'', ctx_cwd = ''/'',
      ctx_tool = None, ctx_path = None, ctx_ask_for_approval = OnFailure, ctx_sandbox_mode = None\<rparr>) \<noteq> None"
    by (simp add: denied_rule_new)
qed












text \<open>Wrapper commands are recognised by their bare name only, before the reduction to the base
  name, and the flags of \<open>env\<close> are not skipped: under a deny rule for \<open>rm\<close>, the commands
  \<open>/usr/bin/env rm -rf /\<close> and \<open>env -i rm -rf /\<close> are not denied although
  \<open>env rm -rf /\<close> is.\<close>

theorem path_qualified_wrapper_evades_deny:
  "denied_rule (engine_new [] [''rm'']) ''env rm -rf /'' = Some ''rm''
   \<and> denied_rule (engine_new [] [''rm'']) ''/usr/bin/env rm -rf /'' = None
   \<and> denied_rule (engine_new [] [''rm'']) ''env -i rm -rf /'' = None"
  unfolding denied_rule_new by code_simp

text \<open>The typed ask rule that \<open>Never\<close> reports is the most specific applicable rule of the
  highest layer that has an applicable rule.\<close>

theorem ask_rule_of_highest_layer:
  assumes "engine_reach e" and "matching_ask_rule e ctx = Some rule"
  shows "\<exists>r\<in>set (rulesets e). rule \<in> set (ask_rules r) \<and> ask_rule_applies e ctx rule
    \<and> (\<forall>other\<in>set (ask_rules r). ask_rule_applies e ctx other
          \<longrightarrow> ask_rule_specificity other \<le> ask_rule_specificity rule)
    \<and> (\<forall>s\<in>set (rulesets e). layer r < layer s \<longrightarrow>
          (\<forall>other\<in>set (ask_rules s). \<not> ask_rule_applies e ctx other))"
proof -
  from assms(1) have "sorted (map layer (rulesets e))"
    using engine_reach_caches by (simp add: caches_ok_def)
  from find_map_highest_layer [OF this assms(2) [unfolded matching_ask_rule_def]]
  obtain r where r: "r \<in> set (rulesets e)"
    "max_by_key ask_rule_specificity (filter (ask_rule_applies e ctx) (ask_rules r)) = Some rule"
    "\<forall>s\<in>set (rulesets e). layer r < layer s \<longrightarrow> filter (ask_rule_applies e ctx) (ask_rules s) = []"
    by auto
  then show ?thesis
    using max_by_key_SomeD [OF r(2)] by (auto simp: filter_empty_conv intro!: bexI [of _ r])
qed

theorem ask_rule_of_highest_layer_witness:
  "ask_rule_specificity (ask_rule_new ''edit_file'')
     \<le> ask_rule_specificity (ask_rule_file_path ''edit_file'' ''src/a.rs'')"
proof -
  let ?e = "with_rulesets [with_ask_rules (ruleset_user [] [])
     [ask_rule_new ''edit_file'', ask_rule_file_path ''edit_file'' ''src/a.rs'']]"
  let ?ctx = "\<lparr>ctx_command = [], ctx_cwd = ''/'', ctx_tool = Some ''edit_file'', ctx_path = Some ''/src/A.rs'',
      ctx_ask_for_approval = Never, ctx_sandbox_mode = None\<rparr>"
  have p: "normalize_path_value ''src/a.rs'' = normalize_path_value ''/src/A.rs''" by code_simp
  have s: "ask_rule_specificity \<lparr>tool = ''edit_file'', command = None, path = None\<rparr>
     \<le> ask_rule_specificity \<lparr>tool = ''edit_file'', command = None, path = Some ''src/a.rs''\<rparr>"
    by code_simp
  have m: "matching_ask_rule ?e ?ctx = Some (ask_rule_file_path ''edit_file'' ''src/a.rs'')"
    by (simp add: matching_ask_rule_def ask_rule_applies_def with_ask_rules_def ruleset_user_def
        ask_rule_new_def ask_rule_file_path_def p s)
  from ask_rule_of_highest_layer [OF reach_with_rulesets m] show ?thesis
    by (simp add: with_ask_rules_def ask_rule_applies_def ask_rule_new_def ask_rule_file_path_def p
        ruleset_user_def)
qed

end
