(* ===== verification/Ip_Address.thy ===== *)
theory Ip_Address
  imports Prelude "HOL-Library.Word"
begin

section \<open>IP addresses of Rust's standard library\<close>

text \<open>
  The parser of \<open>std::net\<close> as the program uses it: dotted quads without leading zeros, and
  IPv6 groups with \<open>::\<close> and an embedded IPv4 tail. A reader takes the remaining input and
  returns a value with what is left, or \<open>None\<close> (which restores the input). An
  \<open>Ipv4Addr\<close> is its \<open>u32\<close>; an \<open>Ipv6Addr\<close> is the list of its eight groups.
\<close>

datatype ip_addr = V4 "32 word" | V6 "int list"

definition hex_letter_val :: "char \<Rightarrow> nat option" where
  "hex_letter_val c = map_of (zip ''abcdef'' [10..<16]) (lower_byte c)"

definition to_digit :: "int \<Rightarrow> char \<Rightarrow> int option" where
  "to_digit radix c = (case digit_val c of Some d \<Rightarrow> Some (int d)
     | None \<Rightarrow> if radix = 16 then map_option int (hex_letter_val c) else None)"

text \<open>The digit loop of \<open>read_number\<close>, with overflow beyond \<open>bound\<close> and the digit limit.\<close>

fun read_digits :: "int \<Rightarrow> nat \<Rightarrow> int \<Rightarrow> int \<Rightarrow> nat \<Rightarrow> str \<Rightarrow> (int \<times> nat \<times> str) option" where
  "read_digits radix limit bound acc count [] = Some (acc, count, [])"
| "read_digits radix limit bound acc count (c # s) =
     (case to_digit radix c of
        None \<Rightarrow> Some (acc, count, c # s)
      | Some d \<Rightarrow>
          if bound < acc * radix + d \<or> limit < Suc count then None
          else read_digits radix limit bound (acc * radix + d) (Suc count) s)"

definition read_number :: "int \<Rightarrow> nat \<Rightarrow> int \<Rightarrow> bool \<Rightarrow> str \<Rightarrow> (int \<times> str) option" where
  "read_number radix limit bound allow_zero_prefix s =
     (case read_digits radix limit bound 0 0 s of
        None \<Rightarrow> None
      | Some (v, count, r) \<Rightarrow>
          if count = 0 \<or> \<not> allow_zero_prefix \<and> starts_with s ''0'' \<and> 1 < count then None
          else Some (v, r))"

definition read_char :: "char \<Rightarrow> str \<Rightarrow> str option" where
  "read_char c s = (case s of [] \<Rightarrow> None | d # r \<Rightarrow> if d = c then Some r else None)"

definition read_octet :: "bool \<Rightarrow> str \<Rightarrow> (int \<times> str) option" where
  "read_octet first s =
     (case (if first then Some s else read_char (CHR ''.'') s) of
        None \<Rightarrow> None | Some r \<Rightarrow> read_number 10 3 255 False r)"

definition ipv4_of :: "int \<Rightarrow> int \<Rightarrow> int \<Rightarrow> int \<Rightarrow> 32 word" where
  "ipv4_of a b c d = word_of_int (a * 2 ^ 24 + b * 2 ^ 16 + c * 2 ^ 8 + d)"

definition read_ipv4_octets :: "str \<Rightarrow> ((int \<times> int \<times> int \<times> int) \<times> str) option" where
  "read_ipv4_octets s =
     (case read_octet True s of None \<Rightarrow> None | Some (a, s) \<Rightarrow>
     (case read_octet False s of None \<Rightarrow> None | Some (b, s) \<Rightarrow>
     (case read_octet False s of None \<Rightarrow> None | Some (c, s) \<Rightarrow>
     (case read_octet False s of None \<Rightarrow> None | Some (d, s) \<Rightarrow> Some ((a, b, c, d), s)))))"

definition parse_ipv4 :: "str \<Rightarrow> 32 word option" where
  "parse_ipv4 s =
     (if 15 < length s then None
      else case read_ipv4_octets s of
        Some ((a, b, c, d), []) \<Rightarrow> Some (ipv4_of a b c d)
      | _ \<Rightarrow> None)"

text \<open>\<open>read_groups\<close>: up to \<open>n\<close> groups; the flag says an IPv4 tail was read.\<close>

fun read_groups :: "bool \<Rightarrow> nat \<Rightarrow> str \<Rightarrow> int list \<times> bool \<times> str" where
  "read_groups first 0 s = ([], False, s)"
| "read_groups first (Suc n) s =
     (let body = (if first then Some s else read_char (CHR '':'') s);
          v4 = (if 0 < n then (case body of None \<Rightarrow> None | Some r \<Rightarrow> read_ipv4_octets r) else None);
          group = (case body of None \<Rightarrow> None | Some r \<Rightarrow> read_number 16 4 65535 True r)
      in case v4 of
           Some ((a, b, c, d), r) \<Rightarrow> ([a * 256 + b, c * 256 + d], True, r)
         | None \<Rightarrow>
             (case group of
                None \<Rightarrow> ([], False, s)
              | Some (g, r) \<Rightarrow>
                  (let (gs, v4, r') = read_groups False n r in (g # gs, v4, r'))))"

definition parse_ipv6 :: "str \<Rightarrow> int list option" where
  "parse_ipv6 s =
     (let (head, head_v4, r) = read_groups True 8 s
      in if length head = 8 then (if r = [] then Some head else None)
         else if head_v4 then None
         else if \<not> starts_with r ''::'' then None
         else (let (tail, _, r') = read_groups True (8 - (length head + 1)) (drop 2 r)
               in if r' = []
                  then Some (head @ replicate (8 - length head - length tail) 0 @ tail) else None))"

definition parse_ip :: "str \<Rightarrow> ip_addr option" where
  "parse_ip s =
     (case read_ipv4_octets s of
        Some ((a, b, c, d), r) \<Rightarrow> if r = [] then Some (V4 (ipv4_of a b c d)) else None
      | None \<Rightarrow> map_option V6 (parse_ipv6 s))"

definition ipv4_is_loopback :: "32 word \<Rightarrow> bool" where
  "ipv4_is_loopback ip \<longleftrightarrow> drop_bit 24 ip = 127"

definition ipv6_is_loopback :: "int list \<Rightarrow> bool" where
  "ipv6_is_loopback gs \<longleftrightarrow> gs = [0, 0, 0, 0, 0, 0, 0, 1]"

definition ipv6_to_ipv4_mapped :: "int list \<Rightarrow> 32 word option" where
  "ipv6_to_ipv4_mapped gs =
     (if length gs = 8 \<and> take 6 gs = [0, 0, 0, 0, 0, 65535]
      then Some (word_of_int (gs ! 6 * 2 ^ 16 + gs ! 7)) else None)"

text \<open>\<open>Ipv4Addr\<close>'s \<open>Display\<close>.\<close>

definition show_ipv4 :: "nat \<Rightarrow> nat \<Rightarrow> nat \<Rightarrow> nat \<Rightarrow> str" where
  "show_ipv4 a b c d = show_nat a @ ''.'' @ show_nat b @ ''.'' @ show_nat c @ ''.'' @ show_nat d"

subsection \<open>Printing and parsing dotted quads\<close>

lemma to_digit_nth: "d < 10 \<Longrightarrow> to_digit radix (digit_chars ! d) = Some (int d)"
  by (simp add: to_digit_def digit_val_nth)

lemma show_nat_length: "n < 1000 \<Longrightarrow> length (show_nat n) \<le> 3"
  by (simp add: show_nat.simps [of n] show_nat.simps [of "n div 10"] show_nat.simps [of "n div 10 div 10"])

lemma show_nat_no_zero: "10 \<le> n \<Longrightarrow> \<not> starts_with (show_nat n @ r) ''0''"
proof (induction n arbitrary: r rule: show_nat.induct)
  case (1 n)
  have nz: "digit_chars ! d \<noteq> CHR ''0''" if "0 < d" "d < 10" for d
  proof
    assume z: "digit_chars ! d = CHR ''0''"
    have "digit_val (CHR ''0'') = Some 0" by code_simp
    with digit_val_nth [OF that(2)] z that(1) show False by simp
  qed
  show ?case
  proof (cases "10 \<le> n div 10")
    case True
    with 1 show ?thesis by (simp add: show_nat.simps [of n])
  next
    case False
    with 1(2) nz [of "n div 10"] show ?thesis
      by (simp add: show_nat.simps [of n] show_nat.simps [of "n div 10"] div_greater_zero_iff eq_commute)
  qed
qed

lemma read_digits_show:
  assumes "acc * 10 ^ length (show_nat n) + int n \<le> bound" and "k + length (show_nat n) \<le> limit" and "0 \<le> acc"
  shows "read_digits 10 limit bound acc k (show_nat n @ r)
    = read_digits 10 limit bound (acc * 10 ^ length (show_nat n) + int n) (k + length (show_nat n)) r"
  using assms
proof (induction n arbitrary: acc k r bound rule: show_nat.induct)
  case (1 n)
  show ?case
  proof (cases "n < 10")
    case True
    with 1 show ?thesis by (simp add: show_nat.simps [of n] to_digit_nth)
  next
    case False
    let ?m = "n div 10" and ?d = "n mod 10"
    have s: "show_nat n = show_nat ?m @ [digit_chars ! ?d]" using False by (simp add: show_nat.simps [of n])
    have n: "int n = int ?m * 10 + int ?d" by presburger
    define a where "a = acc * 10 ^ length (show_nat ?m) + int ?m"
    have total: "acc * 10 ^ length (show_nat n) + int n = a * 10 + int ?d"
      unfolding s n a_def by (simp add: algebra_simps)
    have "0 \<le> a" using 1(4) by (simp add: a_def)
    moreover have "a * 10 + int ?d \<le> bound" using 1(2) total by simp
    ultimately have "a \<le> bound" using of_nat_0_le_iff [of ?d] by linarith
    then have "read_digits 10 limit bound acc k (show_nat ?m @ digit_chars ! ?d # r)
        = read_digits 10 limit bound a (k + length (show_nat ?m)) (digit_chars ! ?d # r)"
      unfolding a_def using 1 False by (intro 1(1)) (auto simp: s)
    then show ?thesis
      using 1(2,3) total by (simp add: s to_digit_nth)
  qed
qed

lemma read_octet_show:
  assumes "n < 256" and "r = [] \<or> hd r = CHR ''.''"
  shows "read_octet True (show_nat n @ r) = Some (int n, r)"
    and "read_octet False (CHR ''.'' # show_nat n @ r) = Some (int n, r)"
proof -
  have dot: "to_digit 10 (CHR ''.'') = None" by code_simp
  have stop: "read_digits 10 3 255 (int n) (length (show_nat n)) r = Some (int n, length (show_nat n), r)"
    using assms(2) dot by (cases r) auto
  have "length (show_nat n) \<le> 3" using assms(1) show_nat_length by simp
  then have "read_digits 10 3 255 0 0 (show_nat n @ r) = Some (int n, length (show_nat n), r)"
    using read_digits_show [of 0 n 255 0 3 r] assms(1) stop by simp
  moreover have "\<not> starts_with (show_nat n @ r) ''0'' \<or> length (show_nat n) = 1"
  proof (cases "n < 10")
    case True
    then show ?thesis by (simp add: show_nat.simps [of n])
  next
    case False
    then show ?thesis using show_nat_no_zero [of n r] by simp
  qed
  ultimately have "read_number 10 3 255 False (show_nat n @ r) = Some (int n, r)"
    by (auto simp: read_number_def)
  then show "read_octet True (show_nat n @ r) = Some (int n, r)"
    and "read_octet False (CHR ''.'' # show_nat n @ r) = Some (int n, r)"
    by (simp_all add: read_octet_def read_char_def)
qed

lemma read_ipv4_show:
  assumes "a < 256" "b < 256" "c < 256" "d < 256"
  shows "read_ipv4_octets (show_ipv4 a b c d) = Some ((int a, int b, int c, int d), [])"
  using assms read_octet_show(2) [of d "[]"]
  by (simp add: read_ipv4_octets_def show_ipv4_def read_octet_show)

lemma parse_ip_show:
  assumes "a < 256" "b < 256" "c < 256" "d < 256"
  shows "parse_ip (show_ipv4 a b c d) = Some (V4 (ipv4_of (int a) (int b) (int c) (int d)))"
  by (simp add: parse_ip_def read_ipv4_show [OF assms])

lemma ipv4_loopback_octet:
  assumes "a < 256" "b < 256" "c < 256" "d < 256"
  shows "ipv4_is_loopback (ipv4_of (int a) (int b) (int c) (int d)) \<longleftrightarrow> a = 127"
proof -
  define n where "n = int a * 2 ^ 24 + int b * 2 ^ 16 + int c * 2 ^ 8 + int d"
  have low: "0 \<le> int b * 2 ^ 16 + int c * 2 ^ 8 + int d" "int b * 2 ^ 16 + int c * 2 ^ 8 + int d < 2 ^ 24"
    using assms by auto
  then have "n < 2 ^ 32" "0 \<le> n" using assms by (auto simp: n_def)
  then have u: "uint (word_of_int n :: 32 word) = n"
    by (simp add: uint_word_of_int)
  have "n div 2 ^ 24 = int a" using low assms unfolding n_def by simp
  then have "uint (drop_bit 24 (word_of_int n :: 32 word)) = int a"
    by (simp add: drop_bit_eq_div uint_div_distrib u)
  moreover have "ipv4_of (int a) (int b) (int c) (int d) = word_of_int n"
    by (simp add: ipv4_of_def n_def)
  ultimately have "uint (drop_bit 24 (ipv4_of (int a) (int b) (int c) (int d))) = int a"
    by simp
  then show ?thesis
    by (simp add: ipv4_is_loopback_def word_uint_eq_iff)
qed

end
