(* ===== verification/NetworkPolicy.thy ===== *)
theory NetworkPolicy
  imports Ip_Address Text_Lemmas
begin

unbundle bit_operations_syntax

section \<open>The per-domain network policy (crates/sandbox/src/network_policy.rs)\<close>

text \<open>
  Host normalisation and matching, the policy with deny-wins precedence, the fake-IP ranges,
  the audit log, the session cache and the decider that combines them. The cache sits behind
  a mutex that every operation takes once; here it is a value that each operation of the
  decider returns updated. The audit file is the list of its lines; the clock and the outcome
  of a write come from the environment \<open>audit_env\<close>.
\<close>

subsection \<open>Data\<close>

datatype decision = Allow | Deny | Prompt

datatype decision_toml = TomlAllow | TomlDeny | TomlPrompt

fun decision_of_toml :: "decision_toml \<Rightarrow> decision" where
  "decision_of_toml TomlAllow = Allow"
| "decision_of_toml TomlDeny = Deny"
| "decision_of_toml TomlPrompt = Prompt"

fun toml_of_decision :: "decision \<Rightarrow> decision_toml" where
  "toml_of_decision Allow = TomlAllow"
| "toml_of_decision Deny = TomlDeny"
| "toml_of_decision Prompt = TomlPrompt"

fun decision_as_str :: "decision \<Rightarrow> str" where
  "decision_as_str Allow = ''Allow''"
| "decision_as_str Deny = ''Deny''"
| "decision_as_str Prompt = ''Prompt''"

definition decision_parse :: "str \<Rightarrow> decision" where
  "decision_parse value =
     (let v = to_ascii_lowercase (trim value)
      in if v = ''allow'' then Allow
         else if v = ''deny'' \<or> v = ''block'' then Deny
         else Prompt)"

record network_policy =
  default_decision :: decision_toml
  allow_hosts :: "str list"
  deny_hosts :: "str list"
  proxy_hosts :: "str list"
  audit :: bool

definition network_policy_default :: network_policy where
  "network_policy_default =
     \<lparr>default_decision = TomlPrompt, allow_hosts = [], deny_hosts = [], proxy_hosts = [], audit = True\<rparr>"

record network_auditor =
  audit_path :: str
  audit_on :: bool
  audit_lines :: "str list"

record audit_env =
  now_rfc3339 :: str
  write_ok :: bool

record session_cache =
  approved :: "str set"
  denied :: "str set"

record network_decider =
  net_policy :: network_policy
  net_cache :: session_cache
  net_auditor :: "network_auditor option"
  trusted_fakeip_cidrs :: "(32 word \<times> nat) list"

datatype approval_requirement = Auto | Suggest | Required

subsection \<open>Hosts\<close>

definition normalize_host :: "str \<Rightarrow> str" where
  "normalize_host host =
     (let trimmed = to_ascii_lowercase (trim_end_chars [CHR ''.''] (trim host))
      in case strip_prefix ''*.'' trimmed of
           Some rest \<Rightarrow> ''.'' @ rest
         | None \<Rightarrow> trimmed)"

definition host_matches :: "str \<Rightarrow> str \<Rightarrow> bool" where
  "host_matches entry normalized_host =
     (let entry_norm = normalize_host entry
      in case strip_prefix ''.'' entry_norm of
           Some suff \<Rightarrow> if suff = [] then False else ends_with normalized_host (''.'' @ suff)
         | None \<Rightarrow> entry_norm = normalized_host)"

definition is_loopback_host :: "str \<Rightarrow> bool" where
  "is_loopback_host host =
     (let trimmed = trim_end_chars [CHR ''.''] (trim host);
          unbracketed = (case strip_prefix ''['' trimmed of None \<Rightarrow> None | Some h \<Rightarrow> strip_suffix '']'' h);
          normalized = to_ascii_lowercase (case unbracketed of None \<Rightarrow> trimmed | Some h \<Rightarrow> h)
      in if normalized = ''localhost'' then True
         else case parse_ip normalized of
                Some (V4 v4) \<Rightarrow> ipv4_is_loopback v4
              | Some (V6 v6) \<Rightarrow>
                  ipv6_is_loopback v6
                  \<or> (case ipv6_to_ipv4_mapped v6 of Some v4 \<Rightarrow> ipv4_is_loopback v4 | None \<Rightarrow> False)
              | None \<Rightarrow> False)"

definition authority_is_loopback :: "str \<Rightarrow> bool" where
  "authority_is_loopback authority =
     (let host_part = last (split_char (CHR ''@'') authority);
          host = (case strip_prefix ''['' host_part of
                    Some rest \<Rightarrow> before_char (CHR '']'') rest
                  | None \<Rightarrow> before_char (CHR '':'') host_part)
      in is_loopback_host host)"

subsection \<open>The policy\<close>

definition decide :: "network_policy \<Rightarrow> str \<Rightarrow> decision" where
  "decide p host =
     (let normalized = normalize_host host
      in if normalized = [] then decision_of_toml (default_decision p)
         else if list_ex (\<lambda>entry. host_matches entry normalized) (deny_hosts p) then Deny
         else if list_ex (\<lambda>entry. host_matches entry normalized) (allow_hosts p) then Allow
         else decision_of_toml (default_decision p))"

definition add_allow :: "network_policy \<Rightarrow> str \<Rightarrow> network_policy" where
  "add_allow p host =
     (let normalized = normalize_host host
      in if normalized = [] then p
         else if \<not> list_ex (\<lambda>existing. normalize_host existing = normalized) (allow_hosts p)
         then p\<lparr>allow_hosts := allow_hosts p @ [normalized]\<rparr>
         else p)"

definition audit_enabled :: "network_policy \<Rightarrow> bool" where
  "audit_enabled p = audit p"

definition policy_trusts_proxy_fakeip_host :: "network_policy \<Rightarrow> str \<Rightarrow> bool" where
  "policy_trusts_proxy_fakeip_host p host =
     (let normalized = normalize_host host
      in if normalized = [] then False
         else if list_ex (\<lambda>entry. host_matches entry normalized) (deny_hosts p) then False
         else list_ex (\<lambda>entry. host_matches entry normalized) (proxy_hosts p))"

subsection \<open>IPv4 ranges\<close>

definition parse_ipv4_cidr :: "str \<Rightarrow> (32 word \<times> nat) option" where
  "parse_ipv4_cidr cidr =
     (case split_once (CHR ''/'') cidr of
        None \<Rightarrow> None
      | Some (addr, prefix_text) \<Rightarrow>
          (case parse_ipv4 (trim addr) of
             None \<Rightarrow> None
           | Some base \<Rightarrow>
               (case parse_uint 8 (trim prefix_text) of
                  None \<Rightarrow> None
                | Some prefix_len \<Rightarrow> if 32 < prefix_len then None else Some (base, prefix_len))))"

text \<open>Called with prefix lengths up to 32, which \<open>parse_ipv4_cidr\<close> guarantees.\<close>

definition ipv4_in_cidr :: "32 word \<Rightarrow> 32 word \<Rightarrow> nat \<Rightarrow> bool" where
  "ipv4_in_cidr ip base prefix_len =
     (if prefix_len = 0 then True
      else (let mask = push_bit (32 - prefix_len) (- 1 :: 32 word)
            in ip AND mask = base AND mask))"

definition RESTRICTED_FAKEIP_RANGES :: "(32 word \<times> nat) list" where
  "RESTRICTED_FAKEIP_RANGES =
     [(ipv4_of 0 0 0 0, 8), (ipv4_of 10 0 0 0, 8), (ipv4_of 100 64 0 0, 10), (ipv4_of 127 0 0 0, 8),
      (ipv4_of 169 254 0 0, 16), (ipv4_of 172 16 0 0, 12), (ipv4_of 192 168 0 0, 16)]"

definition cidr_overlaps_restricted_range :: "32 word \<Rightarrow> nat \<Rightarrow> bool" where
  "cidr_overlaps_restricted_range base prefix_len =
     list_ex (\<lambda>(restricted, rprefix). ipv4_in_cidr base restricted (min prefix_len rprefix))
       RESTRICTED_FAKEIP_RANGES"

subsection \<open>The audit log\<close>

definition auditor_new :: "str \<Rightarrow> bool \<Rightarrow> network_auditor" where
  "auditor_new path enabled = \<lparr>audit_path = path, audit_on = enabled, audit_lines = []\<rparr>"

text \<open>\<open>codesmith_home\<close> is the home directory, if it can be resolved.\<close>

definition auditor_default_path :: "str option \<Rightarrow> bool \<Rightarrow> network_auditor option" where
  "auditor_default_path codesmith_home enabled =
     map_option (\<lambda>home. auditor_new (home @ ''/audit.log'') enabled) codesmith_home"

text \<open>Each white-space scalar becomes one underscore.\<close>

function sanitize_field :: "str \<Rightarrow> str" where
  "sanitize_field [] = []"
| "sanitize_field (c # s) =
     (if 0 < ws_len (c # s) then CHR ''_'' # sanitize_field (drop (ws_len (c # s)) (c # s))
      else c # sanitize_field s)"
  by pat_completeness auto
termination
  by (relation "measure length") auto

definition audit_line :: "str \<Rightarrow> str \<Rightarrow> str \<Rightarrow> str \<Rightarrow> str" where
  "audit_line ts host tool decision_label =
     ts @ '' network '' @ sanitize_field host @ '' '' @ sanitize_field tool @ '' '' @ decision_label"

definition auditor_record :: "audit_env \<Rightarrow> network_auditor \<Rightarrow> str \<Rightarrow> str \<Rightarrow> str \<Rightarrow> network_auditor" where
  "auditor_record env a host tool decision_label =
     (if \<not> audit_on a then a
      else if write_ok env
      then a\<lparr>audit_lines := audit_lines a @ [audit_line (now_rfc3339 env) host tool decision_label]\<rparr>
      else a)"

subsection \<open>The session cache\<close>

definition cache_new :: session_cache where
  "cache_new = \<lparr>approved = {}, denied = {}\<rparr>"

definition cache_is_approved :: "session_cache \<Rightarrow> str \<Rightarrow> bool" where
  "cache_is_approved c host \<longleftrightarrow> normalize_host host \<in> approved c"

definition cache_is_denied :: "session_cache \<Rightarrow> str \<Rightarrow> bool" where
  "cache_is_denied c host \<longleftrightarrow> normalize_host host \<in> denied c"

definition cache_approve :: "session_cache \<Rightarrow> str \<Rightarrow> session_cache" where
  "cache_approve c host =
     (let normalized = normalize_host host
      in c\<lparr>denied := denied c - {normalized}, approved := insert normalized (approved c)\<rparr>)"

definition cache_deny :: "session_cache \<Rightarrow> str \<Rightarrow> session_cache" where
  "cache_deny c host =
     (let normalized = normalize_host host
      in c\<lparr>approved := approved c - {normalized}, denied := insert normalized (denied c)\<rparr>)"

subsection \<open>The decider\<close>

definition decider_new :: "network_policy \<Rightarrow> network_auditor option \<Rightarrow> network_decider" where
  "decider_new p a =
     \<lparr>net_policy = p, net_cache = cache_new, net_auditor = a, trusted_fakeip_cidrs = []\<rparr>"

fun with_trusted_fakeip_cidrs :: "network_decider \<Rightarrow> str list \<Rightarrow> network_decider" where
  "with_trusted_fakeip_cidrs d [] = d"
| "with_trusted_fakeip_cidrs d (cidr # cidrs) =
     (case parse_ipv4_cidr cidr of
        None \<Rightarrow> with_trusted_fakeip_cidrs d cidrs
      | Some (base, prefix_len) \<Rightarrow>
          if cidr_overlaps_restricted_range base prefix_len then with_trusted_fakeip_cidrs d cidrs
          else with_trusted_fakeip_cidrs
                 (d\<lparr>trusted_fakeip_cidrs := trusted_fakeip_cidrs d @ [(base, prefix_len)]\<rparr>) cidrs)"

fun is_trusted_fakeip_addr :: "network_decider \<Rightarrow> ip_addr \<Rightarrow> bool" where
  "is_trusted_fakeip_addr d (V4 v4) =
     list_ex (\<lambda>(base, prefix_len). ipv4_in_cidr v4 base prefix_len) (trusted_fakeip_cidrs d)"
| "is_trusted_fakeip_addr d (V6 _) = False"

definition with_default_audit :: "str option \<Rightarrow> network_policy \<Rightarrow> network_decider" where
  "with_default_audit codesmith_home p =
     decider_new p (if audit_enabled p then auditor_default_path codesmith_home True else None)"

definition audit_record :: "audit_env \<Rightarrow> network_decider \<Rightarrow> str \<Rightarrow> str \<Rightarrow> str \<Rightarrow> network_decider" where
  "audit_record env d host tool decision_label =
     (case net_auditor d of
        None \<Rightarrow> d
      | Some a \<Rightarrow> d\<lparr>net_auditor := Some (auditor_record env a host tool decision_label)\<rparr>)"

definition evaluate :: "audit_env \<Rightarrow> network_decider \<Rightarrow> str \<Rightarrow> str \<Rightarrow> decision \<times> network_decider" where
  "evaluate env d host tool =
     (let normalized = normalize_host host
      in if normalized = [] then (decision_of_toml (default_decision (net_policy d)), d)
         else if cache_is_denied (net_cache d) normalized
         then (Deny, audit_record env d normalized tool ''Deny'')
         else if cache_is_approved (net_cache d) normalized
         then (Allow, audit_record env d normalized tool ''Allow'')
         else (case decide (net_policy d) normalized of
                 Allow \<Rightarrow> (Allow, audit_record env d normalized tool ''Allow'')
               | Deny \<Rightarrow> (Deny, audit_record env d normalized tool ''Deny'')
               | Prompt \<Rightarrow> (Prompt, d)))"

definition approve_session :: "audit_env \<Rightarrow> network_decider \<Rightarrow> str \<Rightarrow> str \<Rightarrow> network_decider" where
  "approve_session env d host tool =
     audit_record env (d\<lparr>net_cache := cache_approve (net_cache d) host\<rparr>) host tool ''Prompt-Approved''"

definition deny_session :: "audit_env \<Rightarrow> network_decider \<Rightarrow> str \<Rightarrow> str \<Rightarrow> network_decider" where
  "deny_session env d host tool =
     audit_record env (d\<lparr>net_cache := cache_deny (net_cache d) host\<rparr>) host tool ''Prompt-Denied''"

definition approve_persistent ::
  "audit_env \<Rightarrow> network_decider \<Rightarrow> str \<Rightarrow> str \<Rightarrow> network_policy \<times> network_decider" where
  "approve_persistent env d host tool =
     (let d' = audit_record env
                 (d\<lparr>net_policy := add_allow (net_policy d) host,
                    net_cache := cache_approve (net_cache d) host\<rparr>) host tool ''Prompt-Approved''
      in (net_policy d', d'))"

definition trusts_proxy_fakeip_host :: "network_decider \<Rightarrow> str \<Rightarrow> bool" where
  "trusts_proxy_fakeip_host d host = policy_trusts_proxy_fakeip_host (net_policy d) host"

definition record_trusted_proxy_fakeip_allow ::
  "audit_env \<Rightarrow> network_decider \<Rightarrow> str \<Rightarrow> str \<Rightarrow> network_decider" where
  "record_trusted_proxy_fakeip_allow env d host tool =
     audit_record env d host tool ''TrustedProxyFakeIp-Allow''"

text \<open>
  The approval gate evaluates the host, and so may write an audit line; it returns the decider
  with the requirement.
\<close>

definition network_approval_requirement ::
  "audit_env \<Rightarrow> network_decider option \<Rightarrow> str \<Rightarrow> str \<Rightarrow> approval_requirement \<times> network_decider option" where
  "network_approval_requirement env decider host tool =
     (case decider of
        None \<Rightarrow> (Auto, None)
      | Some d \<Rightarrow>
          (let (decided, d') = evaluate env d host tool
           in (case decided of Prompt \<Rightarrow> Required | Allow \<Rightarrow> Auto | Deny \<Rightarrow> Auto, Some d')))"

subsection \<open>Hosts without white space\<close>

lemma trim_end_chars_prefix: "prefix (trim_end_chars cs s) s"
  by (metis trim_end_chars_def suffix_dropWhile suffix_to_prefix rev_rev_ident)

lemma trim_end_chars_fix: "s = [] \<or> last s \<notin> set cs \<Longrightarrow> trim_end_chars cs s = s"
  by (cases s rule: rev_cases) (auto simp: trim_end_chars_def)

lemma trim_end_chars_last: "trim_end_chars cs s = [] \<or> last (trim_end_chars cs s) \<notin> set cs"
  by (metis (no_types, lifting) trim_end_chars_def hd_dropWhile last_rev rev_is_Nil_conv)

lemma normalize_host_shape:
  assumes "no_ws h"
  defines "t \<equiv> to_ascii_lowercase (trim_end_chars [CHR ''.''] h)"
  shows "normalize_host h = (if starts_with t ''*.'' then drop 1 t else t)"
proof -
  have "''.'' @ drop (length ''*.'') t = drop 1 t" if "starts_with t ''*.''"
    using that by (auto simp: prefix_def)
  with assms show ?thesis
    by (simp add: normalize_host_def trim_no_ws strip_prefix_def Let_def)
qed

lemma normalize_host_no_ws: "no_ws h \<Longrightarrow> no_ws (normalize_host h)"
  using no_ws_prefix [OF trim_end_chars_prefix [of "[CHR ''.'']" h]] no_ws_drop
  by (auto simp: normalize_host_shape)

text \<open>Normalising twice is normalising once.\<close>

lemma lower_byte_dot: "lower_byte c = CHR ''.'' \<longleftrightarrow> c = CHR ''.''"
  by (rule lower_byte_other) code_simp+

lemma normalize_host_idem:
  assumes "no_ws h"
  shows "normalize_host (normalize_host h) = normalize_host h"
proof -
  let ?s = "trim_end_chars [CHR ''.''] h"
  let ?t = "to_ascii_lowercase ?s"
  have last_t: "?t = [] \<or> last ?t \<noteq> CHR ''.''"
    using trim_end_chars_last [of "[CHR ''.'']" h]
    by (cases "?s = []") (auto simp: to_ascii_lowercase_def last_map lower_byte_dot)
  note n = normalize_host_shape [OF assms]
  have ws: "trim (normalize_host h) = normalize_host h"
    using assms normalize_host_no_ws trim_no_ws by blast
  have low: "to_ascii_lowercase (normalize_host h) = normalize_host h"
    by (simp add: n drop_lower)
  have dot: "trim_end_chars [CHR ''.''] (normalize_host h) = normalize_host h"
    using last_t by (auto simp: n intro!: trim_end_chars_fix simp del: drop_Suc)
  have "\<not> starts_with (normalize_host h) ''*.''"
    by (auto simp: n prefix_def)
  with ws low dot show ?thesis
    by (simp add: normalize_host_def [of "normalize_host h"] strip_prefix_def)
qed

subsection \<open>IPv4 ranges by their bits\<close>

lemma ipv4_in_cidr_bits:
  assumes "p \<le> 32"
  shows "ipv4_in_cidr ip base p \<longleftrightarrow> (\<forall>n. 32 - p \<le> n \<longrightarrow> n < 32 \<longrightarrow> bit ip n = bit base n)"
proof (cases "p = 0")
  case False
  then show ?thesis
    by (simp add: ipv4_in_cidr_def Let_def bit_eq_iff bit_simps) (use assms in force)
qed (simp add: ipv4_in_cidr_def)

lemma in_cidr_trans:
  assumes "p \<le> 32" "r \<le> 32" "ipv4_in_cidr ip base p" "ipv4_in_cidr ip rng r"
  shows "ipv4_in_cidr base rng (min p r)"
  using assms by (auto simp: ipv4_in_cidr_bits min_def)

lemma in_cidr_self [simp]: "ipv4_in_cidr base base p"
  by (simp add: ipv4_in_cidr_def)

text \<open>Two ranges share an address exactly when they agree on the shorter prefix.\<close>

lemma cidrs_overlap_iff:
  assumes "p \<le> 32" "r \<le> 32"
  shows "ipv4_in_cidr base rng (min p r)
    \<longleftrightarrow> (\<exists>ip. ipv4_in_cidr ip base p \<and> ipv4_in_cidr ip rng r)"
proof
  assume o: "ipv4_in_cidr base rng (min p r)"
  show "\<exists>ip. ipv4_in_cidr ip base p \<and> ipv4_in_cidr ip rng r"
  proof (cases "r \<le> p")
    case True
    with o show ?thesis by (intro exI [of _ base]) (simp add: min_def split: if_splits)
  next
    case False
    with o assms have "ipv4_in_cidr rng base p" by (simp add: ipv4_in_cidr_bits min_def)
    then show ?thesis by (intro exI [of _ rng]) simp
  qed
qed (use in_cidr_trans [OF assms] in blast)

lemma restricted_prefix: "(rng, r) \<in> set RESTRICTED_FAKEIP_RANGES \<Longrightarrow> r \<le> 32"
  by (auto simp: RESTRICTED_FAKEIP_RANGES_def)

definition restricted_addr :: "32 word \<Rightarrow> bool" where
  "restricted_addr ip = list_ex (\<lambda>(rng, r). ipv4_in_cidr ip rng r) RESTRICTED_FAKEIP_RANGES"

lemma overlap_restricted_iff:
  assumes "p \<le> 32"
  shows "cidr_overlaps_restricted_range base p
    \<longleftrightarrow> (\<exists>ip. ipv4_in_cidr ip base p \<and> restricted_addr ip)"
proof -
  have "(case e of (rng, r) \<Rightarrow> ipv4_in_cidr base rng (min p r))
      \<longleftrightarrow> (\<exists>ip. ipv4_in_cidr ip base p \<and> (case e of (rng, r) \<Rightarrow> ipv4_in_cidr ip rng r))"
    if "e \<in> set RESTRICTED_FAKEIP_RANGES" for e
    using that restricted_prefix [of "fst e" "snd e"] cidrs_overlap_iff [OF assms, of "snd e"]
    by (simp add: case_prod_unfold)
  then show ?thesis
    unfolding cidr_overlaps_restricted_range_def restricted_addr_def list_ex_iff by blast
qed

lemma parse_ipv4_cidr_le: "parse_ipv4_cidr s = Some (base, p) \<Longrightarrow> p \<le> 32"
  by (auto simp: parse_ipv4_cidr_def split: option.splits if_splits)

lemma trusted_cidrs_set:
  "set (trusted_fakeip_cidrs (with_trusted_fakeip_cidrs d cidrs))
   = set (trusted_fakeip_cidrs d)
     \<union> {(base, p). \<exists>s\<in>set cidrs. parse_ipv4_cidr s = Some (base, p) \<and> \<not> cidr_overlaps_restricted_range base p}"
  by (induction d cidrs rule: with_trusted_fakeip_cidrs.induct) (auto split: option.splits prod.splits)

subsection \<open>Audit lines\<close>

lemma ws_encodings_no_underscore: "\<forall>w\<in>set ws_encodings. CHR ''_'' \<notin> set w"
  by code_simp

lemma sanitize_prefix:
  "prefix v (sanitize_field s) \<Longrightarrow> CHR ''_'' \<notin> set v \<Longrightarrow> prefix v s"
proof (induction s arbitrary: v rule: sanitize_field.induct)
  case (2 c s)
  show ?case
  proof (cases v)
    case (Cons a v')
    with 2 show ?thesis by (cases "0 < ws_len (c # s)") auto
  qed simp
qed simp

lemma sanitize_no_ws: "no_ws (sanitize_field s)"
proof (induction s rule: sanitize_field.induct)
  case (2 c s)
  show ?case
  proof (cases "0 < ws_len (c # s)")
    case True
    have "ws_len (CHR ''_'' # t) = 0" for t
      using ws_encodings_no_underscore ws_encodings_nonempty
      by (auto simp: ws_len_0_iff prefix_Cons)
    with True 2 show ?thesis by simp
  next
    case False
    have "ws_len (c # sanitize_field s) = 0"
      unfolding ws_len_0_iff
    proof
      fix w assume w: "w \<in> set ws_encodings"
      then have "CHR ''_'' \<notin> set w" using ws_encodings_no_underscore by blast
      then show "\<not> prefix w (c # sanitize_field s)"
        using sanitize_prefix [of w "c # s"] False w by (auto simp: ws_len_0_iff)
    qed
    with False 2 show ?thesis by simp
  qed
qed simp

lemma sanitize_word: "s \<noteq> [] \<Longrightarrow> is_word (sanitize_field s)"
  using sanitize_no_ws [of s] by (cases s) (auto simp: is_word_def simp del: no_ws.simps)

subsection \<open>The decider's operations on its parts\<close>

lemma audit_record_parts [simp]:
  "net_policy (audit_record env d h t l) = net_policy d"
  "net_cache (audit_record env d h t l) = net_cache d"
  "trusted_fakeip_cidrs (audit_record env d h t l) = trusted_fakeip_cidrs d"
  by (simp_all add: audit_record_def split: option.splits)

lemma evaluate_parts [simp]:
  "net_policy (snd (evaluate env d h t)) = net_policy d"
  "net_cache (snd (evaluate env d h t)) = net_cache d"
  by (simp_all add: evaluate_def Let_def split: decision.splits)

lemma fakeip_parts [simp]:
  "net_policy (with_trusted_fakeip_cidrs d cidrs) = net_policy d"
  "net_cache (with_trusted_fakeip_cidrs d cidrs) = net_cache d"
  by (induction d cidrs rule: with_trusted_fakeip_cidrs.induct) (auto split: option.splits)

lemma add_allow_deny [simp]: "deny_hosts (add_allow p h) = deny_hosts p"
  by (simp add: add_allow_def Let_def)

lemma approve_session_parts [simp]:
  "net_policy (approve_session env d h t) = net_policy d"
  "net_cache (approve_session env d h t) = cache_approve (net_cache d) h"
  by (simp_all add: approve_session_def)

lemma deny_session_parts [simp]:
  "net_policy (deny_session env d h t) = net_policy d"
  "net_cache (deny_session env d h t) = cache_deny (net_cache d) h"
  by (simp_all add: deny_session_def)

lemma approve_persistent_parts [simp]:
  "net_policy (snd (approve_persistent env d h t)) = add_allow (net_policy d) h"
  "net_cache (snd (approve_persistent env d h t)) = cache_approve (net_cache d) h"
  by (simp_all add: approve_persistent_def Let_def)

text \<open>The sets of the cache after an answer.\<close>

lemma cache_answers [simp]:
  "approved (cache_approve c h) = insert (normalize_host h) (approved c)"
  "denied (cache_approve c h) = denied c - {normalize_host h}"
  "approved (cache_deny c h) = approved c - {normalize_host h}"
  "denied (cache_deny c h) = insert (normalize_host h) (denied c)"
  by (simp_all add: cache_approve_def cache_deny_def Let_def)

lemma evaluate_decision:
  assumes "no_ws h"
  shows "fst (evaluate env d h t) =
    (let n = normalize_host h
     in if n = [] then decision_of_toml (default_decision (net_policy d))
        else if n \<in> denied (net_cache d) then Deny
        else if n \<in> approved (net_cache d) then Allow
        else decide (net_policy d) h)"
  using normalize_host_idem [OF assms]
  by (simp add: evaluate_def cache_is_denied_def cache_is_approved_def decide_def Let_def
      split: decision.splits)

definition deny_listed :: "network_policy \<Rightarrow> str \<Rightarrow> bool" where
  "deny_listed p n = list_ex (\<lambda>entry. host_matches entry n) (deny_hosts p)"

lemma decide_deny_listed: "normalize_host h \<noteq> [] \<Longrightarrow> deny_listed p (normalize_host h) \<Longrightarrow> decide p h = Deny"
  by (simp add: decide_def deny_listed_def)

text \<open>
  The protocol of the tools: an answer is recorded for a host (a name without white space, as
  it comes from a URL) only when its evaluation asked for one.
\<close>

inductive net_reach :: "network_policy \<Rightarrow> network_decider \<Rightarrow> bool" for p where
  net_start: "net_reach p (with_trusted_fakeip_cidrs (decider_new p a) cidrs)"
| net_evaluate: "net_reach p d \<Longrightarrow> net_reach p (snd (evaluate env d h t))"
| net_approve: "net_reach p d \<Longrightarrow> no_ws h \<Longrightarrow> fst (evaluate env d h t) = Prompt
    \<Longrightarrow> net_reach p (approve_session env' d h t)"
| net_deny: "net_reach p d \<Longrightarrow> no_ws h \<Longrightarrow> fst (evaluate env d h t) = Prompt
    \<Longrightarrow> net_reach p (deny_session env' d h t)"
| net_persist: "net_reach p d \<Longrightarrow> no_ws h \<Longrightarrow> fst (evaluate env d h t) = Prompt
    \<Longrightarrow> net_reach p (snd (approve_persistent env' d h t))"

text \<open>No approved host is on the deny list, no host is both approved and denied.\<close>

definition cache_ok :: "network_policy \<Rightarrow> network_decider \<Rightarrow> bool" where
  "cache_ok p d \<longleftrightarrow>
     deny_hosts (net_policy d) = deny_hosts p
     \<and> approved (net_cache d) \<inter> denied (net_cache d) = {}
     \<and> (\<forall>n\<in>approved (net_cache d). n \<noteq> [] \<longrightarrow> \<not> deny_listed p n)"

lemma deny_listed_cong: "deny_hosts p = deny_hosts q \<Longrightarrow> deny_listed p n = deny_listed q n"
  by (simp add: deny_listed_def)

lemma prompted_not_deny_listed:
  assumes "no_ws h" and "fst (evaluate env d h t) = Prompt" and "deny_hosts (net_policy d) = deny_hosts p"
  shows "normalize_host h = [] \<or> \<not> deny_listed p (normalize_host h)"
  using assms decide_deny_listed [of h "net_policy d"] deny_listed_cong [OF assms(3)]
  by (auto simp: evaluate_decision Let_def split: if_splits)

lemma net_reach_cache_ok: "net_reach p d \<Longrightarrow> cache_ok p d"
proof (induction rule: net_reach.induct)
  case (net_approve d h env t env')
  then show ?case using prompted_not_deny_listed [of h env d t p] by (auto simp: cache_ok_def)
next
  case (net_persist d h env t env')
  then show ?case using prompted_not_deny_listed [of h env d t p] by (auto simp: cache_ok_def)
qed (auto simp: cache_ok_def decider_new_def cache_new_def)

subsection \<open>Dotted quads as hosts\<close>

lemma digits_lower: "set s \<subseteq> set (CHR ''.'' # digit_chars) \<Longrightarrow> to_ascii_lowercase s = s"
proof -
  have "\<forall>c\<in>set (CHR ''.'' # digit_chars). lower_byte c = c" by code_simp
  then show "set s \<subseteq> set (CHR ''.'' # digit_chars) \<Longrightarrow> to_ascii_lowercase s = s"
    unfolding to_ascii_lowercase_def by (intro map_idI) blast
qed

lemma show_ipv4_digits: "set (show_ipv4 a b c d) \<subseteq> set (CHR ''.'' # digit_chars)"
  using show_nat_digits by (force simp: show_ipv4_def)

subsection \<open>Properties\<close>

text \<open>An IPv4 address written as a dotted quad is a loopback host exactly when it lies in \<open>127.0.0.0/8\<close>.\<close>

theorem dotted_quad_loopback:
  assumes "a < 256" "b < 256" "c < 256" "d < 256"
  shows "is_loopback_host (show_ipv4 a b c d) \<longleftrightarrow> a = 127"
proof -
  let ?s = "show_ipv4 a b c d"
  note digits = show_ipv4_digits [of a b c d]
  have "last ?s = last (show_nat d)" by (simp add: show_ipv4_def)
  moreover have "last (show_nat d) \<in> set digit_chars"
    using show_nat_digits [of d] last_in_set [OF show_nat_not_Nil] by blast
  moreover have "CHR ''.'' \<notin> set digit_chars" "CHR ''['' \<notin> set (CHR ''.'' # digit_chars)"
    "CHR ''l'' \<notin> set (CHR ''.'' # digit_chars)"
    by code_simp+
  ultimately have "trim_end_chars [CHR ''.''] (trim ?s) = ?s" and "\<not> starts_with ?s ''[''"
    and "?s \<noteq> ''localhost''"
    using digits_no_ws [OF digits] digits by (auto simp: trim_no_ws prefix_def intro!: trim_end_chars_fix)
  then show ?thesis
    using parse_ip_show [OF assms] ipv4_loopback_octet [OF assms] digits_lower [OF digits]
    by (simp add: is_loopback_host_def strip_prefix_def)
qed

theorem dotted_quad_loopback_witness:
  "is_loopback_host ''127.0.53.9'' \<and> \<not> is_loopback_host ''128.0.0.1''"
proof -
  have "show_ipv4 127 0 53 9 = ''127.0.53.9''" "show_ipv4 128 0 0 1 = ''128.0.0.1''"
    by (simp_all add: show_ipv4_def show_nat.simps digit_chars_def)
  with dotted_quad_loopback [of 127 0 53 9] dotted_quad_loopback [of 128 0 0 1] show ?thesis
    by simp
qed

text \<open>A bare IPv6 literal is not recognised as an authority: \<open>::1\<close> is a loopback host, and
  \<open>[::1]:8080\<close> a loopback authority, but \<open>::1\<close> is not, since the text before its first
  colon is empty.\<close>

theorem bare_ipv6_authority_not_loopback:
  "is_loopback_host ''::1'' \<and> authority_is_loopback ''[::1]:8080'' \<and> \<not> authority_is_loopback ''::1''"
  by code_simp

text \<open>Matching respects label boundaries. For a plain domain, the entries \<open>*.domain\<close> and
  \<open>.domain\<close> match exactly the hosts that end in a dot and the domain, never the domain
  itself, and the entry \<open>domain\<close> matches exactly the domain.\<close>

theorem wildcard_matches_subdomains:
  assumes "no_ws (''*.'' @ domain)" and "to_ascii_lowercase domain = domain"
    and "domain \<noteq> []" and "last domain \<noteq> CHR ''.''" and "hd domain \<noteq> CHR ''*''" and "hd domain \<noteq> CHR ''.''"
  shows "(host_matches (''*.'' @ domain) h \<longleftrightarrow> (\<exists>sub. h = sub @ ''.'' @ domain))
    \<and> (host_matches (''.'' @ domain) h \<longleftrightarrow> (\<exists>sub. h = sub @ ''.'' @ domain))
    \<and> (host_matches domain h \<longleftrightarrow> h = domain) \<and> \<not> host_matches (''*.'' @ domain) domain"
proof -
  have ws: "no_ws (''.'' @ domain)" "no_ws domain"
    using no_ws_drop [OF assms(1), of 1] no_ws_drop [OF assms(1), of 2] by simp_all
  have ends: "trim_end_chars [CHR ''.''] (x @ domain) = x @ domain" for x
    using assms(3,4) by (intro trim_end_chars_fix) simp
  have low: "lower_byte (CHR ''*'') = CHR ''*''" "lower_byte (CHR ''.'') = CHR ''.''" by code_simp+
  have n: "normalize_host (''*.'' @ domain) = ''.'' @ domain"
    "normalize_host (''.'' @ domain) = ''.'' @ domain"
    using normalize_host_shape [OF assms(1)] normalize_host_shape [OF ws(1)] ends [of "''*.''"] ends [of "''.''"]
    by (simp_all add: assms(2) low)
  have d: "normalize_host domain = domain" "\<not> starts_with domain ''.''"
    using normalize_host_shape [OF ws(2)] ends [of "[]"] assms(2,3,5,6) by (auto simp: prefix_def)
  have "\<not> suffix (CHR ''.'' # domain) domain"
    by (auto dest: suffix_length_le)
  with n d assms(3) show ?thesis
    by (auto simp: host_matches_def strip_prefix_def Let_def suffix_def)
qed

theorem wildcard_matches_subdomains_witness:
  "host_matches ''*.example.com'' ''a.b.example.com'' \<and> \<not> host_matches ''*.example.com'' ''evilexample.com''
   \<and> \<not> host_matches ''*.example.com'' ''example.com''"
proof -
  have pre: "no_ws (''*.'' @ ''example.com'')" "to_ascii_lowercase ''example.com'' = ''example.com''"
    by code_simp+
  have "suffix ''.example.com'' ''a.b.example.com''" and "\<not> suffix ''.example.com'' ''evilexample.com''"
    by code_simp+
  then show ?thesis
    using wildcard_matches_subdomains [OF pre, of "''a.b.example.com''"]
      wildcard_matches_subdomains [OF pre, of "''evilexample.com''"]
    by (simp add: suffix_def)
qed

text \<open>C4: deny wins over everything a session can do. In every decider reached by evaluations and by
  answers given to prompts (once, for the session or persistently), a host on the policy's deny list
  evaluates to \<open>Deny\<close>.\<close>

theorem deny_list_wins:
  assumes "net_reach p d" and "no_ws host" and "normalize_host host \<noteq> []"
    and "deny_listed p (normalize_host host)"
  shows "fst (evaluate env d host tool) = Deny"
proof -
  have ok: "cache_ok p d" using assms(1) by (rule net_reach_cache_ok)
  then have "normalize_host host \<notin> approved (net_cache d)"
    using assms(3,4) unfolding cache_ok_def by blast
  moreover have "deny_listed (net_policy d) (normalize_host host)"
    using ok assms(4) deny_listed_cong [of "net_policy d" p] by (simp add: cache_ok_def)
  ultimately show ?thesis
    using assms(2,3) by (simp add: evaluate_decision decide_deny_listed Let_def)
qed

theorem deny_list_wins_witness:
  "fst (evaluate \<lparr>now_rfc3339 = ''t'', write_ok = True\<rparr>
     (decider_new (network_policy_default\<lparr>allow_hosts := [''*.evil.com''], deny_hosts := [''API.evil.com.'']\<rparr>) None)
     ''api.evil.com'' ''fetch_url'') = Deny"
proof (rule deny_list_wins)
  show "net_reach (network_policy_default\<lparr>allow_hosts := [''*.evil.com''], deny_hosts := [''API.evil.com.'']\<rparr>)
    (decider_new (network_policy_default\<lparr>allow_hosts := [''*.evil.com''], deny_hosts := [''API.evil.com.'']\<rparr>) None)"
    using net_start [where cidrs = "[]"] by simp
qed code_simp+

text \<open>The last answer given for a host decides its evaluations for the rest of the session,
  whatever the policy says, and leaves the evaluation of every other host unchanged.\<close>

theorem session_answer_decides:
  assumes "no_ws host" and "normalize_host host \<noteq> []" and "no_ws other"
    and "normalize_host other \<noteq> normalize_host host"
  shows "fst (evaluate env (approve_session env' d host t) host tool) = Allow
    \<and> fst (evaluate env (deny_session env' d host t) host tool) = Deny
    \<and> fst (evaluate env (approve_session env' d host t) other tool) = fst (evaluate env d other tool)
    \<and> fst (evaluate env (deny_session env' d host t) other tool) = fst (evaluate env d other tool)"
  using assms by (simp add: evaluate_decision Let_def)

theorem session_answer_decides_witness:
  "fst (evaluate \<lparr>now_rfc3339 = [], write_ok = True\<rparr>
     (deny_session \<lparr>now_rfc3339 = [], write_ok = True\<rparr> (decider_new network_policy_default None) ''a.com'' ''t'')
     ''a.com'' ''t'') = Deny"
proof -
  have "no_ws ''a.com''" "normalize_host ''a.com'' \<noteq> []" "no_ws ''b.com''"
    "normalize_host ''b.com'' \<noteq> normalize_host ''a.com''"
    by code_simp+
  from session_answer_decides [OF this] show ?thesis by simp
qed

text \<open>The fake-IP ranges a decider trusts. Whatever strings the configuration lists, an address is
  trusted exactly when some listed string is a valid CIDR range that contains it and no
  restricted address (this-host, private, CGNAT, loopback, link-local).\<close>

theorem trusted_fakeip_characterisation:
  "is_trusted_fakeip_addr (with_trusted_fakeip_cidrs (decider_new p a) cidrs) (V4 ip)
   \<longleftrightarrow> (\<exists>s\<in>set cidrs. \<exists>base n. parse_ipv4_cidr s = Some (base, n) \<and> ipv4_in_cidr ip base n
         \<and> (\<forall>other. ipv4_in_cidr other base n \<longrightarrow> \<not> restricted_addr other))"
proof -
  have "is_trusted_fakeip_addr (with_trusted_fakeip_cidrs (decider_new p a) cidrs) (V4 ip)
      \<longleftrightarrow> (\<exists>s\<in>set cidrs. \<exists>base n. parse_ipv4_cidr s = Some (base, n)
            \<and> \<not> cidr_overlaps_restricted_range base n \<and> ipv4_in_cidr ip base n)"
    unfolding is_trusted_fakeip_addr.simps list_ex_iff trusted_cidrs_set
    by (auto simp: decider_new_def)
  also have "\<dots> \<longleftrightarrow> (\<exists>s\<in>set cidrs. \<exists>base n. parse_ipv4_cidr s = Some (base, n) \<and> ipv4_in_cidr ip base n
         \<and> (\<forall>other. ipv4_in_cidr other base n \<longrightarrow> \<not> restricted_addr other))"
    using overlap_restricted_iff [OF parse_ipv4_cidr_le] by blast
  finally show ?thesis .
qed

theorem trusted_fakeip_characterisation_witness:
  "is_trusted_fakeip_addr (with_trusted_fakeip_cidrs (decider_new network_policy_default None)
     [''169.254.0.0/16'', ''198.18.0.0/15'']) (V4 (ipv4_of 198 19 0 7))"
proof -
  have parse: "parse_ipv4_cidr ''198.18.0.0/15'' = Some (ipv4_of 198 18 0 0, 15)"
    and inside: "ipv4_in_cidr (ipv4_of 198 19 0 7) (ipv4_of 198 18 0 0) 15"
    and apart: "\<not> cidr_overlaps_restricted_range (ipv4_of 198 18 0 0) 15"
    by code_simp+
  from apart have "\<forall>other. ipv4_in_cidr other (ipv4_of 198 18 0 0) 15 \<longrightarrow> \<not> restricted_addr other"
    using overlap_restricted_iff [of 15] by auto
  with parse inside show ?thesis
    unfolding trusted_fakeip_characterisation by auto
qed

text \<open>An audit line stays parseable. Whatever the host and the tool contain, splitting the line at
  white space gives back the five fields.\<close>

theorem audit_line_fields:
  assumes "is_word ts" and "is_word decision_label" and "host \<noteq> []" and "tool \<noteq> []"
  shows "split_whitespace (audit_line ts host tool decision_label)
    = [ts, ''network'', sanitize_field host, sanitize_field tool, decision_label]"
proof -
  have "is_word ''network''" by code_simp
  moreover have "audit_line ts host tool decision_label
      = join '' '' [ts, ''network'', sanitize_field host, sanitize_field tool, decision_label]"
    by (simp add: audit_line_def)
  ultimately show ?thesis
    using assms sanitize_word by (intro trans [OF arg_cong [of _ _ split_whitespace] split_whitespace_join]) auto
qed

theorem audit_line_fields_witness:
  "split_whitespace (audit_line ''2026-01-01T00:00:00Z'' ''a b'' ''fetch url'' ''Deny'')
   = [''2026-01-01T00:00:00Z'', ''network'', sanitize_field ''a b'', sanitize_field ''fetch url'', ''Deny'']"
  by (rule audit_line_fields) code_simp+

text \<open>An evaluation appends one audit line, with the normalised host and the decision, when its
  decision is terminal, and none when it is \<open>Prompt\<close> or the host is empty.\<close>

theorem evaluate_audits_terminal_decisions:
  assumes "net_auditor d = Some a" and "audit_on a" and "write_ok env" and "evaluate env d host tool = (decided, d')"
  shows "map_option audit_lines (net_auditor d') = Some (audit_lines a @
     (if normalize_host host = [] \<or> decided = Prompt then []
      else [audit_line (now_rfc3339 env) (normalize_host host) tool (decision_as_str decided)]))"
  using assms
  by (auto simp: evaluate_def audit_record_def auditor_record_def Let_def split: if_splits decision.splits)

theorem evaluate_audits_terminal_decisions_witness:
  "map_option audit_lines (net_auditor (snd (evaluate \<lparr>now_rfc3339 = ''T'', write_ok = True\<rparr>
     (decider_new (network_policy_default\<lparr>deny_hosts := [''a.com'']\<rparr>) (Some (auditor_new ''log'' True))) ''A.com'' ''t'')))
   = Some [''T network a.com t Deny'']"
proof -
  let ?env = "\<lparr>now_rfc3339 = ''T'', write_ok = True\<rparr>"
  let ?d = "decider_new (network_policy_default\<lparr>deny_hosts := [''a.com'']\<rparr>) (Some (auditor_new ''log'' True))"
  obtain d' where e: "evaluate ?env ?d ''A.com'' ''t'' = (Deny, d')"
    by (rule that [of "snd (evaluate ?env ?d ''A.com'' ''t'')"]) code_simp
  have n: "normalize_host ''A.com'' = ''a.com''"
    and l: "audit_line ''T'' ''a.com'' ''t'' ''Deny'' = ''T network a.com t Deny''"
    by code_simp+
  show ?thesis
    using evaluate_audits_terminal_decisions [OF _ _ _ e, of "auditor_new ''log'' True"] e
    by (simp add: n l decider_new_def auditor_new_def)
qed

text \<open>A gated call is audited twice. The approval gate evaluates the host too, so for an allowed
  host the gate and the call write two equal lines, where the log's format promises one per call.\<close>

theorem approval_gate_audits_again:
  "let env = \<lparr>now_rfc3339 = ''T'', write_ok = True\<rparr>;
       d = decider_new (network_policy_default\<lparr>allow_hosts := [''a.com'']\<rparr>) (Some (auditor_new ''log'' True));
       (gate, d1) = network_approval_requirement env (Some d) ''a.com'' ''fetch_url''
   in gate = Auto
      \<and> map_option audit_lines (Option.bind (map_option (\<lambda>d. snd (evaluate env d ''a.com'' ''fetch_url'')) d1) net_auditor)
        = Some [''T network a.com fetch_url Allow'', ''T network a.com fetch_url Allow'']"
  by code_simp

end
