(* ===== verification/Json.thy ===== *)
theory Json
  imports Prelude "HOL-Library.Word" "HOL-Library.Countable"
begin

section \<open>JSON values and machine integers of the persisted records\<close>

text \<open>
  The value type of the JSON library with the accessors the program calls (an object is an
  association list, a number that is no integer keeps its literal), and Rust's saturating
  arithmetic. A \<open>u32\<close> is a \<open>32 word\<close>, a \<open>u64\<close> a \<open>64 word\<close> read with \<open>uint\<close>, an
  \<open>i64\<close> a \<open>64 word\<close> read with \<open>sint\<close>. Printing and parsing JSON text belongs to the
  library and is a parameter of the definitions that use it.
\<close>

datatype json =
    JNull
  | JBool bool
  | JInt int
  | JFloat str
  | JStr str
  | JArr "json list"
  | JObj "(str \<times> json) list"

text \<open>Needed only to exhibit a codec in witnesses.\<close>

instance json :: countable
  by countable_datatype

fun json_get :: "str \<Rightarrow> json \<Rightarrow> json option" where
  "json_get k (JObj es) = map_of es k"
| "json_get k _ = None"

fun as_str :: "json \<Rightarrow> str option" where
  "as_str (JStr s) = Some s"
| "as_str _ = None"

fun as_array :: "json \<Rightarrow> json list option" where
  "as_array (JArr vs) = Some vs"
| "as_array _ = None"

fun as_bool :: "json \<Rightarrow> bool option" where
  "as_bool (JBool b) = Some b"
| "as_bool _ = None"

fun as_u64 :: "json \<Rightarrow> 64 word option" where
  "as_u64 (JInt n) = (if 0 \<le> n \<and> n < 2 ^ 64 then Some (word_of_int n) else None)"
| "as_u64 _ = None"

fun as_i64 :: "json \<Rightarrow> 64 word option" where
  "as_i64 (JInt n) = (if - (2 ^ 63) \<le> n \<and> n < 2 ^ 63 then Some (word_of_int n) else None)"
| "as_i64 _ = None"

fun is_null :: "json \<Rightarrow> bool" where
  "is_null JNull = True"
| "is_null _ = False"

text \<open>\<open>json!\<close> of an unsigned word, of a signed one, of an optional value.\<close>

definition json_uint :: "'a::len word \<Rightarrow> json" where
  "json_uint w = JInt (uint w)"

definition json_sint :: "64 word \<Rightarrow> json" where
  "json_sint w = JInt (sint w)"

definition json_opt :: "('a \<Rightarrow> json) \<Rightarrow> 'a option \<Rightarrow> json" where
  "json_opt f v = (case v of None \<Rightarrow> JNull | Some x \<Rightarrow> f x)"

lemma as_u64_uint64 [simp]: "as_u64 (json_uint (w :: 64 word)) = Some w"
  using uint_bounded [of w] by (simp add: json_uint_def)

lemma as_u64_uint32 [simp]: "as_u64 (json_uint (w :: 32 word)) = Some (ucast w)"
  using uint_bounded [of w] by (simp add: json_uint_def)

lemma as_u64_uint8 [simp]: "as_u64 (json_uint (w :: 8 word)) = Some (ucast w)"
  using uint_bounded [of w] by (simp add: json_uint_def)

lemma as_i64_sint [simp]: "as_i64 (json_sint w) = Some w"
  using sint_ge [of w] sint_lt [of w] by (simp add: json_sint_def)

subsection \<open>Saturating arithmetic\<close>

definition sat_mul64 :: "64 word \<Rightarrow> 64 word \<Rightarrow> 64 word" where
  "sat_mul64 a b = (if uint a * uint b < 2 ^ 64 then a * b else - 1)"

definition sat_add64 :: "64 word \<Rightarrow> 64 word \<Rightarrow> 64 word" where
  "sat_add64 a b = (if uint a + uint b < 2 ^ 64 then a + b else - 1)"

definition sat_sub32 :: "32 word \<Rightarrow> 32 word \<Rightarrow> 32 word" where
  "sat_sub32 a b = (if b \<le> a then a - b else 0)"

definition sat_add_i64 :: "64 word \<Rightarrow> 64 word \<Rightarrow> 64 word" where
  "sat_add_i64 a b = word_of_int (max (- (2 ^ 63)) (min (2 ^ 63 - 1) (sint a + sint b)))"

text \<open>\<open>v.min(T::MAX as u64) as T\<close> for a narrower unsigned type.\<close>

definition clamp_word :: "64 word \<Rightarrow> 'a::len word" where
  "clamp_word v = (if uint v < 2 ^ LENGTH('a) then ucast v else - 1)"

lemma clamp_ucast32 [simp]: "clamp_word (ucast (w :: 32 word)) = w"
proof -
  have "uint (ucast w :: 64 word) = uint w" using uint_bounded [of w] by (simp add: unsigned_ucast_eq take_bit_int_eq_self)
  moreover have "(ucast (ucast w :: 64 word) :: 32 word) = w" by transfer (simp add: min_def)
  ultimately show ?thesis using uint_bounded [of w] by (simp add: clamp_word_def)
qed

lemma clamp_ucast8 [simp]: "clamp_word (ucast (w :: 8 word)) = w"
proof -
  have "uint (ucast w :: 64 word) = uint w" using uint_bounded [of w] by (simp add: unsigned_ucast_eq take_bit_int_eq_self)
  moreover have "(ucast (ucast w :: 64 word) :: 8 word) = w" by transfer (simp add: min_def)
  ultimately show ?thesis using uint_bounded [of w] by (simp add: clamp_word_def)
qed

lemma uint_sat_mul64: "uint (sat_mul64 a b) = min (uint a * uint b) (2 ^ 64 - 1)"
proof (cases "uint a * uint b < 2 ^ 64")
  case True
  then have "uint (a * b) = uint a * uint b" by (simp add: uint_word_ariths)
  with True show ?thesis by (simp add: sat_mul64_def)
qed (simp add: sat_mul64_def unsigned_minus_1_eq_mask mask_eq_exp_minus_1)

end
