(* ===== verification/Record_Store.thy ===== *)
theory Record_Store
  imports Prelude
begin

section \<open>The interface of a keyed record store\<close>

text \<open>
  The jobs table and the task directory are used through the same operations: read the record
  of a key, write a record under its own key. The contract names the keys the store accepts,
  and the lemmas say what a client gets after a loop that reads, changes and writes back the
  records of a list of keys.
\<close>

locale record_store =
  fixes get :: "'s \<Rightarrow> str \<Rightarrow> 'r option"
    and put :: "'s \<Rightarrow> 'r \<Rightarrow> 's"
    and key :: "'r \<Rightarrow> str"
    and valid :: "str \<Rightarrow> bool"
    and wf :: "'s \<Rightarrow> bool"
  assumes get_put: "valid (key r) \<Longrightarrow> get (put s r) i = (if i = key r then Some r else get s i)"
    and get_key: "wf s \<Longrightarrow> get s i = Some r \<Longrightarrow> key r = i"
    and get_valid: "get s i = Some r \<Longrightarrow> valid i"
    and wf_put: "wf s \<Longrightarrow> valid (key r) \<Longrightarrow> wf (put s r)"
begin

lemma get_put_other: "valid (key r) \<Longrightarrow> i \<noteq> key r \<Longrightarrow> get (put s r) i = get s i"
  by (simp add: get_put)

text \<open>One step of such a loop: a missing record is skipped.\<close>

definition update_at :: "('r \<Rightarrow> 'r) \<Rightarrow> str \<Rightarrow> 's \<Rightarrow> 's" where
  "update_at f i s = (case get s i of None \<Rightarrow> s | Some r \<Rightarrow> put s (f r))"

lemma get_update_at:
  assumes "wf s" and "\<And>r. key (f r) = key r"
  shows "get (update_at f i s) j = (if j = i then map_option f (get s j) else get s j)"
  using assms get_put get_key get_valid by (auto simp: update_at_def split: option.splits)

lemma wf_update_at: "wf s \<Longrightarrow> (\<And>r. key (f r) = key r) \<Longrightarrow> wf (update_at f i s)"
  using get_key get_valid wf_put by (auto simp: update_at_def split: option.splits)

text \<open>The whole loop, for a change that does nothing the second time.\<close>

lemma fold_update_at:
  assumes "\<And>r. key (f r) = key r" and "\<And>r. f (f r) = f r"
  shows "wf s \<Longrightarrow> wf (fold (update_at f) is s)
    \<and> get (fold (update_at f) is s) j = (if j \<in> set is then map_option f (get s j) else get s j)"
proof (induction "is" arbitrary: s)
  case (Cons i "is")
  from Cons.IH [OF wf_update_at, OF Cons.prems assms(1), of i] show ?case
    using assms(2) by (auto simp: get_update_at [OF Cons.prems assms(1)] option.map_comp comp_def)
qed simp

end

end
