(* ===== verification/JobStore.thy ===== *)
theory JobStore
  imports Json Record_Store "HOL-Library.AList"
begin

section \<open>The jobs table of the state store (crates/state/src/lib.rs)\<close>

text \<open>
  The table \<open>jobs\<close> of the state database is keyed by \<open>id\<close> (its primary key); its rows keep the
  status as text and the progress as an integer, as the columns do. The three statements the
  store runs are modelled by what SQLite documents of them: insert-or-update by key, select by
  key, and the rows by descending \<open>updated_at\<close> up to a limit. An operation that the database
  refuses is the environment's choice and appears in the callers.
\<close>

datatype job_state_status =
  StateQueued | StateRunning | StatePaused | StateCompleted | StateFailed | StateCancelled

fun job_state_status_to_str :: "job_state_status \<Rightarrow> str" where
  "job_state_status_to_str StateQueued = ''queued''"
| "job_state_status_to_str StateRunning = ''running''"
| "job_state_status_to_str StatePaused = ''paused''"
| "job_state_status_to_str StateCompleted = ''completed''"
| "job_state_status_to_str StateFailed = ''failed''"
| "job_state_status_to_str StateCancelled = ''cancelled''"

definition job_state_status_from_str :: "str \<Rightarrow> job_state_status" where
  "job_state_status_from_str value =
     (if value = ''queued'' then StateQueued
      else if value = ''running'' then StateRunning
      else if value = ''paused'' then StatePaused
      else if value = ''completed'' then StateCompleted
      else if value = ''failed'' then StateFailed
      else if value = ''cancelled'' then StateCancelled
      else StateQueued)"

lemma status_text_roundtrip [simp]: "job_state_status_from_str (job_state_status_to_str s) = s"
  by (cases s) (simp_all add: job_state_status_from_str_def)

record job_state_record =
  row_id :: str
  row_name :: str
  row_status :: job_state_status
  row_progress :: "8 word option"
  row_detail :: "str option"
  row_created_at :: "64 word"
  row_updated_at :: "64 word"

record sql_job_row =
  sql_name :: str
  sql_status :: str
  sql_progress :: "int option"
  sql_detail :: "str option"
  sql_created_at :: "64 word"
  sql_updated_at :: "64 word"

type_synonym jobs_table = "(str \<times> sql_job_row) list"

definition upsert_job :: "jobs_table \<Rightarrow> job_state_record \<Rightarrow> jobs_table" where
  "upsert_job t job = AList.update (row_id job)
     \<lparr>sql_name = row_name job, sql_status = job_state_status_to_str (row_status job),
      sql_progress = map_option uint (row_progress job), sql_detail = row_detail job,
      sql_created_at = row_created_at job, sql_updated_at = row_updated_at job\<rparr> t"

definition u8_try_from :: "int \<Rightarrow> 8 word option" where
  "u8_try_from v = (if 0 \<le> v \<and> v < 256 then Some (word_of_int v) else None)"

definition read_job_row :: "str \<Rightarrow> sql_job_row \<Rightarrow> job_state_record" where
  "read_job_row i row =
     \<lparr>row_id = i, row_name = sql_name row, row_status = job_state_status_from_str (sql_status row),
      row_progress = Option.bind (sql_progress row) u8_try_from, row_detail = sql_detail row,
      row_created_at = sql_created_at row, row_updated_at = sql_updated_at row\<rparr>"

definition get_job :: "jobs_table \<Rightarrow> str \<Rightarrow> job_state_record option" where
  "get_job t i = map_option (read_job_row i) (map_of t i)"

definition list_jobs :: "jobs_table \<Rightarrow> nat option \<Rightarrow> job_state_record list" where
  "list_jobs t limit =
     map (\<lambda>(i, row). read_job_row i row)
       (take (case limit of None \<Rightarrow> 100 | Some n \<Rightarrow> n) (sort_key (\<lambda>e. - sint (sql_updated_at (snd e))) t))"

definition delete_job :: "jobs_table \<Rightarrow> str \<Rightarrow> jobs_table" where
  "delete_job t i = AList.delete i t"

lemma u8_try_from_uint [simp]: "u8_try_from (uint w) = Some w"
  using uint_bounded [of w] by (simp add: u8_try_from_def)

subsection \<open>What the job manager relies on\<close>

locale job_store = record_store get put row_id "\<lambda>_. True" wf
  for get :: "'s \<Rightarrow> str \<Rightarrow> job_state_record option" and put :: "'s \<Rightarrow> job_state_record \<Rightarrow> 's"
    and wf :: "'s \<Rightarrow> bool" +
  fixes listed :: "'s \<Rightarrow> nat option \<Rightarrow> job_state_record list"
    and rows :: "'s \<Rightarrow> nat"
  assumes listed_all: "wf s \<Longrightarrow> rows s \<le> n \<Longrightarrow> set (listed s (Some n)) = {r. \<exists>i. get s i = Some r}"
    and listed_distinct: "wf s \<Longrightarrow> distinct (map row_id (listed s limit))"
    and rows_put: "rows s \<le> rows (put s r)"
begin

text \<open>A list of records read under a limit that is large enough is the table.\<close>

lemma listed_lookup:
  assumes "wf s" and "rows s \<le> n"
  shows "map_of (map (\<lambda>r. (row_id r, f r)) (listed s (Some n))) i = map_option f (get s i)"
proof (cases "get s i")
  case None
  then have "i \<notin> row_id ` set (listed s (Some n))"
    using assms listed_all get_key by fastforce
  then have "i \<notin> fst ` set (map (\<lambda>r. (row_id r, f r)) (listed s (Some n)))" by force
  with None show ?thesis by (simp add: map_of_eq_None_iff)
next
  case (Some r)
  then have "r \<in> set (listed s (Some n))" and "row_id r = i"
    using assms listed_all get_key by auto
  then have "(i, f r) \<in> set (map (\<lambda>r. (row_id r, f r)) (listed s (Some n)))" by force
  moreover have "distinct (map fst (map (\<lambda>r. (row_id r, f r)) (listed s (Some n))))"
    using listed_distinct [OF assms(1)] by (simp add: comp_def)
  ultimately show ?thesis using Some map_of_is_SomeI by fastforce
qed

end

definition table_wf :: "jobs_table \<Rightarrow> bool" where
  "table_wf t = distinct (map fst t)"

lemma read_upserted: "get_job (upsert_job t r) i = (if i = row_id r then Some r else get_job t i)"
proof -
  have "Option.bind (map_option uint (row_progress r)) u8_try_from = row_progress r"
    by (cases "row_progress r") simp_all
  then show ?thesis by (simp add: get_job_def upsert_job_def update_conv' read_job_row_def)
qed

lemma set_list_jobs:
  assumes "table_wf t" and "length t \<le> n"
  shows "set (list_jobs t (Some n)) = {r. \<exists>i. get_job t i = Some r}"
proof -
  have "set (list_jobs t (Some n)) = (\<lambda>(i, row). read_job_row i row) ` set t"
    using assms(2) by (simp add: list_jobs_def)
  also have "\<dots> = {r. \<exists>i. get_job t i = Some r}"
    using assms(1) by (fastforce simp: get_job_def table_wf_def intro: map_of_is_SomeI dest: map_of_SomeD)
  finally show ?thesis .
qed

lemma distinct_list_jobs: "table_wf t \<Longrightarrow> distinct (map row_id (list_jobs t limit))"
proof -
  let ?s = "sort_key (\<lambda>e. - sint (sql_updated_at (snd e))) t"
  assume "table_wf t"
  then have "distinct (map fst ?s)"
    by (simp add: table_wf_def distinct_map)
  then have "distinct (map fst (take n ?s))" for n
    by (metis distinct_take take_map)
  moreover have "map row_id (list_jobs t limit)
      = map fst (take (case limit of None \<Rightarrow> 100 | Some n \<Rightarrow> n) ?s)"
    by (simp add: list_jobs_def read_job_row_def case_prod_unfold)
  ultimately show ?thesis by presburger
qed

interpretation sql: job_store get_job upsert_job table_wf list_jobs length
proof
  fix t r
  show "table_wf t \<Longrightarrow> table_wf (upsert_job t r)"
    by (simp add: table_wf_def upsert_job_def distinct_update)
  show "length t \<le> length (upsert_job t r)"
    unfolding upsert_job_def
    by (induction t) auto
next
  show "get_job t i = Some r \<Longrightarrow> row_id r = i" for t i r
    by (auto simp: get_job_def read_job_row_def)
qed (auto simp: read_upserted set_list_jobs distinct_list_jobs)

end
