(* ===== verification/Bounded_Log.thy ===== *)
theory Bounded_Log
  imports Prelude
begin

section \<open>The interface of a bounded log\<close>

text \<open>
  Several components keep the most recent events only: they append an event and drop the oldest
  ones beyond a capacity. The contract of such a push, and what a client may conclude about any
  sequence of pushes.
\<close>

definition last_n :: "nat \<Rightarrow> 'a list \<Rightarrow> 'a list" where
  "last_n n xs = drop (length xs - n) xs"

lemma length_last_n [simp]: "length (last_n n xs) = min n (length xs)"
  by (simp add: last_n_def)

lemma last_n_short: "length xs \<le> n \<Longrightarrow> last_n n xs = xs"
  by (simp add: last_n_def)

lemma last_n_append: "last_n n (last_n n xs @ ys) = last_n n (xs @ ys)"
  by (cases "length xs \<le> n") (simp_all add: last_n_def algebra_simps Nat.diff_diff_eq)

lemma last_last_n: "0 < n \<Longrightarrow> xs \<noteq> [] \<Longrightarrow> last (last_n n xs) = last xs"
  by (simp add: last_n_def last_drop)

lemma set_last_n: "set (last_n n xs) \<subseteq> set xs"
  by (simp add: last_n_def set_drop_subset)

locale bounded_log =
  fixes push :: "'e \<Rightarrow> 'e list \<Rightarrow> 'e list" and cap :: nat
  assumes push_last_n: "push x xs = last_n cap (xs @ [x])" and cap_pos: "0 < cap"
begin

lemma push_length: "length (push x xs) \<le> cap"
  by (simp add: push_last_n)

lemma push_newest: "push x xs \<noteq> [] \<and> last (push x xs) = x"
  using cap_pos last_last_n [of cap "xs @ [x]"]
  by (metis push_last_n last_snoc length_last_n snoc_eq_iff_butlast length_greater_0_conv min_less_iff_conj)

lemma push_set: "set (push x xs) \<subseteq> insert x (set xs)"
  using set_last_n by (fastforce simp: push_last_n)

lemma push_all: "length xs \<le> cap \<Longrightarrow> fold push ys xs = last_n cap (xs @ ys)"
proof (induction ys arbitrary: xs)
  case (Cons y ys)
  have "fold push (y # ys) xs = last_n cap (push y xs @ ys)"
    using Cons push_length by simp
  also have "\<dots> = last_n cap (xs @ y # ys)"
    using last_n_append [of cap "xs @ [y]" ys] by (simp add: push_last_n)
  finally show ?case .
qed (simp add: last_n_short)

end

end
