(* ===== verification/JobManager.thy ===== *)
theory JobManager
  imports JobStore Bounded_Log
begin

section \<open>Background jobs (crates/core/src/lib.rs)\<close>

text \<open>
  \<open>JobManager\<close> and the job operations of \<open>Runtime\<close>, which persist each job right after
  changing it. The map of jobs is an association list whose order stands for the hash map's
  iteration order. The clock is an argument of each operation (a function of the job where one
  call reads it for several jobs), so are the fresh UUID and whether the database accepts the
  write. \<open>to_string\<close> and \<open>from_str\<close> are the JSON library's text codec.
\<close>

subsection \<open>Data\<close>

datatype job_status = Queued | Running | Paused | Completed | Failed | Cancelled

definition JOB_DETAIL_SCHEMA_VERSION :: "8 word" where "JOB_DETAIL_SCHEMA_VERSION = 1"
definition DEFAULT_JOB_MAX_ATTEMPTS :: "32 word" where "DEFAULT_JOB_MAX_ATTEMPTS = 3"
definition DEFAULT_JOB_BACKOFF_BASE_MS :: "64 word" where "DEFAULT_JOB_BACKOFF_BASE_MS = 500"
definition MAX_JOB_HISTORY_ENTRIES :: nat where "MAX_JOB_HISTORY_ENTRIES = 64"

record job_retry_metadata =
  attempt :: "32 word"
  max_attempts :: "32 word"
  backoff_base_ms :: "64 word"
  next_backoff_ms :: "64 word"
  next_retry_at :: "64 word option"

definition job_retry_default :: job_retry_metadata where
  "job_retry_default =
     \<lparr>attempt = 0, max_attempts = DEFAULT_JOB_MAX_ATTEMPTS, backoff_base_ms = DEFAULT_JOB_BACKOFF_BASE_MS,
      next_backoff_ms = 0, next_retry_at = None\<rparr>"

record job_history_entry =
  at_time :: "64 word"
  entry_phase :: str
  entry_status :: job_status
  entry_progress :: "8 word option"
  entry_detail :: "str option"
  entry_retry :: job_retry_metadata

record persisted_job_detail =
  pd_status :: job_status
  pd_detail :: "str option"
  pd_retry :: job_retry_metadata
  pd_history :: "job_history_entry list"

record job_record =
  job_id :: str
  job_name :: str
  status :: job_status
  progress :: "8 word option"
  detail :: "str option"
  retry :: job_retry_metadata
  history :: "job_history_entry list"
  created_at :: "64 word"
  updated_at :: "64 word"

record job_manager =
  jobs :: "(str \<times> job_record) list"

definition job_manager_default :: job_manager where
  "job_manager_default = \<lparr>jobs = []\<rparr>"

datatype job_error = JobDbError str

subsection \<open>Statuses and JSON\<close>

fun job_status_to_str :: "job_status \<Rightarrow> str" where
  "job_status_to_str Queued = ''queued''"
| "job_status_to_str Running = ''running''"
| "job_status_to_str Paused = ''paused''"
| "job_status_to_str Completed = ''completed''"
| "job_status_to_str Failed = ''failed''"
| "job_status_to_str Cancelled = ''cancelled''"

definition job_status_from_str :: "str \<Rightarrow> job_status option" where
  "job_status_from_str value =
     (if value = ''queued'' then Some Queued
      else if value = ''running'' then Some Running
      else if value = ''paused'' then Some Paused
      else if value = ''completed'' then Some Completed
      else if value = ''failed'' then Some Failed
      else if value = ''cancelled'' then Some Cancelled
      else None)"

fun runtime_status_to_job_state :: "job_status \<Rightarrow> job_state_status" where
  "runtime_status_to_job_state Queued = StateQueued"
| "runtime_status_to_job_state Running = StateRunning"
| "runtime_status_to_job_state Paused = StatePaused"
| "runtime_status_to_job_state Completed = StateCompleted"
| "runtime_status_to_job_state Failed = StateFailed"
| "runtime_status_to_job_state Cancelled = StateCancelled"

fun job_state_status_to_runtime :: "job_state_status \<Rightarrow> job_status" where
  "job_state_status_to_runtime StateQueued = Queued"
| "job_state_status_to_runtime StateRunning = Running"
| "job_state_status_to_runtime StatePaused = Paused"
| "job_state_status_to_runtime StateCompleted = Completed"
| "job_state_status_to_runtime StateFailed = Failed"
| "job_state_status_to_runtime StateCancelled = Cancelled"

definition json_optional_string :: "json \<Rightarrow> str option" where
  "json_optional_string value = (if is_null value then None else as_str value)"

definition get_u64 :: "str \<Rightarrow> json \<Rightarrow> 64 word option" where
  "get_u64 k value = Option.bind (json_get k value) as_u64"

definition parse_retry_metadata :: "json option \<Rightarrow> job_retry_metadata" where
  "parse_retry_metadata v =
     (case v of
        None \<Rightarrow> job_retry_default
      | Some value \<Rightarrow>
          \<lparr>attempt = clamp_word (case get_u64 ''attempt'' value of None \<Rightarrow> 0 | Some n \<Rightarrow> n),
           max_attempts = clamp_word (case get_u64 ''max_attempts'' value of
               None \<Rightarrow> ucast DEFAULT_JOB_MAX_ATTEMPTS | Some n \<Rightarrow> n),
           backoff_base_ms = (case get_u64 ''backoff_base_ms'' value of
               None \<Rightarrow> DEFAULT_JOB_BACKOFF_BASE_MS | Some n \<Rightarrow> n),
           next_backoff_ms = (case get_u64 ''next_backoff_ms'' value of None \<Rightarrow> 0 | Some n \<Rightarrow> n),
           next_retry_at = Option.bind (json_get ''next_retry_at'' value) as_i64\<rparr>)"

definition parse_status :: "json \<Rightarrow> job_status option" where
  "parse_status value = Option.bind (Option.bind (json_get ''status'' value) as_str) job_status_from_str"

definition parse_history_entry :: "json \<Rightarrow> job_history_entry option" where
  "parse_history_entry value =
     (case parse_status value of
        None \<Rightarrow> None
      | Some st \<Rightarrow> Some
          \<lparr>at_time = (case Option.bind (json_get ''at'' value) as_i64 of None \<Rightarrow> 0 | Some n \<Rightarrow> n),
           entry_phase = (case Option.bind (json_get ''phase'' value) as_str of
               None \<Rightarrow> ''unknown'' | Some s \<Rightarrow> s),
           entry_status = st,
           entry_progress = map_option clamp_word (get_u64 ''progress'' value),
           entry_detail = Option.bind (json_get ''detail'' value) json_optional_string,
           entry_retry = parse_retry_metadata (json_get ''retry'' value)\<rparr>)"

definition job_retry_to_value :: "job_retry_metadata \<Rightarrow> json" where
  "job_retry_to_value r = JObj
     [(''attempt'', json_uint (attempt r)), (''max_attempts'', json_uint (max_attempts r)),
      (''backoff_base_ms'', json_uint (backoff_base_ms r)), (''next_backoff_ms'', json_uint (next_backoff_ms r)),
      (''next_retry_at'', json_opt json_sint (next_retry_at r))]"

definition job_history_to_value :: "job_history_entry \<Rightarrow> json" where
  "job_history_to_value e = JObj
     [(''at'', json_sint (at_time e)), (''phase'', JStr (entry_phase e)),
      (''status'', JStr (job_status_to_str (entry_status e))),
      (''progress'', json_opt json_uint (entry_progress e)), (''detail'', json_opt JStr (entry_detail e)),
      (''retry'', job_retry_to_value (entry_retry e))]"

text \<open>The persisted detail as a JSON value, and as text.\<close>

definition parse_persisted_value :: "json \<Rightarrow> persisted_job_detail option" where
  "parse_persisted_value parsed =
     (case parse_status parsed of
        None \<Rightarrow> None
      | Some st \<Rightarrow> Some
          \<lparr>pd_status = st,
           pd_detail = Option.bind (json_get ''detail'' parsed) json_optional_string,
           pd_retry = parse_retry_metadata (json_get ''retry'' parsed),
           pd_history = (case Option.bind (json_get ''history'' parsed) as_array of
               None \<Rightarrow> [] | Some items \<Rightarrow> List.map_filter parse_history_entry items)\<rparr>)"

definition parse_persisted_detail ::
  "(str \<Rightarrow> json option) \<Rightarrow> str option \<Rightarrow> persisted_job_detail option" where
  "parse_persisted_detail from_str raw = Option.bind (Option.bind raw from_str) parse_persisted_value"

definition persisted_value :: "job_record \<Rightarrow> json" where
  "persisted_value j = JObj
     [(''schema_version'', json_uint JOB_DETAIL_SCHEMA_VERSION),
      (''status'', JStr (job_status_to_str (status j))), (''detail'', json_opt JStr (detail j)),
      (''retry'', job_retry_to_value (retry j)), (''history'', JArr (map job_history_to_value (history j)))]"

definition encode_persisted_detail :: "(json \<Rightarrow> str) \<Rightarrow> job_record \<Rightarrow> str option" where
  "encode_persisted_detail to_string j = Some (to_string (persisted_value j))"

subsection \<open>Changes of one job\<close>

definition deterministic_backoff_ms :: "job_retry_metadata \<Rightarrow> 64 word" where
  "deterministic_backoff_ms r =
     (if attempt r = 0 then 0
      else (let exponent = min (sat_sub32 (attempt r) 1) 20;
                multiplier = (if exponent < 64 then push_bit (unat exponent) 1 else - 1)
            in sat_mul64 (backoff_base_ms r) multiplier))"

definition clear_retry_schedule :: "job_retry_metadata \<Rightarrow> job_retry_metadata" where
  "clear_retry_schedule r = r\<lparr>next_backoff_ms := 0, next_retry_at := None\<rparr>"

definition history_entry_of :: "job_record \<Rightarrow> str \<Rightarrow> job_history_entry" where
  "history_entry_of j phase =
     \<lparr>at_time = updated_at j, entry_phase = phase, entry_status = status j, entry_progress = progress j,
      entry_detail = detail j, entry_retry = retry j\<rparr>"

definition push_history_entry :: "job_history_entry \<Rightarrow> job_history_entry list \<Rightarrow> job_history_entry list" where
  "push_history_entry e h =
     (let h' = h @ [e]
      in if MAX_JOB_HISTORY_ENTRIES < length h' then drop (length h' - MAX_JOB_HISTORY_ENTRIES) h' else h')"

definition push_history :: "job_record \<Rightarrow> str \<Rightarrow> job_record" where
  "push_history j phase = j\<lparr>history := push_history_entry (history_entry_of j phase) (history j)\<rparr>"

definition job_set_running :: "64 word \<Rightarrow> job_record \<Rightarrow> job_record" where
  "job_set_running now j = push_history
     (j\<lparr>status := Running, retry := clear_retry_schedule (retry j), updated_at := now\<rparr>) ''running''"

definition job_update_progress :: "64 word \<Rightarrow> 8 word \<Rightarrow> str option \<Rightarrow> job_record \<Rightarrow> job_record" where
  "job_update_progress now p d j = push_history
     (j\<lparr>progress := Some (min p 100), detail := d, updated_at := now\<rparr>) ''progress_updated''"

definition job_complete :: "64 word \<Rightarrow> job_record \<Rightarrow> job_record" where
  "job_complete now j = push_history
     (j\<lparr>status := Completed, progress := Some 100, retry := clear_retry_schedule (retry j), updated_at := now\<rparr>)
     ''completed''"

definition delay_secs :: "64 word \<Rightarrow> 64 word" where
  "delay_secs backoff = min (sat_add64 backoff 999 div 1000) (word_of_int (2 ^ 63 - 1))"

definition schedule_retry :: "64 word \<Rightarrow> job_retry_metadata \<Rightarrow> job_retry_metadata" where
  "schedule_retry now r =
     (if attempt r < max_attempts r
      then (let r = r\<lparr>attempt := attempt r + 1\<rparr>;
                r = r\<lparr>next_backoff_ms := deterministic_backoff_ms r\<rparr>
            in r\<lparr>next_retry_at := Some (sat_add_i64 now (delay_secs (next_backoff_ms r)))\<rparr>)
      else clear_retry_schedule r)"

definition job_fail :: "64 word \<Rightarrow> str \<Rightarrow> job_record \<Rightarrow> job_record" where
  "job_fail now d j = push_history
     (j\<lparr>status := Failed, detail := Some d, retry := schedule_retry now (retry j), updated_at := now\<rparr>) ''failed''"

definition job_cancel :: "64 word \<Rightarrow> job_record \<Rightarrow> job_record" where
  "job_cancel now j = push_history
     (j\<lparr>status := Cancelled, retry := clear_retry_schedule (retry j), updated_at := now\<rparr>) ''cancelled''"

definition keep_detail :: "str option \<Rightarrow> str option \<Rightarrow> str option" where
  "keep_detail old new = (case new of None \<Rightarrow> old | Some d \<Rightarrow> Some d)"

definition job_pause :: "64 word \<Rightarrow> str option \<Rightarrow> job_record \<Rightarrow> job_record" where
  "job_pause now d j = push_history
     (j\<lparr>status := Paused, detail := keep_detail (detail j) d, updated_at := now\<rparr>) ''paused''"

definition job_resume :: "64 word \<Rightarrow> str option \<Rightarrow> job_record \<Rightarrow> job_record" where
  "job_resume now d j = push_history
     (j\<lparr>status := Running, detail := keep_detail (detail j) d, retry := clear_retry_schedule (retry j),
        updated_at := now\<rparr>) ''resumed''"

definition job_requeue :: "64 word \<Rightarrow> job_record \<Rightarrow> job_record" where
  "job_requeue now j = push_history (j\<lparr>status := Queued, updated_at := now\<rparr>) ''queued_after_resume''"

subsection \<open>The manager\<close>

definition new_job :: "64 word \<Rightarrow> str \<Rightarrow> str \<Rightarrow> job_record" where
  "new_job now i name = push_history
     \<lparr>job_id = i, job_name = name, status = Queued, progress = Some 0, detail = None,
      retry = job_retry_default, history = [], created_at = now, updated_at = now\<rparr> ''created''"

definition enqueue :: "64 word \<Rightarrow> str \<Rightarrow> job_manager \<Rightarrow> str \<Rightarrow> job_record \<times> job_manager" where
  "enqueue now uuid m name =
     (let i = ''job-'' @ uuid; job = new_job now i name
      in (job, m\<lparr>jobs := AList.update i job (jobs m)\<rparr>))"

text \<open>\<open>if let Some(job) = self.jobs.get_mut(id)\<close> with the change of the job.\<close>

definition modify_job :: "(job_record \<Rightarrow> job_record) \<Rightarrow> job_manager \<Rightarrow> str \<Rightarrow> job_manager" where
  "modify_job f m i =
     (case map_of (jobs m) i of None \<Rightarrow> m | Some j \<Rightarrow> m\<lparr>jobs := AList.update i (f j) (jobs m)\<rparr>)"

definition set_running :: "64 word \<Rightarrow> job_manager \<Rightarrow> str \<Rightarrow> job_manager" where
  "set_running now = modify_job (job_set_running now)"

definition update_progress :: "64 word \<Rightarrow> job_manager \<Rightarrow> str \<Rightarrow> 8 word \<Rightarrow> str option \<Rightarrow> job_manager" where
  "update_progress now m i p d = modify_job (job_update_progress now p d) m i"

definition complete :: "64 word \<Rightarrow> job_manager \<Rightarrow> str \<Rightarrow> job_manager" where
  "complete now = modify_job (job_complete now)"

definition fail :: "64 word \<Rightarrow> job_manager \<Rightarrow> str \<Rightarrow> str \<Rightarrow> job_manager" where
  "fail now m i d = modify_job (job_fail now d) m i"

definition cancel :: "64 word \<Rightarrow> job_manager \<Rightarrow> str \<Rightarrow> job_manager" where
  "cancel now = modify_job (job_cancel now)"

definition pause :: "64 word \<Rightarrow> job_manager \<Rightarrow> str \<Rightarrow> str option \<Rightarrow> job_manager" where
  "pause now m i d = modify_job (job_pause now d) m i"

definition resume :: "64 word \<Rightarrow> job_manager \<Rightarrow> str \<Rightarrow> str option \<Rightarrow> job_manager" where
  "resume now m i d = modify_job (job_resume now d) m i"

definition list_manager_jobs :: "job_manager \<Rightarrow> job_record list" where
  "list_manager_jobs m = sort_key (\<lambda>j. - sint (updated_at j)) (map snd (jobs m))"

definition job_history :: "job_manager \<Rightarrow> str \<Rightarrow> job_history_entry list" where
  "job_history m i = (case map_of (jobs m) i of None \<Rightarrow> [] | Some j \<Rightarrow> history j)"

definition is_pending :: "job_record \<Rightarrow> bool" where
  "is_pending j = (status j = Queued \<or> status j = Running)"

definition requeue_pending :: "(str \<Rightarrow> 64 word) \<Rightarrow> job_record \<Rightarrow> job_record" where
  "requeue_pending clock j = (if is_pending j then job_requeue (clock (job_id j)) j else j)"

definition resume_pending :: "(str \<Rightarrow> 64 word) \<Rightarrow> job_manager \<Rightarrow> job_record list \<times> job_manager" where
  "resume_pending clock m =
     (map (requeue_pending clock) (filter is_pending (map snd (jobs m))),
      m\<lparr>jobs := map (\<lambda>(i, j). (i, requeue_pending clock j)) (jobs m)\<rparr>)"

definition job_of_row :: "(str \<Rightarrow> json option) \<Rightarrow> job_state_record \<Rightarrow> job_record" where
  "job_of_row from_str row =
     (let (st, d, r, h) =
        (case parse_persisted_detail from_str (row_detail row) of
           Some p \<Rightarrow> (pd_status p, pd_detail p, pd_retry p, pd_history p)
         | None \<Rightarrow> (job_state_status_to_runtime (row_status row), row_detail row, job_retry_default, []))
      in \<lparr>job_id = row_id row, job_name = row_name row, status = st, progress = row_progress row,
          detail = d, retry = r, history = h, created_at = row_created_at row, updated_at = row_updated_at row\<rparr>)"

definition load_from_store ::
  "(str \<Rightarrow> json option) \<Rightarrow> bool \<Rightarrow> jobs_table \<Rightarrow> job_manager \<Rightarrow> job_error + job_manager" where
  "load_from_store from_str db_ok t m =
     (if \<not> db_ok then Inl (JobDbError ''failed to query persisted jobs'')
      else Inr (m\<lparr>jobs := fold (\<lambda>row. AList.update (row_id row) (job_of_row from_str row))
                          (list_jobs t (Some 500)) (jobs m)\<rparr>))"

definition row_of_job :: "(json \<Rightarrow> str) \<Rightarrow> job_record \<Rightarrow> job_state_record" where
  "row_of_job to_string j =
     \<lparr>row_id = job_id j, row_name = job_name j, row_status = runtime_status_to_job_state (status j),
      row_progress = progress j, row_detail = encode_persisted_detail to_string j,
      row_created_at = created_at j, row_updated_at = updated_at j\<rparr>"

definition persist_job ::
  "(json \<Rightarrow> str) \<Rightarrow> bool \<Rightarrow> job_manager \<Rightarrow> jobs_table \<Rightarrow> str \<Rightarrow> job_error + jobs_table" where
  "persist_job to_string db_ok m t i =
     (case map_of (jobs m) i of
        None \<Rightarrow> Inr t
      | Some j \<Rightarrow>
          if db_ok then Inr (upsert_job t (row_of_job to_string j))
          else Inl (JobDbError (''failed to upsert job '' @ job_id j)))"

fun persist_ids ::
  "(json \<Rightarrow> str) \<Rightarrow> (str \<Rightarrow> bool) \<Rightarrow> job_manager \<Rightarrow> str list \<Rightarrow> jobs_table \<Rightarrow> (job_error + unit) \<times> jobs_table" where
  "persist_ids to_string db_ok m [] t = (Inr (), t)"
| "persist_ids to_string db_ok m (i # is) t =
     (case persist_job to_string (db_ok i) m t i of
        Inl e \<Rightarrow> (Inl e, t)
      | Inr t' \<Rightarrow> persist_ids to_string db_ok m is t')"

text \<open>The rows written before the first refused write stay in the table.\<close>

definition persist_all ::
  "(json \<Rightarrow> str) \<Rightarrow> (str \<Rightarrow> bool) \<Rightarrow> job_manager \<Rightarrow> jobs_table \<Rightarrow> (job_error + unit) \<times> jobs_table" where
  "persist_all to_string db_ok m t = persist_ids to_string db_ok m (map fst (jobs m)) t"

subsection \<open>The job operations of the runtime\<close>

record job_runtime =
  rt_jobs :: job_manager
  rt_store :: jobs_table

definition persist_change ::
  "(json \<Rightarrow> str) \<Rightarrow> bool \<Rightarrow> job_runtime \<Rightarrow> job_manager \<Rightarrow> str \<Rightarrow> (job_error + unit) \<times> job_runtime" where
  "persist_change to_string db_ok rt m i =
     (case persist_job to_string db_ok m (rt_store rt) i of
        Inl e \<Rightarrow> (Inl e, rt\<lparr>rt_jobs := m\<rparr>)
      | Inr t \<Rightarrow> (Inr (), rt\<lparr>rt_jobs := m, rt_store := t\<rparr>))"

definition enqueue_job ::
  "(json \<Rightarrow> str) \<Rightarrow> bool \<Rightarrow> 64 word \<Rightarrow> str \<Rightarrow> job_runtime \<Rightarrow> str \<Rightarrow> (job_error + job_record) \<times> job_runtime" where
  "enqueue_job to_string db_ok now uuid rt name =
     (let (job, m) = enqueue now uuid (rt_jobs rt) name;
          (r, rt') = persist_change to_string db_ok rt m (job_id job)
      in (try_bind r (\<lambda>_. Inr job), rt'))"

definition set_job_running where
  "set_job_running to_string db_ok now rt i =
     persist_change to_string db_ok rt (set_running now (rt_jobs rt) i) i"

definition update_job_progress where
  "update_job_progress to_string db_ok now rt i p d =
     persist_change to_string db_ok rt (update_progress now (rt_jobs rt) i p d) i"

definition complete_job where
  "complete_job to_string db_ok now rt i =
     persist_change to_string db_ok rt (complete now (rt_jobs rt) i) i"

definition fail_job where
  "fail_job to_string db_ok now rt i d =
     persist_change to_string db_ok rt (fail now (rt_jobs rt) i d) i"

definition cancel_job where
  "cancel_job to_string db_ok now rt i =
     persist_change to_string db_ok rt (cancel now (rt_jobs rt) i) i"

definition pause_job where
  "pause_job to_string db_ok now rt i d =
     persist_change to_string db_ok rt (pause now (rt_jobs rt) i d) i"

definition resume_job where
  "resume_job to_string db_ok now rt i d =
     persist_change to_string db_ok rt (resume now (rt_jobs rt) i d) i"

text \<open>
  \<open>Runtime::new\<close>: load the jobs, requeue the pending ones and persist those; a load that fails
  leaves the list empty, a write that fails is logged.
\<close>

fun persist_requeued ::
  "(json \<Rightarrow> str) \<Rightarrow> (str \<Rightarrow> bool) \<Rightarrow> job_manager \<Rightarrow> job_record list \<Rightarrow> jobs_table \<Rightarrow> jobs_table" where
  "persist_requeued to_string db_ok m [] t = t"
| "persist_requeued to_string db_ok m (j # js) t =
     persist_requeued to_string db_ok m js
       (case persist_job to_string (db_ok (job_id j)) m t (job_id j) of Inl e \<Rightarrow> t | Inr t' \<Rightarrow> t')"

definition runtime_new ::
  "(json \<Rightarrow> str) \<Rightarrow> (str \<Rightarrow> json option) \<Rightarrow> bool \<Rightarrow> (str \<Rightarrow> bool) \<Rightarrow> (str \<Rightarrow> 64 word) \<Rightarrow> jobs_table \<Rightarrow> job_runtime" where
  "runtime_new to_string from_str load_ok db_ok clock t =
     (case load_from_store from_str load_ok t job_manager_default of
        Inl e \<Rightarrow> \<lparr>rt_jobs = job_manager_default, rt_store = t\<rparr>
      | Inr m \<Rightarrow>
          (let (resumed, m') = resume_pending clock m
           in \<lparr>rt_jobs = m', rt_store = persist_requeued to_string db_ok m' resumed t\<rparr>))"

subsection \<open>The history is a bounded log\<close>

interpretation job_log: bounded_log push_history_entry MAX_JOB_HISTORY_ENTRIES
  by unfold_locales
    (auto simp: push_history_entry_def last_n_def MAX_JOB_HISTORY_ENTRIES_def Let_def)

lemma push_history_simps [simp]:
  "job_id (push_history j ph) = job_id j" "job_name (push_history j ph) = job_name j"
  "status (push_history j ph) = status j" "progress (push_history j ph) = progress j"
  "detail (push_history j ph) = detail j" "retry (push_history j ph) = retry j"
  "created_at (push_history j ph) = created_at j" "updated_at (push_history j ph) = updated_at j"
  "history (push_history j ph) = push_history_entry (history_entry_of j ph) (history j)"
  by (simp_all add: push_history_def)

subsection \<open>The invariant of a job\<close>

definition job_shape :: "job_record \<Rightarrow> bool" where
  "job_shape j \<longleftrightarrow>
     (\<forall>p. progress j = Some p \<longrightarrow> p \<le> 100) \<and> attempt (retry j) \<le> max_attempts (retry j)
     \<and> (next_retry_at (retry j) \<noteq> None \<longrightarrow> status j = Failed \<or> status j = Paused)"

text \<open>Besides, the history has 1 to 64 entries and its last entry is the job's present state.\<close>

definition job_ok :: "job_record \<Rightarrow> bool" where
  "job_ok j \<longleftrightarrow> job_shape j \<and> history j \<noteq> [] \<and> length (history j) \<le> MAX_JOB_HISTORY_ENTRIES
     \<and> (\<exists>ph. last (history j) = history_entry_of j ph)"

lemma job_ok_push: "job_shape j \<Longrightarrow> job_ok (push_history j ph)"
  using job_log.push_length job_log.push_newest
  by (auto simp: job_ok_def job_shape_def history_entry_of_def)

lemma job_ok_shape: "job_ok j \<Longrightarrow> job_shape j"
  by (simp add: job_ok_def)

lemma clear_retry_simps [simp]:
  "attempt (clear_retry_schedule r) = attempt r" "max_attempts (clear_retry_schedule r) = max_attempts r"
  "next_retry_at (clear_retry_schedule r) = None" "next_backoff_ms (clear_retry_schedule r) = 0"
  "backoff_base_ms (clear_retry_schedule r) = backoff_base_ms r"
  by (simp_all add: clear_retry_schedule_def)

lemma schedule_retry_attempts:
  "attempt r \<le> max_attempts r \<Longrightarrow>
     attempt (schedule_retry now r) \<le> max_attempts (schedule_retry now r)"
  by (auto simp: schedule_retry_def Let_def inc_le)

lemma job_ok_new [inv_intros]: "job_ok (new_job now i name)"
  unfolding new_job_def
  by (rule job_ok_push) (simp add: job_shape_def job_retry_default_def DEFAULT_JOB_MAX_ATTEMPTS_def)

lemma job_ok_ops [inv_intros]:
  assumes "job_ok j"
  shows "job_ok (job_set_running now j)" "job_ok (job_update_progress now p d j)" "job_ok (job_complete now j)"
    "job_ok (job_fail now e j)" "job_ok (job_cancel now j)" "job_ok (job_pause now d j)"
    "job_ok (job_resume now d j)"
  using job_ok_shape [OF assms] schedule_retry_attempts
  by (auto simp: job_set_running_def job_update_progress_def job_complete_def job_fail_def job_cancel_def
      job_pause_def job_resume_def job_shape_def intro!: job_ok_push)

lemma job_ok_requeue [inv_intros]: "job_ok j \<Longrightarrow> job_ok (requeue_pending clock j)"
  using job_ok_shape [of j]
  by (auto simp: requeue_pending_def job_requeue_def is_pending_def job_shape_def intro!: job_ok_push)

lemma job_id_ops [simp]:
  "job_id (job_set_running now j) = job_id j" "job_id (job_update_progress now p d j) = job_id j"
  "job_id (job_complete now j) = job_id j" "job_id (job_fail now e j) = job_id j"
  "job_id (job_cancel now j) = job_id j" "job_id (job_pause now d j) = job_id j"
  "job_id (job_resume now d j) = job_id j" "job_id (requeue_pending clock j) = job_id j"
  "job_id (new_job now i name) = i"
  by (simp_all add: job_set_running_def job_update_progress_def job_complete_def job_fail_def
      job_cancel_def job_pause_def job_resume_def requeue_pending_def job_requeue_def new_job_def)

subsection \<open>Persisted records decode to themselves\<close>

lemma job_status_text [simp]: "job_status_from_str (job_status_to_str s) = Some s"
  by (cases s) (simp_all add: job_status_from_str_def)

lemma json_opt_string [simp]: "json_optional_string (json_opt JStr d) = d"
  by (cases d) (simp_all add: json_optional_string_def json_opt_def)

lemma json_opt_i64 [simp]: "as_i64 (json_opt json_sint t) = t"
  by (cases t) (simp_all add: json_opt_def)

lemma json_opt_u8 [simp]: "map_option clamp_word (as_u64 (json_opt json_uint (p :: 8 word option))) = p"
  by (cases p) (simp_all add: json_opt_def)

lemma parse_retry_value [simp]: "parse_retry_metadata (Some (job_retry_to_value r)) = r"
  by (simp add: parse_retry_metadata_def job_retry_to_value_def get_u64_def)

lemma parse_history_value [simp]: "parse_history_entry (job_history_to_value e) = Some e"
  by (simp add: parse_history_entry_def job_history_to_value_def parse_status_def get_u64_def)

lemma map_filter_values [simp]: "List.map_filter parse_history_entry (map job_history_to_value h) = h"
  by (induction h) (simp_all add: List.map_filter_simps)

lemma parse_persisted_value_of_job:
  "parse_persisted_value (persisted_value j)
   = Some \<lparr>pd_status = status j, pd_detail = detail j, pd_retry = retry j, pd_history = history j\<rparr>"
  by (simp add: parse_persisted_value_def persisted_value_def parse_status_def)

lemma job_row_roundtrip:
  "from_str (to_string (persisted_value j)) = Some (persisted_value j)
   \<Longrightarrow> job_of_row from_str (row_of_job to_string j) = j"
  by (simp add: job_of_row_def row_of_job_def parse_persisted_detail_def encode_persisted_detail_def
      parse_persisted_value_of_job)

subsection \<open>The table mirrors the jobs\<close>

definition codec_ok :: "(json \<Rightarrow> str) \<Rightarrow> (str \<Rightarrow> json option) \<Rightarrow> bool" where
  "codec_ok to_string from_str \<longleftrightarrow> (\<forall>v. from_str (to_string v) = Some v)"

definition jobs_wf :: "job_manager \<Rightarrow> bool" where
  "jobs_wf m \<longleftrightarrow> distinct (map fst (jobs m))
     \<and> (\<forall>i j. map_of (jobs m) i = Some j \<longrightarrow> job_id j = i \<and> job_ok j)"

definition mirror :: "(str \<Rightarrow> json option) \<Rightarrow> job_runtime \<Rightarrow> bool" where
  "mirror from_str rt \<longleftrightarrow> table_wf (rt_store rt) \<and> jobs_wf (rt_jobs rt)
     \<and> (\<forall>i. map_of (jobs (rt_jobs rt)) i = map_option (job_of_row from_str) (get_job (rt_store rt) i))"

lemma jobs_wf_update:
  "jobs_wf m \<Longrightarrow> job_id j = i \<Longrightarrow> job_ok j \<Longrightarrow> jobs_wf (m\<lparr>jobs := AList.update i j (jobs m)\<rparr>)"
  by (simp add: jobs_wf_def distinct_update update_conv')

lemma row_of_job_id [simp]: "row_id (row_of_job to_string j) = job_id j"
  by (simp add: row_of_job_def)

text \<open>Writing through one changed job keeps the mirror.\<close>

lemma mirror_update:
  assumes "mirror from_str rt" and "codec_ok to_string from_str" and "job_id j = i" and "job_ok j"
  shows "mirror from_str (snd (persist_change to_string True rt
    ((rt_jobs rt)\<lparr>jobs := AList.update i j (jobs (rt_jobs rt))\<rparr>) i))"
  using assms job_row_roundtrip [of from_str to_string j]
  by (auto simp: mirror_def persist_change_def persist_job_def codec_ok_def update_conv' sql.wf_put
      sql.get_put intro: jobs_wf_update)

lemma mirror_modify:
  assumes "mirror from_str rt" and "codec_ok to_string from_str"
    and "\<And>j. job_id (f j) = job_id j" and "\<And>j. job_ok j \<Longrightarrow> job_ok (f j)"
  shows "mirror from_str (snd (persist_change to_string True rt (modify_job f (rt_jobs rt) i) i))"
proof (cases "map_of (jobs (rt_jobs rt)) i")
  case None
  then have "snd (persist_change to_string True rt (modify_job f (rt_jobs rt) i) i) = rt"
    by (simp add: modify_job_def persist_change_def persist_job_def)
  then show ?thesis using assms(1) by simp
next
  case (Some j)
  from assms(1) have "jobs_wf (rt_jobs rt)" by (simp only: mirror_def)
  with Some have "job_id j = i" "job_ok j" by (simp_all add: jobs_wf_def)
  then show ?thesis
    using mirror_update [OF assms(1,2), of "f j" i] assms(3) [of j] assms(4) [of j] Some
    by (simp add: modify_job_def)
qed

subsection \<open>Loading\<close>

lemma map_of_fold_update:
  "distinct (map k rs) \<Longrightarrow>
   map_of (fold (\<lambda>r. AList.update (k r) (f r)) rs m) i
   = (case map_of (map (\<lambda>r. (k r, f r)) rs) i of None \<Rightarrow> map_of m i | Some j \<Rightarrow> Some j)"
proof (induction rs arbitrary: m)
  case (Cons r rs)
  have "map_of (map (\<lambda>r. (k r, f r)) rs) (k r) = None"
    using Cons.prems by (auto simp: map_of_eq_None_iff)
  with Cons show ?case
    by (cases "i = k r") (simp_all add: update_conv' split: option.splits)
qed simp

lemma distinct_fold_update:
  "distinct (map fst m) \<Longrightarrow> distinct (map fst (fold (\<lambda>r. AList.update (k r) (f r)) rs m))"
  by (induction rs arbitrary: m) (simp_all add: distinct_update)

lemma load_lookup:
  assumes "table_wf t" and "length t \<le> 500"
    and "load_from_store from_str True t job_manager_default = Inr m"
  shows "map_of (jobs m) i = map_option (job_of_row from_str) (get_job t i)" and "distinct (map fst (jobs m))"
proof -
  have m: "jobs m = fold (\<lambda>row. AList.update (row_id row) (job_of_row from_str row)) (list_jobs t (Some 500)) []"
    using assms(3) by (auto simp: load_from_store_def job_manager_default_def)
  show "map_of (jobs m) i = map_option (job_of_row from_str) (get_job t i)"
    unfolding m map_of_fold_update [OF sql.listed_distinct [OF assms(1)]]
    using sql.listed_lookup [OF assms(1,2), of "job_of_row from_str" i] by (simp split: option.splits)
  show "distinct (map fst (jobs m))"
    unfolding m by (rule distinct_fold_update) simp
qed

lemma resume_pending_lookup:
  "map_of (jobs (snd (resume_pending clock m))) i = map_option (requeue_pending clock) (map_of (jobs m) i)"
  by (simp add: resume_pending_def map_of_map)

lemma persist_requeued_lookup:
  assumes "jobs_wf m"
  shows "get_job (persist_requeued to_string (\<lambda>_. True) m js t) i
    = (if i \<in> job_id ` set js \<and> map_of (jobs m) i \<noteq> None
       then map_option (row_of_job to_string) (map_of (jobs m) i) else get_job t i)"
  using assms
  by (induction js arbitrary: t)
    (auto simp: persist_job_def sql.get_put jobs_wf_def split: option.splits)

lemma persist_requeued_wf: "table_wf t \<Longrightarrow> table_wf (persist_requeued to_string db_ok m js t)"
  by (induction js arbitrary: t) (auto simp: persist_job_def sql.wf_put split: option.splits)

lemma persist_requeued_grows: "length t \<le> length (persist_requeued to_string db_ok m js t)"
proof (induction js arbitrary: t)
  case (Cons j js)
  have "length t \<le> length (case persist_job to_string (db_ok (job_id j)) m t (job_id j) of
      Inl e \<Rightarrow> t | Inr t' \<Rightarrow> t')"
    using sql.rows_put [of t] by (auto simp: persist_job_def split: option.splits)
  then show ?case using Cons by (fastforce intro: order_trans)
qed simp

text \<open>A restart: the table gives back the jobs, the pending ones requeued.\<close>

lemma restart_lookup:
  assumes "mirror from_str rt" and "length (rt_store rt) \<le> 500"
  shows "map_of (jobs (rt_jobs (runtime_new to_string from_str True db_ok clock (rt_store rt)))) i
    = map_option (requeue_pending clock) (map_of (jobs (rt_jobs rt)) i)"
proof -
  obtain m where m: "load_from_store from_str True (rt_store rt) job_manager_default = Inr m"
    by (simp add: load_from_store_def)
  have "map_of (jobs m) i = map_of (jobs (rt_jobs rt)) i" for i
    using load_lookup(1) [OF _ assms(2) m] assms(1) by (simp add: mirror_def)
  then show ?thesis
    using resume_pending_lookup [of clock m i]
    by (simp add: runtime_new_def m Let_def case_prod_unfold)
qed

lemma mirror_restart:
  assumes "mirror from_str rt" and "length (rt_store rt) \<le> 500" and "codec_ok to_string from_str"
  shows "mirror from_str (runtime_new to_string from_str True (\<lambda>_. True) clock (rt_store rt))"
proof -
  obtain m where m: "load_from_store from_str True (rt_store rt) job_manager_default = Inr m"
    by (simp add: load_from_store_def)
  from assms(1) have twf: "table_wf (rt_store rt)" and jwf: "jobs_wf (rt_jobs rt)"
    and mir: "map_of (jobs (rt_jobs rt)) i = map_option (job_of_row from_str) (get_job (rt_store rt) i)" for i
    by (simp_all only: mirror_def)
  have same: "map_of (jobs m) i = map_of (jobs (rt_jobs rt)) i" for i
    using load_lookup(1) [OF twf assms(2) m, of i] mir [of i] by simp
  have ids: "job_id j = i \<and> job_ok j" if "map_of (jobs m) i = Some j" for i j
    using jwf that by (simp add: jobs_wf_def same)
  have dist: "distinct (map fst (jobs m))" by (rule load_lookup(2) [OF twf assms(2) m])
  let ?m' = "snd (resume_pending clock m)"
  have "distinct (map fst (jobs ?m'))"
    using dist by (simp add: resume_pending_def case_prod_unfold comp_def)
  then have wf': "jobs_wf ?m'"
    using ids unfolding jobs_wf_def resume_pending_lookup
    by (metis (no_types, lifting) job_id_ops(8) job_ok_requeue map_option_eq_Some)
  let ?js = "fst (resume_pending clock m)"
  have js: "i \<in> job_id ` set ?js \<longleftrightarrow> (\<exists>j. map_of (jobs m) i = Some j \<and> is_pending j)" for i
  proof -
    have "i \<in> job_id ` set ?js \<longleftrightarrow> (\<exists>e\<in>set (jobs m). is_pending (snd e) \<and> job_id (snd e) = i)"
      by (auto simp: resume_pending_def image_iff)
    also have "\<dots> \<longleftrightarrow> (\<exists>k j. map_of (jobs m) k = Some j \<and> is_pending j \<and> job_id j = i)"
      using map_of_eq_Some_iff [OF dist] by force
    also have "\<dots> \<longleftrightarrow> (\<exists>j. map_of (jobs m) i = Some j \<and> is_pending j)"
      using ids by blast
    finally show ?thesis .
  qed
  have "map_of (jobs ?m') i
      = map_option (job_of_row from_str) (get_job (persist_requeued to_string (\<lambda>_. True) ?m' ?js (rt_store rt)) i)" for i
  proof (cases "map_of (jobs m) i")
    case None
    then have "get_job (rt_store rt) i = None" using mir [of i] same [of i] by simp
    then show ?thesis using None
      by (simp add: persist_requeued_lookup [OF wf'] resume_pending_lookup)
  next
    case (Some j)
    show ?thesis
    proof (cases "is_pending j")
      case True
      have "job_of_row from_str (row_of_job to_string (requeue_pending clock j)) = requeue_pending clock j"
        using assms(3) by (intro job_row_roundtrip) (simp add: codec_ok_def)
      then show ?thesis using Some True js [of i]
        by (simp add: persist_requeued_lookup [OF wf'] resume_pending_lookup)
    next
      case False
      then have "requeue_pending clock j = j" by (simp add: requeue_pending_def)
      moreover have "map_option (job_of_row from_str) (get_job (rt_store rt) i) = Some j"
        using mir [of i] same [of i] Some by simp
      ultimately show ?thesis using Some False js [of i]
        by (auto simp: persist_requeued_lookup [OF wf'] resume_pending_lookup)
    qed
  qed
  then show ?thesis
    using twf wf' by (simp add: mirror_def runtime_new_def m Let_def case_prod_unfold persist_requeued_wf)
qed

text \<open>
  The runtimes a program reaches when every write succeeds: a start on an empty table, the
  runtime's job operations, and restarts on the table.
\<close>

inductive rt_reach :: "(json \<Rightarrow> str) \<Rightarrow> (str \<Rightarrow> json option) \<Rightarrow> job_runtime \<Rightarrow> bool" for ts fs where
  rt_start: "rt_reach ts fs (runtime_new ts fs True (\<lambda>_. True) clock [])"
| rt_enqueue: "rt_reach ts fs rt \<Longrightarrow> rt_reach ts fs (snd (enqueue_job ts True now uuid rt name))"
| rt_running: "rt_reach ts fs rt \<Longrightarrow> rt_reach ts fs (snd (set_job_running ts True now rt i))"
| rt_progress: "rt_reach ts fs rt \<Longrightarrow> rt_reach ts fs (snd (update_job_progress ts True now rt i p d))"
| rt_complete: "rt_reach ts fs rt \<Longrightarrow> rt_reach ts fs (snd (complete_job ts True now rt i))"
| rt_fail: "rt_reach ts fs rt \<Longrightarrow> rt_reach ts fs (snd (fail_job ts True now rt i e))"
| rt_cancel: "rt_reach ts fs rt \<Longrightarrow> rt_reach ts fs (snd (cancel_job ts True now rt i))"
| rt_pause: "rt_reach ts fs rt \<Longrightarrow> rt_reach ts fs (snd (pause_job ts True now rt i d))"
| rt_resume: "rt_reach ts fs rt \<Longrightarrow> rt_reach ts fs (snd (resume_job ts True now rt i d))"
| rt_restart: "rt_reach ts fs rt \<Longrightarrow>
    rt_reach ts fs (runtime_new ts fs True (\<lambda>_. True) clock (rt_store rt))"

lemmas runtime_ops = set_job_running_def update_job_progress_def complete_job_def fail_job_def cancel_job_def
  pause_job_def resume_job_def set_running_def update_progress_def complete_def fail_def cancel_def pause_def
  resume_def

lemma persist_change_grows: "length (rt_store rt) \<le> length (rt_store (snd (persist_change ts ok rt m i)))"
  using sql.rows_put [of "rt_store rt"] by (auto simp: persist_change_def persist_job_def split: option.splits)

lemma restart_grows:
  "length (rt_store rt) \<le> length (rt_store (runtime_new ts fs True ok clock (rt_store rt)))"
  using persist_requeued_grows by (simp add: runtime_new_def load_from_store_def Let_def case_prod_unfold)

lemma mirror_empty: "codec_ok ts fs \<Longrightarrow> mirror fs (runtime_new ts fs True ok clock [])"
  by (simp add: mirror_def runtime_new_def load_from_store_def list_jobs_def job_manager_default_def
      resume_pending_def table_wf_def jobs_wf_def get_job_def)

lemma enqueue_job_change: "snd (enqueue_job ts ok now uuid rt name)
    = snd (persist_change ts ok rt ((rt_jobs rt)\<lparr>jobs := AList.update (''job-'' @ uuid)
        (new_job now (''job-'' @ uuid) name) (jobs (rt_jobs rt))\<rparr>) (''job-'' @ uuid))"
  by (simp add: enqueue_job_def enqueue_def Let_def case_prod_unfold)

lemma mirror_step:
  assumes "codec_ok ts fs" and "length (rt_store rt) \<le> 500 \<longrightarrow> mirror fs rt"
    and "\<And>j. job_id (f j) = job_id j" and "\<And>j. job_ok j \<Longrightarrow> job_ok (f j)"
  shows "length (rt_store (snd (persist_change ts True rt (modify_job f (rt_jobs rt) i) i))) \<le> 500
    \<longrightarrow> mirror fs (snd (persist_change ts True rt (modify_job f (rt_jobs rt) i) i))"
  using mirror_modify [OF _ assms(1,3,4)] assms(2) order_trans [OF persist_change_grows] by blast

text \<open>As long as the table has at most 500 rows, it mirrors the jobs.\<close>

lemma rt_reach_mirror:
  assumes "rt_reach ts fs rt" and codec: "codec_ok ts fs"
  shows "length (rt_store rt) \<le> 500 \<longrightarrow> mirror fs rt"
  using assms(1)
proof (induction rule: rt_reach.induct)
  case (rt_start clock)
  show ?case using mirror_empty [OF codec] by blast
next
  case (rt_enqueue rt now uuid name)
  then show ?case
    using mirror_update [OF _ codec job_id_ops(9) job_ok_new, of rt] order_trans [OF persist_change_grows]
    unfolding enqueue_job_change by blast
next
  case (rt_restart rt clock)
  then show ?case
    using mirror_restart [OF _ _ codec] order_trans [OF restart_grows] by blast
qed (unfold runtime_ops, (erule mirror_step [OF codec], simp, erule job_ok_ops)+)

subsection \<open>Sequences of changes\<close>

datatype job_event =
    EvRunning | EvProgress "8 word" "str option" | EvComplete | EvFail str | EvCancel
  | EvPause "str option" | EvResume "str option"

fun apply_event :: "64 word \<Rightarrow> job_event \<Rightarrow> job_record \<Rightarrow> job_record" where
  "apply_event now EvRunning j = job_set_running now j"
| "apply_event now (EvProgress p d) j = job_update_progress now p d j"
| "apply_event now EvComplete j = job_complete now j"
| "apply_event now (EvFail e) j = job_fail now e j"
| "apply_event now EvCancel j = job_cancel now j"
| "apply_event now (EvPause d) j = job_pause now d j"
| "apply_event now (EvResume d) j = job_resume now d j"

fun event_phase :: "job_event \<Rightarrow> str" where
  "event_phase EvRunning = ''running''"
| "event_phase (EvProgress _ _) = ''progress_updated''"
| "event_phase EvComplete = ''completed''"
| "event_phase (EvFail _) = ''failed''"
| "event_phase EvCancel = ''cancelled''"
| "event_phase (EvPause _) = ''paused''"
| "event_phase (EvResume _) = ''resumed''"

fun apply_events :: "(64 word \<times> job_event) list \<Rightarrow> job_record \<Rightarrow> job_record" where
  "apply_events [] j = j"
| "apply_events ((now, ev) # evs) j = apply_events evs (apply_event now ev j)"

text \<open>The unbounded log: a snapshot of the job after every event.\<close>

fun event_log :: "(64 word \<times> job_event) list \<Rightarrow> job_record \<Rightarrow> job_history_entry list" where
  "event_log [] j = []"
| "event_log ((now, ev) # evs) j =
     history_entry_of (apply_event now ev j) (event_phase ev) # event_log evs (apply_event now ev j)"

lemma apply_event_history:
  "history (apply_event now ev j)
   = push_history_entry (history_entry_of (apply_event now ev j) (event_phase ev)) (history j)"
  by (cases ev) (simp_all add: job_set_running_def job_update_progress_def job_complete_def job_fail_def
      job_cancel_def job_pause_def job_resume_def history_entry_of_def)

lemma apply_events_fold: "history (apply_events evs j) = fold push_history_entry (event_log evs j) (history j)"
  by (induction evs j rule: apply_events.induct) (simp_all add: apply_event_history)

subsection \<open>Back-off\<close>

lemma exponent_of_attempt:
  fixes a :: "32 word"
  assumes "a < m"
  shows "sat_sub32 (a + 1) 1 = a" and "a + 1 \<noteq> 0"
proof -
  have "uint a + 1 < 2 ^ 32"
    using assms uint_bounded [of m] by (simp add: word_less_def)
  then have u: "uint (a + 1) = uint a + 1"
    using uint_bounded [of a] by (simp add: uint_word_ariths)
  have "0 < uint (a + 1)" using u uint_ge_0 [of a] by linarith
  then show "a + 1 \<noteq> 0" by auto
  have "uint (1 :: 32 word) \<le> uint (a + 1)" using u uint_ge_0 [of a] by (simp only: uint_1)
  then have "1 \<le> a + 1" by (simp only: word_le_def)
  then show "sat_sub32 (a + 1) 1 = a" by (simp add: sat_sub32_def)
qed

lemma uint_power64:
  assumes "n < 64"
  shows "uint (2 ^ n :: 64 word) = 2 ^ n"
proof -
  have "(2 :: int) ^ n < 2 ^ LENGTH(64)" using assms by (intro power_strict_increasing) auto
  then have "uint (word_of_int (2 ^ n) :: 64 word) = 2 ^ n"
    by (simp only: uint_word_of_int) (rule mod_pos_pos_trivial, simp_all)
  then show ?thesis by simp
qed

text \<open>A failure with attempts left.\<close>

lemma schedule_retry_next:
  assumes "attempt r < max_attempts r"
  shows "uint (attempt (schedule_retry now r)) = uint (attempt r) + 1"
    and "max_attempts (schedule_retry now r) = max_attempts r"
    and "backoff_base_ms (schedule_retry now r) = backoff_base_ms r"
    and "uint (next_backoff_ms (schedule_retry now r))
      = min (uint (backoff_base_ms r) * 2 ^ min (unat (attempt r)) 20) (2 ^ 64 - 1)"
    and "next_retry_at (schedule_retry now r)
      = Some (sat_add_i64 now (delay_secs (next_backoff_ms (schedule_retry now r))))"
proof -
  let ?r = "r\<lparr>attempt := attempt r + 1\<rparr>"
  have "uint (attempt r) + 1 < 2 ^ 32"
    using assms uint_bounded [of "max_attempts r"] by (simp add: word_less_def)
  then show "uint (attempt (schedule_retry now r)) = uint (attempt r) + 1"
    using assms uint_ge_0 [of "attempt r"] by (simp add: schedule_retry_def uint_word_ariths Let_def)
  let ?e = "min (attempt r) 20"
  have e: "?e \<le> 20" by simp
  have e64: "?e < 64" by (rule le_less_trans [OF e]) simp
  have u: "unat ?e = min (unat (attempt r)) 20"
    by (simp add: min_def word_le_nat_alt)
  have "deterministic_backoff_ms ?r = sat_mul64 (backoff_base_ms r) (push_bit (unat ?e) 1)"
    using exponent_of_attempt [OF assms] e64 by (simp add: deterministic_backoff_ms_def Let_def)
  then show "uint (next_backoff_ms (schedule_retry now r))
      = min (uint (backoff_base_ms r) * 2 ^ min (unat (attempt r)) 20) (2 ^ 64 - 1)"
    using assms by (simp add: schedule_retry_def Let_def uint_sat_mul64 u push_bit_of_1 uint_power64)
qed (use assms in \<open>simp_all add: schedule_retry_def Let_def\<close>)

lemma schedule_retry_exhausted:
  "\<not> attempt r < max_attempts r \<Longrightarrow> schedule_retry now r = clear_retry_schedule r"
  by (simp add: schedule_retry_def)

lemma retry_job_fail [simp]: "retry (job_fail now e j) = schedule_retry now (retry j)"
  by (simp add: job_fail_def)

subsection \<open>Properties\<close>

text \<open>C5: jobs survive a restart. In every runtime reached by job operations and restarts whose writes
  succeed, a new runtime on the same table (up to 500 rows) has exactly the same jobs, with the
  queued and running ones requeued.\<close>

theorem restart_recovers_jobs:
  assumes "codec_ok ts fs" and "rt_reach ts fs rt" and "length (rt_store rt) \<le> 500"
  shows "map_of (jobs (rt_jobs (runtime_new ts fs True db_ok clock (rt_store rt)))) i
    = map_option (requeue_pending clock) (map_of (jobs (rt_jobs rt)) i)"
  using restart_lookup rt_reach_mirror assms by blast

theorem restart_recovers_jobs_witness:
  "let ts = (\<lambda>v. replicate (to_nat v) (CHR ''x'')); fs = (\<lambda>s. Some (from_nat (length s)));
       rt0 = snd (enqueue_job ts True 5 ''1'' (runtime_new ts fs True (\<lambda>_. True) (\<lambda>_. 0) []) ''build'');
       rt = snd (set_job_running ts True 6 rt0 ''job-1'')
   in map_option status (map_of (jobs (rt_jobs (runtime_new ts fs True (\<lambda>_. True) (\<lambda>_. 9) (rt_store rt)))) ''job-1'')
      = Some Queued"
proof -
  define ts where "ts = (\<lambda>v::json. replicate (to_nat v) (CHR ''x''))"
  define fs where "fs = (\<lambda>s::str. Some (from_nat (length s) :: json))"
  define rt where "rt = snd (set_job_running ts True 6 (snd (enqueue_job ts True 5 ''1''
      (runtime_new ts fs True (\<lambda>_. True) (\<lambda>_. 0) []) ''build'')) ''job-1'')"
  have codec: "codec_ok ts fs" by (simp add: codec_ok_def ts_def fs_def)
  have reach: "rt_reach ts fs rt" unfolding rt_def by (intro rt_running rt_enqueue rt_start)
  have start: "runtime_new ts fs True (\<lambda>_. True) (\<lambda>_. 0) [] = \<lparr>rt_jobs = \<lparr>jobs = []\<rparr>, rt_store = []\<rparr>"
    by (simp add: runtime_new_def load_from_store_def list_jobs_def job_manager_default_def resume_pending_def)
  have store: "length (rt_store rt) = 1"
    and job: "map_option (\<lambda>j. (status j, is_pending j)) (map_of (jobs (rt_jobs rt)) ''job-1'') = Some (Running, True)"
    by (simp_all add: rt_def start enqueue_job_change runtime_ops persist_change_def persist_job_def
        modify_job_def new_job_def job_set_running_def upsert_job_def is_pending_def)
  have "map_option status (map_of (jobs (rt_jobs (runtime_new ts fs True (\<lambda>_. True) (\<lambda>_. 9) (rt_store rt)))) ''job-1'')
      = Some Queued"
    using restart_recovers_jobs [OF codec reach] store job
    by (auto simp: requeue_pending_def job_requeue_def)
  then show ?thesis by (simp add: Let_def rt_def ts_def fs_def)
qed

text \<open>C6: the invariant of the jobs. In every such runtime a job is stored under its own id, its
  progress is at most 100, its attempts at most the maximum, its history has 1 to 64 entries of
  which the last is its present state, and a retry is scheduled only for a failed or paused job.\<close>

theorem jobs_stay_consistent:
  assumes "codec_ok ts fs" and "rt_reach ts fs rt" and "length (rt_store rt) \<le> 500"
    and "map_of (jobs (rt_jobs rt)) i = Some j"
  shows "job_id j = i \<and> (\<forall>p. progress j = Some p \<longrightarrow> p \<le> 100)
    \<and> attempt (retry j) \<le> max_attempts (retry j)
    \<and> 0 < length (history j) \<and> length (history j) \<le> 64
    \<and> (\<exists>ph. last (history j) = history_entry_of j ph)
    \<and> (next_retry_at (retry j) \<noteq> None \<longrightarrow> status j = Failed \<or> status j = Paused)"
proof -
  have "jobs_wf (rt_jobs rt)" using rt_reach_mirror assms(1-3) by (auto simp: mirror_def)
  then show ?thesis
    using assms(4) by (auto simp: jobs_wf_def job_ok_def job_shape_def MAX_JOB_HISTORY_ENTRIES_def)
qed

theorem jobs_stay_consistent_witness:
  "let ts = (\<lambda>v. replicate (to_nat v) (CHR ''x'')); fs = (\<lambda>s. Some (from_nat (length s)));
       rt = snd (fail_job ts True 6 (snd (enqueue_job ts True 5 ''1''
              (runtime_new ts fs True (\<lambda>_. True) (\<lambda>_. 0) []) ''build'')) ''job-1'' ''exit 1'')
   in map_option (\<lambda>j. length (history j) \<le> 64 \<and> attempt (retry j) \<le> max_attempts (retry j))
        (map_of (jobs (rt_jobs rt)) ''job-1'') = Some True"
proof -
  define ts where "ts = (\<lambda>v::json. replicate (to_nat v) (CHR ''x''))"
  define fs where "fs = (\<lambda>s::str. Some (from_nat (length s) :: json))"
  define rt where "rt = snd (fail_job ts True 6 (snd (enqueue_job ts True 5 ''1''
      (runtime_new ts fs True (\<lambda>_. True) (\<lambda>_. 0) []) ''build'')) ''job-1'' ''exit 1'')"
  have codec: "codec_ok ts fs" by (simp add: codec_ok_def ts_def fs_def)
  have reach: "rt_reach ts fs rt" unfolding rt_def by (intro rt_fail rt_enqueue rt_start)
  have start: "runtime_new ts fs True (\<lambda>_. True) (\<lambda>_. 0) [] = \<lparr>rt_jobs = \<lparr>jobs = []\<rparr>, rt_store = []\<rparr>"
    by (simp add: runtime_new_def load_from_store_def list_jobs_def job_manager_default_def resume_pending_def)
  have store: "length (rt_store rt) = 1" and job: "map_of (jobs (rt_jobs rt)) ''job-1'' \<noteq> None"
    by (simp_all add: rt_def start enqueue_job_change runtime_ops persist_change_def persist_job_def
        modify_job_def upsert_job_def)
  from job obtain j where j: "map_of (jobs (rt_jobs rt)) ''job-1'' = Some j" by blast
  show ?thesis
    using jobs_stay_consistent [OF codec reach _ j] store j by (simp add: Let_def rt_def ts_def fs_def)
qed

text \<open>The history is the recent end of the job's full event log. Whatever events a job goes
  through, its history is the last 64 entries of the earlier history followed by a snapshot
  after each event.\<close>

theorem history_is_end_of_log:
  assumes "length (history j) \<le> 64"
  shows "history (apply_events evs j) = last_n 64 (history j @ event_log evs j)"
  using job_log.push_all [of "history j" "event_log evs j"] assms
  by (simp add: apply_events_fold MAX_JOB_HISTORY_ENTRIES_def)

theorem history_is_end_of_log_witness:
  "length (history (apply_events (replicate 70 (7, EvProgress 3 None)) (new_job 1 ''job-1'' ''n''))) = 64"
proof -
  have "length (event_log (replicate n (7, EvProgress 3 None)) j) = n" for n j
    by (induction n arbitrary: j) simp_all
  moreover have "length (history (new_job 1 ''job-1'' ''n'')) = 1"
    by (simp add: new_job_def push_history_entry_def MAX_JOB_HISTORY_ENTRIES_def)
  ultimately show ?thesis using history_is_end_of_log [of "new_job 1 ''job-1'' ''n''"] by simp
qed

text \<open>The back-off of a failure. With attempts left, a failure counts one attempt and schedules
  the retry after the base times two to the number of earlier attempts (the exponent capped at
  20, the product at the largest u64); without, it clears the schedule.\<close>

theorem failure_backoff:
  "if attempt (retry j) < max_attempts (retry j)
   then uint (attempt (retry (job_fail now e j))) = uint (attempt (retry j)) + 1
     \<and> uint (next_backoff_ms (retry (job_fail now e j)))
       = min (uint (backoff_base_ms (retry j)) * 2 ^ min (unat (attempt (retry j))) 20) (2 ^ 64 - 1)
     \<and> next_retry_at (retry (job_fail now e j))
       = Some (sat_add_i64 now (delay_secs (next_backoff_ms (retry (job_fail now e j)))))
   else attempt (retry (job_fail now e j)) = attempt (retry j)
     \<and> next_backoff_ms (retry (job_fail now e j)) = 0 \<and> next_retry_at (retry (job_fail now e j)) = None"
  using schedule_retry_next [of "retry j" now] by (simp add: schedule_retry_exhausted)

text \<open>Retries run out. After \<open>k\<close> consecutive failures the attempts are the earlier ones plus
  \<open>k\<close>, capped at the maximum, and a retry is scheduled exactly while the count is not past
  the maximum.\<close>

theorem retries_run_out:
  assumes "attempt (retry j) \<le> max_attempts (retry j)"
  shows "uint (attempt (retry ((job_fail now e ^^ k) j)))
      = min (uint (attempt (retry j)) + int k) (uint (max_attempts (retry j)))
    \<and> (0 < k \<longrightarrow> (next_retry_at (retry ((job_fail now e ^^ k) j)) \<noteq> None
          \<longleftrightarrow> uint (attempt (retry j)) + int k \<le> uint (max_attempts (retry j))))"
proof -
  let ?j = "\<lambda>k. (job_fail now e ^^ k) j"
  have "uint (attempt (retry (?j k))) = min (uint (attempt (retry j)) + int k) (uint (max_attempts (retry j)))
    \<and> max_attempts (retry (?j k)) = max_attempts (retry j)
    \<and> (0 < k \<longrightarrow> (next_retry_at (retry (?j k)) \<noteq> None
          \<longleftrightarrow> uint (attempt (retry j)) + int k \<le> uint (max_attempts (retry j))))"
  proof (induction k)
    case 0
    then show ?case using assms by (simp add: word_le_def)
  next
    case (Suc k)
    show ?case
    proof (cases "attempt (retry (?j k)) < max_attempts (retry (?j k))")
      case True
      with Suc schedule_retry_next [OF True, of now] show ?thesis
        by (auto simp: word_less_def)
    next
      case False
      with Suc show ?thesis by (auto simp: schedule_retry_exhausted word_less_def)
    qed
  qed
  then show ?thesis by blast
qed

theorem retries_run_out_witness:
  "next_retry_at (retry ((job_fail 10 ''e'' ^^ 4) (new_job 1 ''job-1'' ''n''))) = None"
  using retries_run_out [where j = "new_job 1 ''job-1'' ''n''" and now = 10 and e = "''e''" and k = 4]
  by (simp add: new_job_def job_retry_default_def DEFAULT_JOB_MAX_ATTEMPTS_def)

end
