(* ===== verification/TaskV2.thy ===== *)
theory TaskV2
  imports Record_Store Json Text_Lemmas "HOL-Library.AList"
begin

section \<open>The task list (crates/agent-runtime/src/tool_state/task_v2.rs)\<close>

text \<open>
  \<open>TaskV2Manager\<close> keeps one file per task in a directory, with a high-water mark of the ids it
  has issued. The directory is the association list of its task files (in the order a directory
  scan yields them) and the text of the mark file. Every mutation runs under an exclusive file
  lock, so an operation is one step. The clock is an argument; file-system failures other than a
  missing file are not modelled. The files hold records this manager wrote, so reading one
  back gives the record.
\<close>

subsection \<open>Path components (crates/agent-runtime/src/utils.rs)\<close>

definition reserved_names :: "str list" where
  "reserved_names =
     [''CON'', ''PRN'', ''AUX'', ''NUL'', ''COM1'', ''COM2'', ''COM3'', ''COM4'', ''COM5'', ''COM6'', ''COM7'', ''COM8'',
      ''COM9'', ''LPT1'', ''LPT2'', ''LPT3'', ''LPT4'', ''LPT5'', ''LPT6'', ''LPT7'', ''LPT8'', ''LPT9'']"

definition is_safe_path_component :: "str \<Rightarrow> bool" where
  "is_safe_path_component component =
     (if component = [] then False
      else if hd component = CHR ''.'' \<or> last component = CHR ''.'' then False
      else if to_ascii_uppercase (before_char (CHR ''.'') component) \<in> set reserved_names then False
      else list_all (\<lambda>ch. is_ascii_alphanumeric ch \<or> ch = CHR ''_'' \<or> ch = CHR ''-'' \<or> ch = CHR ''.'') component)"

subsection \<open>Data\<close>

datatype task_v2_status = Pending | InProgress | Completed | Deleted

definition task_status_from_str :: "str \<Rightarrow> task_v2_status option" where
  "task_status_from_str value =
     (let v = to_lowercase (trim value)
      in if v = ''pending'' then Some Pending
         else if v = ''in_progress'' \<or> v = ''inprogress'' then Some InProgress
         else if v = ''completed'' \<or> v = ''done'' then Some Completed
         else if v = ''deleted'' then Some Deleted
         else None)"

record task_v2_record =
  task_id :: str
  subject :: str
  description :: str
  active_form :: "str option"
  task_status :: task_v2_status
  owner :: "str option"
  blocked_by :: "str list"
  blocks :: "str list"
  metadata :: json
  task_created_at :: int
  started_at :: "int option"
  completed_at :: "int option"

record task_dir =
  mark_file :: "str option"
  files :: "(str \<times> task_v2_record) list"

datatype task_error =
    InvalidId str | TaskNotFound str | UseSoftDelete str | MetadataNotObject
  | BlocksItself str | BlockedByItself str | AgentBusy str str

text \<open>Opening a list creates its directory if there is none.\<close>

definition task_manager_new :: "(str \<Rightarrow> task_dir option) \<Rightarrow> str \<Rightarrow> task_error + task_dir" where
  "task_manager_new base task_list_id =
     (if \<not> is_safe_path_component task_list_id then Inl (InvalidId task_list_id)
      else Inr (case base task_list_id of None \<Rightarrow> \<lparr>mark_file = None, files = []\<rparr> | Some d \<Rightarrow> d))"

subsection \<open>Files\<close>

definition task_file :: "str \<Rightarrow> task_error + str" where
  "task_file i = (if \<not> is_safe_path_component i then Inl (InvalidId i) else Inr (i @ ''.json''))"

definition read_highwatermark :: "task_dir \<Rightarrow> nat" where
  "read_highwatermark d =
     (case Option.bind (mark_file d) (\<lambda>s. parse_uint 64 (trim s)) of None \<Rightarrow> 0 | Some n \<Rightarrow> n)"

definition write_highwatermark :: "task_dir \<Rightarrow> nat \<Rightarrow> task_dir" where
  "write_highwatermark d v = d\<lparr>mark_file := Some (show_nat v)\<rparr>"

definition read_task_file :: "task_dir \<Rightarrow> str \<Rightarrow> task_error + task_v2_record" where
  "read_task_file d i =
     try_bind (task_file i)
       (\<lambda>_. case map_of (files d) i of None \<Rightarrow> Inl (TaskNotFound i) | Some r \<Rightarrow> Inr r)"

definition write_task_file :: "task_dir \<Rightarrow> task_v2_record \<Rightarrow> task_dir" where
  "write_task_file d r =
     (case task_file (task_id r) of Inl _ \<Rightarrow> d | Inr _ \<Rightarrow> d\<lparr>files := AList.update (task_id r) r (files d)\<rparr>)"

text \<open>The id a directory scan reads off a file name.\<close>

definition scanned_id :: "str \<Rightarrow> str" where
  "scanned_id i = trim_end_str ''.json'' (i @ ''.json'')"

definition scanned_ids :: "task_dir \<Rightarrow> str list" where
  "scanned_ids d =
     map scanned_id (filter (\<lambda>i. ends_with (i @ ''.json'') ''.json'' \<and> \<not> starts_with (i @ ''.json'') ''.'')
       (map fst (files d)))"

definition find_highest_id :: "task_dir \<Rightarrow> nat" where
  "find_highest_id d =
     max (read_highwatermark d)
       (foldl (\<lambda>m i. case parse_uint 64 i of None \<Rightarrow> m | Some n \<Rightarrow> max m n) 0 (scanned_ids d))"

text \<open>\<open>highest + 1\<close> on \<open>u64\<close>.\<close>

definition next_id :: "nat \<Rightarrow> nat" where
  "next_id highest = (if int highest + 1 < 2 ^ 64 then highest + 1 else 0)"

subsection \<open>Creating\<close>

text \<open>The back-link loops: a missing task is skipped, a link that is there is left alone.\<close>

fun link_blockers :: "str \<Rightarrow> str list \<Rightarrow> task_dir \<Rightarrow> task_dir" where
  "link_blockers i [] d = d"
| "link_blockers i (b # bs) d = link_blockers i bs
     (case read_task_file d b of
        Inl _ \<Rightarrow> d
      | Inr blocker \<Rightarrow>
          if i \<notin> set (blocks blocker) then write_task_file d (blocker\<lparr>blocks := blocks blocker @ [i]\<rparr>) else d)"

fun link_blocked :: "str \<Rightarrow> str list \<Rightarrow> task_dir \<Rightarrow> task_dir" where
  "link_blocked i [] d = d"
| "link_blocked i (b # bs) d = link_blocked i bs
     (case read_task_file d b of
        Inl _ \<Rightarrow> d
      | Inr blocked \<Rightarrow>
          if i \<notin> set (blocked_by blocked)
          then write_task_file d (blocked\<lparr>blocked_by := blocked_by blocked @ [i]\<rparr>) else d)"

record task_request =
  rq_subject :: str
  rq_description :: str
  rq_active_form :: "str option"
  rq_status :: "task_v2_status option"
  rq_owner :: "str option"
  rq_blocked_by :: "str list"
  rq_blocks :: "str list"
  rq_metadata :: "json option"

definition new_task :: "int \<Rightarrow> str \<Rightarrow> task_request \<Rightarrow> task_v2_record" where
  "new_task now i rq =
     (let st = (case rq_status rq of None \<Rightarrow> Pending | Some s \<Rightarrow> s)
      in \<lparr>task_id = i, subject = rq_subject rq, description = rq_description rq,
          active_form = rq_active_form rq, task_status = st, owner = rq_owner rq,
          blocked_by = rq_blocked_by rq, blocks = rq_blocks rq,
          metadata = (case rq_metadata rq of None \<Rightarrow> JObj [] | Some m \<Rightarrow> m),
          task_created_at = now, started_at = (if st = InProgress then Some now else None),
          completed_at = None\<rparr>)"

definition create_task :: "int \<Rightarrow> task_dir \<Rightarrow> task_request \<Rightarrow> str \<times> task_dir" where
  "create_task now d rq =
     (let highest = find_highest_id d;
          n = next_id highest;
          d = write_highwatermark d n;
          i = show_nat n;
          d = write_task_file d (new_task now i rq);
          d = link_blockers i (rq_blocked_by rq) d;
          d = link_blocked i (rq_blocks rq) d
      in (i, d))"

subsection \<open>Updating\<close>

record task_update =
  up_status :: "task_v2_status option"
  up_owner :: "str option"
  up_subject :: "str option"
  up_description :: "str option"
  up_active_form :: "str option option"
  up_metadata_merge :: "json option"
  up_add_blocks :: "str list option"
  up_add_blocked_by :: "str list option"

definition apply_status :: "int \<Rightarrow> task_v2_status \<Rightarrow> task_v2_record \<Rightarrow> task_v2_record" where
  "apply_status now s r =
     (let prev = task_status r;
          r = (if prev = Pending \<and> s = InProgress then r\<lparr>started_at := Some now\<rparr> else r);
          r = (if s = Completed \<and> prev \<noteq> Completed then r\<lparr>completed_at := Some now\<rparr> else r);
          r = (if s \<noteq> Completed then r\<lparr>completed_at := None\<rparr> else r);
          r = (if s = Pending then r\<lparr>started_at := None\<rparr> else r)
      in r\<lparr>task_status := s\<rparr>)"

fun merge_metadata :: "(str \<times> json) list \<Rightarrow> (str \<times> json) list \<Rightarrow> (str \<times> json) list" where
  "merge_metadata [] existing = existing"
| "merge_metadata ((k, v) # vs) existing =
     merge_metadata vs (if is_null v then AList.delete k existing else AList.update k v existing)"

definition apply_metadata :: "json \<Rightarrow> task_v2_record \<Rightarrow> task_error + task_v2_record" where
  "apply_metadata merge r =
     (case merge of
        JObj new_vals \<Rightarrow>
          (let existing = (case metadata r of JObj es \<Rightarrow> es | _ \<Rightarrow> [])
           in Inr (r\<lparr>metadata := JObj (merge_metadata new_vals existing)\<rparr>))
      | _ \<Rightarrow> Inl MetadataNotObject)"

definition opt_update :: "('a \<Rightarrow> 'r \<Rightarrow> 'r) \<Rightarrow> 'a option \<Rightarrow> 'r \<Rightarrow> 'r" where
  "opt_update f v r = (case v of None \<Rightarrow> r | Some x \<Rightarrow> f x r)"

text \<open>The changes of the task itself, with the checks that come before any file is written.\<close>

definition updated_fields :: "int \<Rightarrow> str \<Rightarrow> task_update \<Rightarrow> task_v2_record \<Rightarrow> task_error + task_v2_record" where
  "updated_fields now i up r =
     (if up_status up = Some Deleted then Inl (UseSoftDelete i)
      else (let r = opt_update (apply_status now) (up_status up) r;
                r = opt_update (\<lambda>w. owner_update (\<lambda>_. Some w)) (up_owner up) r;
                r = opt_update (\<lambda>s. subject_update (\<lambda>_. s)) (up_subject up) r;
                r = opt_update (\<lambda>s. description_update (\<lambda>_. s)) (up_description up) r;
                r = opt_update (\<lambda>a. active_form_update (\<lambda>_. a)) (up_active_form up) r
            in case up_metadata_merge up of None \<Rightarrow> Inr r | Some merge \<Rightarrow> apply_metadata merge r))"

definition check_self_links :: "task_update \<Rightarrow> task_v2_record \<Rightarrow> task_error + unit" where
  "check_self_links up r =
     (if (case up_add_blocks up of None \<Rightarrow> False | Some ids \<Rightarrow> task_id r \<in> set ids)
      then Inl (BlocksItself (task_id r))
      else if (case up_add_blocked_by up of None \<Rightarrow> False | Some ids \<Rightarrow> task_id r \<in> set ids)
      then Inl (BlockedByItself (task_id r))
      else Inr ())"

fun add_blocks_loop :: "str list \<Rightarrow> task_v2_record \<times> task_dir \<Rightarrow> task_v2_record \<times> task_dir" where
  "add_blocks_loop [] (r, d) = (r, d)"
| "add_blocks_loop (b # bs) (r, d) =
     (if b \<in> set (blocks r) then add_blocks_loop bs (r, d)
      else add_blocks_loop bs (r\<lparr>blocks := blocks r @ [b]\<rparr>, link_blocked (task_id r) [b] d))"

fun add_blocked_by_loop :: "str list \<Rightarrow> task_v2_record \<times> task_dir \<Rightarrow> task_v2_record \<times> task_dir" where
  "add_blocked_by_loop [] (r, d) = (r, d)"
| "add_blocked_by_loop (b # bs) (r, d) =
     (if b \<in> set (blocked_by r) then add_blocked_by_loop bs (r, d)
      else add_blocked_by_loop bs (r\<lparr>blocked_by := blocked_by r @ [b]\<rparr>, link_blockers (task_id r) [b] d))"

definition update_task :: "int \<Rightarrow> task_dir \<Rightarrow> str \<Rightarrow> task_update \<Rightarrow> (task_error + task_v2_record) \<times> task_dir" where
  "update_task now d i up =
     (case try_bind (read_task_file d i) (\<lambda>r. try_bind (updated_fields now i up r)
             (\<lambda>r. try_bind (check_self_links up r) (\<lambda>_. Inr r))) of
        Inl e \<Rightarrow> (Inl e, d)
      | Inr r \<Rightarrow>
          (let (r, d) = (case up_add_blocks up of None \<Rightarrow> (r, d) | Some ids \<Rightarrow> add_blocks_loop ids (r, d));
               (r, d) = (case up_add_blocked_by up of None \<Rightarrow> (r, d) | Some ids \<Rightarrow> add_blocked_by_loop ids (r, d))
           in (Inr r, write_task_file d r)))"

definition get_task :: "task_dir \<Rightarrow> str \<Rightarrow> task_error + task_v2_record" where
  "get_task d i = read_task_file d i"

subsection \<open>Listing and deleting\<close>

definition task_order :: "task_v2_record \<Rightarrow> nat" where
  "task_order r = (case parse_uint 64 (task_id r) of None \<Rightarrow> 0 | Some n \<Rightarrow> n)"

definition list_tasks :: "task_dir \<Rightarrow> task_v2_record list" where
  "list_tasks d =
     sort_key task_order
       (List.map_filter
          (\<lambda>i. case read_task_file d i of
                 Inl _ \<Rightarrow> None | Inr r \<Rightarrow> if task_status r \<noteq> Deleted then Some r else None)
          (scanned_ids d))"

fun unlink_blockers :: "str \<Rightarrow> str list \<Rightarrow> task_dir \<Rightarrow> task_dir" where
  "unlink_blockers i [] d = d"
| "unlink_blockers i (b # bs) d = unlink_blockers i bs
     (case read_task_file d b of
        Inl _ \<Rightarrow> d
      | Inr blocker \<Rightarrow> write_task_file d (blocker\<lparr>blocks := filter (\<lambda>x. x \<noteq> i) (blocks blocker)\<rparr>))"

fun unlink_blocked :: "str \<Rightarrow> str list \<Rightarrow> task_dir \<Rightarrow> task_dir" where
  "unlink_blocked i [] d = d"
| "unlink_blocked i (b # bs) d = unlink_blocked i bs
     (case read_task_file d b of
        Inl _ \<Rightarrow> d
      | Inr blocked \<Rightarrow> write_task_file d (blocked\<lparr>blocked_by := filter (\<lambda>x. x \<noteq> i) (blocked_by blocked)\<rparr>))"

definition delete_task :: "task_dir \<Rightarrow> str \<Rightarrow> (task_error + unit) \<times> task_dir" where
  "delete_task d i =
     (case task_file i of
        Inl e \<Rightarrow> (Inl e, d)
      | Inr _ \<Rightarrow> (Inr (), d\<lparr>files := AList.delete i (files d)\<rparr>))"

definition soft_delete_task :: "task_dir \<Rightarrow> str \<Rightarrow> (task_error + unit) \<times> task_dir" where
  "soft_delete_task d i =
     delete_task
       (case read_task_file d i of
          Inl _ \<Rightarrow> d
        | Inr r \<Rightarrow> unlink_blocked i (blocks r) (unlink_blockers i (blocked_by r) d)) i"

subsection \<open>Ownership\<close>

definition agent_busy :: "task_dir \<Rightarrow> str \<Rightarrow> str \<Rightarrow> bool" where
  "agent_busy d i agent =
     list_ex (\<lambda>t. owner t = Some agent \<and> task_status t = InProgress \<and> task_id t \<noteq> i) (list_tasks d)"

definition claim_task :: "task_dir \<Rightarrow> str \<Rightarrow> str \<Rightarrow> (task_error + task_v2_record) \<times> task_dir" where
  "claim_task d i agent =
     (if agent_busy d i agent then (Inl (AgentBusy agent i), d)
      else case read_task_file d i of
             Inl e \<Rightarrow> (Inl e, d)
           | Inr r \<Rightarrow> (let r = r\<lparr>owner := Some agent\<rparr> in (Inr r, write_task_file d r)))"

definition released :: "task_v2_record \<Rightarrow> task_v2_record" where
  "released r =
     (let r = (if task_status r = InProgress then r\<lparr>task_status := Pending\<rparr> else r) in r\<lparr>owner := None\<rparr>)"

definition release_task :: "task_dir \<Rightarrow> str \<Rightarrow> (task_error + unit) \<times> task_dir" where
  "release_task d i =
     (case read_task_file d i of
        Inl e \<Rightarrow> (Inl e, d)
      | Inr r \<Rightarrow> (Inr (), write_task_file d (released r)))"

text \<open>The loop works on the records of the scan.\<close>

fun unassign_loop :: "str \<Rightarrow> task_v2_record list \<Rightarrow> nat \<times> task_dir \<Rightarrow> nat \<times> task_dir" where
  "unassign_loop agent [] (n, d) = (n, d)"
| "unassign_loop agent (t # ts) (n, d) =
     (if owner t = Some agent then unassign_loop agent ts (n + 1, write_task_file d (released t))
      else unassign_loop agent ts (n, d))"

definition unassign_teammate_tasks :: "task_dir \<Rightarrow> str \<Rightarrow> nat \<times> task_dir" where
  "unassign_teammate_tasks d agent = unassign_loop agent (list_tasks d) (0, d)"

subsection \<open>The verification nudge\<close>

definition VERIFICATION_NUDGE_THRESHOLD :: nat where
  "VERIFICATION_NUDGE_THRESHOLD = 3"

definition mentions_verification :: "task_v2_record \<Rightarrow> bool" where
  "mentions_verification t =
     (let text = to_lowercase (subject t @ '' '' @ description t)
      in contains_str text ''verif'' \<or> contains_str text ''test'' \<or> contains_str text ''check'')"

definition should_emit_verification_nudge :: "task_dir \<Rightarrow> nat option" where
  "should_emit_verification_nudge d =
     (let tasks = list_tasks d;
          completed_count = length (filter (\<lambda>t. task_status t = Completed) tasks)
      in if VERIFICATION_NUDGE_THRESHOLD \<le> completed_count \<and> \<not> list_ex mentions_verification tasks
         then Some completed_count else None)"

subsection \<open>The directory as a record store\<close>

definition task_at :: "task_dir \<Rightarrow> str \<Rightarrow> task_v2_record option" where
  "task_at d i = (case read_task_file d i of Inl _ \<Rightarrow> None | Inr r \<Rightarrow> Some r)"

definition files_ok :: "task_dir \<Rightarrow> bool" where
  "files_ok d \<longleftrightarrow> distinct (map fst (files d))
     \<and> (\<forall>(i, r)\<in>set (files d). task_id r = i \<and> is_safe_path_component i)"

lemma task_at_eq: "task_at d i = (if is_safe_path_component i then map_of (files d) i else None)"
  by (simp add: task_at_def read_task_file_def task_file_def split: option.splits)

lemma read_task_iff: "read_task_file d i = Inr r \<longleftrightarrow> task_at d i = Some r"
  by (auto simp: task_at_def split: sum.splits)

lemma read_task_cases:
  "(case read_task_file d i of Inl e \<Rightarrow> a | Inr r \<Rightarrow> f r) = (case task_at d i of None \<Rightarrow> a | Some r \<Rightarrow> f r)"
  by (auto simp: task_at_def split: sum.splits)

lemma write_safe: "is_safe_path_component (task_id r)
  \<Longrightarrow> write_task_file d r = d\<lparr>files := AList.update (task_id r) r (files d)\<rparr>"
  by (simp add: write_task_file_def task_file_def)

lemma mark_write [simp]: "mark_file (write_task_file d r) = mark_file d"
  by (simp add: write_task_file_def split: sum.splits)

lemma set_alist_update: "set (AList.update k v al) \<subseteq> insert (k, v) (set al)"
  by (induction al) auto

interpretation td: record_store task_at write_task_file task_id is_safe_path_component files_ok
proof
  show "is_safe_path_component (task_id r) \<Longrightarrow>
      task_at (write_task_file d r) i = (if i = task_id r then Some r else task_at d i)" for d r i
    by (simp add: task_at_eq write_safe update_conv')
  show "files_ok d \<Longrightarrow> task_at d i = Some r \<Longrightarrow> task_id r = i" for d i r
    by (auto simp: files_ok_def task_at_eq dest: map_of_SomeD split: if_splits)
  show "task_at d i = Some r \<Longrightarrow> is_safe_path_component i" for d i r
    by (simp add: task_at_eq split: if_splits)
  show "files_ok d \<Longrightarrow> is_safe_path_component (task_id r) \<Longrightarrow> files_ok (write_task_file d r)" for d r
    using set_alist_update [of "task_id r" r "files d"]
    by (fastforce simp: files_ok_def write_safe distinct_update)
qed

text \<open>The back-link loops are loops of the store interface.\<close>

definition add_block :: "str \<Rightarrow> task_v2_record \<Rightarrow> task_v2_record" where
  "add_block i r = (if i \<in> set (blocks r) then r else r\<lparr>blocks := blocks r @ [i]\<rparr>)"

definition add_blocker :: "str \<Rightarrow> task_v2_record \<Rightarrow> task_v2_record" where
  "add_blocker i r = (if i \<in> set (blocked_by r) then r else r\<lparr>blocked_by := blocked_by r @ [i]\<rparr>)"

definition drop_block :: "str \<Rightarrow> task_v2_record \<Rightarrow> task_v2_record" where
  "drop_block i r = r\<lparr>blocks := filter (\<lambda>x. x \<noteq> i) (blocks r)\<rparr>"

definition drop_blocker :: "str \<Rightarrow> task_v2_record \<Rightarrow> task_v2_record" where
  "drop_blocker i r = r\<lparr>blocked_by := filter (\<lambda>x. x \<noteq> i) (blocked_by r)\<rparr>"

lemmas link_changes = add_block_def add_blocker_def drop_block_def drop_blocker_def

lemma link_change_simps [simp]:
  "task_id (add_block i r) = task_id r" "task_id (add_blocker i r) = task_id r"
  "task_id (drop_block i r) = task_id r" "task_id (drop_blocker i r) = task_id r"
  "add_block i (add_block i r) = add_block i r" "add_blocker i (add_blocker i r) = add_blocker i r"
  "drop_block i (drop_block i r) = drop_block i r" "drop_blocker i (drop_blocker i r) = drop_blocker i r"
  "set (blocks (add_block i r)) = insert i (set (blocks r))" "blocked_by (add_block i r) = blocked_by r"
  "set (blocked_by (add_blocker i r)) = insert i (set (blocked_by r))" "blocks (add_blocker i r) = blocks r"
  "set (blocks (drop_block i r)) = set (blocks r) - {i}" "blocked_by (drop_block i r) = blocked_by r"
  "set (blocked_by (drop_blocker i r)) = set (blocked_by r) - {i}" "blocks (drop_blocker i r) = blocks r"
  by (auto simp: link_changes)

lemma noop_write: "files_ok d \<Longrightarrow> task_at d i = Some r \<Longrightarrow> write_task_file d r = d"
proof -
  assume ok: "files_ok d" and r: "task_at d i = Some r"
  have i: "task_id r = i" by (rule td.get_key [OF ok r])
  have "map_of (files d) i = Some r" using r by (simp add: task_at_eq split: if_splits)
  then have "AList.update (task_id r) r (files d) = files d" by (simp add: i update_triv)
  then show ?thesis using write_safe [of r d] td.get_valid [OF r] i by simp
qed

lemma link_blockers_fold: "files_ok d \<Longrightarrow> link_blockers i bs d = fold (td.update_at (add_block i)) bs d"
proof (induction bs arbitrary: d)
  case (Cons b bs)
  have "(case read_task_file d b of Inl _ \<Rightarrow> d | Inr r \<Rightarrow>
      if i \<notin> set (blocks r) then write_task_file d (r\<lparr>blocks := blocks r @ [i]\<rparr>) else d)
    = td.update_at (add_block i) b d"
  proof (cases "task_at d b")
    case None
    then show ?thesis by (simp add: read_task_cases td.update_at_def)
  next
    case (Some r)
    with noop_write [OF Cons.prems Some] show ?thesis
      by (simp add: read_task_cases td.update_at_def add_block_def)
  qed
  with Cons show ?case using td.wf_update_at [of d "add_block i" b] by simp
qed simp

lemma link_blocked_fold: "files_ok d \<Longrightarrow> link_blocked i bs d = fold (td.update_at (add_blocker i)) bs d"
proof (induction bs arbitrary: d)
  case (Cons b bs)
  have "(case read_task_file d b of Inl _ \<Rightarrow> d | Inr r \<Rightarrow>
      if i \<notin> set (blocked_by r) then write_task_file d (r\<lparr>blocked_by := blocked_by r @ [i]\<rparr>) else d)
    = td.update_at (add_blocker i) b d"
  proof (cases "task_at d b")
    case None
    then show ?thesis by (simp add: read_task_cases td.update_at_def)
  next
    case (Some r)
    with noop_write [OF Cons.prems Some] show ?thesis
      by (simp add: read_task_cases td.update_at_def add_blocker_def)
  qed
  with Cons show ?case using td.wf_update_at [of d "add_blocker i" b] by simp
qed simp

lemma unlink_blockers_fold: "unlink_blockers i bs d = fold (td.update_at (drop_block i)) bs d"
  by (induction bs arbitrary: d) (simp_all add: read_task_cases td.update_at_def drop_block_def split: option.split)

lemma unlink_blocked_fold: "unlink_blocked i bs d = fold (td.update_at (drop_blocker i)) bs d"
  by (induction bs arbitrary: d) (simp_all add: read_task_cases td.update_at_def drop_blocker_def split: option.split)

lemma link_loops:
  assumes "files_ok d"
  shows "files_ok (link_blockers i bs d)" "files_ok (link_blocked i bs d)"
    "files_ok (unlink_blockers i bs d)" "files_ok (unlink_blocked i bs d)"
    "task_at (link_blockers i bs d) j = (if j \<in> set bs then map_option (add_block i) (task_at d j) else task_at d j)"
    "task_at (link_blocked i bs d) j = (if j \<in> set bs then map_option (add_blocker i) (task_at d j) else task_at d j)"
    "task_at (unlink_blockers i bs d) j = (if j \<in> set bs then map_option (drop_block i) (task_at d j) else task_at d j)"
    "task_at (unlink_blocked i bs d) j = (if j \<in> set bs then map_option (drop_blocker i) (task_at d j) else task_at d j)"
  using td.fold_update_at [OF _ _ assms]
  by (simp_all add: link_blockers_fold [OF assms] link_blocked_fold [OF assms] unlink_blockers_fold unlink_blocked_fold)

lemma mark_loops [simp]:
  "mark_file (link_blockers i bs d) = mark_file d" "mark_file (link_blocked i bs d) = mark_file d"
  "mark_file (unlink_blockers i bs d) = mark_file d" "mark_file (unlink_blocked i bs d) = mark_file d"
  by (induction bs arbitrary: d; auto split: sum.splits)+

subsection \<open>Ids\<close>

lemma digit_facts:
  "\<forall>c\<in>set digit_chars. c \<noteq> CHR ''.'' \<and> upper_byte c = c \<and> is_ascii_alphanumeric c
     \<and> (\<forall>w\<in>set reserved_names. hd w \<noteq> c) \<and> c \<noteq> CHR ''n''"
  by code_simp

lemma reserved_not_Nil: "\<forall>w\<in>set reserved_names. w \<noteq> []"
  by code_simp

lemma show_nat_safe: "is_safe_path_component (show_nat n)"
proof -
  have d: "c \<in> set (show_nat n) \<Longrightarrow> c \<in> set digit_chars" for c using show_nat_digits by blast
  have "hd (show_nat n) \<in> set digit_chars" "last (show_nat n) \<in> set digit_chars"
    using d by simp_all
  moreover have "before_char (CHR ''.'') (show_nat n) = show_nat n"
    unfolding before_char_def takeWhile_eq_all_conv using d digit_facts by blast
  moreover have "to_ascii_uppercase (show_nat n) = show_nat n"
    unfolding to_ascii_uppercase_def using d digit_facts by (intro map_idI) blast
  moreover have "show_nat n \<notin> set reserved_names"
    using digit_facts \<open>hd (show_nat n) \<in> set digit_chars\<close> by blast
  moreover have "list_all (\<lambda>ch. is_ascii_alphanumeric ch \<or> ch = CHR ''_'' \<or> ch = CHR ''-'' \<or> ch = CHR ''.'') (show_nat n)"
    unfolding list_all_iff using d digit_facts by blast
  ultimately show ?thesis
    using digit_facts unfolding is_safe_path_component_def by (metis (no_types, lifting) show_nat_not_Nil)
qed

lemma scanned_show_nat: "scanned_id (show_nat n) = show_nat n"
proof -
  have "\<not> suffix ''.json'' (show_nat n)"
  proof
    assume "suffix ''.json'' (show_nat n)"
    then have "CHR ''n'' \<in> set (show_nat n)" by (auto simp: suffix_def)
    then show False using show_nat_digits [of n] digit_facts by blast
  qed
  moreover have "suffix ''.json'' (show_nat n @ ''.json'')" by (simp add: suffix_def)
  ultimately show ?thesis
    by (simp add: scanned_id_def trim_end_str.simps [of _ "show_nat n @ ''.json''"] trim_end_str.simps [of _ "show_nat n"])
qed

text \<open>Every task's id is a number the mark covers.\<close>

definition ids_ok :: "task_dir \<Rightarrow> bool" where
  "ids_ok d \<longleftrightarrow> read_highwatermark d < 2 ^ 64
     \<and> (\<forall>i\<in>fst ` set (files d). \<exists>n\<le>read_highwatermark d. i = show_nat n)"

lemma foldl_max_bound:
  "(\<And>i. i \<in> set is \<Longrightarrow> case parse_uint 64 i of None \<Rightarrow> True | Some n \<Rightarrow> n \<le> b) \<Longrightarrow> a \<le> b
   \<Longrightarrow> foldl (\<lambda>m i. case parse_uint 64 i of None \<Rightarrow> m | Some n \<Rightarrow> max m n) a is \<le> b"
proof (induction "is" arbitrary: a)
  case (Cons i "is")
  from Cons.prems(1) [of i] Cons.prems(2)
  have "(case parse_uint 64 i of None \<Rightarrow> a | Some n \<Rightarrow> max a n) \<le> b"
    by (cases "parse_uint 64 i") simp_all
  with Cons show ?case by (cases "parse_uint 64 i") simp_all
qed simp

lemma find_highest_mark:
  assumes "ids_ok d"
  shows "find_highest_id d = read_highwatermark d"
proof -
  have "case parse_uint 64 i of None \<Rightarrow> True | Some n \<Rightarrow> n \<le> read_highwatermark d"
    if i: "i \<in> set (scanned_ids d)" for i
  proof -
    from i obtain k where "k \<in> fst ` set (files d)" "i = scanned_id k"
      by (auto simp: scanned_ids_def)
    then obtain n where "n \<le> read_highwatermark d" "i = show_nat n"
      using assms scanned_show_nat by (auto simp: ids_ok_def)
    then show ?thesis using assms parse_show_nat [of n 64] by (simp add: ids_ok_def)
  qed
  then show ?thesis
    unfolding find_highest_id_def by (intro max_absorb1 foldl_max_bound) auto
qed

lemma mark_written [simp]: "n < 2 ^ 64 \<Longrightarrow> read_highwatermark (write_highwatermark d n) = n"
  by (simp add: read_highwatermark_def write_highwatermark_def parse_show_nat)

lemma read_mark_cong: "mark_file d = mark_file d' \<Longrightarrow> read_highwatermark d = read_highwatermark d'"
  by (simp add: read_highwatermark_def)

subsection \<open>What an operation leaves in the directory\<close>

definition dir_ok :: "task_dir \<Rightarrow> bool" where
  "dir_ok d \<longleftrightarrow> files_ok d \<and> read_highwatermark d < 2 ^ 64
     \<and> (\<forall>i. task_at d i \<noteq> None \<longrightarrow> (\<exists>n\<le>read_highwatermark d. i = show_nat n))"

lemma dir_ok_ids: "dir_ok d \<Longrightarrow> ids_ok d"
proof -
  assume ok: "dir_ok d"
  have "task_at d i \<noteq> None" if "i \<in> fst ` set (files d)" for i
    using ok that by (auto simp: dir_ok_def files_ok_def task_at_eq map_of_eq_None_iff)
  with ok show "ids_ok d" by (simp add: ids_ok_def dir_ok_def)
qed

text \<open>An operation that keeps the mark and adds no task keeps the directory well-formed.\<close>

lemma dir_ok_same_mark:
  assumes "dir_ok d" and "files_ok d'" and "mark_file d' = mark_file d"
    and "\<And>i. task_at d' i \<noteq> None \<Longrightarrow> task_at d i \<noteq> None"
  shows "dir_ok d'"
  using assms read_mark_cong [OF assms(3)] by (auto simp: dir_ok_def)

lemma write_mark_files [simp]: "files (write_highwatermark d n) = files d"
  by (simp add: write_highwatermark_def)

lemma write_mark_task_at [simp]: "task_at (write_highwatermark d n) i = task_at d i"
  by (simp add: task_at_eq)

lemma write_mark_ok [simp]: "files_ok (write_highwatermark d n) = files_ok d"
  by (simp add: files_ok_def)

lemma new_task_simps [simp]:
  "task_id (new_task now i rq) = i" "blocks (new_task now i rq) = rq_blocks rq"
  "blocked_by (new_task now i rq) = rq_blocked_by rq"
  by (simp_all add: new_task_def Let_def)

definition created_at :: "int \<Rightarrow> str \<Rightarrow> task_request \<Rightarrow> task_dir \<Rightarrow> str \<Rightarrow> task_v2_record option" where
  "created_at now i rq d j =
     (let base = (if j = i then Some (new_task now i rq) else task_at d j);
          base = (if j \<in> set (rq_blocked_by rq) then map_option (add_block i) base else base)
      in if j \<in> set (rq_blocks rq) then map_option (add_blocker i) base else base)"

lemma create_task_effect:
  assumes "dir_ok d" and "read_highwatermark d + 1 < 2 ^ 64"
  defines "i \<equiv> show_nat (read_highwatermark d + 1)"
  shows "fst (create_task now d rq) = i" and "task_at d i = None"
    and "task_at (snd (create_task now d rq)) j = created_at now i rq d j"
    and "read_highwatermark (snd (create_task now d rq)) = read_highwatermark d + 1"
    and "dir_ok (snd (create_task now d rq))"
proof -
  define n where "n = read_highwatermark d + 1"
  define d1 where "d1 = write_highwatermark d n"
  define d2 where "d2 = write_task_file d1 (new_task now i rq)"
  have n: "n < 2 ^ 64" using assms(2) by (simp add: n_def)
  have i: "i = show_nat n" by (simp add: i_def n_def)
  have "int (read_highwatermark d) + 1 < 2 ^ 64"
    using assms(2) by simp
  then have next_id: "next_id (find_highest_id d) = n"
    using find_highest_mark [OF dir_ok_ids [OF assms(1)]] by (simp add: next_id_def n_def)
  then have create: "create_task now d rq = (i, link_blocked i (rq_blocks rq) (link_blockers i (rq_blocked_by rq) d2))"
    by (simp add: create_task_def i d1_def d2_def Let_def)
  have ok1: "files_ok d1" using assms(1) by (simp add: dir_ok_def d1_def)
  have safe: "is_safe_path_component (task_id (new_task now i rq))" by (simp add: i_def show_nat_safe)
  have ok2: "files_ok d2" unfolding d2_def by (rule td.wf_put [OF ok1 safe])
  have at2: "task_at d2 j = (if j = i then Some (new_task now i rq) else task_at d j)" for j
    using td.get_put [OF safe, of d1 j] by (simp add: d2_def d1_def)
  show "fst (create_task now d rq) = i" by (simp add: create)
  show at: "task_at (snd (create_task now d rq)) j = created_at now i rq d j" for j
    using link_loops(5) [OF ok2, of i "rq_blocked_by rq"] link_loops(6) [OF link_loops(1) [OF ok2]]
    by (simp add: create created_at_def at2 Let_def)
  have mark: "mark_file (snd (create_task now d rq)) = mark_file d1" by (simp add: create d2_def)
  have hwm: "read_highwatermark (snd (create_task now d rq)) = n"
    using read_mark_cong [OF mark] n by (simp add: d1_def)
  then show "read_highwatermark (snd (create_task now d rq)) = read_highwatermark d + 1"
    by (simp add: n_def)
  show "task_at d i = None"
  proof (rule ccontr)
    assume "task_at d i \<noteq> None"
    then obtain m where "m \<le> read_highwatermark d" "i = show_nat m"
      using assms(1) by (auto simp: dir_ok_def)
    then show False using show_nat_inj [of n m] by (simp add: i_def n_def)
  qed
  have "\<exists>m\<le>n. j = show_nat m" if "task_at (snd (create_task now d rq)) j \<noteq> None" for j
  proof (cases "j = i")
    case True
    then show ?thesis using i_def n_def by blast
  next
    case False
    with that have "task_at d j \<noteq> None" unfolding at created_at_def by (auto simp: Let_def split: if_splits)
    then obtain m where "m \<le> read_highwatermark d" "j = show_nat m"
      using assms(1) by (auto simp: dir_ok_def)
    then show ?thesis by (intro exI [of _ m]) (simp add: n_def)
  qed
  moreover have "files_ok (snd (create_task now d rq))"
    using link_loops(2) [OF link_loops(1) [OF ok2]] by (simp add: create)
  ultimately show "dir_ok (snd (create_task now d rq))"
    using n by (simp add: dir_ok_def hwm)
qed

text \<open>The update loops on the links of the task and the tasks it names.\<close>

lemma add_blocks_loop_effect:
  assumes "files_ok d" and "add_blocks_loop bs (r, d) = (r', d')"
  shows "files_ok d' \<and> mark_file d' = mark_file d \<and> task_id r' = task_id r \<and> blocked_by r' = blocked_by r
    \<and> set (blocks r') = set (blocks r) \<union> set bs
    \<and> (\<forall>j. task_at d' j = (if j \<in> set bs - set (blocks r)
          then map_option (add_blocker (task_id r)) (task_at d j) else task_at d j))"
  using assms
proof (induction bs arbitrary: r d)
  case (Cons b bs)
  show ?case
  proof (cases "b \<in> set (blocks r)")
    case True
    with Cons.prems(2) have "add_blocks_loop bs (r, d) = (r', d')" by simp
    from Cons.IH [OF Cons.prems(1) this] True show ?thesis by auto
  next
    case False
    let ?r = "r\<lparr>blocks := blocks r @ [b]\<rparr>" and ?d = "link_blocked (task_id r) [b] d"
    have "add_blocks_loop bs (?r, ?d) = (r', d')" using Cons.prems(2) False by simp
    from Cons.IH [OF link_loops(2) [OF Cons.prems(1)] this] False link_loops(6) [OF Cons.prems(1), of "task_id r" "[b]"]
    show ?thesis by (auto simp del: link_blocked.simps simp: mark_loops)
  qed
qed auto

lemma add_blocked_by_loop_effect:
  assumes "files_ok d" and "add_blocked_by_loop bs (r, d) = (r', d')"
  shows "files_ok d' \<and> mark_file d' = mark_file d \<and> task_id r' = task_id r \<and> blocks r' = blocks r
    \<and> set (blocked_by r') = set (blocked_by r) \<union> set bs
    \<and> (\<forall>j. task_at d' j = (if j \<in> set bs - set (blocked_by r)
          then map_option (add_block (task_id r)) (task_at d j) else task_at d j))"
  using assms
proof (induction bs arbitrary: r d)
  case (Cons b bs)
  show ?case
  proof (cases "b \<in> set (blocked_by r)")
    case True
    with Cons.prems(2) have "add_blocked_by_loop bs (r, d) = (r', d')" by simp
    from Cons.IH [OF Cons.prems(1) this] True show ?thesis by auto
  next
    case False
    let ?r = "r\<lparr>blocked_by := blocked_by r @ [b]\<rparr>" and ?d = "link_blockers (task_id r) [b] d"
    have "add_blocked_by_loop bs (?r, ?d) = (r', d')" using Cons.prems(2) False by simp
    from Cons.IH [OF link_loops(1) [OF Cons.prems(1)] this] False link_loops(5) [OF Cons.prems(1), of "task_id r" "[b]"]
    show ?thesis by (auto simp del: link_blockers.simps simp: mark_loops)
  qed
qed auto

subsection \<open>Links\<close>

text \<open>
  The links of a directory, seen as a map: they are symmetric, and every task they name exists.
\<close>

definition linked :: "(str \<Rightarrow> task_v2_record option) \<Rightarrow> bool" where
  "linked m \<longleftrightarrow>
     (\<forall>i r j q. m i = Some r \<longrightarrow> m j = Some q \<longrightarrow> (j \<in> set (blocks r) \<longleftrightarrow> i \<in> set (blocked_by q)))
     \<and> (\<forall>i r. m i = Some r \<longrightarrow> (\<forall>j\<in>set (blocks r) \<union> set (blocked_by r). m j \<noteq> None))"

lemma linkedD:
  "linked m \<Longrightarrow> m i = Some r \<Longrightarrow> m j = Some q \<Longrightarrow> j \<in> set (blocks r) \<longleftrightarrow> i \<in> set (blocked_by q)"
  "linked m \<Longrightarrow> m i = Some r \<Longrightarrow> j \<in> set (blocks r) \<Longrightarrow> m j \<noteq> None"
  "linked m \<Longrightarrow> m i = Some r \<Longrightarrow> j \<in> set (blocked_by r) \<Longrightarrow> m j \<noteq> None"
  unfolding linked_def by blast+

text \<open>New links, given as the pairs \<open>(x, y)\<close> with \<open>x\<close> blocking \<open>y\<close>, on both sides at once.\<close>

lemma linked_extend:
  assumes m: "linked m" and dom: "\<And>k. m' k = None \<longleftrightarrow> m k = None"
    and new: "\<And>k s'. m' k = Some s' \<Longrightarrow> \<exists>s. m k = Some s
        \<and> set (blocks s') = set (blocks s) \<union> {y. (k, y) \<in> E}
        \<and> set (blocked_by s') = set (blocked_by s) \<union> {x. (x, k) \<in> E}"
    and ends: "\<And>x y. (x, y) \<in> E \<Longrightarrow> m x \<noteq> None \<and> m y \<noteq> None"
  shows "linked m'"
  unfolding linked_def
proof (intro conjI allI impI ballI)
  fix i r j q assume "m' i = Some r" and "m' j = Some q"
  then obtain s t where s: "m i = Some s" "set (blocks r) = set (blocks s) \<union> {y. (i, y) \<in> E}"
    and t: "m j = Some t" "set (blocked_by q) = set (blocked_by t) \<union> {x. (x, j) \<in> E}"
    using new [of i r] new [of j q] by meson
  show "j \<in> set (blocks r) \<longleftrightarrow> i \<in> set (blocked_by q)"
    by (simp add: linkedD(1) [OF m s(1) t(1)] s(2) t(2))
next
  fix i r j assume r: "m' i = Some r" and j: "j \<in> set (blocks r) \<union> set (blocked_by r)"
  from new [OF r] obtain s where s: "m i = Some s" "set (blocks r) = set (blocks s) \<union> {y. (i, y) \<in> E}"
    "set (blocked_by r) = set (blocked_by s) \<union> {x. (x, i) \<in> E}" by meson
  have "j \<in> set (blocks s) \<or> j \<in> set (blocked_by s) \<or> (i, j) \<in> E \<or> (j, i) \<in> E"
    using j s(2,3) by simp blast
  then have "m j \<noteq> None" using linkedD(2) [OF m s(1)] linkedD(3) [OF m s(1)] ends by meson
  then show "m' j \<noteq> None" using dom by simp
qed

lemma linked_same_links:
  assumes "linked m" and "\<And>k. m' k = None \<longleftrightarrow> m k = None"
    and "\<And>k s'. m' k = Some s' \<Longrightarrow> \<exists>s. m k = Some s \<and> set (blocks s') = set (blocks s)
        \<and> set (blocked_by s') = set (blocked_by s)"
  shows "linked m'"
proof (rule linked_extend [OF assms(1,2), where E = "{}"])
  show "\<exists>s. m k = Some s \<and> set (blocks s') = set (blocks s) \<union> {y. (k, y) \<in> {}}
      \<and> set (blocked_by s') = set (blocked_by s) \<union> {x. (x, k) \<in> {}}" if "m' k = Some s'" for k s'
    using assms(3) [OF that] by simp
qed simp

lemma linked_remove:
  assumes m: "linked m" and gone: "m' i = None"
    and rest: "\<And>k. k \<noteq> i \<Longrightarrow> m' k = None \<longleftrightarrow> m k = None"
    and sets: "\<And>k s'. m' k = Some s' \<Longrightarrow> \<exists>s. m k = Some s
        \<and> set (blocks s') = set (blocks s) - {i} \<and> set (blocked_by s') = set (blocked_by s) - {i}"
  shows "linked m'"
  unfolding linked_def
proof (intro conjI allI impI ballI)
  fix k r j q assume k: "m' k = Some r" and j: "m' j = Some q"
  from sets [OF k] obtain s where s: "m k = Some s" "set (blocks r) = set (blocks s) - {i}" by blast
  from sets [OF j] obtain t where t: "m j = Some t" "set (blocked_by q) = set (blocked_by t) - {i}" by blast
  have "k \<noteq> i" "j \<noteq> i" using k j gone by auto
  then show "j \<in> set (blocks r) \<longleftrightarrow> k \<in> set (blocked_by q)"
    using linkedD(1) [OF m s(1) t(1)] s(2) t(2) by auto
next
  fix k r j assume k: "m' k = Some r" and j: "j \<in> set (blocks r) \<union> set (blocked_by r)"
  from sets [OF k] obtain s where s: "m k = Some s" "set (blocks r) = set (blocks s) - {i}"
    "set (blocked_by r) = set (blocked_by s) - {i}" by blast
  then have "j \<noteq> i" and "m j \<noteq> None" using linkedD(2,3) [OF m s(1)] j by blast+
  then show "m' j \<noteq> None" by (simp add: rest)
qed

lemma linked_insert:
  assumes m: "linked m" and fresh: "m i = None" and r: "blocks r = []" "blocked_by r = []"
  shows "linked (m(i \<mapsto> r))"
  unfolding linked_def
proof (intro conjI allI impI ballI)
  fix a s b q assume a: "(m(i \<mapsto> r)) a = Some s" and b: "(m(i \<mapsto> r)) b = Some q"
  show "b \<in> set (blocks s) \<longleftrightarrow> a \<in> set (blocked_by q)"
  proof (cases "a = i \<or> b = i")
    case True
    then show ?thesis using a b r fresh linkedD(2,3) [OF m] by (cases "a = i"; cases "b = i") fastforce+
  next
    case False
    with a b linkedD(1) [OF m] show ?thesis by simp
  qed
next
  fix a s b assume "(m(i \<mapsto> r)) a = Some s" and "b \<in> set (blocks s) \<union> set (blocked_by s)"
  then show "(m(i \<mapsto> r)) b \<noteq> None"
    using r linkedD(2,3) [OF m, of a s b] by (auto split: if_splits)
qed

lemma linked_create:
  assumes m: "linked (task_at d)" and fresh: "task_at d i = None"
    and refs: "\<forall>j\<in>set (rq_blocked_by rq) \<union> set (rq_blocks rq). task_at d j \<noteq> None"
  shows "linked (created_at now i rq d)"
proof -
  let ?r = "(new_task now i rq)\<lparr>blocks := [], blocked_by := []\<rparr>"
  let ?E = "{(b, i) |b. b \<in> set (rq_blocked_by rq)} \<union> {(i, b) |b. b \<in> set (rq_blocks rq)}"
  let ?m = "(task_at d)(i \<mapsto> ?r)"
  have "linked ?m" by (rule linked_insert [OF m fresh]) simp_all
  then show ?thesis
  proof (rule linked_extend [where E = ?E])
    show "created_at now i rq d k = None \<longleftrightarrow> ?m k = None" for k
      by (simp add: created_at_def Let_def)
    show "\<exists>s. ?m k = Some s \<and> set (blocks s') = set (blocks s) \<union> {y. (k, y) \<in> ?E}
        \<and> set (blocked_by s') = set (blocked_by s) \<union> {x. (x, k) \<in> ?E}"
      if "created_at now i rq d k = Some s'" for k s'
      using that refs fresh by (auto simp: created_at_def Let_def split: if_splits)
    show "?m x \<noteq> None \<and> ?m y \<noteq> None" if "(x, y) \<in> ?E" for x y
      using that refs by auto
  qed
qed

subsection \<open>Operations keep the directory and its links\<close>

definition same_links :: "task_v2_record \<Rightarrow> task_v2_record \<Rightarrow> bool" where
  "same_links r r' \<longleftrightarrow> task_id r' = task_id r \<and> blocks r' = blocks r \<and> blocked_by r' = blocked_by r"

lemma same_links_opt: "(\<And>x. same_links r (f x r)) \<Longrightarrow> same_links r (opt_update f v r)"
  by (simp add: opt_update_def same_links_def split: option.split)

lemma same_links_trans: "same_links r s \<Longrightarrow> same_links s t \<Longrightarrow> same_links r t"
  by (simp add: same_links_def)

lemma same_links_fields:
  "same_links r (apply_status now s r)" "same_links r (owner_update f r)" "same_links r (subject_update g r)"
  "same_links r (description_update g r)" "same_links r (active_form_update h r)" "same_links r (metadata_update k r)"
  by (simp_all add: same_links_def apply_status_def Let_def)

lemma apply_metadata_links: "apply_metadata v r = Inr r' \<Longrightarrow> same_links r r'"
  by (cases v) (auto simp: apply_metadata_def Let_def intro: same_links_fields)

lemma updated_fields_links:
  assumes "updated_fields now i up r = Inr r'"
  shows "same_links r r'"
proof -
  define s where "s = (opt_update (\<lambda>a. active_form_update (\<lambda>_. a)) (up_active_form up)
    (opt_update (\<lambda>s. description_update (\<lambda>_. s)) (up_description up)
      (opt_update (\<lambda>s. subject_update (\<lambda>_. s)) (up_subject up)
        (opt_update (\<lambda>w. owner_update (\<lambda>_. Some w)) (up_owner up)
          (opt_update (apply_status now) (up_status up) r)))))"
  have "same_links r s"
    unfolding s_def by (intro same_links_trans [OF same_links_opt same_links_trans [OF same_links_opt
      same_links_trans [OF same_links_opt same_links_trans [OF same_links_opt same_links_opt]]]] same_links_fields)
  moreover have "(case up_metadata_merge up of None \<Rightarrow> Inr s | Some v \<Rightarrow> apply_metadata v s) = Inr r'"
    using assms unfolding s_def by (simp add: updated_fields_def Let_def split: if_splits)
  ultimately show ?thesis
    using apply_metadata_links same_links_trans by (auto split: option.splits)
qed

lemma write_same_links:
  assumes "dir_ok d" and "task_at d i = Some r" and "task_id r' = i"
    and "set (blocks r') = set (blocks r)" and "set (blocked_by r') = set (blocked_by r)"
  shows "dir_ok (write_task_file d r')" and "linked (task_at d) \<Longrightarrow> linked (task_at (write_task_file d r'))"
proof -
  have safe: "is_safe_path_component (task_id r')" using td.get_valid [OF assms(2)] assms(3) by simp
  have lookup: "task_at (write_task_file d r') k = (if k = i then Some r' else task_at d k)" for k
    using td.get_put [OF safe] assms(3) by simp
  have ok: "files_ok d" using assms(1) by (simp add: dir_ok_def)
  show "dir_ok (write_task_file d r')"
    by (rule dir_ok_same_mark [OF assms(1) td.wf_put [OF ok safe]]) (use assms(2) lookup in \<open>auto split: if_splits\<close>)
  show "linked (task_at d) \<Longrightarrow> linked (task_at (write_task_file d r'))"
    by (rule linked_same_links [of "task_at d"]) (use assms(2,4,5) in \<open>auto simp: lookup split: if_splits\<close>)
qed

definition existing :: "task_dir \<Rightarrow> str list \<Rightarrow> bool" where
  "existing d ids = list_all (\<lambda>j. task_at d j \<noteq> None) ids"

definition update_refs :: "task_update \<Rightarrow> str list" where
  "update_refs up = (case up_add_blocks up of None \<Rightarrow> [] | Some ids \<Rightarrow> ids)
     @ (case up_add_blocked_by up of None \<Rightarrow> [] | Some ids \<Rightarrow> ids)"

lemma update_task_error: "fst (update_task now d i up) = Inl e \<Longrightarrow> snd (update_task now d i up) = d"
  by (auto simp: update_task_def Let_def split: sum.splits option.splits prod.splits)

text \<open>A successful update, as one change of the store.\<close>

lemma update_task_effect:
  assumes ok: "dir_ok d" and upd: "update_task now d i up = (Inr r', d')"
  obtains r bs cs where "task_at d i = Some r" and "update_refs up = bs @ cs" and "i \<notin> set (bs @ cs)"
    and "task_id r' = i" and "set (blocks r') = set (blocks r) \<union> set bs"
    and "set (blocked_by r') = set (blocked_by r) \<union> set cs"
    and "files_ok d'" and "mark_file d' = mark_file d"
    and "\<And>j. task_at d' j = (if j = i then Some r'
      else (let q = (if j \<in> set bs - set (blocks r) then map_option (add_blocker i) (task_at d j) else task_at d j)
            in if j \<in> set cs - set (blocked_by r) then map_option (add_block i) q else q))"
proof -
  define bs where "bs = (case up_add_blocks up of None \<Rightarrow> [] | Some ids \<Rightarrow> ids)"
  define cs where "cs = (case up_add_blocked_by up of None \<Rightarrow> [] | Some ids \<Rightarrow> ids)"
  have files: "files_ok d" using ok by (simp add: dir_ok_def)
  from upd obtain r0 r1 where read: "read_task_file d i = Inr r0" and fields: "updated_fields now i up r0 = Inr r1"
    and self: "check_self_links up r1 = Inr ()"
    by (auto simp: update_task_def try_bind_def split: sum.splits)
  have r0: "task_at d i = Some r0" using read by (simp add: read_task_iff)
  have i: "task_id r0 = i" by (rule td.get_key [OF files r0])
  note same = updated_fields_links [OF fields, unfolded same_links_def]
  have notself: "i \<notin> set (bs @ cs)"
    using self same i by (auto simp: check_self_links_def bs_def cs_def split: if_splits option.splits)
  obtain r2 d2 where loop1: "add_blocks_loop bs (r1, d) = (r2, d2)" by fastforce
  obtain r3 d3 where loop2: "add_blocked_by_loop cs (r2, d2) = (r3, d3)" by fastforce
  have "(case up_add_blocks up of None \<Rightarrow> (r1, d) | Some ids \<Rightarrow> add_blocks_loop ids (r1, d)) = (r2, d2)"
    using loop1 by (auto simp: bs_def split: option.splits)
  moreover have "(case up_add_blocked_by up of None \<Rightarrow> (r2, d2) | Some ids \<Rightarrow> add_blocked_by_loop ids (r2, d2)) = (r3, d3)"
    using loop2 by (auto simp: cs_def split: option.splits)
  ultimately have r': "r' = r3" and d': "d' = write_task_file d3 r3"
    using upd by (auto simp: update_task_def read fields self)
  note e1 = add_blocks_loop_effect [OF files loop1]
  note e2 = add_blocked_by_loop_effect [OF conjunct1 [OF e1] loop2]
  have id3: "task_id r3 = i" using e1 e2 same i by simp
  have safe: "is_safe_path_component (task_id r3)" using td.get_valid [OF r0] id3 by simp
  have at: "task_at d' j = (if j = i then Some r'
      else (let q = (if j \<in> set bs - set (blocks r0) then map_option (add_blocker i) (task_at d j) else task_at d j)
            in if j \<in> set cs - set (blocked_by r0) then map_option (add_block i) q else q))" for j
    using td.get_put [OF safe, of d3 j] e1 e2 same i by (simp add: d' r' id3 Let_def)
  show ?thesis
  proof (rule that)
    show "update_refs up = bs @ cs" by (simp add: update_refs_def bs_def cs_def)
    show "files_ok d'" unfolding d' using e2 td.wf_put [OF _ safe] by blast
    show "mark_file d' = mark_file d" using e1 e2 by (simp add: d')
    show "task_at d' j = (if j = i then Some r'
      else (let q = (if j \<in> set bs - set (blocks r0) then map_option (add_blocker i) (task_at d j) else task_at d j)
            in if j \<in> set cs - set (blocked_by r0) then map_option (add_block i) q else q))" for j
      by (rule at)
  qed (use r0 notself id3 e1 e2 same in \<open>simp_all add: r'\<close>)
qed

lemma update_task_keeps:
  assumes ok: "dir_ok d" and upd: "update_task now d i up = (Inr r', d')"
  shows "dir_ok d'" and "linked (task_at d) \<Longrightarrow> existing d (update_refs up) \<Longrightarrow> linked (task_at d')"
proof -
  obtain r bs cs where r: "task_at d i = Some r" and refs: "update_refs up = bs @ cs" and self: "i \<notin> set (bs @ cs)"
    and "task_id r' = i" and links: "set (blocks r') = set (blocks r) \<union> set bs" "set (blocked_by r') = set (blocked_by r) \<union> set cs"
    and files: "files_ok d'" and mark: "mark_file d' = mark_file d"
    and at: "\<And>j. task_at d' j = (if j = i then Some r'
      else (let q = (if j \<in> set bs - set (blocks r) then map_option (add_blocker i) (task_at d j) else task_at d j)
            in if j \<in> set cs - set (blocked_by r) then map_option (add_block i) q else q))"
    by (rule update_task_effect [OF ok upd]) (rule that; assumption)
  have dom: "task_at d' k = None \<longleftrightarrow> task_at d k = None" for k
    by (simp add: at r Let_def)
  show "dir_ok d'" by (rule dir_ok_same_mark [OF ok files mark]) (simp only: dom not_False_eq_True)
  assume linked: "linked (task_at d)" and ex: "existing d (update_refs up)"
  let ?E = "{(i, b) |b. b \<in> set bs} \<union> {(b, i) |b. b \<in> set cs}"
  show "linked (task_at d')"
  proof (rule linked_extend [OF linked dom, where E = ?E])
    fix k s' assume k: "task_at d' k = Some s'"
    show "\<exists>s. task_at d k = Some s \<and> set (blocks s') = set (blocks s) \<union> {y. (k, y) \<in> ?E}
        \<and> set (blocked_by s') = set (blocked_by s) \<union> {x. (x, k) \<in> ?E}"
    proof (cases "k = i")
      case True
      then show ?thesis using k r links self by (auto simp: at)
    next
      case False
      from k dom [of k] obtain s where s: "task_at d k = Some s" by (cases "task_at d k") auto
      have "k \<in> set (blocks r) \<longleftrightarrow> i \<in> set (blocked_by s)" "i \<in> set (blocks s) \<longleftrightarrow> k \<in> set (blocked_by r)"
        using linkedD(1) [OF linked r s] linkedD(1) [OF linked s r] by simp_all
      then show ?thesis
        using k s False self by (auto simp: at Let_def split: if_splits)
    qed
  next
    fix x y assume "(x, y) \<in> ?E"
    then show "task_at d x \<noteq> None \<and> task_at d y \<noteq> None"
      using r ex refs by (auto simp: existing_def list_all_iff)
  qed
qed

lemma set_delete_subset: "set (AList.delete k al) \<subseteq> set al"
  by (auto simp: AList.delete_eq)

lemma delete_task_effect:
  assumes "dir_ok d"
  shows "task_at (snd (delete_task d i)) k = (if k = i then None else task_at d k)" and "dir_ok (snd (delete_task d i))"
    and "read_highwatermark (snd (delete_task d i)) = read_highwatermark d"
proof -
  have files: "files_ok d" using assms by (simp add: dir_ok_def)
  have del: "snd (delete_task d i) = (if is_safe_path_component i then d\<lparr>files := AList.delete i (files d)\<rparr> else d)"
    by (simp add: delete_task_def task_file_def)
  show at: "task_at (snd (delete_task d i)) k = (if k = i then None else task_at d k)" for k
    by (simp add: del task_at_eq delete_conv')
  have "files_ok (snd (delete_task d i))"
    using files set_delete_subset [of i "files d"] by (auto simp: del files_ok_def distinct_delete)
  moreover have mark: "mark_file (snd (delete_task d i)) = mark_file d" by (simp add: del)
  ultimately show "dir_ok (snd (delete_task d i))"
    by (rule dir_ok_same_mark [OF assms]) (simp add: at split: if_splits)
  show "read_highwatermark (snd (delete_task d i)) = read_highwatermark d"
    by (rule read_mark_cong [OF mark])
qed

text \<open>The directory a soft delete removes the file from.\<close>

definition unlinked :: "task_dir \<Rightarrow> str \<Rightarrow> task_dir" where
  "unlinked d i = (case task_at d i of None \<Rightarrow> d
     | Some r \<Rightarrow> unlink_blocked i (blocks r) (unlink_blockers i (blocked_by r) d))"

lemma soft_delete_unlinked: "soft_delete_task d i = delete_task (unlinked d i) i"
  by (simp add: soft_delete_task_def unlinked_def read_task_cases)

lemma unlinked_effect:
  assumes "dir_ok d"
  shows "dir_ok (unlinked d i)" and "mark_file (unlinked d i) = mark_file d"
    and "task_at (unlinked d i) k = (case task_at d i of None \<Rightarrow> task_at d k
      | Some r \<Rightarrow> (let q = (if k \<in> set (blocked_by r) then map_option (drop_block i) (task_at d k) else task_at d k)
            in if k \<in> set (blocks r) then map_option (drop_blocker i) q else q))"
proof -
  have files: "files_ok d" using assms by (simp add: dir_ok_def)
  show mark: "mark_file (unlinked d i) = mark_file d" by (simp add: unlinked_def split: option.split)
  show at: "task_at (unlinked d i) k = (case task_at d i of None \<Rightarrow> task_at d k
      | Some r \<Rightarrow> (let q = (if k \<in> set (blocked_by r) then map_option (drop_block i) (task_at d k) else task_at d k)
            in if k \<in> set (blocks r) then map_option (drop_blocker i) q else q))" for k
    using link_loops(7) [OF files] link_loops(8) [OF link_loops(3) [OF files]]
    by (simp add: unlinked_def Let_def split: option.split)
  have "files_ok (unlinked d i)"
    using files link_loops(4) [OF link_loops(3) [OF files]] by (simp add: unlinked_def split: option.split)
  then show "dir_ok (unlinked d i)"
    by (rule dir_ok_same_mark [OF assms _ mark]) (auto simp: at Let_def split: option.splits if_splits)
qed

lemma soft_delete_effect:
  assumes "dir_ok d" and linked: "linked (task_at d)"
  shows "\<And>k. k \<noteq> i \<Longrightarrow> task_at (snd (soft_delete_task d i)) k = None \<longleftrightarrow> task_at d k = None"
    and "task_at (snd (soft_delete_task d i)) i = None"
    and "\<And>k s'. task_at (snd (soft_delete_task d i)) k = Some s' \<Longrightarrow> \<exists>s. task_at d k = Some s
        \<and> set (blocks s') = set (blocks s) - {i} \<and> set (blocked_by s') = set (blocked_by s) - {i}"
proof -
  have at: "task_at (snd (soft_delete_task d i)) k = (if k = i then None else task_at (unlinked d i) k)" for k
    using delete_task_effect(1) [OF unlinked_effect(1) [OF assms(1)]] by (simp add: soft_delete_unlinked)
  show "k \<noteq> i \<Longrightarrow> task_at (snd (soft_delete_task d i)) k = None \<longleftrightarrow> task_at d k = None" for k
    by (simp add: at unlinked_effect(3) [OF assms(1)] Let_def split: option.split)
  show "task_at (snd (soft_delete_task d i)) i = None" by (simp add: at)
  fix k s' assume k: "task_at (snd (soft_delete_task d i)) k = Some s'"
  then have ki: "k \<noteq> i" and k': "task_at (unlinked d i) k = Some s'" by (auto simp: at split: if_splits)
  show "\<exists>s. task_at d k = Some s
        \<and> set (blocks s') = set (blocks s) - {i} \<and> set (blocked_by s') = set (blocked_by s) - {i}"
  proof (cases "task_at d i")
    case None
    with k' have s: "task_at d k = Some s'" by (simp add: unlinked_effect(3) [OF assms(1)])
    have "i \<notin> set (blocks s')" "i \<notin> set (blocked_by s')"
      using linkedD(2,3) [OF linked s] None by blast+
    with s show ?thesis by simp
  next
    case (Some r)
    from k' obtain s where s: "task_at d k = Some s"
      by (cases "task_at d k") (auto simp: unlinked_effect(3) [OF assms(1)] Some Let_def split: if_splits)
    have "i \<in> set (blocks s) \<longleftrightarrow> k \<in> set (blocked_by r)" "k \<in> set (blocks r) \<longleftrightarrow> i \<in> set (blocked_by s)"
      using linkedD(1) [OF linked s Some] linkedD(1) [OF linked Some s] by simp_all
    then show ?thesis
      using k' s by (auto simp: unlinked_effect(3) [OF assms(1)] Some Let_def split: if_splits)
  qed
qed

lemma soft_delete_keeps:
  assumes "dir_ok d"
  shows "dir_ok (snd (soft_delete_task d i))"
    and "read_highwatermark (snd (soft_delete_task d i)) = read_highwatermark d"
    and "linked (task_at d) \<Longrightarrow> linked (task_at (snd (soft_delete_task d i)))"
proof -
  show "dir_ok (snd (soft_delete_task d i))"
    unfolding soft_delete_unlinked by (rule delete_task_effect(2)) (rule unlinked_effect(1) [OF assms])
  show "read_highwatermark (snd (soft_delete_task d i)) = read_highwatermark d"
    unfolding soft_delete_unlinked delete_task_effect(3) [OF unlinked_effect(1) [OF assms]]
    by (rule read_mark_cong) (rule unlinked_effect(2) [OF assms])
  assume linked: "linked (task_at d)"
  show "linked (task_at (snd (soft_delete_task d i)))"
    by (rule linked_remove [OF linked soft_delete_effect(2) [OF assms linked] soft_delete_effect(1) [OF assms linked]
        soft_delete_effect(3) [OF assms linked]])
qed

lemma claim_task_cases:
  "claim_task d i agent = (if agent_busy d i agent then (Inl (AgentBusy agent i), d)
     else case task_at d i of
       None \<Rightarrow> (case read_task_file d i of Inl e \<Rightarrow> (Inl e, d) | Inr r \<Rightarrow> (Inr r, d))
     | Some r \<Rightarrow> (Inr (r\<lparr>owner := Some agent\<rparr>), write_task_file d (r\<lparr>owner := Some agent\<rparr>)))"
  by (simp add: claim_task_def task_at_def Let_def split: sum.split)

lemma snd_claim_task: "snd (claim_task d i agent) = (if agent_busy d i agent then d
    else case task_at d i of None \<Rightarrow> d | Some r \<Rightarrow> write_task_file d (r\<lparr>owner := Some agent\<rparr>))"
  by (simp add: claim_task_def task_at_def Let_def split: sum.split)

lemma snd_release_task:
  "snd (release_task d i) = (case task_at d i of None \<Rightarrow> d | Some r \<Rightarrow> write_task_file d (released r))"
  by (simp add: release_task_def task_at_def split: sum.split)

lemma released_simps [simp]:
  "task_id (released r) = task_id r" "blocks (released r) = blocks r" "blocked_by (released r) = blocked_by r"
  "owner (released r) = None" "task_status (released r) = (if task_status r = InProgress then Pending else task_status r)"
  by (simp_all add: released_def)

lemma claim_release_keeps:
  assumes "dir_ok d"
  shows "dir_ok (snd (claim_task d i agent))" "linked (task_at d) \<Longrightarrow> linked (task_at (snd (claim_task d i agent)))"
    "dir_ok (snd (release_task d i))" "linked (task_at d) \<Longrightarrow> linked (task_at (snd (release_task d i)))"
    "mark_file (snd (claim_task d i agent)) = mark_file d" "mark_file (snd (release_task d i)) = mark_file d"
proof -
  have files: "files_ok d" using assms by (simp add: dir_ok_def)
  note same = write_same_links [OF assms]
  note key = td.get_key [OF files]
  show "dir_ok (snd (claim_task d i agent))" "linked (task_at d) \<Longrightarrow> linked (task_at (snd (claim_task d i agent)))"
    using assms same key by (auto simp: snd_claim_task split: option.split)
  show "dir_ok (snd (release_task d i))" "linked (task_at d) \<Longrightarrow> linked (task_at (snd (release_task d i)))"
    using assms same key by (auto simp: snd_release_task split: option.split)
  show "mark_file (snd (claim_task d i agent)) = mark_file d" "mark_file (snd (release_task d i)) = mark_file d"
    by (simp_all add: snd_claim_task snd_release_task split: option.split)
qed

lemma list_tasks_stored: "t \<in> set (list_tasks d) \<Longrightarrow> \<exists>i. task_at d i = Some t \<and> task_status t \<noteq> Deleted"
proof -
  assume "t \<in> set (list_tasks d)"
  then obtain i where "(case read_task_file d i of Inl _ \<Rightarrow> None
      | Inr r \<Rightarrow> if task_status r \<noteq> Deleted then Some r else None) = Some t"
    unfolding list_tasks_def set_sort map_filter_def by auto
  then have "task_at d i = Some t \<and> task_status t \<noteq> Deleted"
    by (cases "read_task_file d i") (simp_all add: task_at_def split: if_splits)
  then show ?thesis by blast
qed

lemma unassign_loop_keeps:
  assumes "dir_ok d0"
    and "\<forall>t\<in>set ts. \<exists>i. task_at d0 i = Some t"
    and "dir_ok d" "mark_file d = mark_file d0"
    and "\<forall>k. task_at d k = task_at d0 k \<or> task_at d k = map_option released (task_at d0 k)"
  shows "let d' = snd (unassign_loop agent ts (n, d)) in dir_ok d' \<and> mark_file d' = mark_file d0
    \<and> (\<forall>k. task_at d' k = task_at d0 k \<or> task_at d' k = map_option released (task_at d0 k))"
  using assms(2-)
proof (induction ts arbitrary: n d)
  case (Cons t ts)
  then obtain i where i: "task_at d0 i = Some t" by auto
  have files0: "files_ok d0" using assms(1) by (simp add: dir_ok_def)
  have ti: "task_id t = i" by (rule td.get_key [OF files0 i])
  have safe: "is_safe_path_component (task_id (released t))" using td.get_valid [OF i] ti by simp
  have at: "task_at (write_task_file d (released t)) k = (if k = i then Some (released t) else task_at d k)" for k
    using td.get_put [OF safe] ti by simp
  obtain s where s: "task_at d i = Some s" "s = t \<or> s = released t"
    using Cons.prems(4) [rule_format, of i] by (auto simp: i)
  have ok: "dir_ok (write_task_file d (released t))"
    by (rule write_same_links(1) [OF Cons.prems(2) s(1)]) (use s(2) ti in auto)
  show ?case
  proof (cases "owner t = Some agent")
    case True
    have "let d' = snd (unassign_loop agent ts (n + 1, write_task_file d (released t))) in dir_ok d' \<and> mark_file d' = mark_file d0
      \<and> (\<forall>k. task_at d' k = task_at d0 k \<or> task_at d' k = map_option released (task_at d0 k))"
      by (rule Cons.IH) (use Cons.prems ok i in \<open>auto simp: at\<close>)
    with True show ?thesis by simp
  next
    case False
    then show ?thesis using Cons by simp
  qed
qed simp

lemma unassign_keeps:
  assumes "dir_ok d"
  shows "dir_ok (snd (unassign_teammate_tasks d agent))" "mark_file (snd (unassign_teammate_tasks d agent)) = mark_file d"
    "linked (task_at d) \<Longrightarrow> linked (task_at (snd (unassign_teammate_tasks d agent)))"
proof -
  let ?d = "snd (unassign_teammate_tasks d agent)"
  have "\<forall>t\<in>set (list_tasks d). \<exists>i. task_at d i = Some t" using list_tasks_stored by blast
  from unassign_loop_keeps [OF assms this assms refl, of agent 0]
  have all: "dir_ok ?d" "mark_file ?d = mark_file d"
    and at: "\<And>k. task_at ?d k = task_at d k \<or> task_at ?d k = map_option released (task_at d k)"
    by (simp_all add: unassign_teammate_tasks_def Let_def)
  show "dir_ok ?d" "mark_file ?d = mark_file d" by (fact all)+
  assume "linked (task_at d)"
  then show "linked (task_at ?d)"
  proof (rule linked_same_links)
    show "task_at ?d k = None \<longleftrightarrow> task_at d k = None" for k using at [of k] by (cases "task_at d k") auto
    show "\<exists>s. task_at d k = Some s \<and> set (blocks s') = set (blocks s) \<and> set (blocked_by s') = set (blocked_by s)"
      if "task_at ?d k = Some s'" for k s'
      using at [of k] that by (cases "task_at d k") auto
  qed
qed

subsection \<open>Runs of the task list\<close>

text \<open>What a sequence of operations leads to, with the ids issued so far (oldest first). A strict
  run names only existing tasks in the links it adds and never uses the raw \<open>delete_task\<close>.
  The bound on the mark is where \<open>highest + 1\<close> stays in \<open>u64\<close>.\<close>

inductive task_run :: "bool \<Rightarrow> str list \<Rightarrow> task_dir \<Rightarrow> bool" for strict where
  run_new: "base l = None \<Longrightarrow> task_manager_new base l = Inr d \<Longrightarrow> task_run strict [] d"
| run_reopen: "task_run strict ids d \<Longrightarrow> base l = Some d \<Longrightarrow> task_manager_new base l = Inr d'
    \<Longrightarrow> task_run strict ids d'"
| run_create: "task_run strict ids d \<Longrightarrow> length ids + 1 < 2 ^ 64
    \<Longrightarrow> strict \<longrightarrow> existing d (rq_blocked_by rq @ rq_blocks rq)
    \<Longrightarrow> task_run strict (ids @ [fst (create_task now d rq)]) (snd (create_task now d rq))"
| run_update: "task_run strict ids d \<Longrightarrow> strict \<longrightarrow> existing d (update_refs up)
    \<Longrightarrow> task_run strict ids (snd (update_task now d i up))"
| run_soft_delete: "task_run strict ids d \<Longrightarrow> task_run strict ids (snd (soft_delete_task d i))"
| run_delete: "task_run strict ids d \<Longrightarrow> \<not> strict \<Longrightarrow> task_run strict ids (snd (delete_task d i))"
| run_claim: "task_run strict ids d \<Longrightarrow> task_run strict ids (snd (claim_task d i agent))"
| run_release: "task_run strict ids d \<Longrightarrow> task_run strict ids (snd (release_task d i))"
| run_unassign: "task_run strict ids d \<Longrightarrow> task_run strict ids (snd (unassign_teammate_tasks d agent))"

definition run_ok :: "bool \<Rightarrow> str list \<Rightarrow> task_dir \<Rightarrow> bool" where
  "run_ok strict ids d \<longleftrightarrow> dir_ok d \<and> read_highwatermark d = length ids
     \<and> ids = map show_nat [1..<Suc (length ids)] \<and> (strict \<longrightarrow> linked (task_at d))"

lemma run_ok_step:
  assumes "run_ok strict ids d" and "dir_ok d'" and "read_highwatermark d' = read_highwatermark d"
    and "strict \<Longrightarrow> linked (task_at d) \<Longrightarrow> linked (task_at d')"
  shows "run_ok strict ids d'"
  using assms unfolding run_ok_def by auto

lemma run_ok_start: "run_ok strict [] \<lparr>mark_file = None, files = []\<rparr>"
  by (simp add: run_ok_def dir_ok_def files_ok_def task_at_eq read_highwatermark_def linked_def)

lemma run_ok_create:
  assumes ok: "run_ok strict ids d" and bound: "length ids + 1 < 2 ^ 64"
    and refs: "strict \<longrightarrow> existing d (rq_blocked_by rq @ rq_blocks rq)"
  shows "run_ok strict (ids @ [fst (create_task now d rq)]) (snd (create_task now d rq))"
    and "fst (create_task now d rq) = show_nat (Suc (length ids))"
    and "task_at d (fst (create_task now d rq)) = None"
proof -
  have dir: "dir_ok d" and mark: "read_highwatermark d = length ids"
    and ids: "ids = map show_nat [1..<Suc (length ids)]"
    using ok by (simp_all only: run_ok_def)
  note effect = create_task_effect [OF dir bound [folded mark]]
  show i: "fst (create_task now d rq) = show_nat (Suc (length ids))" by (simp add: effect(1) mark)
  show fresh: "task_at d (fst (create_task now d rq)) = None" by (simp only: effect(1,2))
  let ?n = "length (ids @ [fst (create_task now d rq)])"
  have "[1..<Suc ?n] = [1..<Suc (length ids)] @ [Suc (length ids)]" by simp
  then have "ids @ [fst (create_task now d rq)] = map show_nat [1..<Suc ?n]"
    using ids i by simp
  moreover have "linked (task_at (snd (create_task now d rq)))" if strict
  proof -
    have "linked (created_at now (fst (create_task now d rq)) rq d)"
      by (rule linked_create [OF _ fresh])
        (use that ok refs in \<open>auto simp: run_ok_def existing_def list_all_iff\<close>)
    moreover have "task_at (snd (create_task now d rq)) = created_at now (fst (create_task now d rq)) rq d"
      by (rule ext) (simp add: effect(1,3))
    ultimately show ?thesis by simp
  qed
  ultimately show "run_ok strict (ids @ [fst (create_task now d rq)]) (snd (create_task now d rq))"
    unfolding run_ok_def using effect(4,5) mark by auto
qed

lemma update_keeps_run:
  assumes "run_ok strict ids d" and "strict \<longrightarrow> existing d (update_refs up)"
  shows "run_ok strict ids (snd (update_task now d i up))"
proof (cases "fst (update_task now d i up)")
  case (Inl e)
  with assms(1) show ?thesis by (simp add: update_task_error)
next
  case (Inr r')
  then have upd: "update_task now d i up = (Inr r', snd (update_task now d i up))" by (simp add: prod_eq_iff)
  have dir: "dir_ok d" using assms(1) by (simp add: run_ok_def)
  show ?thesis
  proof (rule run_ok_step [OF assms(1) update_task_keeps(1) [OF dir upd]])
    show "read_highwatermark (snd (update_task now d i up)) = read_highwatermark d"
      by (rule update_task_effect [OF dir upd]) (rule read_mark_cong)
  qed (use update_task_keeps(2) [OF dir upd] assms(2) in blast)
qed

lemma task_run_ok: "task_run strict ids d \<Longrightarrow> run_ok strict ids d"
proof (induction rule: task_run.induct)
  case (run_new base l d)
  then show ?case using run_ok_start by (simp add: task_manager_new_def split: if_splits)
next
  case (run_reopen ids d base l d')
  then show ?case by (simp add: task_manager_new_def split: if_splits)
next
  case (run_create ids d rq now)
  then show ?case using run_ok_create(1) by blast
next
  case (run_update ids d up now i)
  then show ?case using update_keeps_run by blast
next
  case (run_soft_delete ids d i)
  then have dir: "dir_ok d" by (simp add: run_ok_def)
  show ?case by (rule run_ok_step [OF run_soft_delete.IH soft_delete_keeps [OF dir]])
next
  case (run_delete ids d i)
  then have dir: "dir_ok d" by (simp add: run_ok_def)
  show ?case by (rule run_ok_step [OF run_delete.IH delete_task_effect(2,3) [OF dir]]) (use run_delete in simp)
next
  case (run_claim ids d i agent)
  then have dir: "dir_ok d" by (simp add: run_ok_def)
  show ?case
    by (rule run_ok_step [OF run_claim.IH claim_release_keeps(1) [OF dir] read_mark_cong
          [OF claim_release_keeps(5) [OF dir]] claim_release_keeps(2) [OF dir]])
next
  case (run_release ids d i)
  then have dir: "dir_ok d" by (simp add: run_ok_def)
  show ?case
    by (rule run_ok_step [OF run_release.IH claim_release_keeps(3) [OF dir] read_mark_cong
          [OF claim_release_keeps(6) [OF dir]] claim_release_keeps(4) [OF dir]])
next
  case (run_unassign ids d agent)
  then have dir: "dir_ok d" by (simp add: run_ok_def)
  show ?case
    by (rule run_ok_step [OF run_unassign.IH unassign_keeps(1) [OF dir] read_mark_cong
          [OF unassign_keeps(2) [OF dir]] unassign_keeps(3) [OF dir]])
qed

subsection \<open>Listing\<close>

lemma scanned_ids_dir:
  assumes "dir_ok d"
  shows "scanned_ids d = map fst (files d)"
proof -
  have key: "\<exists>n\<le>read_highwatermark d. i = show_nat n" if "i \<in> set (map fst (files d))" for i
    using that dir_ok_ids [OF assms] by (auto simp: ids_ok_def)
  have "\<not> starts_with (i @ ''.json'') ''.''" if "i \<in> set (map fst (files d))" for i
  proof -
    from key [OF that] obtain n where "i = show_nat n" by blast
    moreover have "hd (show_nat n) \<noteq> CHR ''.''"
      using show_nat_digits [of n] digit_facts show_nat_not_Nil [of n] hd_in_set by blast
    moreover obtain c cs where "show_nat n = c # cs" using show_nat_not_Nil [of n] by (cases "show_nat n") auto
    ultimately show ?thesis by simp
  qed
  then have "filter (\<lambda>i. ends_with (i @ ''.json'') ''.json'' \<and> \<not> starts_with (i @ ''.json'') ''.'') (map fst (files d))
    = map fst (files d)"
    by (intro filter_True) (simp add: suffix_def)
  moreover have "map scanned_id (map fst (files d)) = map fst (files d)"
  proof (rule map_idI)
    show "scanned_id i = i" if "i \<in> set (map fst (files d))" for i
      using key [OF that] scanned_show_nat by metis
  qed
  ultimately show ?thesis by (simp only: scanned_ids_def)
qed

text \<open>The scan yields the live tasks, each under its own id.\<close>

definition live_tasks :: "task_dir \<Rightarrow> task_v2_record list" where
  "live_tasks d = filter (\<lambda>r. task_status r \<noteq> Deleted) (map snd (files d))"

lemma list_tasks_live:
  assumes "dir_ok d"
  shows "list_tasks d = sort_key task_order (live_tasks d)"
proof -
  let ?f = "\<lambda>i. case read_task_file d i of Inl _ \<Rightarrow> None | Inr r \<Rightarrow> if task_status r \<noteq> Deleted then Some r else None"
  have files: "files_ok d" using assms by (simp add: dir_ok_def)
  have "?f i = (if task_status r \<noteq> Deleted then Some r else None)" if "(i, r) \<in> set (files d)" for i r
  proof -
    have "task_at d i = Some r"
      using files that by (auto simp: task_at_eq files_ok_def)
    then show ?thesis by (simp add: read_task_cases)
  qed
  then have "List.map_filter ?f (map fst fs) = filter (\<lambda>r. task_status r \<noteq> Deleted) (map snd fs)"
    if "set fs \<subseteq> set (files d)" for fs
    using that by (induction fs) (auto simp: map_filter_simps split_def)
  then show ?thesis by (simp add: list_tasks_def scanned_ids_dir [OF assms] live_tasks_def)
qed

lemma list_tasks_set:
  assumes "dir_ok d"
  shows "r \<in> set (list_tasks d) \<longleftrightarrow> (\<exists>i. task_at d i = Some r) \<and> task_status r \<noteq> Deleted"
proof -
  have files: "files_ok d" using assms by (simp add: dir_ok_def)
  have "r \<in> snd ` set (files d) \<longleftrightarrow> (\<exists>i. task_at d i = Some r)"
    using files by (force simp: files_ok_def task_at_eq)
  then show ?thesis by (auto simp: list_tasks_live [OF assms] live_tasks_def)
qed

lemma list_tasks_order:
  assumes "dir_ok d"
  shows "sorted_wrt (<) (map task_order (list_tasks d))"
proof -
  have files: "files_ok d" using assms by (simp add: dir_ok_def)
  have "map task_id (map snd (files d)) = map fst (files d)"
    using files by (auto simp: files_ok_def)
  moreover have "distinct (map fst (files d))" using files by (simp add: files_ok_def)
  ultimately have "distinct (map task_id (map snd (files d)))" by (simp only:)
  then have ids: "distinct (map task_id (live_tasks d))"
    unfolding live_tasks_def by (rule distinct_map_filter)
  have "inj_on task_order (set (live_tasks d))"
  proof (rule inj_onI)
    fix r s assume r: "r \<in> set (live_tasks d)" and s: "s \<in> set (live_tasks d)" and eq: "task_order r = task_order s"
    have num: "\<exists>n<2 ^ 64. task_id t = show_nat n" if "t \<in> set (live_tasks d)" for t
    proof -
      from that obtain i where i: "(i, t) \<in> set (files d)" by (auto simp: live_tasks_def)
      then have "task_id t = i" "i \<in> fst ` set (files d)" using files by (force simp: files_ok_def)+
      with dir_ok_ids [OF assms] show ?thesis unfolding ids_ok_def by (meson le_less_trans)
    qed
    from num [OF r] num [OF s] eq have "task_id r = task_id s"
      by (force simp: task_order_def parse_show_nat)
    with ids r s show "r = s" by (simp add: distinct_map inj_on_def)
  qed
  moreover have "distinct (live_tasks d)" using ids by (simp add: distinct_map)
  ultimately have "distinct (map task_order (list_tasks d))"
    by (simp add: list_tasks_live [OF assms] distinct_map)
  then show ?thesis
    using strict_sorted_iff [of "map task_order (list_tasks d)"] by (simp add: list_tasks_live [OF assms])
qed

section \<open>Properties\<close>

lemma run_dir: "task_run strict ids d \<Longrightarrow> dir_ok d"
  using task_run_ok by (simp add: run_ok_def)

lemma run_linked: "task_run True ids d \<Longrightarrow> linked (task_at d)"
  using task_run_ok by (auto simp: run_ok_def)

lemma get_task_iff: "get_task d i = Inr r \<longleftrightarrow> task_at d i = Some r"
  by (simp add: get_task_def read_task_iff)

text \<open>A small strict run: a task, a second one blocked by it, the first one claimed and started.\<close>

definition plain_request :: "str \<Rightarrow> str list \<Rightarrow> str list \<Rightarrow> task_request" where
  "plain_request s bs cs = \<lparr>rq_subject = s, rq_description = [], rq_active_form = None, rq_status = None,
     rq_owner = None, rq_blocked_by = bs, rq_blocks = cs, rq_metadata = None\<rparr>"

definition status_update :: "task_v2_status \<Rightarrow> task_update" where
  "status_update s = \<lparr>up_status = Some s, up_owner = None, up_subject = None, up_description = None,
     up_active_form = None, up_metadata_merge = None, up_add_blocks = None, up_add_blocked_by = None\<rparr>"

definition two_tasks :: task_dir where
  "two_tasks = snd (create_task 2 (snd (create_task 1 \<lparr>mark_file = None, files = []\<rparr>
     (plain_request ''plan'' [] []))) (plain_request ''build'' [''1''] []))"

definition started_tasks :: task_dir where
  "started_tasks = snd (update_task 4 (snd (claim_task two_tasks ''1'' ''ann'')) ''1'' (status_update InProgress))"

lemma show_nat_small: "show_nat 0 = ''0''" "show_nat (Suc 0) = ''1''" "show_nat (Suc (Suc 0)) = ''2''"
  "show_nat (Suc (Suc (Suc 0))) = ''3''"
  by code_simp+

lemma safe_small: "is_safe_path_component ''1''" "is_safe_path_component ''2''" "is_safe_path_component ''3''"
  by code_simp+

lemma two_tasks_eval:
  "two_tasks = \<lparr>mark_file = Some ''2'',
     files = [(''1'', (new_task 1 ''1'' (plain_request ''plan'' [] []))\<lparr>blocks := [''2'']\<rparr>),
              (''2'', new_task 2 ''2'' (plain_request ''build'' [''1''] []))]\<rparr>"
  by code_simp

lemma started_tasks_eval:
  "started_tasks = \<lparr>mark_file = Some ''2'',
     files = [(''1'', (new_task 1 ''1'' (plain_request ''plan'' [] []))\<lparr>blocks := [''2''], owner := Some ''ann'',
                task_status := InProgress, started_at := Some 4\<rparr>),
              (''2'', new_task 2 ''2'' (plain_request ''build'' [''1''] []))]\<rparr>"
  by code_simp


lemma two_tasks_run: "task_run strict [''1'', ''2''] two_tasks"
proof -
  let ?d0 = "\<lparr>mark_file = None, files = []\<rparr>"
  let ?c1 = "create_task 1 ?d0 (plain_request ''plan'' [] [])"
  have "task_manager_new (\<lambda>_. None) ''team'' = Inr ?d0" by code_simp
  then have "task_run strict [] ?d0" by (rule run_new [rotated]) simp
  from run_create [OF this, of "plain_request ''plan'' [] []" 1]
  have r1: "task_run strict [fst ?c1] (snd ?c1)" by (simp add: plain_request_def existing_def)
  have ex: "existing (snd ?c1) (rq_blocked_by (plain_request ''build'' [''1''] []) @ rq_blocks (plain_request ''build'' [''1''] []))"
    by code_simp
  have "fst ?c1 = ''1''" "fst (create_task 2 (snd ?c1) (plain_request ''build'' [''1''] [])) = ''2''" by code_simp+
  with run_create [OF r1, of "plain_request ''build'' [''1''] []" 2] ex show ?thesis
    by (simp add: two_tasks_def)
qed

lemma started_tasks_run: "task_run strict [''1'', ''2''] started_tasks"
  unfolding started_tasks_def
  by (intro run_update run_claim two_tasks_run) (simp add: update_refs_def existing_def status_update_def)

text \<open>C7: an id is never used twice. In every run, whatever tasks were deleted in between, the id
  \<open>create_task\<close> returns is the number of ids issued so far plus one, is not one of them, and
  no task is stored under it; the issued ids are all different.\<close>

theorem ids_never_reused:
  assumes "task_run strict ids d" and "length ids + 1 < 2 ^ 64"
  shows "fst (create_task now d rq) = show_nat (length ids + 1) \<and> fst (create_task now d rq) \<notin> set ids
    \<and> distinct ids \<and> get_task d (fst (create_task now d rq)) = Inl (TaskNotFound (fst (create_task now d rq)))"
proof -
  let ?i = "fst (create_task now d rq)"
  note create = run_ok_create [OF task_run_ok [OF assms(1)] assms(2), where now = now and rq = "rq\<lparr>rq_blocked_by := [], rq_blocks := []\<rparr>"]
  have same: "fst (create_task now d (rq\<lparr>rq_blocked_by := [], rq_blocks := []\<rparr>)) = ?i"
    by (simp add: create_task_def Let_def)
  have i: "?i = show_nat (length ids + 1)" and none: "task_at d ?i = None"
    using create(2,3) by (simp_all add: same existing_def)
  have ids: "ids = map show_nat [1..<Suc (length ids)]"
    using task_run_ok [OF assms(1)] by (simp only: run_ok_def)
  have inj: "inj_on show_nat A" for A by (rule inj_onI) (rule show_nat_inj)
  have "distinct (map show_nat [1..<Suc (length ids)])" by (simp only: distinct_map inj distinct_upt simp_thms)
  with ids have "distinct ids" by simp
  moreover have "?i \<notin> set ids"
  proof
    assume "?i \<in> set ids"
    then have "?i \<in> show_nat ` {1..<Suc (length ids)}" by (subst (asm) ids) (simp only: set_map set_upt)
    then show False using show_nat_inj i by fastforce
  qed
  moreover have "get_task d ?i = Inl (TaskNotFound ?i)"
    using none show_nat_safe [of "length ids + 1"] i
    by (auto simp: get_task_def read_task_file_def task_at_eq task_file_def try_bind_def split: option.split)
  ultimately show ?thesis using i by blast
qed

theorem ids_never_reused_witness:
  "fst (create_task 9 (snd (delete_task two_tasks ''2'')) (plain_request ''ship'' [] [])) = ''3''"
  using ids_never_reused [of False "[''1'', ''2'']" "snd (delete_task two_tasks ''2'')" 9 "plain_request ''ship'' [] []"]
    run_delete [OF two_tasks_run [of False]]
  by (simp add: show_nat_small)

text \<open>A soft delete leaves no trace. In a strict run, after deleting task \<open>i\<close> it cannot be read,
  the other tasks are exactly those there were, and each of them has its former links but for
  \<open>i\<close>.\<close>

theorem soft_delete_removes_references:
  assumes "task_run True ids d"
  shows "get_task (snd (soft_delete_task d i)) i = Inl (if is_safe_path_component i then TaskNotFound i else InvalidId i)
    \<and> (\<forall>k. k \<noteq> i \<longrightarrow> ((\<exists>r. get_task (snd (soft_delete_task d i)) k = Inr r) \<longleftrightarrow> (\<exists>r. get_task d k = Inr r)))
    \<and> (\<forall>k r'. get_task (snd (soft_delete_task d i)) k = Inr r' \<longrightarrow> (\<exists>r. get_task d k = Inr r
          \<and> set (blocks r') = set (blocks r) - {i} \<and> set (blocked_by r') = set (blocked_by r) - {i}))"
proof -
  note effect = soft_delete_effect [OF run_dir [OF assms] run_linked [OF assms]]
  have "get_task (snd (soft_delete_task d i)) i = Inl (if is_safe_path_component i then TaskNotFound i else InvalidId i)"
    using effect(2) [of i]
    by (auto simp: get_task_def read_task_file_def task_at_eq task_file_def try_bind_def split: option.split)
  moreover have "(\<exists>r. get_task (snd (soft_delete_task d i)) k = Inr r) \<longleftrightarrow> (\<exists>r. get_task d k = Inr r)" if "k \<noteq> i" for k
    using effect(1) [OF that] by (auto simp: get_task_iff)
  moreover have "\<exists>r. get_task d k = Inr r
      \<and> set (blocks r') = set (blocks r) - {i} \<and> set (blocked_by r') = set (blocked_by r) - {i}"
    if "get_task (snd (soft_delete_task d i)) k = Inr r'" for k r'
    using effect(3) that by (auto simp: get_task_iff)
  ultimately show ?thesis by blast
qed

theorem soft_delete_removes_references_witness:
  "\<exists>r. get_task (snd (soft_delete_task two_tasks ''1'')) ''2'' = Inr r \<and> blocked_by r = []"
proof -
  note deleted = soft_delete_removes_references [OF two_tasks_run, of "''1''"]
  have two: "\<exists>r. get_task two_tasks ''2'' = Inr r" by (simp add: two_tasks_eval get_task_iff task_at_eq safe_small)
  with conjunct1 [OF conjunct2 [OF deleted], rule_format, of "''2''"]
  obtain r' where r': "get_task (snd (soft_delete_task two_tasks ''1'')) ''2'' = Inr r'" by auto
  from conjunct2 [OF conjunct2 [OF deleted], rule_format, OF r']
  obtain r where "get_task two_tasks ''2'' = Inr r" "set (blocked_by r') = set (blocked_by r) - {''1''}" by blast
  moreover from this(1) have "blocked_by r = [''1'']"
    by (auto simp: two_tasks_eval get_task_iff task_at_eq safe_small plain_request_def)
  ultimately have "blocked_by r' = []" by simp
  with r' show ?thesis by blast
qed

text \<open>A listing is exact. In every run \<open>list_tasks\<close> yields the stored tasks that are not marked
  deleted, each once, in strictly increasing numeric order of their ids.\<close>

theorem list_tasks_exact:
  assumes "task_run strict ids d"
  shows "set (list_tasks d) = {r. get_task d (task_id r) = Inr r \<and> task_status r \<noteq> Deleted}
    \<and> sorted_wrt (<) (map task_order (list_tasks d))"
proof -
  note dir = run_dir [OF assms]
  have "files_ok d" using dir by (simp add: dir_ok_def)
  then have "(\<exists>i. task_at d i = Some r) \<longleftrightarrow> get_task d (task_id r) = Inr r" for r
    using td.get_key by (auto simp: get_task_iff)
  then show ?thesis using list_tasks_set [OF dir] list_tasks_order [OF dir] by blast
qed

theorem list_tasks_exact_witness: "\<exists>r\<in>set (list_tasks two_tasks). task_id r = ''2''"
proof -
  have "\<exists>r. get_task two_tasks ''2'' = Inr r \<and> task_id r = ''2'' \<and> task_status r \<noteq> Deleted"
    by (simp add: two_tasks_eval get_task_iff task_at_eq safe_small) (simp add: new_task_def plain_request_def)
  then show ?thesis using list_tasks_exact [OF two_tasks_run] by auto
qed

lemma agent_busy_iff:
  assumes "dir_ok d"
  shows "agent_busy d i agent \<longleftrightarrow>
      (\<exists>k r. get_task d k = Inr r \<and> k \<noteq> i \<and> owner r = Some agent \<and> task_status r = InProgress)"
proof -
  have files: "files_ok d" using assms by (simp add: dir_ok_def)
  show ?thesis
    using td.get_key [OF files] list_tasks_set [OF assms] unfolding agent_busy_def list_ex_iff get_task_iff
    by (metis task_v2_status.distinct(9))
qed

lemma claim_success:
  assumes "dir_ok d" and "\<not> agent_busy d i agent" and r: "get_task d i = Inr r"
  shows "claim_task d i agent = (Inr (r\<lparr>owner := Some agent\<rparr>), write_task_file d (r\<lparr>owner := Some agent\<rparr>))"
    and "get_task (write_task_file d (r\<lparr>owner := Some agent\<rparr>)) k
      = (if k = i then Inr (r\<lparr>owner := Some agent\<rparr>) else get_task d k)"
proof -
  have files: "files_ok d" using assms(1) by (simp add: dir_ok_def)
  have at: "task_at d i = Some r" using r by (simp add: get_task_iff)
  show "claim_task d i agent = (Inr (r\<lparr>owner := Some agent\<rparr>), write_task_file d (r\<lparr>owner := Some agent\<rparr>))"
    using assms(2) r by (simp add: claim_task_def get_task_def Let_def)
  show "get_task (write_task_file d (r\<lparr>owner := Some agent\<rparr>)) k
      = (if k = i then Inr (r\<lparr>owner := Some agent\<rparr>) else get_task d k)"
    using write_safe [of "r\<lparr>owner := Some agent\<rparr>" d] td.get_valid [OF at] td.get_key [OF files at]
    by (simp add: get_task_def read_task_file_def task_file_def try_bind_def update_conv')
qed

text \<open>An agent works on one task at a time. In every run, if the agent has another task in
  progress the claim is refused and nothing changes; a claim that succeeds makes the agent the
  owner, changes nothing else, and afterwards that task is the only one the agent can have in
  progress.\<close>

theorem claim_excludes_busy_agents:
  assumes "task_run strict ids d"
  shows "(fst (claim_task d i agent) = Inl (AgentBusy agent i) \<longleftrightarrow>
      (\<exists>k r. get_task d k = Inr r \<and> k \<noteq> i \<and> owner r = Some agent \<and> task_status r = InProgress))
    \<and> (\<forall>e. fst (claim_task d i agent) = Inl e \<longrightarrow> snd (claim_task d i agent) = d)
    \<and> (\<forall>r'. fst (claim_task d i agent) = Inr r' \<longrightarrow>
        (\<exists>r. get_task d i = Inr r \<and> r' = r\<lparr>owner := Some agent\<rparr>)
        \<and> (\<forall>k. get_task (snd (claim_task d i agent)) k = (if k = i then Inr r' else get_task d k))
        \<and> (\<forall>k q. get_task (snd (claim_task d i agent)) k = Inr q \<and> owner q = Some agent
              \<and> task_status q = InProgress \<longrightarrow> k = i))"
proof -
  note dir = run_dir [OF assms]
  note busy = agent_busy_iff [OF dir, of i agent]
  consider (busy) "agent_busy d i agent" | (missing) e where "\<not> agent_busy d i agent" "get_task d i = Inl e"
    | (free) r where "\<not> agent_busy d i agent" "get_task d i = Inr r" by (cases "get_task d i") blast+
  then show ?thesis
  proof cases
    case busy
    then show ?thesis using busy agent_busy_iff [OF dir, of i agent] by (simp add: claim_task_def)
  next
    case missing
    then have "claim_task d i agent = (Inl e, d)" by (simp add: claim_task_def get_task_def)
    moreover have "e \<noteq> AgentBusy agent i"
      using missing(2) by (auto simp: get_task_def read_task_file_def task_file_def try_bind_def split: option.splits if_splits)
    ultimately show ?thesis using missing(1) unfolding busy by simp
  next
    case free
    note claim = claim_success [OF dir free]
    have "k = i" if "get_task (write_task_file d (r\<lparr>owner := Some agent\<rparr>)) k = Inr q"
      "owner q = Some agent" "task_status q = InProgress" for k q
      using that claim(2) [of k] free(1) busy by (cases "k = i") auto
    then have "(\<exists>s. get_task d i = Inr s \<and> r\<lparr>owner := Some agent\<rparr> = s\<lparr>owner := Some agent\<rparr>)
      \<and> (\<forall>k. get_task (write_task_file d (r\<lparr>owner := Some agent\<rparr>)) k
            = (if k = i then Inr (r\<lparr>owner := Some agent\<rparr>) else get_task d k))
      \<and> (\<forall>k q. get_task (write_task_file d (r\<lparr>owner := Some agent\<rparr>)) k = Inr q \<and> owner q = Some agent
            \<and> task_status q = InProgress \<longrightarrow> k = i)"
      using free(2) claim(2) by blast
    moreover have "\<not> (\<exists>k r. get_task d k = Inr r \<and> k \<noteq> i \<and> owner r = Some agent \<and> task_status r = InProgress)"
      using free(1) busy by blast
    ultimately show ?thesis unfolding claim(1) fst_conv snd_conv
    proof (intro conjI)
      assume "\<not> (\<exists>k r. get_task d k = Inr r \<and> k \<noteq> i \<and> owner r = Some agent \<and> task_status r = InProgress)"
      then show "(Inr (r\<lparr>owner := Some agent\<rparr>) = Inl (AgentBusy agent i)) =
        (\<exists>k r. get_task d k = Inr r \<and> k \<noteq> i \<and> owner r = Some agent \<and> task_status r = InProgress)" by simp
    next
      show "\<forall>e. Inr (r\<lparr>owner := Some agent\<rparr>) = Inl e \<longrightarrow> write_task_file d (r\<lparr>owner := Some agent\<rparr>) = d" by simp
    qed (use sum.inject(2) in metis)
  qed
qed

theorem claim_excludes_busy_agents_witness:
  "fst (claim_task started_tasks ''2'' ''ann'') = Inl (AgentBusy ''ann'' ''2'')
    \<and> snd (claim_task started_tasks ''2'' ''ann'') = started_tasks"
proof -
  have "\<exists>k r. get_task started_tasks k = Inr r \<and> k \<noteq> ''2'' \<and> owner r = Some ''ann'' \<and> task_status r = InProgress"
    by (intro exI [of _ "''1''"]) (simp add: started_tasks_eval get_task_iff task_at_eq safe_small)
  then have "fst (claim_task started_tasks ''2'' ''ann'') = Inl (AgentBusy ''ann'' ''2'')"
    using claim_excludes_busy_agents [OF started_tasks_run, of "''2''" "''ann''"] by blast
  then show ?thesis
    using claim_excludes_busy_agents [OF started_tasks_run, of "''2''" "''ann''"] by blast
qed


lemma unassign_loop_count: "fst (unassign_loop agent ts (n, d)) = n + length (filter (\<lambda>t. owner t = Some agent) ts)"
  by (induction ts arbitrary: n d) simp_all

lemma unassign_loop_at:
  assumes "distinct (map task_id ts)" and "\<forall>t\<in>set ts. is_safe_path_component (task_id t)"
  shows "task_at (snd (unassign_loop agent ts (n, d))) k =
    (case find_map (\<lambda>t. if task_id t = k \<and> owner t = Some agent then Some t else None) ts of
       None \<Rightarrow> task_at d k | Some t \<Rightarrow> Some (released t))"
  using assms
proof (induction ts arbitrary: n d)
  case (Cons t ts)
  have none: "find_map (\<lambda>u. if task_id u = task_id t \<and> owner u = Some agent then Some u else None) ts = None"
    using Cons.prems(1) by (induction ts) auto
  have put: "task_at (write_task_file d (released t)) k = (if k = task_id t then Some (released t) else task_at d k)"
    using td.get_put [of "released t"] Cons.prems(2) by simp
  show ?case using Cons none put by (auto split: option.split)
qed simp


lemma released_cases: "released r = r\<lparr>owner := None, task_status := if task_status r = InProgress then Pending else task_status r\<rparr>"
  by (simp add: released_def Let_def)

lemma unassign_at:
  assumes "dir_ok d"
  shows "task_at (snd (unassign_teammate_tasks d agent)) k = map_option
    (\<lambda>r. if owner r = Some agent \<and> task_status r \<noteq> Deleted then released r else r) (task_at d k)"
proof -
  have files: "files_ok d" using assms by (simp add: dir_ok_def)
  note listed = list_tasks_set [OF assms]
  have "distinct (map task_order (list_tasks d))"
    using list_tasks_order [OF assms] strict_sorted_iff by blast
  then have dist: "distinct (map task_id (list_tasks d))"
    by (auto simp: distinct_map inj_on_def task_order_def)
  have safe: "\<forall>t\<in>set (list_tasks d). is_safe_path_component (task_id t)"
    using listed td.get_key [OF files] td.get_valid by blast
  let ?f = "\<lambda>t. if task_id t = k \<and> owner t = Some agent then Some t else None"
  have found: "find_map ?f (list_tasks d) = (case task_at d k of None \<Rightarrow> None
      | Some r \<Rightarrow> if owner r = Some agent \<and> task_status r \<noteq> Deleted then Some r else None)"
  proof (cases "find_map ?f (list_tasks d)")
    case None
    have "\<not> (owner r = Some agent \<and> task_status r \<noteq> Deleted)" if "task_at d k = Some r" for r
    proof
      assume r: "owner r = Some agent \<and> task_status r \<noteq> Deleted"
      then have "r \<in> set (list_tasks d)" using listed that by blast
      with None r td.get_key [OF files that] show False by (auto simp: find_map_None_iff)
    qed
    with None show ?thesis by (auto split: option.split)
  next
    case (Some t)
    then obtain us x vs where "list_tasks d = us @ x # vs" "?f x = Some t" using find_map_split by fast
    then have "t \<in> set (list_tasks d)" "task_id t = k" "owner t = Some agent" by (auto split: if_splits)
    then show ?thesis using Some listed td.get_key [OF files] by fastforce
  qed
  show ?thesis
    unfolding unassign_teammate_tasks_def unassign_loop_at [OF dist safe] found by (simp split: option.split)
qed

text \<open>A departing teammate leaves nothing behind. In every run,
  \<open>unassign_teammate_tasks\<close> takes the owner off exactly the listed tasks of the agent, makes those
  in progress pending again, leaves every other task as it was, and returns their number.\<close>

theorem unassign_gives_tasks_back:
  assumes "task_run strict ids d"
  shows "get_task (snd (unassign_teammate_tasks d agent)) k = map_sum id
      (\<lambda>r. if owner r = Some agent \<and> task_status r \<noteq> Deleted
           then r\<lparr>owner := None, task_status := if task_status r = InProgress then Pending else task_status r\<rparr>
           else r) (get_task d k)
    \<and> fst (unassign_teammate_tasks d agent) = length (filter (\<lambda>t. owner t = Some agent) (list_tasks d))"
proof -
  note at = unassign_at [OF run_dir [OF assms], of agent k, unfolded released_cases]
  have "get_task e k = (if is_safe_path_component k
      then case task_at e k of None \<Rightarrow> Inl (TaskNotFound k) | Some r \<Rightarrow> Inr r else Inl (InvalidId k))" for e
    by (simp add: get_task_def read_task_file_def task_file_def try_bind_def task_at_eq)
  then have "get_task (snd (unassign_teammate_tasks d agent)) k = map_sum id
      (\<lambda>r. if owner r = Some agent \<and> task_status r \<noteq> Deleted
           then r\<lparr>owner := None, task_status := if task_status r = InProgress then Pending else task_status r\<rparr>
           else r) (get_task d k)"
    by (simp add: at split: option.split)
  then show ?thesis by (simp add: unassign_loop_count unassign_teammate_tasks_def)
qed

theorem unassign_gives_tasks_back_witness:
  "\<exists>r. get_task (snd (unassign_teammate_tasks started_tasks ''ann'')) ''1'' = Inr r
    \<and> owner r = None \<and> task_status r = Pending"
  using unassign_gives_tasks_back [OF started_tasks_run, of "''ann''" "''1''"]
    conjunct1 [OF unassign_gives_tasks_back [OF started_tasks_run, of "''ann''" "''1''"]]
  by (simp add: started_tasks_eval get_task_def read_task_file_def task_file_def safe_small try_bind_def)

subsection \<open>Links between the tasks that are there\<close>

text \<open>
  The raw \<open>delete_task\<close>, which a hook that blocks a creation calls to undo it, leaves
  the links of other tasks to the deleted one. What every operation keeps is that the two sides
  of a link agree between stored tasks, as long as links name issued ids only: an id is never
  issued again, so a link left behind names no later task. A named run is a run with every
  operation, the raw deletion included, in which created and added links name issued ids.
\<close>

inductive named_run :: "str list \<Rightarrow> task_dir \<Rightarrow> bool" where
  named_new: "base l = None \<Longrightarrow> task_manager_new base l = Inr d \<Longrightarrow> named_run [] d"
| named_reopen: "named_run ids d \<Longrightarrow> base l = Some d \<Longrightarrow> task_manager_new base l = Inr d' \<Longrightarrow> named_run ids d'"
| named_create: "named_run ids d \<Longrightarrow> length ids + 1 < 2 ^ 64 \<Longrightarrow> set (rq_blocked_by rq @ rq_blocks rq) \<subseteq> set ids
    \<Longrightarrow> named_run (ids @ [fst (create_task now d rq)]) (snd (create_task now d rq))"
| named_update: "named_run ids d \<Longrightarrow> set (update_refs up) \<subseteq> set ids \<Longrightarrow> named_run ids (snd (update_task now d i up))"
| named_soft_delete: "named_run ids d \<Longrightarrow> named_run ids (snd (soft_delete_task d i))"
| named_delete: "named_run ids d \<Longrightarrow> named_run ids (snd (delete_task d i))"
| named_claim: "named_run ids d \<Longrightarrow> named_run ids (snd (claim_task d i agent))"
| named_release: "named_run ids d \<Longrightarrow> named_run ids (snd (release_task d i))"
| named_unassign: "named_run ids d \<Longrightarrow> named_run ids (snd (unassign_teammate_tasks d agent))"

lemma named_run_task_run: "named_run ids d \<Longrightarrow> task_run False ids d"
  by (induction rule: named_run.induct) (auto intro: task_run.intros)

definition links_agree :: "(str \<Rightarrow> task_v2_record option) \<Rightarrow> bool" where
  "links_agree m \<longleftrightarrow>
     (\<forall>i r j q. m i = Some r \<longrightarrow> m j = Some q \<longrightarrow> (j \<in> set (blocks r) \<longleftrightarrow> i \<in> set (blocked_by q)))"

definition links_within :: "str set \<Rightarrow> (str \<Rightarrow> task_v2_record option) \<Rightarrow> bool" where
  "links_within ids m \<longleftrightarrow> (\<forall>i r. m i = Some r \<longrightarrow> set (blocks r) \<union> set (blocked_by r) \<subseteq> ids)"

lemma links_agreeD:
  "links_agree m \<Longrightarrow> m i = Some r \<Longrightarrow> m j = Some q \<Longrightarrow> j \<in> set (blocks r) \<longleftrightarrow> i \<in> set (blocked_by q)"
  unfolding links_agree_def by blast

lemma links_withinD:
  "links_within ids m \<Longrightarrow> m i = Some r \<Longrightarrow> set (blocks r) \<subseteq> ids \<and> set (blocked_by r) \<subseteq> ids"
  unfolding links_within_def by blast

text \<open>Tasks may go, and the links to tasks that are gone with them.\<close>

lemma links_keep:
  assumes "links_agree m \<and> links_within ids m"
    and sub: "\<And>k s'. m' k = Some s' \<Longrightarrow> \<exists>s. m k = Some s
        \<and> set (blocks s') \<subseteq> set (blocks s) \<and> set (blocked_by s') \<subseteq> set (blocked_by s)
        \<and> (\<forall>j. m' j \<noteq> None \<longrightarrow> (j \<in> set (blocks s') \<longleftrightarrow> j \<in> set (blocks s))
                \<and> (j \<in> set (blocked_by s') \<longleftrightarrow> j \<in> set (blocked_by s)))"
  shows "links_agree m' \<and> links_within ids m'"
proof
  show "links_agree m'"
    unfolding links_agree_def
  proof (intro allI impI)
    fix i r j q assume i: "m' i = Some r" and j: "m' j = Some q"
    from sub [OF i] obtain s where s: "m i = Some s" "j \<in> set (blocks r) \<longleftrightarrow> j \<in> set (blocks s)"
      using j by blast
    from sub [OF j] obtain t where t: "m j = Some t" "i \<in> set (blocked_by q) \<longleftrightarrow> i \<in> set (blocked_by t)"
      using i by blast
    from s t show "j \<in> set (blocks r) \<longleftrightarrow> i \<in> set (blocked_by q)"
      using links_agreeD [OF conjunct1 [OF assms(1)] s(1) t(1)] by simp
  qed
  show "links_within ids m'"
    unfolding links_within_def using sub links_withinD [OF conjunct2 [OF assms(1)]] by blast
qed

lemma links_extend:
  assumes "links_agree m \<and> links_within ids m" and ends: "E \<subseteq> ids \<times> ids"
    and new: "\<And>k s'. m' k = Some s' \<Longrightarrow> \<exists>s. m k = Some s
        \<and> set (blocks s') = set (blocks s) \<union> {y. (k, y) \<in> E}
        \<and> set (blocked_by s') = set (blocked_by s) \<union> {x. (x, k) \<in> E}"
  shows "links_agree m' \<and> links_within ids m'"
proof
  show "links_agree m'"
    unfolding links_agree_def
  proof (intro allI impI)
    fix i r j q assume "m' i = Some r" and "m' j = Some q"
    then obtain s t where s: "m i = Some s" "set (blocks r) = set (blocks s) \<union> {y. (i, y) \<in> E}"
      and t: "m j = Some t" "set (blocked_by q) = set (blocked_by t) \<union> {x. (x, j) \<in> E}"
      using new [of i r] new [of j q] by meson
    show "j \<in> set (blocks r) \<longleftrightarrow> i \<in> set (blocked_by q)"
      by (simp add: links_agreeD [OF conjunct1 [OF assms(1)] s(1) t(1)] s(2) t(2))
  qed
  show "links_within ids m'"
    unfolding links_within_def
  proof (intro allI impI)
    fix i r assume "m' i = Some r"
    from new [OF this] obtain s where "m i = Some s" "set (blocks r) = set (blocks s) \<union> {y. (i, y) \<in> E}"
      "set (blocked_by r) = set (blocked_by s) \<union> {x. (x, i) \<in> E}" by meson
    then show "set (blocks r) \<union> set (blocked_by r) \<subseteq> ids"
      using links_withinD [OF conjunct2 [OF assms(1)]] ends by blast
  qed
qed

lemma links_create:
  assumes m: "links_agree (task_at d) \<and> links_within ids (task_at d)" and fresh: "task_at d i = None" "i \<notin> ids"
    and refs: "set (rq_blocked_by rq @ rq_blocks rq) \<subseteq> ids"
  shows "links_agree (created_at now i rq d) \<and> links_within (insert i ids) (created_at now i rq d)"
proof -
  let ?r = "(new_task now i rq)\<lparr>blocks := [], blocked_by := []\<rparr>"
  let ?E = "{(b, i) |b. b \<in> set (rq_blocked_by rq)} \<union> {(i, b) |b. b \<in> set (rq_blocks rq)}"
  let ?m = "(task_at d)(i \<mapsto> ?r)"
  have own: "i \<notin> set (rq_blocked_by rq)" "i \<notin> set (rq_blocks rq)" using refs fresh by auto
  have "links_agree ?m" using m fresh links_withinD [OF conjunct2 [OF m]] links_agreeD [OF conjunct1 [OF m]]
    unfolding links_agree_def by (auto split: if_splits)
  moreover have "links_within (insert i ids) ?m"
    using links_withinD [OF conjunct2 [OF m]] unfolding links_within_def
    by (simp add: subset_insertI2)
  ultimately have "links_agree ?m \<and> links_within (insert i ids) ?m" by blast
  then show ?thesis
  proof (rule links_extend [where E = ?E])
    show "?E \<subseteq> insert i ids \<times> insert i ids" using refs by auto
    show "\<exists>s. ?m k = Some s \<and> set (blocks s') = set (blocks s) \<union> {y. (k, y) \<in> ?E}
        \<and> set (blocked_by s') = set (blocked_by s) \<union> {x. (x, k) \<in> ?E}"
      if "created_at now i rq d k = Some s'" for k s'
      using that own fresh by (auto simp: created_at_def Let_def split: if_splits)
  qed
qed

lemma links_update:
  assumes m: "links_agree (task_at d) \<and> links_within ids (task_at d)" and ok: "dir_ok d"
    and refs: "set (update_refs up) \<subseteq> ids" and stored: "\<And>k. task_at d k \<noteq> None \<Longrightarrow> k \<in> ids"
  shows "links_agree (task_at (snd (update_task now d i up))) \<and> links_within ids (task_at (snd (update_task now d i up)))"
proof (cases "fst (update_task now d i up)")
  case (Inl e)
  with m show ?thesis by (simp add: update_task_error)
next
  case (Inr r')
  define d' where "d' = snd (update_task now d i up)"
  have upd: "update_task now d i up = (Inr r', d')" using Inr by (simp add: prod_eq_iff d'_def)
  obtain r bs cs where r: "task_at d i = Some r" and names: "update_refs up = bs @ cs" and self: "i \<notin> set (bs @ cs)"
    and links: "set (blocks r') = set (blocks r) \<union> set bs" "set (blocked_by r') = set (blocked_by r) \<union> set cs"
    and at: "\<And>j. task_at d' j = (if j = i then Some r'
      else (let q = (if j \<in> set bs - set (blocks r) then map_option (add_blocker i) (task_at d j) else task_at d j)
            in if j \<in> set cs - set (blocked_by r) then map_option (add_block i) q else q))"
    by (rule update_task_effect [OF ok upd]) (rule that; assumption)
  let ?E = "{(i, b) |b. b \<in> set bs} \<union> {(b, i) |b. b \<in> set cs}"
  have "links_agree (task_at d') \<and> links_within ids (task_at d')"
  proof (rule links_extend [OF m, where E = ?E])
    show "?E \<subseteq> ids \<times> ids" using refs stored [of i] r by (auto simp: names)
    fix k s' assume k: "task_at d' k = Some s'"
    show "\<exists>s. task_at d k = Some s \<and> set (blocks s') = set (blocks s) \<union> {y. (k, y) \<in> ?E}
        \<and> set (blocked_by s') = set (blocked_by s) \<union> {x. (x, k) \<in> ?E}"
    proof (cases "k = i")
      case True
      then show ?thesis using k r links self by (auto simp: at)
    next
      case False
      then obtain s where s: "task_at d k = Some s" using k by (cases "task_at d k") (auto simp: at Let_def split: if_splits)
      have "k \<in> set (blocks r) \<longleftrightarrow> i \<in> set (blocked_by s)" "i \<in> set (blocks s) \<longleftrightarrow> k \<in> set (blocked_by r)"
        using links_agreeD [OF conjunct1 [OF m] r s] links_agreeD [OF conjunct1 [OF m] s r] by simp_all
      then show ?thesis
        using k s False self by (auto simp: at Let_def split: if_splits)
    qed
  qed
  then show ?thesis by (simp add: d'_def)
qed

lemma links_soft_delete:
  assumes m: "links_agree (task_at d) \<and> links_within ids (task_at d)" and ok: "dir_ok d"
  shows "links_agree (task_at (snd (soft_delete_task d i))) \<and> links_within ids (task_at (snd (soft_delete_task d i)))"
proof (rule links_keep [OF m])
  have at: "task_at (snd (soft_delete_task d i)) k = (if k = i then None else task_at (unlinked d i) k)" for k
    using delete_task_effect(1) [OF unlinked_effect(1) [OF ok]] by (simp add: soft_delete_unlinked)
  fix k s' assume k: "task_at (snd (soft_delete_task d i)) k = Some s'"
  then have "task_at (unlinked d i) k = Some s'" by (simp add: at split: if_splits)
  then obtain s where "task_at d k = Some s" "set (blocks s) - {i} \<subseteq> set (blocks s')" "set (blocks s') \<subseteq> set (blocks s)"
    "set (blocked_by s) - {i} \<subseteq> set (blocked_by s')" "set (blocked_by s') \<subseteq> set (blocked_by s)"
    by (auto simp: unlinked_effect(3) [OF ok] Let_def split: option.splits if_splits)
  moreover have "j \<noteq> i" if "task_at (snd (soft_delete_task d i)) j \<noteq> None" for j using that by (auto simp: at)
  ultimately show "\<exists>s. task_at d k = Some s \<and> set (blocks s') \<subseteq> set (blocks s) \<and> set (blocked_by s') \<subseteq> set (blocked_by s)
      \<and> (\<forall>j. task_at (snd (soft_delete_task d i)) j \<noteq> None \<longrightarrow> (j \<in> set (blocks s') \<longleftrightarrow> j \<in> set (blocks s))
              \<and> (j \<in> set (blocked_by s') \<longleftrightarrow> j \<in> set (blocked_by s)))"
    by blast
qed

lemma links_rewrite:
  assumes "links_agree m \<and> links_within ids m"
    and "\<And>k s'. m' k = Some s' \<Longrightarrow> \<exists>s. m k = Some s \<and> blocks s' = blocks s \<and> blocked_by s' = blocked_by s"
  shows "links_agree m' \<and> links_within ids m'"
  by (rule links_keep [OF assms(1)]) (use assms(2) in fastforce)

lemma claim_release_at:
  assumes "dir_ok d"
  shows "task_at (snd (claim_task d i agent)) k = Some s' \<Longrightarrow> \<exists>s. task_at d k = Some s \<and> blocks s' = blocks s \<and> blocked_by s' = blocked_by s"
    and "task_at (snd (release_task d i)) k = Some s' \<Longrightarrow> \<exists>s. task_at d k = Some s \<and> blocks s' = blocks s \<and> blocked_by s' = blocked_by s"
proof -
  have put: "task_at (write_task_file d q) k = (if k = i then Some q else task_at d k)"
    if "task_at d i = Some r" "task_id q = task_id r" for q r
    using td.get_put [of q d k] td.get_key [OF _ that(1)] td.get_valid [OF that(1)] assms that(2)
    by (simp add: dir_ok_def)
  show "\<exists>s. task_at d k = Some s \<and> blocks s' = blocks s \<and> blocked_by s' = blocked_by s"
    if "task_at (snd (claim_task d i agent)) k = Some s'"
    using that put by (auto simp: snd_claim_task split: if_splits option.splits)
  show "\<exists>s. task_at d k = Some s \<and> blocks s' = blocks s \<and> blocked_by s' = blocked_by s"
    if "task_at (snd (release_task d i)) k = Some s'"
    using that put by (auto simp: snd_release_task split: if_splits option.splits)
qed

lemma named_run_links:
  "named_run ids d \<Longrightarrow> (links_agree (task_at d) \<and> links_within (set ids) (task_at d)) \<and> (\<forall>k. task_at d k \<noteq> None \<longrightarrow> k \<in> set ids)"
  (is "_ \<Longrightarrow> ?ok (set ids) d \<and> ?stored (set ids) d")
proof (induction rule: named_run.induct)
  case (named_new base l d)
  then have "d = \<lparr>mark_file = None, files = []\<rparr>" by (simp add: task_manager_new_def split: if_splits)
  then show ?case by (simp add: links_agree_def links_within_def task_at_eq)
next
  case (named_reopen ids d base l d')
  then show ?case by (simp add: task_manager_new_def split: if_splits)
next
  case (named_create ids d rq now)
  have run: "run_ok False ids d" by (rule task_run_ok [OF named_run_task_run [OF named_create.hyps(1)]])
  have dir: "dir_ok d" and mark: "read_highwatermark d = length ids" using run by (simp_all add: run_ok_def)
  note effect = create_task_effect [OF dir named_create.hyps(2) [folded mark]]
  define i where "i = fst (create_task now d rq)"
  have fresh: "task_at d i = None" by (simp only: i_def effect(1,2))
  have new: "i \<notin> set ids"
  proof
    have "ids = map show_nat [1..<Suc (length ids)]" using run by (simp only: run_ok_def)
    moreover assume "i \<in> set ids"
    ultimately have "i \<in> show_nat ` {1..<Suc (length ids)}" by (metis set_map set_upt)
    then show False using show_nat_inj effect(1) mark by (fastforce simp: i_def)
  qed
  have at: "task_at (snd (create_task now d rq)) = created_at now i rq d"
    by (rule ext) (simp add: effect(1,3) i_def)
  have "?ok (insert i (set ids)) (snd (create_task now d rq))"
    unfolding at using named_create.IH by (intro links_create [OF _ fresh new named_create.hyps(3)]) blast
  moreover have "?stored (insert i (set ids)) (snd (create_task now d rq))"
    using named_create.IH unfolding at created_at_def by (auto simp: Let_def split: if_splits)
  ultimately show ?case by (simp add: i_def)
next
  case (named_update ids d up now i)
  have dir: "dir_ok d" using task_run_ok [OF named_run_task_run [OF named_update.hyps(1)]] by (simp add: run_ok_def)
  have "?stored (set ids) (snd (update_task now d i up))"
  proof (cases "fst (update_task now d i up)")
    case (Inl e)
    with named_update.IH show ?thesis by (simp add: update_task_error)
  next
    case (Inr r')
    then have upd: "update_task now d i up = (Inr r', snd (update_task now d i up))" by (simp add: prod_eq_iff)
    have "task_at d k \<noteq> None" if "task_at (snd (update_task now d i up)) k \<noteq> None" for k
      by (rule update_task_effect [OF dir upd]) (use that in \<open>auto simp: Let_def split: if_splits\<close>)
    with named_update.IH show ?thesis by blast
  qed
  with links_update [OF _ dir named_update.hyps(2)] named_update.IH show ?case by blast
next
  case (named_soft_delete ids d i)
  have dir: "dir_ok d" using task_run_ok [OF named_run_task_run [OF named_soft_delete.hyps]] by (simp add: run_ok_def)
  have "task_at d k \<noteq> None" if "task_at (snd (soft_delete_task d i)) k \<noteq> None" for k
    using that delete_task_effect(1) [OF unlinked_effect(1) [OF dir]]
    by (auto simp: soft_delete_unlinked unlinked_effect(3) [OF dir] Let_def split: option.splits if_splits)
  with named_soft_delete.IH links_soft_delete [OF _ dir] show ?case by blast
next
  case (named_delete ids d i)
  have dir: "dir_ok d" using task_run_ok [OF named_run_task_run [OF named_delete.hyps]] by (simp add: run_ok_def)
  note at = delete_task_effect(1) [OF dir]
  have "?ok (set ids) (snd (delete_task d i))"
    by (rule links_rewrite [OF conjunct1 [OF named_delete.IH]]) (simp add: at split: if_splits)
  then show ?case using named_delete.IH by (auto simp: at split: if_splits)
next
  case (named_claim ids d i agent)
  have dir: "dir_ok d" using task_run_ok [OF named_run_task_run [OF named_claim.hyps]] by (simp add: run_ok_def)
  show ?case
    using links_rewrite [OF conjunct1 [OF named_claim.IH] claim_release_at(1) [OF dir, of i agent]] claim_release_at(1) [OF dir, of i agent]
      named_claim.IH by blast
next
  case (named_release ids d i)
  have dir: "dir_ok d" using task_run_ok [OF named_run_task_run [OF named_release.hyps]] by (simp add: run_ok_def)
  show ?case
    using links_rewrite [OF conjunct1 [OF named_release.IH] claim_release_at(2) [OF dir, of i]] claim_release_at(2) [OF dir, of i]
      named_release.IH by blast
next
  case (named_unassign ids d agent)
  have dir: "dir_ok d" using task_run_ok [OF named_run_task_run [OF named_unassign.hyps]] by (simp add: run_ok_def)
  have same: "\<exists>s. task_at d k = Some s \<and> blocks s' = blocks s \<and> blocked_by s' = blocked_by s"
    if "task_at (snd (unassign_teammate_tasks d agent)) k = Some s'" for k s'
    using that unfolding unassign_at [OF dir] by (auto split: if_splits)
  show ?case
    using links_rewrite [OF conjunct1 [OF named_unassign.IH] same] same named_unassign.IH by blast
qed

text \<open>C8: dependencies are bidirectional. In every run whose created and added links name issued ids only,
  with every operation and the raw deletion too, a stored task \<open>a\<close> lists a stored task \<open>b\<close>
  among those it blocks exactly if \<open>b\<close> lists \<open>a\<close> among its blockers, and every link names an
  issued id. If the run moreover names existing tasks only and never deletes raw (a strict run), every
  task a link names is still there: no task waits for one that is gone.\<close>

theorem links_bidirectional:
  assumes "named_run ids d" and "get_task d a = Inr r" and "get_task d b = Inr q"
  shows "(b \<in> set (blocks r) \<longleftrightarrow> a \<in> set (blocked_by q))
    \<and> set (blocks r) \<union> set (blocked_by r) \<subseteq> set ids
    \<and> (task_run True ids d \<longrightarrow> (\<forall>j\<in>set (blocks r) \<union> set (blocked_by r). \<exists>s. get_task d j = Inr s))"
proof -
  have r: "task_at d a = Some r" and q: "task_at d b = Some q" using assms by (simp_all add: get_task_iff)
  have "\<exists>s. get_task d j = Inr s" if "task_run True ids d" "j \<in> set (blocks r) \<union> set (blocked_by r)" for j
    using that(2) linkedD(2,3) [OF run_linked [OF that(1)] r] by (auto simp: get_task_iff)
  moreover note ok = conjunct1 [OF named_run_links [OF assms(1)]]
  ultimately show ?thesis
    using links_agreeD [OF conjunct1 [OF ok] r q] links_withinD [OF conjunct2 [OF ok] r] by blast
qed

text \<open>A creation that a hook blocks: the third task, blocked by the second, is created and deleted raw.\<close>

definition blocked_creation :: task_dir where
  "blocked_creation = snd (delete_task (snd (create_task 3 two_tasks (plain_request ''ship'' [''2''] []))) ''3'')"

lemma two_tasks_named: "named_run [''1'', ''2''] two_tasks"
proof -
  let ?d0 = "\<lparr>mark_file = None, files = []\<rparr>"
  let ?c1 = "create_task 1 ?d0 (plain_request ''plan'' [] [])"
  have "task_manager_new (\<lambda>_. None) ''team'' = Inr ?d0" by code_simp
  then have "named_run [] ?d0" by (rule named_new [rotated]) simp
  from named_create [OF this, of "plain_request ''plan'' [] []" 1]
  have r1: "named_run [fst ?c1] (snd ?c1)" by (simp add: plain_request_def)
  have "fst ?c1 = ''1''" "fst (create_task 2 (snd ?c1) (plain_request ''build'' [''1''] [])) = ''2''" by code_simp+
  with named_create [OF r1, of "plain_request ''build'' [''1''] []" 2] show ?thesis
    by (simp add: two_tasks_def plain_request_def)
qed

lemma blocked_creation_named: "named_run [''1'', ''2'', ''3''] blocked_creation"
proof -
  let ?c = "create_task 3 two_tasks (plain_request ''ship'' [''2''] [])"
  have "fst ?c = ''3''" unfolding two_tasks_eval by code_simp
  with named_create [OF two_tasks_named, of "plain_request ''ship'' [''2''] []" 3]
  have "named_run [''1'', ''2'', ''3''] (snd ?c)" by (simp add: plain_request_def)
  then show ?thesis unfolding blocked_creation_def by (rule named_delete)
qed

theorem links_bidirectional_witness:
  "\<exists>r q. get_task blocked_creation ''1'' = Inr r \<and> get_task blocked_creation ''2'' = Inr q
    \<and> ''2'' \<in> set (blocks r) \<and> ''1'' \<in> set (blocked_by q)"
proof -
  have "map_option blocks (task_at blocked_creation ''1'') = Some [''2'']"
    and "task_at blocked_creation ''2'' \<noteq> None"
    unfolding blocked_creation_def two_tasks_eval by code_simp+
  then obtain r q where r: "get_task blocked_creation ''1'' = Inr r" and q: "get_task blocked_creation ''2'' = Inr q"
    and two: "''2'' \<in> set (blocks r)"
    by (auto simp: get_task_iff)
  moreover have "''1'' \<in> set (blocked_by q)"
    using conjunct1 [OF links_bidirectional [OF blocked_creation_named r q]] two by blast
  ultimately show ?thesis by blast
qed

text \<open>The raw deletion leaves the link of the second task to the third, which is gone.\<close>

theorem blocked_creation_leaves_a_link:
  "map_option blocks (task_at blocked_creation ''2'') = Some [''3'']
   \<and> get_task blocked_creation ''3'' = Inl (TaskNotFound ''3'')"
  unfolding blocked_creation_def two_tasks_eval by code_simp

text \<open>A link to a task that does not exist yet is kept on one side only: once the id is issued, the
  new task does not know of it.\<close>

theorem forward_link_is_one_sided:
  "let d1 = snd (create_task 1 \<lparr>mark_file = None, files = []\<rparr> (plain_request ''build'' [''2''] []));
       d2 = snd (create_task 2 d1 (plain_request ''plan'' [] []))
   in map_option blocked_by (task_at d2 ''1'') = Some [''2''] \<and> map_option blocks (task_at d2 ''2'') = Some []"
  by code_simp

text \<open>A new task may name its own coming id, which an update refuses.\<close>

theorem create_can_block_itself:
  "map_option (\<lambda>r. (blocks r, blocked_by r))
     (task_at (snd (create_task 1 \<lparr>mark_file = None, files = []\<rparr> (plain_request ''build'' [''1''] []))) ''1'')
   = Some ([''1''], [''1''])"
  by code_simp

text \<open>A claim takes a task from its owner.\<close>

theorem claim_takes_owned_task:
  "map_option owner (task_at (snd (claim_task started_tasks ''1'' ''bob'')) ''1'') = Some (Some ''bob'')"
  by code_simp

text \<open>A released task is pending with the time it was started at.\<close>

theorem release_keeps_start_time:
  "map_option (\<lambda>r. (task_status r, started_at r)) (task_at (snd (release_task started_tasks ''1'')) ''1'')
   = Some (Pending, Some 4)"
  by code_simp

end
