(* ===== verification/BashFacts.thy ===== *)
theory BashFacts
  imports Text_Lemmas
begin

section \<open>The facts of a parsed command (crates/sandbox/src/bash_ast/facts.rs)\<close>

text \<open>
  What the tree walk of a tree-sitter-bash syntax tree hands to the policy code: the executable
  segments of a command with their words, joins, redirections and substitution sites. The parser
  itself (\<open>BashFacts::parse\<close>: the tree-sitter grammar and the walk over its trees) is an
  argument \<open>parse\<close> of the definitions that use it; \<open>None\<close> is a parse failure.
\<close>

datatype segment_join = And | Or | Sequence | Pipe

record redirect =
  redirect_operator :: str
  redirect_target :: str

record command_segment =
  argv :: "str list"
  join_kind :: "segment_join option"
  assignments :: "str list"
  redirects :: "redirect list"
  has_heredoc :: bool
  has_command_substitution :: bool
  has_process_substitution :: bool
  expansion_in_command_name :: bool
  expansion_in_redirect_target :: bool
  is_negated :: bool
  is_background :: bool
  is_nested :: bool

record bash_facts =
  segments :: "command_segment list"
  substitution_outside_segments :: bool
  unrepresented_top_level_statements :: bool

type_synonym bash_parser = "str \<Rightarrow> bash_facts option"

subsection \<open>One segment\<close>

definition command_string :: "command_segment \<Rightarrow> str" where
  "command_string s = join '' '' (argv s @ concat (map (\<lambda>r. [redirect_operator r, redirect_target r]) (redirects s)))"

definition is_env_assignment :: "str \<Rightarrow> bool" where
  "is_env_assignment token =
     (case split_once (CHR ''='') token of
        None \<Rightarrow> False
      | Some (name, _) \<Rightarrow>
          name \<noteq> []
          \<and> list_all (\<lambda>ch. ch = CHR ''_'' \<or> is_ascii_alphanumeric ch) name
          \<and> (hd name = CHR ''_'' \<or> is_ascii_alphabetic (hd name)))"

definition takes_value :: "str \<Rightarrow> bool" where
  "takes_value arg \<longleftrightarrow> arg \<in> set [''-u'', ''-C'', ''-S'', ''--split-string'']"

text \<open>The words after an \<open>env\<close> wrapper with its flags, flag values and assignments skipped.\<close>

fun skip_env :: "bool \<Rightarrow> str list \<Rightarrow> str list" where
  "skip_env flag_takes_value [] = []"
| "skip_env flag_takes_value (arg # args) =
     (if flag_takes_value then skip_env False args
      else if takes_value arg then skip_env True args
      else if \<not> starts_with arg ''-'' \<and> \<not> is_env_assignment arg then arg # args
      else skip_env False args)"

lemma skip_env_suffix: "suffix (skip_env f args) args"
  by (induction f args rule: skip_env.induct) (auto intro: suffix_ConsI)

lemma skip_env_length: "length (skip_env f args) \<le> length args"
  by (rule suffix_length_le [OF skip_env_suffix])

text \<open>The words from the primary one on.\<close>

function primary_words :: "str list \<Rightarrow> str list" where
  "primary_words [] = []"
| "primary_words (token # ts) =
     (if token = ''env'' then primary_words (skip_env False ts)
      else if is_env_assignment token then primary_words ts
      else token # ts)"
  by pat_completeness auto
termination
  by (relation "measure length") (simp_all add: le_imp_less_Suc skip_env_length)

definition primary :: "command_segment \<Rightarrow> str option" where
  "primary s = (case primary_words (argv s) of [] \<Rightarrow> None | token # _ \<Rightarrow> Some token)"

definition assignments_execute_substitutions :: "command_segment \<Rightarrow> bool" where
  "assignments_execute_substitutions s =
     list_ex (\<lambda>a. contains_str a ''$('' \<or> contains_str a ''`'') (assignments s)"

subsection \<open>The whole command\<close>

definition any_command_substitution :: "bash_facts \<Rightarrow> bool" where
  "any_command_substitution f \<longleftrightarrow>
     substitution_outside_segments f \<or> list_ex has_command_substitution (segments f)"

definition any_process_substitution :: "bash_facts \<Rightarrow> bool" where
  "any_process_substitution f = list_ex has_process_substitution (segments f)"

definition top_level :: "bash_facts \<Rightarrow> command_segment list" where
  "top_level f = filter (\<lambda>s. \<not> is_nested s) (segments f)"

definition top_level_segments :: "bash_facts \<Rightarrow> command_segment list option" where
  "top_level_segments f =
     (if unrepresented_top_level_statements f then None
      else if top_level f = [] \<and> segments f \<noteq> [] then None
      else Some (top_level f))"

definition top_level_segment_strings :: "bash_facts \<Rightarrow> str list option" where
  "top_level_segment_strings f =
     (case top_level_segments f of
        None \<Rightarrow> None
      | Some ss \<Rightarrow>
          if substitution_outside_segments f \<or> list_ex assignments_execute_substitutions ss then None
          else Some (map command_string ss))"

definition join_text :: "segment_join option \<Rightarrow> str" where
  "join_text j =
     (case j of Some And \<Rightarrow> '' && '' | Some Or \<Rightarrow> '' || '' | Some Pipe \<Rightarrow> '' | '' | _ \<Rightarrow> ''; '')"

definition top_level_normalized :: "bash_facts \<Rightarrow> str option" where
  "top_level_normalized f =
     (case top_level_segments f of
        None \<Rightarrow> None
      | Some ss \<Rightarrow>
          if substitution_outside_segments f \<or> list_ex assignments_execute_substitutions ss then None
          else Some (foldl (\<lambda>out s. (if out = [] then out else out @ join_text (join_kind s)) @ command_string s)
                 [] ss))"

definition has_chain :: "bash_facts \<Rightarrow> bool" where
  "has_chain f = list_ex (\<lambda>s. join_kind s \<in> {Some And, Some Or, Some Sequence}) (segments f)"

definition has_pipe :: "bash_facts \<Rightarrow> bool" where
  "has_pipe f = list_ex (\<lambda>s. join_kind s = Some Pipe) (segments f)"

subsection \<open>Lemmas\<close>

lemma primary_words_suffix: "suffix (primary_words ts) ts"
proof (induction ts rule: primary_words.induct)
  case (2 token ts)
  consider "token = ''env''" | "token \<noteq> ''env''" "is_env_assignment token"
    | "token \<noteq> ''env''" "\<not> is_env_assignment token" by blast
  then show ?case
  proof cases
    case 1
    have "suffix (primary_words (skip_env False ts)) ts"
      by (rule suffix_order.trans [OF "2.IH"(1) [OF 1] skip_env_suffix])
    with 1 show ?thesis by (simp add: suffix_ConsI)
  next
    case 2
    with "2.IH"(2) [OF 2] show ?thesis by (simp add: suffix_ConsI)
  next
    case 3
    then show ?thesis by simp
  qed
qed simp

lemma primary_word_no_wrapper:
  "primary_words ts = token # rest \<Longrightarrow> token \<noteq> ''env'' \<and> \<not> is_env_assignment token"
proof (induction ts rule: primary_words.induct)
  case (2 t ts)
  consider "t = ''env''" | "t \<noteq> ''env''" "is_env_assignment t" | "t \<noteq> ''env''" "\<not> is_env_assignment t" by blast
  then show ?case
  proof cases
    case 1
    with "2.prems" show ?thesis by (intro "2.IH"(1)) simp_all
  next
    case 2
    with "2.prems" show ?thesis by (intro "2.IH"(2)) simp_all
  next
    case 3
    with "2.prems" show ?thesis by simp
  qed
qed simp

lemma join_not_chain:
  assumes "\<not> has_chain f" and "s \<in> set (segments f)"
  shows "join_kind s = None \<or> join_kind s = Some Pipe"
proof (cases "join_kind s")
  case (Some j)
  have "join_kind s \<notin> {Some And, Some Or, Some Sequence}"
    using assms unfolding has_chain_def list_ex_iff by blast
  then show ?thesis using Some by (cases j) simp_all
qed simp

end
