(* ===== verification/CommandSafety.thy ===== *)
theory CommandSafety
  imports BashFacts
begin

section \<open>Safety analysis of shell commands (crates/sandbox/src/command_safety.rs)\<close>

text \<open>
  The classification of a command as safe, safe within the workspace, in need of approval or
  dangerous. The bash parser (\<open>parse\<close>) and the word splitter of the shlex crate (\<open>split\<close>) are
  arguments. The checks run in the order of the source, each an early return.
\<close>

datatype safety_level = Safe | WorkspaceSafe | RequiresApproval | Dangerous

record safety_analysis =
  sa_level :: safety_level
  sa_command :: str
  sa_reasons :: "str list"
  sa_suggestions :: "str list"
  sa_analyzable :: bool

definition sa_safe :: "str \<Rightarrow> safety_analysis" where
  "sa_safe command = \<lparr>sa_level = Safe, sa_command = command, sa_reasons = [''Command is read-only''],
     sa_suggestions = [], sa_analyzable = True\<rparr>"

definition sa_workspace_safe :: "str \<Rightarrow> str \<Rightarrow> safety_analysis" where
  "sa_workspace_safe command reason = \<lparr>sa_level = WorkspaceSafe, sa_command = command, sa_reasons = [reason],
     sa_suggestions = [], sa_analyzable = True\<rparr>"

definition sa_requires_approval :: "str \<Rightarrow> str list \<Rightarrow> safety_analysis" where
  "sa_requires_approval command reasons = \<lparr>sa_level = RequiresApproval, sa_command = command, sa_reasons = reasons,
     sa_suggestions = [], sa_analyzable = True\<rparr>"

definition sa_dangerous :: "str \<Rightarrow> str list \<Rightarrow> str list \<Rightarrow> safety_analysis" where
  "sa_dangerous command reasons suggestions = \<lparr>sa_level = Dangerous, sa_command = command, sa_reasons = reasons,
     sa_suggestions = suggestions, sa_analyzable = True\<rparr>"

subsection \<open>Tables\<close>

definition SAFE_COMMANDS :: "str list" where
  "SAFE_COMMANDS =
     [''ls'', ''dir'', ''pwd'', ''cd'', ''cat'', ''head'', ''tail'', ''less'', ''more'', ''grep'', ''rg'', ''ag'',
      ''find'', ''fd'', ''which'', ''whereis'', ''type'', ''echo'', ''printf'', ''date'', ''cal'', ''uptime'',
      ''whoami'', ''id'', ''hostname'', ''uname'', ''env'', ''printenv'', ''set'', ''ps'', ''top'', ''htop'',
      ''df'', ''du'', ''free'', ''vmstat'', ''wc'', ''sort'', ''uniq'', ''cut'', ''tr'', ''awk'', ''sed'',
      ''diff'', ''file'', ''stat'', ''md5'', ''sha1sum'', ''sha256sum'', ''git status'', ''git log'',
      ''git diff'', ''git show'', ''git branch'', ''git remote'', ''git tag'', ''git stash list'',
      ''npm list'', ''npm ls'', ''npm outdated'', ''npm view'', ''cargo check'', ''cargo test'',
      ''cargo build'', ''cargo doc'', ''python --version'', ''node --version'', ''rustc --version'',
      ''man'', ''help'', ''info'']"

definition WORKSPACE_SAFE_COMMANDS :: "str list" where
  "WORKSPACE_SAFE_COMMANDS =
     [''mkdir'', ''touch'', ''cp'', ''mv'', ''git add'', ''git commit'', ''git checkout'', ''git switch'',
      ''git restore'', ''git merge'', ''git rebase'', ''git cherry-pick'', ''git reset --soft'',
      ''npm install'', ''npm ci'', ''npm update'', ''cargo build'', ''cargo run'', ''cargo test'',
      ''cargo fmt'', ''pip install'', ''pip uninstall'', ''make'', ''cmake'', ''ninja'']"

definition DANGEROUS_PATTERNS :: "(str \<times> str) list" where
  "DANGEROUS_PATTERNS =
     [(''rm -rf /'', ''Attempts to recursively delete root filesystem''),
      (''rm -rf /*'', ''Attempts to recursively delete all root directories''),
      (''rm -rf ~'', ''Attempts to recursively delete home directory''),
      (''rm -rf $HOME'', ''Attempts to recursively delete home directory''),
      ('':(){ :|:& };:'', ''Fork bomb '' @ [CHR 0xE2, CHR 0x80, CHR 0x94] @ '' will crash the system'')]"

definition literal_dangerous_pattern_reason :: "str \<Rightarrow> str option" where
  "literal_dangerous_pattern_reason command =
     (let lower = to_lowercase command
      in map_option snd (find (\<lambda>(pat, _). contains_str lower (to_lowercase pat)) DANGEROUS_PATTERNS))"

definition NETWORK_COMMANDS :: "str list" where
  "NETWORK_COMMANDS =
     [''curl'', ''wget'', ''fetch'', ''nc'', ''netcat'', ''ncat'', ''ssh'', ''scp'', ''sftp'', ''rsync'',
      ''ftp'', ''ping'', ''traceroute'', ''nslookup'', ''dig'', ''host'', ''nmap'', ''masscan'',
      ''tcpdump'', ''wireshark'']"

definition PRIVILEGED_TOKENS :: "str list" where
  "PRIVILEGED_TOKENS = [''sudo'', ''su'', ''doas'', ''pkexec'', ''gksudo'', ''kdesudo'']"

definition REDIRECT_BENIGN_TARGETS :: "str list" where
  "REDIRECT_BENIGN_TARGETS = [''/dev/null'', ''/dev/stdout'', ''/dev/stderr'', ''/dev/tty'']"

definition KNOWN_SAFE_CHAIN_PREFIXES :: "str list" where
  "KNOWN_SAFE_CHAIN_PREFIXES =
     [''cargo'', ''rustc'', ''rustup'', ''git'', ''gh'', ''hub'', ''npm'', ''yarn'', ''pnpm'', ''node'', ''npx'',
      ''zig'', ''go'', ''deno'', ''bun'', ''make'', ''cmake'', ''ninja'', ''meson'', ''python'', ''python3'',
      ''pip'', ''pip3'', ''uv'', ''poetry'', ''ls'', ''pwd'', ''cd'', ''echo'', ''cat'', ''head'', ''tail'',
      ''grep'', ''rg'', ''find'', ''fd'', ''wc'', ''sort'', ''uniq'', ''which'', ''env'', ''true'', ''false'']"

subsection \<open>The primary token\<close>

text \<open>The index loops of \<open>primary_token_index\<close>.\<close>

function env_end :: "str list \<Rightarrow> bool \<Rightarrow> nat \<Rightarrow> nat" where
  "env_end tokens flag_takes_value idx =
     (if idx < length tokens
      then let arg = tokens ! idx
           in if flag_takes_value then env_end tokens False (idx + 1)
              else if takes_value arg then env_end tokens True (idx + 1)
              else if \<not> starts_with arg ''-'' \<and> \<not> is_env_assignment arg then idx
              else env_end tokens False (idx + 1)
      else idx)"
  by pat_completeness auto
termination
  by (relation "measure (\<lambda>(tokens, _, idx). length tokens - idx)") auto

declare env_end.simps [simp del]

lemma env_end_ge: "idx \<le> env_end tokens f idx"
proof (induction tokens f idx rule: env_end.induct)
  case (1 tokens f idx)
  then show ?case by (subst env_end.simps) (auto simp: Let_def intro: Suc_leD)
qed

function primary_index_from :: "str list \<Rightarrow> nat \<Rightarrow> nat option" where
  "primary_index_from tokens idx =
     (if idx < length tokens
      then let token = tokens ! idx
           in if token = ''env'' then primary_index_from tokens (env_end tokens False (idx + 1))
              else if is_env_assignment token then primary_index_from tokens (idx + 1)
              else Some idx
      else None)"
  by pat_completeness auto
termination
proof (relation "measure (\<lambda>(tokens, idx). length tokens - idx)")
  show "((tokens, env_end tokens False (idx + 1)), (tokens, idx)) \<in> measure (\<lambda>(tokens, idx). length tokens - idx)"
    if "idx < length tokens" for tokens :: "str list" and idx
    using that env_end_ge [of "idx + 1" tokens False] by simp
qed auto

declare primary_index_from.simps [simp del]

definition primary_token_index :: "str list \<Rightarrow> nat option" where
  "primary_token_index tokens = primary_index_from tokens 0"

subsection \<open>Targets\<close>

definition unquoted_slashes :: "str \<Rightarrow> str" where
  "unquoted_slashes path = replace_char (CHR 0x5C) ''/'' (trim_chars [CHR 0x22, CHR 0x27] path)"

definition is_root_delete_target :: "str \<Rightarrow> bool" where
  "is_root_delete_target path =
     (let normalized = unquoted_slashes path
      in normalized = ''/'' \<or> normalized = ''/*'' \<or> normalized = ''//''
         \<or> starts_with normalized ''/*/'' \<or> starts_with normalized ''/.'')"

definition is_home_delete_target :: "str \<Rightarrow> bool" where
  "is_home_delete_target path =
     (let lower = to_ascii_lowercase (unquoted_slashes path)
      in lower = ''~'' \<or> starts_with lower ''~/'' \<or> lower = ''$home'' \<or> starts_with lower ''$home/''
         \<or> lower = ''${home}'' \<or> starts_with lower ''${home}/'')"

definition target_contains_parent_escape :: "str \<Rightarrow> bool" where
  "target_contains_parent_escape path =
     list_ex (\<lambda>component. component = ''..'') (split_char (CHR ''/'') (replace_char (CHR 0x5C) ''/'' path))"

definition redirect_target_outside_workspace :: "str \<Rightarrow> bool" where
  "redirect_target_outside_workspace path \<longleftrightarrow>
     starts_with path ''~'' \<or> starts_with path ''/'' \<or> starts_with path ''$HOME'' \<or> contains_str path ''..''"

subsection \<open>rm, find, downloads\<close>

fun rm_flags_from :: "bool \<times> bool \<Rightarrow> str list \<Rightarrow> bool \<times> bool" where
  "rm_flags_from (recursive, force) [] = (recursive, force)"
| "rm_flags_from (recursive, force) (arg # args) =
     (if arg = ''--'' then rm_flags_from (recursive, force) args
      else if arg = ''--recursive'' \<or> arg = ''--dir'' then rm_flags_from (True, force) args
      else if arg = ''--force'' then rm_flags_from (recursive, True) args
      else if starts_with arg ''-'' \<and> \<not> starts_with arg ''--''
      then rm_flags_from (recursive \<or> list_ex (\<lambda>ch. ch = CHR ''r'' \<or> ch = CHR ''R'') arg,
                          force \<or> list_ex (\<lambda>ch. ch = CHR ''f'') arg) args
      else rm_flags_from (recursive, force) args)"

definition rm_flags :: "str list \<Rightarrow> bool \<times> bool" where
  "rm_flags args = rm_flags_from (False, False) args"

definition rm_target_reason :: "str \<Rightarrow> str option" where
  "rm_target_reason path =
     (if is_root_delete_target path then Some ''Recursive or forced deletion targets the root filesystem''
      else if is_home_delete_target path then Some ''Recursive or forced deletion targets the home directory''
      else if target_contains_parent_escape path then Some ''Recursive or forced deletion may escape the workspace''
      else None)"

definition dangerous_rm_target_reason :: "str list \<Rightarrow> str option" where
  "dangerous_rm_target_reason args = find_map rm_target_reason (filter (\<lambda>arg. \<not> starts_with arg ''-'') args)"

definition dangerous_rm_reason :: "str list \<Rightarrow> str option" where
  "dangerous_rm_reason args =
     (let (recursive, force) = rm_flags args
      in if \<not> (recursive \<or> force) then None else dangerous_rm_target_reason args)"

fun execs_embedded :: "str list \<Rightarrow> bool" where
  "execs_embedded (a # b # args) =
     ((a = ''-exec'' \<or> a = ''-execdir'') \<and> \<not> starts_with b ''-'' \<or> execs_embedded (b # args))"
| "execs_embedded _ = False"

definition analyze_find_mutation :: "str \<Rightarrow> str list \<Rightarrow> safety_analysis option" where
  "analyze_find_mutation command args =
     (let has_delete = list_ex (\<lambda>arg. arg = ''-delete'') args
      in if \<not> (has_delete \<or> execs_embedded args) then None
         else let targets = takeWhile (\<lambda>arg. \<not> starts_with arg ''-'') args
              in if list_ex (\<lambda>t. is_root_delete_target t \<or> is_home_delete_target t \<or> target_contains_parent_escape t) targets
                 then Some (sa_dangerous command [''find mutation targets a broad or external path'']
                        [''Restrict the find root to a workspace-relative path''])
                 else Some (sa_requires_approval command
                        [if has_delete then ''find command may delete files''
                         else ''find -exec executes an embedded command'']))"

text \<open>\<open>args.get(idx + 1)\<close> is the head of the remaining words.\<close>

fun download_output_target :: "str list \<Rightarrow> str option" where
  "download_output_target [] = None"
| "download_output_target (arg # args) =
     (let found = (case strip_prefix ''--output='' arg of
             Some value \<Rightarrow> Some value
           | None \<Rightarrow>
               if arg = ''--output'' \<or> arg = ''--output-document'' \<or> arg = ''-o'' \<or> arg = ''-O''
               then (case args of [] \<Rightarrow> None | n # _ \<Rightarrow> Some n)
               else if 2 < length arg \<and> (starts_with arg ''-o'' \<or> starts_with arg ''-O'') then Some (drop 2 arg)
               else None)
      in case found of
           None \<Rightarrow> download_output_target args
         | Some t \<Rightarrow> if \<not> starts_with t ''-'' then Some t else download_output_target args)"

subsection \<open>Known-safe commands\<close>

text \<open>\<open>tokens_start_with\<close>: the loop over the words of \<open>safe_cmd\<close>, from token \<open>idx\<close> on.\<close>

fun tokens_match :: "str list \<Rightarrow> nat \<Rightarrow> str list \<Rightarrow> bool" where
  "tokens_match tokens idx [] = True"
| "tokens_match tokens idx (expected # rest) =
     (if idx < length tokens \<and> eq_ignore_ascii_case (tokens ! idx) expected
      then tokens_match tokens (idx + 1) rest else False)"

definition tokens_start_with :: "str list \<Rightarrow> nat \<Rightarrow> str \<Rightarrow> bool" where
  "tokens_start_with tokens start safe_cmd = tokens_match tokens start (split_whitespace safe_cmd)"

definition is_workspace_safe_argv :: "str list \<Rightarrow> bool" where
  "is_workspace_safe_argv words =
     (case primary_token_index words of
        None \<Rightarrow> False
      | Some start \<Rightarrow>
          if \<not> list_ex (\<lambda>safe. tokens_start_with words start safe) WORKSPACE_SAFE_COMMANDS then False
          else if start < length words \<and> words ! start \<in> set [''mkdir'', ''touch'', ''cp'', ''mv'']
                  \<and> list_ex (\<lambda>arg. \<not> starts_with arg ''-'' \<and> redirect_target_outside_workspace arg)
                      (drop (start + 1) words)
          then False else True)"

text \<open>The mutating forms of \<open>sed\<close>, \<open>sort\<close> and \<open>awk\<close>.\<close>

definition mutating_form :: "str \<Rightarrow> str list \<Rightarrow> bool" where
  "mutating_form base args =
     (if base = ''sed''
      then list_ex (\<lambda>arg. arg = ''-i'' \<or> starts_with arg ''-i.'' \<or> starts_with arg ''--in-place'') args
      else if base = ''sort''
      then list_ex (\<lambda>arg. arg = ''-o'' \<or> arg = ''--output'' \<or> starts_with arg ''--output='') args
      else if base = ''awk''
      then list_ex (\<lambda>arg. CHR ''>'' \<in> set arg \<or> contains_str arg ''system('') args
      else False)"

definition is_safe_argv :: "str list \<Rightarrow> bool" where
  "is_safe_argv words =
     (if length words = 1 \<and> eq_ignore_ascii_case (words ! 0) ''env'' then True
      else case primary_token_index words of
             None \<Rightarrow> False
           | Some start \<Rightarrow>
               if start < length words \<and> mutating_form (words ! start) (drop (start + 1) words) then False
               else list_ex (\<lambda>safe. tokens_start_with words start safe) SAFE_COMMANDS)"

definition all_segments_known_safe :: "bash_facts \<Rightarrow> bool" where
  "all_segments_known_safe facts =
     (if top_level facts = [] then False
      else list_all (\<lambda>s. let head = (case primary s of None \<Rightarrow> [] | Some t \<Rightarrow> t)
               in list_ex (\<lambda>p. eq_ignore_ascii_case head p) KNOWN_SAFE_CHAIN_PREFIXES) (top_level facts))"

subsection \<open>The destructive scan\<close>

definition shells :: "str list" where
  "shells = [''sh'', ''bash'', ''zsh'', ''dash'', ''ksh'', ''fish'']"

definition rm_analysis :: "str \<Rightarrow> str list \<Rightarrow> safety_analysis option" where
  "rm_analysis command args =
     map_option (\<lambda>reason. sa_dangerous command [reason] [''Review the deletion target before retrying''])
       (dangerous_rm_reason args)"

text \<open>The body of the loop over the segments.\<close>

definition destructive_segment :: "str \<Rightarrow> command_segment \<Rightarrow> safety_analysis option" where
  "destructive_segment command segment =
     (case primary segment of
        None \<Rightarrow> None
      | Some prim \<Rightarrow>
          if prim = ''eval''
          then Some (sa_dangerous command [''Command invokes shell eval'']
                 [''Avoid evaluating dynamically generated shell input''])
          else (case primary_token_index (argv segment) of
                  None \<Rightarrow> None
                | Some start \<Rightarrow>
                    (let rest = drop (start + 1) (argv segment)
                     in if prim = ''rm'' then rm_analysis command rest
                        else if prim = ''xargs''
                        then (case position (\<lambda>t. t = ''rm'') rest of
                                None \<Rightarrow> None
                              | Some pos \<Rightarrow> rm_analysis command (drop (pos + 1) rest))
                        else if prim = ''curl'' \<or> prim = ''wget''
                        then (case download_output_target rest of
                                None \<Rightarrow> None
                              | Some t \<Rightarrow>
                                  if CHR ''$'' \<in> set t \<or> redirect_target_outside_workspace t
                                  then Some (sa_dangerous command [''Download output targets a path outside the workspace'']
                                         [''Download to a relative path inside the workspace''])
                                  else None)
                        else if prim = ''find'' then analyze_find_mutation command rest
                        else None)))"

definition pipes_to_shell :: "bash_facts \<Rightarrow> bool" where
  "pipes_to_shell facts =
     list_ex (\<lambda>s. join_kind s = Some Pipe
        \<and> (case primary s of None \<Rightarrow> False | Some token \<Rightarrow> token \<in> set shells)) (segments facts)"

definition pipe_to_shell_analysis :: "str \<Rightarrow> safety_analysis" where
  "pipe_to_shell_analysis command =
     sa_dangerous command [''Piping remote content directly to shell is dangerous'']
       [''Download the script first and review it before execution'']"

definition analyze_destructive_patterns :: "bash_facts \<Rightarrow> str \<Rightarrow> safety_analysis option" where
  "analyze_destructive_patterns facts command =
     (case find_map (destructive_segment command) (segments facts) of
        Some analysis \<Rightarrow> Some analysis
      | None \<Rightarrow> if pipes_to_shell facts then Some (pipe_to_shell_analysis command) else None)"

definition ARG_EXEC_WRAPPERS :: "str list" where
  "ARG_EXEC_WRAPPERS = [''xargs'', ''time'', ''nohup'']"

definition privileged_token_in :: "bash_facts \<Rightarrow> str option" where
  "privileged_token_in facts =
     find_map (\<lambda>segment.
         let toks = argv segment;
             primary_idx = (case primary_token_index toks of None \<Rightarrow> 0 | Some i \<Rightarrow> i)
         in find_map (\<lambda>(idx, token).
                if idx = primary_idx \<or> (0 < idx \<and> toks ! (idx - 1) \<in> set ARG_EXEC_WRAPPERS)
                then find (\<lambda>p. p = token) PRIVILEGED_TOKENS
                else None)
              (enumerate 0 toks))
       (segments facts)"

subsection \<open>The string-based scan for commands that do not parse\<close>

definition split_lines_of :: "str \<Rightarrow> str" where
  "split_lines_of command =
     replace_char (CHR '';'') [CHR 0x0A]
       (replace_str ''||'' [CHR 0x0A] (replace_str ''&&'' [CHR 0x0A] command))"

definition split_command_segments :: "str \<Rightarrow> str list" where
  "split_command_segments command =
     filter (\<lambda>s. s \<noteq> []) (map trim (split_char (CHR 0x0A) (split_lines_of command)))"

type_synonym word_splitter = "str \<Rightarrow> str list option"

definition shell_words :: "word_splitter \<Rightarrow> str \<Rightarrow> str list" where
  "shell_words split segment =
     (case split segment of
        Some toks \<Rightarrow> toks
      | None \<Rightarrow> map (trim_chars [CHR 0x22, CHR 0x27]) (split_whitespace segment))"

definition primary_token :: "str list \<Rightarrow> str option" where
  "primary_token toks =
     Option.bind (primary_token_index toks) (\<lambda>idx. if idx < length toks then Some (toks ! idx) else None)"

definition primary_shell_command_is :: "word_splitter \<Rightarrow> str \<Rightarrow> str \<Rightarrow> bool" where
  "primary_shell_command_is split command expected =
     list_ex (\<lambda>segment. primary_token (shell_words split segment) = Some expected) (split_command_segments command)"

fun windows_right :: "str list \<Rightarrow> str list" where
  "windows_right (a # b # rest) = b # windows_right (b # rest)"
| "windows_right _ = []"

definition pipes_content_to_shell :: "word_splitter \<Rightarrow> str \<Rightarrow> bool" where
  "pipes_content_to_shell split command =
     list_ex (\<lambda>segment.
         let parts = split_char (CHR ''|'') segment
         in if length parts < 2 then False
            else list_ex (\<lambda>right. case primary_token (shell_words split right) of
                              None \<Rightarrow> False | Some token \<Rightarrow> token \<in> set shells)
                   (windows_right parts))
       (split_command_segments command)"

definition legacy_segment :: "word_splitter \<Rightarrow> str \<Rightarrow> str \<Rightarrow> safety_analysis option" where
  "legacy_segment split command segment =
     (let tokens = shell_words split segment
      in case primary_token_index tokens of
           None \<Rightarrow> None
         | Some start \<Rightarrow>
             if tokens ! start = ''rm'' then rm_analysis command (drop (start + 1) tokens)
             else if tokens ! start = ''find'' then analyze_find_mutation command (drop (start + 1) tokens)
             else None)"

definition analyze_destructive_patterns_legacy :: "word_splitter \<Rightarrow> str \<Rightarrow> safety_analysis option" where
  "analyze_destructive_patterns_legacy split command =
     (if primary_shell_command_is split command ''eval''
      then Some (sa_dangerous command [''Command invokes shell eval'']
             [''Avoid evaluating dynamically generated shell input''])
      else if pipes_content_to_shell split command then Some (pipe_to_shell_analysis command)
      else find_map (legacy_segment split command) (split_command_segments command))"

definition literal_analysis :: "str \<Rightarrow> str \<Rightarrow> safety_analysis" where
  "literal_analysis command reason =
     sa_dangerous command [reason] [''Review the command carefully before execution'']"

definition analyze_unparseable :: "word_splitter \<Rightarrow> str \<Rightarrow> safety_analysis" where
  "analyze_unparseable split command =
     (case analyze_destructive_patterns_legacy split command of
        Some analysis \<Rightarrow> analysis
      | None \<Rightarrow>
          (case literal_dangerous_pattern_reason command of
             Some reason \<Rightarrow> literal_analysis command reason
           | None \<Rightarrow> sa_requires_approval command
               [''Command could not be parsed for safety analysis'',
                ''Fix quoting/syntax so the command can be analyzed'']\<lparr>sa_analyzable := False\<rparr>))"

subsection \<open>Redirections\<close>

definition outside_redirect_analysis :: "str \<Rightarrow> safety_analysis" where
  "outside_redirect_analysis command =
     sa_dangerous command [''Output redirection targets a path outside the workspace'']
       [''Redirect to a relative path inside the workspace'']"

text \<open>The loop over the redirections of all segments; \<open>has_relative\<close> records a path inside the workspace.\<close>

fun redirect_scan :: "bool \<Rightarrow> str \<Rightarrow> (command_segment \<times> redirect) list \<Rightarrow> safety_analysis option" where
  "redirect_scan has_relative command [] =
     (if has_relative then Some (sa_requires_approval command [''Output redirection writes to files'']) else None)"
| "redirect_scan has_relative command ((segment, r) # rest) =
     (if redirect_target r \<in> set REDIRECT_BENIGN_TARGETS then redirect_scan has_relative command rest
      else if expansion_in_redirect_target segment then Some (outside_redirect_analysis command)
      else if redirect_target_outside_workspace (redirect_target r) then Some (outside_redirect_analysis command)
      else redirect_scan True command rest)"

definition redirect_analysis :: "bash_facts \<Rightarrow> str \<Rightarrow> safety_analysis option" where
  "redirect_analysis facts command =
     redirect_scan False command (concat (map (\<lambda>s. map (Pair s) (redirects s)) (segments facts)))"

subsection \<open>The analysis\<close>

definition unknown_command :: "str \<Rightarrow> safety_analysis" where
  "unknown_command command =
     sa_requires_approval command [''Unknown command - review before execution'']\<lparr>sa_analyzable := False\<rparr>"

definition analyze_single_segment :: "command_segment \<Rightarrow> str \<Rightarrow> safety_analysis" where
  "analyze_single_segment segment command =
     (let toks = argv segment;
          first_word = (case primary_token toks of None \<Rightarrow> [] | Some w \<Rightarrow> w);
          start = (case primary_token_index toks of None \<Rightarrow> 0 | Some i \<Rightarrow> i);
          args = drop (start + 1) toks;
          default =
            (if primary_token_index toks \<noteq> None \<and> tokens_start_with toks start ''git push''
             then sa_requires_approval command
                    [if list_ex (\<lambda>t. t = ''--force'' \<or> t = ''-f'') (drop start toks)
                     then ''Force push can overwrite remote history''
                     else ''Push will modify remote repository'']
             else unknown_command command)
      in if is_negated segment
         then sa_requires_approval command [''Negated command - review before execution'']
         else if is_safe_argv toks then sa_safe command
         else if is_workspace_safe_argv toks then sa_workspace_safe command ''Command modifies files within workspace''
         else if first_word \<in> set NETWORK_COMMANDS
         then sa_requires_approval command [''Command may make network requests'']
         else if first_word = ''rm'' \<and> (fst (rm_flags args) \<or> snd (rm_flags args))
         then (case dangerous_rm_target_reason args of
                 Some reason \<Rightarrow> sa_dangerous command [reason] [''Use relative paths within the workspace'']
               | None \<Rightarrow> sa_requires_approval command [''Recursive or forced deletion''])
         else default)"

definition pipe_members :: "bash_facts \<Rightarrow> command_segment list" where
  "pipe_members facts = (if top_level facts = [] then segments facts else top_level facts)"

definition analyze_pipe :: "bash_facts \<Rightarrow> str \<Rightarrow> safety_analysis" where
  "analyze_pipe facts command =
     (let members = pipe_members facts
      in if list_all (\<lambda>s. is_safe_argv (argv s)) members then sa_safe command
         else if list_all (\<lambda>s. is_safe_argv (argv s) \<or> is_workspace_safe_argv (argv s)) members
         then sa_workspace_safe command ''Piped command modifies files within workspace''
         else sa_requires_approval command [''Pipe segment is not a known-safe command''])"

text \<open>What follows the screening of chains, substitutions and privileged words.\<close>

definition analyze_flow :: "bash_facts \<Rightarrow> str \<Rightarrow> safety_analysis" where
  "analyze_flow facts command =
     (case redirect_analysis facts command of
        Some analysis \<Rightarrow> analysis
      | None \<Rightarrow>
          if has_pipe facts then analyze_pipe facts command
          else (case find (\<lambda>s. \<not> is_nested s) (segments facts) of
                  None \<Rightarrow> unknown_command command
                | Some segment \<Rightarrow> analyze_single_segment segment command))"

definition analyze_facts :: "bash_facts \<Rightarrow> str \<Rightarrow> safety_analysis" where
  "analyze_facts facts command =
     (case analyze_destructive_patterns facts command of
        Some analysis \<Rightarrow> analysis
      | None \<Rightarrow>
     (case literal_dangerous_pattern_reason command of
        Some reason \<Rightarrow> literal_analysis command reason
      | None \<Rightarrow>
     (case redirect_analysis facts command of
        Some analysis \<Rightarrow> analysis
      | None \<Rightarrow>
          if has_chain facts
          then (if all_segments_known_safe facts
                then sa_requires_approval command [''Command chains known-safe segments (cargo/git/etc.)'']
                else sa_requires_approval command [''Command chaining detected''])
          else if any_command_substitution facts
          then sa_requires_approval command [''Command substitution detected'']
          else if any_process_substitution facts
          then sa_requires_approval command [''Process substitution detected'']
          else if list_ex expansion_in_command_name (segments facts)
          then sa_requires_approval command [''Command name contains a variable expansion'']
          else (case privileged_token_in facts of
                  Some token \<Rightarrow> sa_requires_approval command
                    [''Command uses privileged execution ('' @ token @ '')'']
                | None \<Rightarrow> analyze_flow facts command))))"

definition analyze_command :: "bash_parser \<Rightarrow> word_splitter \<Rightarrow> str \<Rightarrow> safety_analysis" where
  "analyze_command parse split command =
     (if CHR 0x0A \<in> set command \<or> CHR 0x0D \<in> set command
      then sa_dangerous command [''Command contains multiple lines''] [''Run one command at a time'']
      else if CHR 0x00 \<in> set command
      then sa_dangerous command [''Command contains a null byte''] [''Strip embedded null bytes before retrying'']
      else (case parse command of
              None \<Rightarrow> analyze_unparseable split command
            | Some facts \<Rightarrow> analyze_facts facts command))"

subsection \<open>Paths and categories\<close>

text \<open>\<open>lower\<close> is \<open>str::to_lowercase\<close>; only equal-or-not comparisons of its results are made.\<close>

definition normalize_safety_path :: "(str \<Rightarrow> str) \<Rightarrow> str \<Rightarrow> str" where
  "normalize_safety_path lower path = lower (replace_char (CHR 0x5C) ''/'' (trim path))"

definition is_absolute_safety_path :: "str \<Rightarrow> bool" where
  "is_absolute_safety_path path \<longleftrightarrow>
     starts_with path ''/'' \<or> (3 \<le> length path \<and> path ! 1 = CHR '':'' \<and> path ! 2 = CHR ''/'')"

definition step_component :: "str list \<Rightarrow> str \<Rightarrow> str list" where
  "step_component components c =
     (if c = [] \<or> c = ''.'' then components
      else if c = ''..'' then butlast components
      else components @ [c])"

definition lexical_components :: "str \<Rightarrow> str list" where
  "lexical_components path = foldl step_component [] (split_char (CHR ''/'') path)"

definition components_start_with :: "str list \<Rightarrow> str list \<Rightarrow> bool" where
  "components_start_with path pre \<longleftrightarrow>
     length pre \<le> length path \<and> list_all (\<lambda>(a, b). a = b) (zip path pre)"

fun depth_escapes :: "int \<Rightarrow> str list \<Rightarrow> bool" where
  "depth_escapes depth [] = False"
| "depth_escapes depth (component # rest) =
     (let d = (if component = [] \<or> component = ''.'' then depth
               else if component = ''..'' then depth - 1 else depth + 1)
      in if d < 0 then True else depth_escapes d rest)"

definition path_escapes_workspace :: "(str \<Rightarrow> str) \<Rightarrow> str \<Rightarrow> str \<Rightarrow> bool" where
  "path_escapes_workspace lower path workspace =
     (let path_lower = normalize_safety_path lower path;
          workspace_lower = normalize_safety_path lower workspace
      in if starts_with path_lower ''~/'' \<or> starts_with path_lower ''$home'' then True
         else if is_absolute_safety_path path_lower
         then \<not> components_start_with (lexical_components path_lower) (lexical_components workspace_lower)
         else depth_escapes 0 (split_char (CHR ''/'') path_lower))"

definition extract_primary_command :: "str \<Rightarrow> str option" where
  "extract_primary_command command =
     (let trimmed = trim command
      in if starts_with trimmed ''env '' \<or> starts_with trimmed ''ENV=''
         then find (\<lambda>s. CHR ''='' \<notin> set s \<and> s \<noteq> ''env'') (split_whitespace trimmed)
         else (case split_whitespace trimmed of [] \<Rightarrow> None | w # _ \<Rightarrow> Some w))"

datatype command_category = FileSystem | Network | Process | Package | Git | Build | System | Shell | Other

definition category_table :: "(str list \<times> command_category) list" where
  "category_table =
     [([''ls'', ''dir'', ''cat'', ''head'', ''tail'', ''less'', ''more'', ''cp'', ''mv'', ''rm'', ''mkdir'', ''rmdir'',
        ''touch'', ''chmod'', ''chown'', ''ln'', ''find'', ''fd'', ''locate'', ''stat'', ''file''], FileSystem),
      ([''curl'', ''wget'', ''fetch'', ''nc'', ''netcat'', ''ssh'', ''scp'', ''sftp'', ''rsync'', ''ftp'', ''ping'',
        ''traceroute'', ''nslookup'', ''dig'', ''host'', ''nmap''], Network),
      ([''ps'', ''top'', ''htop'', ''kill'', ''killall'', ''pkill'', ''pgrep'', ''nice'', ''renice'', ''nohup'',
        ''timeout''], Process),
      ([''npm'', ''yarn'', ''pnpm'', ''pip'', ''pip3'', ''brew'', ''apt'', ''apt-get'', ''yum'', ''dnf'', ''pacman''],
       Package),
      ([''git'', ''gh'', ''hub''], Git),
      ([''make'', ''cmake'', ''ninja'', ''meson'', ''cargo'', ''go'', ''gcc'', ''g++'', ''clang'', ''rustc'', ''javac'',
        ''tsc''], Build),
      ([''sudo'', ''su'', ''systemctl'', ''service'', ''shutdown'', ''reboot'', ''mount'', ''umount'', ''fdisk'',
        ''parted''], System),
      ([''bash'', ''sh'', ''zsh'', ''fish'', ''csh'', ''tcsh'', ''dash'', ''source'', ''.'', ''exec'', ''eval''], Shell)]"

definition categorize_command :: "str \<Rightarrow> command_category" where
  "categorize_command command =
     (case extract_primary_command command of
        None \<Rightarrow> Other
      | Some cmd \<Rightarrow>
          (case find (\<lambda>(names, _). to_lowercase cmd \<in> set names) category_table of
             None \<Rightarrow> Other | Some (_, category) \<Rightarrow> category))"

subsection \<open>The two searches for the primary token\<close>

lemma drop_env_end: "drop (env_end ts f idx) ts = skip_env f (drop idx ts)"
proof (induction ts f idx rule: env_end.induct)
  case (1 ts f idx)
  show ?case
  proof (cases "idx < length ts")
    case True
    then have d: "drop idx ts = ts ! idx # drop (idx + 1) ts" by (simp add: Cons_nth_drop_Suc)
    show ?thesis
      unfolding env_end.simps [of ts f idx] using 1 True by (simp add: Let_def d)
  next
    case False
    then show ?thesis by (simp add: env_end.simps [of ts f idx])
  qed
qed

lemma primary_index_words:
  "primary_index_from ts idx = (if primary_words (drop idx ts) = [] then None
     else Some (length ts - length (primary_words (drop idx ts))))"
proof (induction ts idx rule: primary_index_from.induct)
  case (1 ts idx)
  show ?case
  proof (cases "idx < length ts")
    case True
    then have d: "drop idx ts = ts ! idx # drop (idx + 1) ts" by (simp add: Cons_nth_drop_Suc)
    consider "ts ! idx = ''env''" | "ts ! idx \<noteq> ''env''" "is_env_assignment (ts ! idx)"
      | "ts ! idx \<noteq> ''env''" "\<not> is_env_assignment (ts ! idx)" by blast
    then show ?thesis
    proof cases
      case 1
      have ih: "primary_index_from ts (env_end ts False (idx + 1)) = (if primary_words (drop (env_end ts False (idx + 1)) ts) = []
          then None else Some (length ts - length (primary_words (drop (env_end ts False (idx + 1)) ts))))"
        by (rule "1.IH"(1) [OF True refl 1])
      have "primary_words (drop idx ts) = primary_words (skip_env False (drop (idx + 1) ts))"
        unfolding d using 1 by simp
      then show ?thesis
        unfolding primary_index_from.simps [of ts idx] using True 1 ih by (simp add: Let_def drop_env_end)
    next
      case 2
      then show ?thesis
        unfolding primary_index_from.simps [of ts idx] using True "1.IH"(2) [OF True refl 2] by (simp add: Let_def d)
    next
      case 3
      have "length (drop idx ts) = length ts - idx" by simp
      with 3 True show ?thesis
        unfolding primary_index_from.simps [of ts idx] by (simp add: Let_def d)
    qed
  next
    case False
    then show ?thesis by (simp add: primary_index_from.simps [of ts idx])
  qed
qed

lemma primary_token_index_words:
  "primary_token_index ts = (if primary_words ts = [] then None else Some (length ts - length (primary_words ts)))"
  by (simp add: primary_token_index_def primary_index_words)

text \<open>The words from the primary token on, as the slice the code takes.\<close>

lemma drop_primary:
  assumes "primary_token_index ts = Some start"
  shows "drop start ts = primary_words ts" and "start < length ts" and "primary_words ts = ts ! start # drop (start + 1) ts"
proof -
  obtain pre where ts: "ts = pre @ primary_words ts" using primary_words_suffix [of ts] by (auto simp: suffix_def)
  then have len: "length ts = length pre + length (primary_words ts)" by (metis length_append)
  have start: "start = length pre" "primary_words ts \<noteq> []"
    using assms len by (auto simp: primary_token_index_words split: if_splits)
  show d: "drop start ts = primary_words ts" by (subst ts) (simp add: start)
  show l: "start < length ts" using len start by simp
  show "primary_words ts = ts ! start # drop (start + 1) ts"
    using d l by (simp add: Cons_nth_drop_Suc)
qed

lemma primary_token_words: "primary_token ts = (case primary_words ts of [] \<Rightarrow> None | w # _ \<Rightarrow> Some w)"
proof (cases "primary_token_index ts")
  case None
  then show ?thesis by (simp add: primary_token_def primary_token_index_words split: if_splits)
next
  case (Some start)
  from drop_primary [OF Some] show ?thesis by (simp add: primary_token_def Some)
qed



subsection \<open>What a verdict says of the command\<close>

lemmas analysis_defs = sa_safe_def sa_workspace_safe_def sa_requires_approval_def sa_dangerous_def
lemmas analysis_values = analysis_defs unknown_command_def literal_analysis_def pipe_to_shell_analysis_def
  outside_redirect_analysis_def



lemma rm_analysis_level: "rm_analysis command args = Some a \<Longrightarrow> sa_level a = Dangerous"
  by (auto simp: rm_analysis_def analysis_defs)

lemma find_mutation_level:
  "analyze_find_mutation command args = Some a \<Longrightarrow> sa_level a = Dangerous \<or> sa_level a = RequiresApproval"
  unfolding analyze_find_mutation_def Let_def by (auto simp: analysis_defs split: if_split_asm)










subsection \<open>Deletions\<close>









lemma rm_analysis_None: "rm_analysis command args = None \<longleftrightarrow> dangerous_rm_reason args = None"
  by (simp add: rm_analysis_def)


subsection \<open>What is destructive, by the words of a command\<close>

text \<open>
  The specification the scan is measured against, on the words from the primary one on and
  independent of the scan's own predicates. A target is broad when, without the quotes around it
  and with slashes for backslashes, it is the root, all of it or a hidden entry of it, or the home
  directory or anything in it, or when it has a parent component.
\<close>

definition slashed :: "str \<Rightarrow> str" where
  "slashed p = map (\<lambda>c. if c = CHR 0x5C then CHR ''/'' else c) p"














subsection \<open>The scan's predicates against the specification\<close>



lemma slashed_facts: "slashed p = [] \<longleftrightarrow> p = []"
  by (simp add: slashed_def)



























section \<open>Properties\<close>


definition simple_segment :: "str list \<Rightarrow> command_segment" where
  "simple_segment ws = \<lparr>argv = ws, join_kind = None, assignments = [], redirects = [], has_heredoc = False,
     has_command_substitution = False, has_process_substitution = False, expansion_in_command_name = False,
     expansion_in_redirect_target = False, is_negated = False, is_background = False, is_nested = False\<rparr>"

definition simple_facts :: "command_segment list \<Rightarrow> bash_facts" where
  "simple_facts ss = \<lparr>segments = ss, substitution_outside_segments = False, unrepresented_top_level_statements = False\<rparr>"









text \<open>A pipe into a subshell: its commands are nested, and only the top-level ones are looked up in
  the read-only table.\<close>

theorem subshell_after_pipe_is_safe:
  "sa_level (analyze_command (\<lambda>_. Some \<lparr>segments = [simple_segment [''ls''],
       (simple_segment [''rm'', ''f''])\<lparr>join_kind := Some Pipe, is_nested := True\<rparr>],
     substitution_outside_segments = False, unrepresented_top_level_statements = True\<rparr>)
     (\<lambda>_. None) ''ls | (rm f)'') = Safe"
  by code_simp

text \<open>Writing forms the code does not list: combined flags of \<open>sed\<close>, the writing actions of
  \<open>find\<close>, the commands \<open>fd\<close> runs.\<close>

theorem unlisted_writers_are_safe:
  "\<forall>ws\<in>set [[''sed'', ''-Ei'', ''s/a/b/'', ''f''], [''find'', ''.'', ''-fprint'', ''f''], [''fd'', ''-x'', ''rm'']].
     sa_level (analyze_command (\<lambda>_. Some (simple_facts [simple_segment ws])) (\<lambda>_. None) ''c'') = Safe"
  by code_simp



text \<open>Only the first output option is looked at, and not every spelling of one.\<close>

theorem later_output_is_unchecked:
  "sa_level (analyze_command (\<lambda>_. Some (simple_facts [simple_segment [''curl'', ''-o'', ''/etc/crontab'', ''http://h/x'']]))
     (\<lambda>_. None) ''c'') = Dangerous
   \<and> (\<forall>ws\<in>set [[''curl'', ''-O'', ''http://h/x'', ''-o'', ''/etc/crontab'', ''http://h/y''],
                 [''wget'', ''--output-document=/etc/crontab'', ''http://h/x'']].
       sa_level (analyze_command (\<lambda>_. Some (simple_facts [simple_segment ws])) (\<lambda>_. None) ''c'') = RequiresApproval)"
  by code_simp

text \<open>A \<open>find\<close> before it takes the block away: its own approval ends the scan.\<close>

theorem find_masks_deletion:
  "sa_level (analyze_command (\<lambda>_. Some (simple_facts [simple_segment [''rm'', ''-rf'', ''/*/'']])) (\<lambda>_. None) ''c'') = Dangerous
   \<and> sa_level (analyze_command (\<lambda>_. Some (simple_facts [simple_segment [''find'', ''.'', ''-delete''],
        (simple_segment [''rm'', ''-rf'', ''/*/''])\<lparr>join_kind := Some And\<rparr>])) (\<lambda>_. None) ''c'') = RequiresApproval"
  by code_simp

text \<open>What does not parse never passes. A command the parser rejects is dangerous or needs
  approval, and approval counts as routine (\<open>analyzable\<close>) only when one of its raw segments is a
  mutating \<open>find\<close>.\<close>

theorem unparseable_never_passes:
  assumes "parse command = None"
  shows "sa_level (analyze_command parse split command) = Dangerous
    \<or> sa_level (analyze_command parse split command) = RequiresApproval
      \<and> (sa_analyzable (analyze_command parse split command) \<longrightarrow>
          (\<exists>segment\<in>set (split_command_segments command). \<exists>args a.
             primary_words (shell_words split segment) = ''find'' # args \<and> analyze_find_mutation command args = Some a))"
proof -
  have legacy: "sa_level a = Dangerous \<or> sa_level a = RequiresApproval \<and>
      (\<exists>segment\<in>set (split_command_segments command). \<exists>args.
         primary_words (shell_words split segment) = ''find'' # args \<and> analyze_find_mutation command args = Some a)"
    if a: "analyze_destructive_patterns_legacy split command = Some a" for a
  proof (cases "sa_level a = Dangerous")
    case False
    then have "find_map (legacy_segment split command) (split_command_segments command) = Some a"
      using a by (auto simp: analyze_destructive_patterns_legacy_def pipe_to_shell_analysis_def sa_dangerous_def
          split: if_split_asm)
    then obtain segment where seg: "segment \<in> set (split_command_segments command)" "legacy_segment split command segment = Some a"
      using find_map_SomeD by fast
    let ?ts = "shell_words split segment"
    from seg(2) obtain start where start: "primary_token_index ?ts = Some start"
      by (auto simp: legacy_segment_def Let_def split: option.splits)
    have "rm_analysis command (drop (start + 1) ?ts) \<noteq> Some a" using rm_analysis_level False by blast
    then have find: "?ts ! start = ''find''" "analyze_find_mutation command (drop (start + 1) ?ts) = Some a"
      using seg(2) unfolding legacy_segment_def Let_def start option.case by (simp_all split: if_split_asm)
    have "primary_words ?ts = ''find'' # drop (start + 1) ?ts" using drop_primary(3) [OF start] find(1) by simp
    moreover have "sa_level a = RequiresApproval" using find_mutation_level [OF find(2)] False by blast
    ultimately show ?thesis using seg(1) find(2) by blast
  qed simp
  show ?thesis
  proof (cases "analyze_destructive_patterns_legacy split command")
    case None
    then show ?thesis using assms
      by (simp add: analyze_command_def analyze_unparseable_def analysis_values split: option.split)
  next
    case (Some a)
    have "analyze_command parse split command = a \<or> sa_level (analyze_command parse split command) = Dangerous"
      using assms Some by (simp add: analyze_command_def analyze_unparseable_def sa_dangerous_def)
    then show ?thesis using legacy [OF Some] by blast
  qed
qed

theorem unparseable_never_passes_witness:
  "sa_level (analyze_command (\<lambda>_. None) (\<lambda>_. None) ''git status (('') = RequiresApproval
   \<and> \<not> sa_analyzable (analyze_command (\<lambda>_. None) (\<lambda>_. None) ''git status (('')"
proof -
  have "list_all (\<lambda>segment. primary_token (shell_words (\<lambda>_. None) segment) \<noteq> Some ''find'')
      (split_command_segments ''git status (('')" by code_simp
  then have none: "\<not> (\<exists>segment\<in>set (split_command_segments ''git status (('').
      \<exists>args a. primary_words (shell_words (\<lambda>_. None) segment) = ''find'' # args
        \<and> analyze_find_mutation ''git status (('' args = Some a)"
    by (auto simp: list_all_iff primary_token_words)
  have "sa_level (analyze_command (\<lambda>_. None) (\<lambda>_. None) ''git status (('') \<noteq> Dangerous" by code_simp
  with unparseable_never_passes [of "\<lambda>_. None" "''git status ((''" "\<lambda>_. None"] none show ?thesis by blast
qed


subsection \<open>Paths\<close>

lemma components_start_with_prefix: "components_start_with path pre \<longleftrightarrow> prefix pre path"
proof -
  have "list_all (\<lambda>(a, b). a = b) (zip path pre) \<and> length pre \<le> length path \<longleftrightarrow> prefix pre path"
  proof (induction pre arbitrary: path)
    case (Cons b pre)
    then show ?case by (cases path) auto
  qed simp
  then show ?thesis by (auto simp: components_start_with_def)
qed

text \<open>The depth counter against the walk through the directories: \<open>u\<close> are the components below
  the workspace \<open>w\<close>.\<close>

lemma depth_escapes_walk:
  assumes "w \<noteq> []"
  shows "depth_escapes (int (length u)) cs \<longleftrightarrow>
    (\<exists>k\<le>length cs. \<not> prefix w (foldl step_component (w @ u) (take k cs)))"
proof (induction cs arbitrary: u)
  case (Cons c cs)
  have split: "(\<exists>k\<le>length (c # cs). \<not> prefix w (foldl step_component (w @ u) (take k (c # cs)))) \<longleftrightarrow>
      (\<exists>k\<le>length cs. \<not> prefix w (foldl step_component (step_component (w @ u) c) (take k cs)))"
  proof
    assume "\<exists>k\<le>length (c # cs). \<not> prefix w (foldl step_component (w @ u) (take k (c # cs)))"
    then obtain k where k: "k \<le> length (c # cs)" "\<not> prefix w (foldl step_component (w @ u) (take k (c # cs)))" by blast
    then obtain j where "k = Suc j" by (cases k) auto
    with k show "\<exists>k\<le>length cs. \<not> prefix w (foldl step_component (step_component (w @ u) c) (take k cs))" by auto
  next
    assume "\<exists>k\<le>length cs. \<not> prefix w (foldl step_component (step_component (w @ u) c) (take k cs))"
    then obtain k where "k \<le> length cs" "\<not> prefix w (foldl step_component (w @ u) (take (Suc k) (c # cs)))" by auto
    then show "\<exists>k\<le>length (c # cs). \<not> prefix w (foldl step_component (w @ u) (take k (c # cs)))"
      by (intro exI [of _ "Suc k"]) simp
  qed
  consider "c = [] \<or> c = ''.''" | "c = ''..''" "u = []" | v a where "c = ''..''" "u = v @ [a]"
    | "c \<noteq> []" "c \<noteq> ''.''" "c \<noteq> ''..''" by (cases u rule: rev_cases) blast+
  then show ?case
  proof cases
    case 1
    then have "step_component (w @ u) c = w @ u" by (simp add: step_component_def)
    with 1 show ?thesis unfolding split using Cons.IH [of u] by auto
  next
    case 2
    have "\<not> prefix w (butlast w)" using assms prefix_length_le [of w "butlast w"] by (cases w) auto
    then have "\<exists>k\<le>length cs. \<not> prefix w (foldl step_component (step_component (w @ u) c) (take k cs))"
      using 2 by (intro exI [of _ 0]) (simp add: step_component_def)
    then show ?thesis unfolding split using 2 by simp
  next
    case 3
    then have "step_component (w @ u) c = w @ v" by (simp add: step_component_def butlast_append)
    with 3 show ?thesis unfolding split using Cons.IH [of v] by simp
  next
    case 4
    then have "step_component (w @ u) c = w @ u @ [c]" by (simp add: step_component_def)
    moreover have "int (length u) + 1 = int (length (u @ [c]))" by simp
    ultimately show ?thesis unfolding split using 4 Cons.IH [of "u @ [c]"] by (simp add: Let_def add.commute)
  qed
qed simp

text \<open>Relative paths are checked exactly. For a workspace other than the root, a relative path is
  flagged if and only if walking it component by component from the workspace leaves the
  workspace at some point; so a path that passes resolves to a place inside.\<close>

theorem relative_paths_checked_exactly:
  assumes "\<not> is_absolute_safety_path (normalize_safety_path lower path)"
    and "\<not> starts_with (normalize_safety_path lower path) ''~/''" "\<not> starts_with (normalize_safety_path lower path) ''$home''"
    and "lexical_components (normalize_safety_path lower workspace) \<noteq> []"
  shows "(path_escapes_workspace lower path workspace \<longleftrightarrow>
      (\<exists>k\<le>length (split_char (CHR ''/'') (normalize_safety_path lower path)).
         \<not> components_start_with
            (foldl step_component (lexical_components (normalize_safety_path lower workspace))
               (take k (split_char (CHR ''/'') (normalize_safety_path lower path))))
            (lexical_components (normalize_safety_path lower workspace))))
    \<and> (\<not> path_escapes_workspace lower path workspace \<longrightarrow>
        components_start_with
          (lexical_components (normalize_safety_path lower workspace @ ''/'' @ normalize_safety_path lower path))
          (lexical_components (normalize_safety_path lower workspace)))"
proof -
  let ?p = "split_char (CHR ''/'') (normalize_safety_path lower path)"
  let ?w = "lexical_components (normalize_safety_path lower workspace)"
  have escapes: "path_escapes_workspace lower path workspace \<longleftrightarrow> depth_escapes 0 ?p"
    using assms(1-3) by (simp add: path_escapes_workspace_def Let_def)
  have walk: "depth_escapes 0 ?p \<longleftrightarrow> (\<exists>k\<le>length ?p. \<not> components_start_with (foldl step_component ?w (take k ?p)) ?w)"
    using depth_escapes_walk [OF assms(4), of "[]"] by (simp add: components_start_with_prefix)
  have "lexical_components (normalize_safety_path lower workspace @ ''/'' @ normalize_safety_path lower path)
      = foldl step_component ?w ?p"
    by (simp add: lexical_components_def split_on_join)
  moreover have "foldl step_component ?w ?p = foldl step_component ?w (take (length ?p) ?p)" by simp
  ultimately show ?thesis using escapes walk by (metis order_refl)
qed

theorem relative_paths_checked_exactly_witness:
  "path_escapes_workspace to_lowercase ''a/../../b'' ''/home/me'' \<and> \<not> path_escapes_workspace to_lowercase ''foo..bar/x'' ''/home/me''"
proof -
  have esc: "path_escapes_workspace to_lowercase ''a/../../b'' ''/home/me''" by code_simp
  have ok: "\<not> is_absolute_safety_path (normalize_safety_path to_lowercase ''foo..bar/x'')"
    "\<not> starts_with (normalize_safety_path to_lowercase ''foo..bar/x'') ''~/''"
    "\<not> starts_with (normalize_safety_path to_lowercase ''foo..bar/x'') ''$home''"
    "lexical_components (normalize_safety_path to_lowercase ''/home/me'') \<noteq> []" by code_simp+
  have "list_all (\<lambda>k. components_start_with (foldl step_component (lexical_components (normalize_safety_path to_lowercase ''/home/me''))
      (take k (split_char (CHR ''/'') (normalize_safety_path to_lowercase ''foo..bar/x''))))
      (lexical_components (normalize_safety_path to_lowercase ''/home/me''))) [0, 1, 2]" by code_simp
  moreover have "length (split_char (CHR ''/'') (normalize_safety_path to_lowercase ''foo..bar/x'')) = 2" by code_simp
  ultimately have "\<not> path_escapes_workspace to_lowercase ''foo..bar/x'' ''/home/me''"
    using relative_paths_checked_exactly [OF ok] by (auto simp: le_Suc_eq numeral_2_eq_2)
  with esc show ?thesis by blast
qed

end
