(* ===== verification/PrefixAllow.thy ===== *)
theory PrefixAllow
  imports BashArity BashFacts
begin

section \<open>Prefix allow rules of the sandbox (crates/sandbox/src/command_safety.rs, execpolicy/matcher.rs)\<close>

text \<open>
  The sandbox's own arity table, its classification of a command and the prefix match of an
  allow pattern, with the segmentation and the wildcard match of \<open>execpolicy/matcher.rs\<close>. The bash
  parser and shlex are the arguments \<open>parse\<close> and \<open>split\<close>. An arity is a \<open>u8\<close> read only through
  \<open>as usize\<close>.
\<close>

subsection \<open>The arity table\<close>

definition cmd_git :: "(str \<times> nat) list" where
  "cmd_git =
    [(''git add'', 2), (''git am'', 2), (''git apply'', 2), (''git bisect'', 2), (''git blame'', 2),
     (''git branch'', 2), (''git cat-file'', 2), (''git checkout'', 2), (''git cherry-pick'', 2),
     (''git clean'', 2), (''git clone'', 2), (''git commit'', 2), (''git config'', 2),
     (''git describe'', 2), (''git diff'', 2), (''git fetch'', 2), (''git format-patch'', 2),
     (''git grep'', 2), (''git init'', 2), (''git log'', 2), (''git ls-files'', 2),
     (''git merge'', 2), (''git mv'', 2), (''git notes'', 2), (''git pull'', 2), (''git push'', 2),
     (''git rebase'', 2), (''git reflog'', 2), (''git remote'', 2), (''git reset'', 2),
     (''git restore'', 2), (''git revert'', 2), (''git rm'', 2), (''git show'', 2),
     (''git stash'', 2), (''git status'', 2), (''git submodule'', 2), (''git switch'', 2),
     (''git tag'', 2), (''git worktree'', 2)]"

definition cmd_npm :: "(str \<times> nat) list" where
  "cmd_npm =
    [(''npm audit'', 2), (''npm build'', 2), (''npm cache'', 2), (''npm ci'', 2),
     (''npm dedupe'', 2), (''npm fund'', 2), (''npm help'', 2), (''npm info'', 2),
     (''npm init'', 2), (''npm install'', 2), (''npm link'', 2), (''npm list'', 2), (''npm ls'', 2),
     (''npm outdated'', 2), (''npm pack'', 2), (''npm prune'', 2), (''npm publish'', 2),
     (''npm rebuild'', 2), (''npm run'', 3), (''npm start'', 2), (''npm stop'', 2),
     (''npm test'', 2), (''npm uninstall'', 2), (''npm update'', 2), (''npm version'', 2),
     (''npm view'', 2)]"

definition cmd_yarn :: "(str \<times> nat) list" where
  "cmd_yarn =
    [(''yarn add'', 2), (''yarn audit'', 2), (''yarn build'', 2), (''yarn install'', 2),
     (''yarn run'', 3), (''yarn start'', 2), (''yarn test'', 2), (''yarn upgrade'', 2),
     (''yarn workspace'', 3)]"

definition cmd_pnpm :: "(str \<times> nat) list" where
  "cmd_pnpm =
    [(''pnpm add'', 2), (''pnpm build'', 2), (''pnpm install'', 2), (''pnpm run'', 3),
     (''pnpm start'', 2), (''pnpm test'', 2), (''pnpm update'', 2)]"

definition cmd_cargo :: "(str \<times> nat) list" where
  "cmd_cargo =
    [(''cargo add'', 2), (''cargo bench'', 2), (''cargo build'', 2), (''cargo check'', 2),
     (''cargo clean'', 2), (''cargo clippy'', 2), (''cargo doc'', 2), (''cargo fix'', 2),
     (''cargo fmt'', 2), (''cargo generate'', 2), (''cargo install'', 2), (''cargo metadata'', 2),
     (''cargo package'', 2), (''cargo publish'', 2), (''cargo remove'', 2), (''cargo run'', 2),
     (''cargo search'', 2), (''cargo test'', 2), (''cargo tree'', 2), (''cargo uninstall'', 2),
     (''cargo update'', 2), (''cargo yank'', 2)]"

definition cmd_docker :: "(str \<times> nat) list" where
  "cmd_docker =
    [(''docker build'', 2), (''docker compose'', 3), (''docker container'', 3), (''docker cp'', 2),
     (''docker exec'', 2), (''docker image'', 3), (''docker images'', 2), (''docker inspect'', 2),
     (''docker kill'', 2), (''docker logs'', 2), (''docker network'', 3), (''docker ps'', 2),
     (''docker pull'', 2), (''docker push'', 2), (''docker rm'', 2), (''docker rmi'', 2),
     (''docker run'', 2), (''docker start'', 2), (''docker stop'', 2), (''docker system'', 3),
     (''docker tag'', 2), (''docker volume'', 3)]"

definition cmd_kubectl :: "(str \<times> nat) list" where
  "cmd_kubectl =
    [(''kubectl apply'', 2), (''kubectl create'', 3), (''kubectl delete'', 3),
     (''kubectl describe'', 3), (''kubectl exec'', 2), (''kubectl explain'', 2),
     (''kubectl get'', 3), (''kubectl label'', 2), (''kubectl logs'', 2), (''kubectl patch'', 2),
     (''kubectl port-forward'', 2), (''kubectl rollout'', 3), (''kubectl scale'', 2),
     (''kubectl set'', 2), (''kubectl top'', 3)]"

definition cmd_go :: "(str \<times> nat) list" where
  "cmd_go =
    [(''go build'', 2), (''go clean'', 2), (''go env'', 2), (''go fmt'', 2), (''go generate'', 2),
     (''go get'', 2), (''go install'', 2), (''go list'', 2), (''go mod'', 3), (''go run'', 2),
     (''go test'', 2), (''go vet'', 2), (''go work'', 3)]"

definition cmd_python :: "(str \<times> nat) list" where
  "cmd_python =
    [(''pip install'', 2), (''pip uninstall'', 2), (''pip list'', 2), (''pip show'', 2),
     (''pip freeze'', 2), (''pip3 install'', 2), (''pip3 uninstall'', 2), (''pip3 list'', 2),
     (''pip3 show'', 2), (''python -m'', 3), (''python3 -m'', 3)]"

definition cmd_make :: "(str \<times> nat) list" where
  "cmd_make =
    [(''make'', 1)]"

definition cmd_gh :: "(str \<times> nat) list" where
  "cmd_gh =
    [(''gh pr'', 3), (''gh issue'', 3), (''gh repo'', 3), (''gh release'', 3), (''gh workflow'', 3),
     (''gh run'', 3), (''gh secret'', 3)]"

definition cmd_rustup :: "(str \<times> nat) list" where
  "cmd_rustup =
    [(''rustup default'', 2), (''rustup install'', 2), (''rustup show'', 2), (''rustup target'', 3),
     (''rustup toolchain'', 3), (''rustup update'', 2)]"

definition cmd_deno :: "(str \<times> nat) list" where
  "cmd_deno =
    [(''deno run'', 2), (''deno test'', 2), (''deno fmt'', 2), (''deno lint'', 2), (''bun add'', 2),
     (''bun build'', 2), (''bun install'', 2), (''bun run'', 3), (''bun test'', 2), (''npx'', 2)]"

definition COMMAND_ARITY :: "(str \<times> nat) list" where
  "COMMAND_ARITY = cmd_git @ cmd_npm @ cmd_yarn @ cmd_pnpm @ cmd_cargo @ cmd_docker @ cmd_kubectl @ cmd_go @ cmd_python @ cmd_make @ cmd_gh @ cmd_rustup @ cmd_deno"

subsection \<open>Classification\<close>

fun classify_from :: "str list \<Rightarrow> nat \<Rightarrow> str" where
  "classify_from positional 0 = hd positional"
| "classify_from positional (Suc n) =
     (let candidate = join '' '' (take (Suc n) positional)
      in case find (\<lambda>(key, _). key = candidate) COMMAND_ARITY of
           Some (_, arity) \<Rightarrow> join '' '' (take (min arity (length positional)) positional)
         | None \<Rightarrow> classify_from positional n)"

definition classify_command :: "str list \<Rightarrow> str" where
  "classify_command tokens =
     (if tokens = [] then []
      else let positional = map to_ascii_lowercase (filter (\<lambda>t. \<not> starts_with t ''-'') tokens)
           in if positional = [] then [] else classify_from positional (min (length positional) 3))"

definition prefix_norm :: "str \<Rightarrow> str" where
  "prefix_norm s = join '' '' (split_whitespace (to_ascii_lowercase (trim s)))"

definition prefix_allow_matches_single :: "str \<Rightarrow> str \<Rightarrow> bool" where
  "prefix_allow_matches_single pattern_norm command_norm =
     (let tokens = split_whitespace command_norm
      in if tokens = [] then pattern_norm = []
         else if classify_command tokens = pattern_norm then True
         else command_norm = pattern_norm \<or> starts_with command_norm (pattern_norm @ '' ''))"

definition prefix_allow_matches_segment :: "str \<Rightarrow> str \<Rightarrow> bool" where
  "prefix_allow_matches_segment pattern segment =
     prefix_allow_matches_single (prefix_norm pattern) (prefix_norm segment)"

subsection \<open>Segments\<close>

definition ast_segments :: "bash_parser \<Rightarrow> str \<Rightarrow> str list option" where
  "ast_segments parse source = Option.bind (parse source) top_level_segment_strings"

definition split_segments_legacy :: "str \<Rightarrow> str list" where
  "split_segments_legacy normalized =
     filter (\<lambda>s. s \<noteq> []) (map trim (split_on (\<lambda>c. c = CHR ''&'' \<or> c = CHR ''|'' \<or> c = CHR '';'') normalized))"

definition split_segments :: "bash_parser \<Rightarrow> str \<Rightarrow> str list" where
  "split_segments parse normalized =
     (case ast_segments parse normalized of
        Some ss \<Rightarrow> filter (\<lambda>s. s \<noteq> []) ss
      | None \<Rightarrow> split_segments_legacy normalized)"

definition prefix_allow_matches :: "bash_parser \<Rightarrow> str \<Rightarrow> str \<Rightarrow> bool" where
  "prefix_allow_matches parse pattern command =
     (let pattern_norm = prefix_norm pattern;
          command_norm = prefix_norm command;
          pattern_segments = split_segments parse pattern_norm;
          command_segments = split_segments parse command_norm
      in if 1 < length pattern_segments \<or> 1 < length command_segments
         then (if length pattern_segments \<noteq> length command_segments then False
               else list_all (\<lambda>(p, c). prefix_allow_matches_single p c) (zip pattern_segments command_segments))
         else prefix_allow_matches_single pattern_norm command_norm)"

end
