(* ===== verification/CommandMatcher.thy ===== *)
theory CommandMatcher
  imports PrefixAllow
begin

section \<open>Wildcard matching of commands (crates/sandbox/src/execpolicy/matcher.rs)\<close>

text \<open>
  Normalization of a command, with the heredoc stripper of the fallback path, and the match of
  a wildcard pattern, strict for allow rules and loose for deny rules. The two regular
  expressions of the file are written out as the functions they denote: the heredoc operator
  (deterministic, so leftmost-first matching needs no backtracking) and the wildcard, whose
  star stands for any text.
\<close>

subsection \<open>Heredocs\<close>

definition is_ident_start :: "char \<Rightarrow> bool" where
  "is_ident_start c \<longleftrightarrow> c = CHR ''_'' \<or> is_ascii_alphabetic c"

definition is_ident_char :: "char \<Rightarrow> bool" where
  "is_ident_char c \<longleftrightarrow> c = CHR ''_'' \<or> is_ascii_alphanumeric c"

definition skip_quote :: "str \<Rightarrow> str" where
  "skip_quote s = (case s of [] \<Rightarrow> [] | c # r \<Rightarrow> if c = CHR 0x27 \<or> c = CHR 0x22 then r else s)"

text \<open>The match of the heredoc expression at the start of a string: its length and the delimiter.\<close>

definition heredoc_match :: "str \<Rightarrow> (nat \<times> str) option" where
  "heredoc_match s =
     (if \<not> starts_with s ''<<'' then None
      else let s1 = drop 2 s;
               s2 = (case s1 of [] \<Rightarrow> [] | c # r \<Rightarrow> if c = CHR ''-'' then r else s1);
               s3 = skip_quote (trim_start s2)
           in (case s3 of
                 [] \<Rightarrow> None
               | c # _ \<Rightarrow>
                   if \<not> is_ident_start c then None
                   else let delim = takeWhile is_ident_char s3
                        in Some (length s - length (skip_quote (drop (length delim) s3)), delim)))"

text \<open>\<open>captures_iter\<close>: the matches of a line with their byte ranges.\<close>

function heredocs_from :: "nat \<Rightarrow> str \<Rightarrow> (nat \<times> nat \<times> str) list" where
  "heredocs_from idx [] = []"
| "heredocs_from idx (c # r) =
     (case heredoc_match (c # r) of
        None \<Rightarrow> heredocs_from (idx + 1) r
      | Some (n, delim) \<Rightarrow> (idx, idx + n, delim) # heredocs_from (idx + n) (drop (n - 1) r))"
  by pat_completeness auto
termination
  by (relation "measure (\<lambda>(idx, s). length s)") auto

text \<open>\<open>quote_state_is_clean_at\<close>: the scan of the first \<open>n\<close> bytes.\<close>

fun quote_clean :: "bool \<Rightarrow> bool \<Rightarrow> nat \<Rightarrow> str \<Rightarrow> bool" where
  "quote_clean in_single in_double (Suc n) (c # r) =
     (if c = CHR 0x5C \<and> \<not> in_single then quote_clean in_single in_double (n - 1) (drop 1 r)
      else if c = CHR 0x27 \<and> \<not> in_double then quote_clean (\<not> in_single) in_double n r
      else if c = CHR 0x22 \<and> \<not> in_single then quote_clean in_single (\<not> in_double) n r
      else quote_clean in_single in_double n r)"
| "quote_clean in_single in_double _ _ = (\<not> in_single \<and> \<not> in_double)"

definition quote_state_is_clean_at :: "str \<Rightarrow> nat \<Rightarrow> bool" where
  "quote_state_is_clean_at line offset = quote_clean False False offset line"

definition top_level_heredocs :: "str \<Rightarrow> (nat \<times> nat \<times> str) list" where
  "top_level_heredocs line = filter (\<lambda>(start, _). quote_state_is_clean_at line start) (heredocs_from 0 line)"

definition redacted_line :: "str \<Rightarrow> (nat \<times> nat \<times> str) list \<Rightarrow> str" where
  "redacted_line line spans = foldl (\<lambda>s (start, stop, _). take start s @ drop stop s) line (rev spans)"

definition out_line :: "str \<Rightarrow> (nat \<times> nat \<times> str) list \<Rightarrow> str" where
  "out_line line spans =
     (if spans = [] then line
      else join '' '' (filter (\<lambda>t. t \<noteq> []) (split_whitespace (redacted_line line spans)))) @ [CHR 0x0A]"

text \<open>The loop over the lines; an unterminated heredoc gives its body back.\<close>

function strip_lines :: "str list \<Rightarrow> str" where
  "strip_lines [] = []"
| "strip_lines (line # rest) =
     (let spans = top_level_heredocs line
      in out_line line spans
         @ (if spans = [] then strip_lines rest
            else let delim = snd (snd (last spans));
                     consumed = takeWhile (\<lambda>l. trim l \<noteq> delim) rest;
                     after = drop (length consumed) rest
                 in if after = [] then concat (map (\<lambda>l. l @ [CHR 0x0A]) consumed)
                    else strip_lines (tl after)))"
  by pat_completeness auto
termination
  by (relation "measure length") auto

definition herestring_placeholder :: str where
  "herestring_placeholder = CHR 0x01 # ''HERESTRING'' @ [CHR 0x01]"

definition strip_heredoc_bodies :: "str \<Rightarrow> str" where
  "strip_heredoc_bodies command =
     (if \<not> contains_str command ''<<'' then command
      else replace_str herestring_placeholder ''<<<''
             (strip_lines (str_lines (replace_str ''<<<'' herestring_placeholder command))))"

subsection \<open>Normalization\<close>

definition normalize_command_legacy :: "(str \<Rightarrow> str list option) \<Rightarrow> str \<Rightarrow> str" where
  "normalize_command_legacy split command =
     (let stripped = strip_heredoc_bodies command
      in case split stripped of
           Some tokens \<Rightarrow> join '' '' tokens
         | None \<Rightarrow> join '' '' (filter (\<lambda>t. t \<noteq> []) (split_whitespace stripped)))"

definition matcher_normalize :: "bash_parser \<Rightarrow> (str \<Rightarrow> str list option) \<Rightarrow> str \<Rightarrow> str" where
  "matcher_normalize parse split command =
     (case Option.bind (parse command) top_level_normalized of
        Some normalized \<Rightarrow> normalized
      | None \<Rightarrow> normalize_command_legacy split command)"

subsection \<open>Wildcards\<close>

text \<open>The expression \<open>(?s)^..$\<close> with the pattern's text escaped and every star standing for any text.\<close>

fun wildcard_matches :: "str \<Rightarrow> str \<Rightarrow> bool" where
  "wildcard_matches [] s = (s = [])"
| "wildcard_matches (p # ps) s =
     (if p = CHR ''*'' then list_ex (\<lambda>n. wildcard_matches ps (drop n s)) [0..<Suc (length s)]
      else case s of [] \<Rightarrow> False | c # r \<Rightarrow> c = p \<and> wildcard_matches ps r)"

definition head_or_empty :: "str list \<Rightarrow> str" where
  "head_or_empty ss = (case ss of [] \<Rightarrow> [] | s # _ \<Rightarrow> s)"

definition segments_match :: "str list \<Rightarrow> str list \<Rightarrow> bool" where
  "segments_match ps cs =
     (if length ps \<noteq> length cs then False else list_all (\<lambda>(p, c). wildcard_matches p c) (zip ps cs))"

definition pattern_matches_legacy :: "(str \<Rightarrow> str list option) \<Rightarrow> str \<Rightarrow> str \<Rightarrow> bool" where
  "pattern_matches_legacy split pattern command =
     (let p = normalize_command_legacy split pattern;
          c = normalize_command_legacy split command
      in if p = ''*'' then True
         else let ps = split_segments_legacy p; cs = split_segments_legacy c
              in if 1 < length ps \<or> 1 < length cs then segments_match ps cs else wildcard_matches p c)"

definition pattern_matches :: "bash_parser \<Rightarrow> (str \<Rightarrow> str list option) \<Rightarrow> str \<Rightarrow> str \<Rightarrow> bool" where
  "pattern_matches parse split pattern command =
     (case (ast_segments parse pattern, ast_segments parse command) of
        (Some ps, Some cs) \<Rightarrow>
          if ps = [''*''] then True
          else if 1 < length ps \<or> 1 < length cs then segments_match ps cs
          else wildcard_matches (head_or_empty ps) (head_or_empty cs)
      | _ \<Rightarrow> pattern_matches_legacy split pattern command)"

definition pattern_matches_segment :: "bash_parser \<Rightarrow> (str \<Rightarrow> str list option) \<Rightarrow> str \<Rightarrow> str \<Rightarrow> bool" where
  "pattern_matches_segment parse split pattern segment =
     (if trim pattern = ''*'' then True
      else case ast_segments parse pattern of
             Some ps \<Rightarrow>
               if 1 < length ps then False
               else (case ps of [] \<Rightarrow> False | first # _ \<Rightarrow> wildcard_matches first segment)
           | None \<Rightarrow> wildcard_matches (normalize_command_legacy split pattern) segment)"

definition pattern_matches_any_segment_legacy :: "(str \<Rightarrow> str list option) \<Rightarrow> str \<Rightarrow> str \<Rightarrow> bool" where
  "pattern_matches_any_segment_legacy split pattern command =
     (let p = normalize_command_legacy split pattern;
          c = normalize_command_legacy split command
      in if p = ''*'' then True
         else let cs = split_segments_legacy c
              in if length cs \<le> 1 then wildcard_matches p c
                 else list_ex (wildcard_matches p) cs \<or> pattern_matches_legacy split p c)"

definition pattern_matches_any_segment :: "bash_parser \<Rightarrow> (str \<Rightarrow> str list option) \<Rightarrow> str \<Rightarrow> str \<Rightarrow> bool" where
  "pattern_matches_any_segment parse split pattern command =
     (case (parse command, ast_segments parse pattern) of
        (Some facts, Some ps) \<Rightarrow>
          if segments facts = [] then pattern_matches_any_segment_legacy split pattern command
          else if ps = [''*''] then True
          else list_ex (\<lambda>s. wildcard_matches (head_or_empty ps) (command_string s)) (segments facts)
      | _ \<Rightarrow> pattern_matches_any_segment_legacy split pattern command)"

end
