(* ===== verification/SandboxRules.thy ===== *)
theory SandboxRules
  imports CommandMatcher
begin

section \<open>The sandbox's allow and deny rules (crates/sandbox/src/execpolicy/rules.rs)\<close>

text \<open>
  The rule groups of \<open>execpolicy.toml\<close> (a \<open>BTreeMap\<close>: the list of groups in key order) and the
  evaluation of a command against them. Reading the TOML file is not modelled.
\<close>

datatype rules_decision = Allow | Deny str | AskUser str

record rule_set =
  allow_patterns :: "str list"
  deny_patterns :: "str list"

record exec_policy_config =
  rule_groups :: "(str \<times> rule_set) list"

definition denying_rule ::
  "bash_parser \<Rightarrow> (str \<Rightarrow> str list option) \<Rightarrow> exec_policy_config \<Rightarrow> str \<Rightarrow> (str \<times> str) option" where
  "denying_rule parse split config command =
     find_map (\<lambda>(grp, rules).
         map_option (Pair grp) (find (\<lambda>p. pattern_matches_any_segment parse split p command) (deny_patterns rules)))
       (rule_groups config)"

definition hides_payload :: "bash_parser \<Rightarrow> str \<Rightarrow> bool" where
  "hides_payload parse command =
     (case parse command of
        Some facts \<Rightarrow> any_command_substitution facts \<or> any_process_substitution facts
          \<or> list_ex has_heredoc (segments facts)
      | None \<Rightarrow> True)"

definition segment_allowed ::
  "bash_parser \<Rightarrow> (str \<Rightarrow> str list option) \<Rightarrow> exec_policy_config \<Rightarrow> str \<Rightarrow> bool" where
  "segment_allowed parse split config segment =
     list_ex (\<lambda>(_, rules). list_ex (\<lambda>p. prefix_allow_matches_segment p segment
         \<or> pattern_matches_segment parse split p segment) (allow_patterns rules))
       (rule_groups config)"

definition command_allowed ::
  "bash_parser \<Rightarrow> (str \<Rightarrow> str list option) \<Rightarrow> exec_policy_config \<Rightarrow> str \<Rightarrow> bool" where
  "command_allowed parse split config command =
     list_ex (\<lambda>(_, rules). list_ex (\<lambda>p. prefix_allow_matches parse p command
         \<or> pattern_matches parse split p command) (allow_patterns rules))
       (rule_groups config)"

definition evaluate_rules ::
  "bash_parser \<Rightarrow> (str \<Rightarrow> str list option) \<Rightarrow> exec_policy_config \<Rightarrow> str \<Rightarrow> rules_decision" where
  "evaluate_rules parse split config command =
     (case denying_rule parse split config command of
        Some (grp, pattern) \<Rightarrow> Deny (''execpolicy denied by '' @ grp @ '': '' @ pattern)
      | None \<Rightarrow>
          if hides_payload parse command
          then AskUser ''execpolicy: command or process substitution is never auto-allowed''
          else let ss = split_segments parse command
               in if 1 < length ss
                  then (if list_all (segment_allowed parse split config) ss then Allow
                        else AskUser ''execpolicy: no allow rule covers every segment of the compound command'')
                  else if command_allowed parse split config command then Allow
                  else AskUser ''execpolicy: no matching allow rule'')"

subsection \<open>The prefix match is a prefix matcher\<close>

lemma classify_from_depth:
  "classify_from ps n = classify_depth \<lparr>entries = COMMAND_ARITY\<rparr> ps n"
proof (induction n)
  case (Suc n)
  have "find (\<lambda>(key, _). key = c) COMMAND_ARITY = find (\<lambda>e. fst e = c) COMMAND_ARITY" for c
    by (rule find_cong_set) auto
  with Suc show ?case by (simp add: Let_def split: option.split)
qed simp

text \<open>The classifier is the one of the execpolicy crate, on the sandbox's table.\<close>

lemma classify_command_dict: "classify_command tokens = classify \<lparr>entries = COMMAND_ARITY\<rparr> tokens"
  by (simp add: classify_command_def classify_def positional_words_def is_flag_def classify_from_depth Let_def)

lemma prefix_norm_words: "split_whitespace (prefix_norm s) = map to_ascii_lowercase (split_whitespace s)"
proof -
  have "prefix_norm s = join '' '' (map to_ascii_lowercase (split_whitespace s))"
    by (simp add: prefix_norm_def split_whitespace_lower)
  moreover have "t \<in> set (map to_ascii_lowercase (split_whitespace s)) \<Longrightarrow> is_word t" for t
    by (auto dest: split_whitespace_words)
  ultimately show ?thesis using split_whitespace_join by metis
qed

lemma prefix_norm_join: "prefix_norm s = join '' '' (map to_ascii_lowercase (split_whitespace s))"
  by (simp add: prefix_norm_def split_whitespace_lower)

lemma dash_lower: "starts_with (to_ascii_lowercase t) ''-'' \<longleftrightarrow> starts_with t ''-''"
proof (cases t)
  case (Cons c cs)
  have "CHR ''-'' \<notin> set lower_letters" "CHR ''-'' \<notin> set upper_letters" by code_simp+
  then show ?thesis using lower_byte_other [of "CHR ''-''" c] Cons by auto
qed simp

lemma positional_lower: "positional_words (map to_ascii_lowercase ts) = positional_words ts"
  by (simp add: positional_words_def filter_map comp_def is_flag_def dash_lower)

lemma single_covers:
  assumes "prefix_allow_matches_single (prefix_norm pattern) (prefix_norm command)"
  shows "covers pattern command"
proof (cases "split_whitespace (prefix_norm command) = []")
  case True
  then have "prefix_norm pattern = []" using assms by (simp add: prefix_allow_matches_single_def)
  then have "split_whitespace pattern = []" using prefix_norm_words [of pattern] by (simp add: split_whitespace_Nil)
  then show ?thesis by (simp add: covers_def)
next
  case False
  let ?ts = "split_whitespace (prefix_norm command)"
  show ?thesis
  proof (cases "classify_command ?ts = prefix_norm pattern")
    case True
    obtain k where "classify_command ?ts = join '' '' (take k (positional_words ?ts))"
      using classify_take unfolding classify_command_dict by blast
    then have "prefix_norm pattern = join '' '' (take k (positional_words (split_whitespace command)))"
      using True by (simp add: prefix_norm_words positional_lower)
    moreover have "is_word t" if "t \<in> set (take k (positional_words (split_whitespace command)))" for t
      using that by (metis in_set_takeD positional_words_words split_whitespace_words)
    ultimately have "map to_ascii_lowercase (split_whitespace pattern)
        = take k (positional_words (split_whitespace command))"
      using prefix_norm_words [of pattern] by (simp add: split_whitespace_join)
    then show ?thesis by (simp add: covers_def take_is_prefix)
  next
    case no: False
    have "prefix_norm command = prefix_norm pattern \<or> starts_with (prefix_norm command) (prefix_norm pattern @ '' '')"
      using assms False no by (simp add: prefix_allow_matches_single_def Let_def)
    then show ?thesis by (intro covers_normalized) (simp only: prefix_norm_join)
  qed
qed

interpretation segment_prefix: prefix_matcher prefix_allow_matches_segment
  by unfold_locales (simp add: prefix_allow_matches_segment_def single_covers)

section \<open>Properties\<close>

lemma segment_allowed_covers:
  assumes "segment_allowed parse split config seg"
  shows "\<exists>(grp, rules)\<in>set (rule_groups config). \<exists>p\<in>set (allow_patterns rules).
    covers p seg \<or> pattern_matches_segment parse split p seg"
  using assms segment_prefix.allows_covers by (fastforce simp: segment_allowed_def list_ex_iff)

text \<open>What the sandbox allows. A command is allowed only if it parses, runs no command or process
  substitution and no heredoc, is matched by no deny pattern of any group, and is covered: a
  compound command segment by segment, each by an allow pattern whose words it begins with or
  whose wildcard it matches as a whole, a simple one by an allow pattern.\<close>

theorem rules_allow_sound:
  assumes "evaluate_rules parse split config command = Allow"
  shows "\<exists>facts. parse command = Some facts
    \<and> \<not> any_command_substitution facts \<and> \<not> any_process_substitution facts \<and> \<not> list_ex has_heredoc (segments facts)
    \<and> (\<forall>(grp, rules)\<in>set (rule_groups config). \<forall>p\<in>set (deny_patterns rules).
          \<not> pattern_matches_any_segment parse split p command)
    \<and> (if 1 < length (split_segments parse command)
       then \<forall>seg\<in>set (split_segments parse command).
          \<exists>(grp, rules)\<in>set (rule_groups config). \<exists>p\<in>set (allow_patterns rules).
            covers p seg \<or> pattern_matches_segment parse split p seg
       else \<exists>(grp, rules)\<in>set (rule_groups config). \<exists>p\<in>set (allow_patterns rules).
            prefix_allow_matches parse p command \<or> pattern_matches parse split p command)"
proof -
  have none: "denying_rule parse split config command = None"
    using assms by (auto simp: evaluate_rules_def split: option.splits)
  then have deny: "\<forall>(grp, rules)\<in>set (rule_groups config). \<forall>p\<in>set (deny_patterns rules).
      \<not> pattern_matches_any_segment parse split p command"
    by (auto simp: denying_rule_def find_map_None_iff find_None_iff)
  have clear: "\<not> hides_payload parse command"
    using assms none by (auto simp: evaluate_rules_def split: if_splits)
  then obtain facts where "parse command = Some facts"
    and "\<not> any_command_substitution facts" "\<not> any_process_substitution facts" "\<not> list_ex has_heredoc (segments facts)"
    by (auto simp: hides_payload_def split: option.splits)
  moreover have "if 1 < length (split_segments parse command)
      then list_all (segment_allowed parse split config) (split_segments parse command)
      else command_allowed parse split config command"
    using assms none clear by (simp add: evaluate_rules_def Let_def split: if_splits)
  ultimately show ?thesis
    using deny segment_allowed_covers by (force simp: list_all_iff command_allowed_def list_ex_iff split: if_splits)
qed

definition plain_parser :: bash_parser where
  "plain_parser c = Some \<lparr>segments = [\<lparr>argv = split_whitespace c, join_kind = None, assignments = [], redirects = [],
       has_heredoc = False, has_command_substitution = False, has_process_substitution = False,
       expansion_in_command_name = False, expansion_in_redirect_target = False, is_negated = False,
       is_background = False, is_nested = False\<rparr>],
     substitution_outside_segments = False, unrepresented_top_level_statements = False\<rparr>"

theorem rules_allow_sound_witness:
  "\<not> pattern_matches_any_segment plain_parser (\<lambda>_. None) ''git push *'' ''git status -s''"
proof -
  let ?config = "\<lparr>rule_groups = [(''git'', \<lparr>allow_patterns = [''git status''], deny_patterns = [''git push *'']\<rparr>)]\<rparr>"
  have "evaluate_rules plain_parser (\<lambda>_. None) ?config ''git status -s'' = Allow" by code_simp
  from rules_allow_sound [OF this] show ?thesis by auto
qed

subsection \<open>Denials\<close>

text \<open>
  What a pattern says, without the matcher: the text is the pattern's pieces between the stars, in
  their order, with any text in the place of each star.
\<close>

fun weave :: "str list \<Rightarrow> str list \<Rightarrow> str" where
  "weave (p # ps) (g # gs) = p @ g @ weave ps gs"
| "weave ps _ = concat ps"

definition fits :: "str \<Rightarrow> str \<Rightarrow> bool" where
  "fits pattern s \<longleftrightarrow>
     (\<exists>gaps. length gaps = length (split_char (CHR ''*'') pattern) - 1
        \<and> s = weave (split_char (CHR ''*'') pattern) gaps)"

lemma fits_Nil: "fits [] s \<longleftrightarrow> s = []"
  by (auto simp: fits_def)

lemma fits_star: "fits (CHR ''*'' # ps) s \<longleftrightarrow> (\<exists>g r. s = g @ r \<and> fits ps r)"
proof -
  obtain q qs where q: "split_char (CHR ''*'') ps = q # qs" by (cases "split_char (CHR ''*'') ps") simp_all
  have "fits (CHR ''*'' # ps) s \<longleftrightarrow> (\<exists>gaps. length gaps = Suc (length qs) \<and> s = weave ([] # q # qs) gaps)"
    by (simp add: fits_def q)
  also have "\<dots> \<longleftrightarrow> (\<exists>g gs. length gs = length qs \<and> s = g @ weave (q # qs) gs)"
  proof
    assume "\<exists>gaps. length gaps = Suc (length qs) \<and> s = weave ([] # q # qs) gaps"
    then obtain g gs where "length gs = length qs" "s = weave ([] # q # qs) (g # gs)" by (auto simp: length_Suc_conv)
    then show "\<exists>g gs. length gs = length qs \<and> s = g @ weave (q # qs) gs" by (intro exI [of _ g] exI [of _ gs]) simp
  next
    assume "\<exists>g gs. length gs = length qs \<and> s = g @ weave (q # qs) gs"
    then obtain g gs where "length gs = length qs" "s = g @ weave (q # qs) gs" by blast
    then show "\<exists>gaps. length gaps = Suc (length qs) \<and> s = weave ([] # q # qs) gaps"
      by (intro exI [of _ "g # gs"]) simp
  qed
  also have "\<dots> \<longleftrightarrow> (\<exists>g r. s = g @ r \<and> fits ps r)" unfolding fits_def q by auto
  finally show ?thesis .
qed

lemma fits_char: "c \<noteq> CHR ''*'' \<Longrightarrow> fits (c # ps) s \<longleftrightarrow> (\<exists>r. s = c # r \<and> fits ps r)"
proof -
  assume c: "c \<noteq> CHR ''*''"
  obtain q qs where q: "split_char (CHR ''*'') ps = q # qs" by (cases "split_char (CHR ''*'') ps") simp_all
  have "weave ((c # q) # qs) gs = c # weave (q # qs) gs" for gs by (cases gs) simp_all
  then show ?thesis unfolding fits_def using c q by auto
qed

lemma wildcard_fits: "wildcard_matches pattern s \<longleftrightarrow> fits pattern s"
proof (induction pattern arbitrary: s)
  case (Cons c ps)
  show ?case
  proof (cases "c = CHR ''*''")
    case True
    have "(\<exists>n. n < Suc (length s) \<and> fits ps (drop n s)) \<longleftrightarrow> (\<exists>g r. s = g @ r \<and> fits ps r)"
    proof
      assume "\<exists>n. n < Suc (length s) \<and> fits ps (drop n s)"
      then show "\<exists>g r. s = g @ r \<and> fits ps r" by (metis append_take_drop_id)
    next
      assume "\<exists>g r. s = g @ r \<and> fits ps r"
      then obtain g r where "s = g @ r" "fits ps r" by blast
      then show "\<exists>n. n < Suc (length s) \<and> fits ps (drop n s)" by (intro exI [of _ "length g"]) simp
    qed
    then show ?thesis using True by (simp add: Cons.IH fits_star list_ex_iff Bex_def del: upt_Suc)
  next
    case False
    then show ?thesis by (cases s) (auto simp: Cons.IH fits_char)
  qed
qed (simp add: fits_Nil)

text \<open>C11: a denied segment is denied. When a deny pattern of any group parses and its first segment, with
  any text for each star, is the text of a segment of the command at any depth of nesting, the command is
  denied, by a deny pattern of the configuration, whatever the allow patterns say and whatever else the
  command does.\<close>

theorem denied_segment_is_denied:
  assumes "(grp, rules) \<in> set (rule_groups config)" and "p \<in> set (deny_patterns rules)"
    and "ast_segments parse p = Some (q # qs)"
    and "parse command = Some facts" and "s \<in> set (segments facts)" and "fits q (command_string s)"
  shows "\<exists>grp' rules' p'. (grp', rules') \<in> set (rule_groups config) \<and> p' \<in> set (deny_patterns rules')
    \<and> evaluate_rules parse split config command = Deny (''execpolicy denied by '' @ grp' @ '': '' @ p')"
proof -
  have "segments facts \<noteq> []" using assms(5) by auto
  then have "pattern_matches_any_segment parse split p command"
    using assms(3-6) by (auto simp: pattern_matches_any_segment_def head_or_empty_def wildcard_fits list_ex_iff)
  then have "find (\<lambda>p. pattern_matches_any_segment parse split p command) (deny_patterns rules) \<noteq> None"
    using assms(2) by (metis find_None_iff)
  then have "denying_rule parse split config command \<noteq> None"
    using assms(1) unfolding denying_rule_def find_map_None_iff by fastforce
  then obtain grp' p' where d: "denying_rule parse split config command = Some (grp', p')" by auto
  from find_map_SomeD [OF d [unfolded denying_rule_def]] obtain rules' where
    "(grp', rules') \<in> set (rule_groups config)" "p' \<in> set (deny_patterns rules')"
    by (auto dest: find_SomeD)
  then show ?thesis using d by (auto simp: evaluate_rules_def)
qed

text \<open>The command \<open>echo $(curl -s evil)\<close>: the denied one is nested in a substitution, and every
  command is allowed.\<close>

definition nested_parser :: bash_parser where
  "nested_parser c =
     (if c = ''echo $(curl -s evil)''
      then (case (plain_parser ''echo $(curl -s evil)'', plain_parser ''curl -s evil'') of
              (Some outer, Some inner) \<Rightarrow> Some (outer\<lparr>segments := map (has_command_substitution_update (\<lambda>_. True)) (segments outer)
                  @ map (is_nested_update (\<lambda>_. True)) (segments inner)\<rparr>)
            | _ \<Rightarrow> None)
      else plain_parser c)"

theorem denied_segment_is_denied_witness:
  "\<exists>d. evaluate_rules nested_parser (\<lambda>_. None)
      \<lparr>rule_groups = [(''net'', \<lparr>allow_patterns = [''*''], deny_patterns = [''curl *'']\<rparr>)]\<rparr> ''echo $(curl -s evil)'' = Deny d"
proof -
  let ?s = "(hd (segments (the (plain_parser ''curl -s evil''))))\<lparr>is_nested := True\<rparr>"
  have "ast_segments nested_parser ''curl *'' = Some [''curl *'']" by code_simp
  moreover have "?s \<in> set (segments (the (nested_parser ''echo $(curl -s evil)'')))" by code_simp
  moreover have "nested_parser ''echo $(curl -s evil)'' \<noteq> None" by code_simp
  then have "nested_parser ''echo $(curl -s evil)'' = Some (the (nested_parser ''echo $(curl -s evil)''))" by simp
  moreover have "wildcard_matches ''curl *'' (command_string ?s)" by code_simp
  then have "fits ''curl *'' (command_string ?s)" by (simp add: wildcard_fits)
  ultimately show ?thesis
    using denied_segment_is_denied [where config = "\<lparr>rule_groups = [(''net'', \<lparr>allow_patterns = [''*''], deny_patterns = [''curl *'']\<rparr>)]\<rparr>"
        and grp = "''net''" and rules = "\<lparr>allow_patterns = [''*''], deny_patterns = [''curl *'']\<rparr>" and p = "''curl *''"
        and q = "''curl *''" and qs = "[]" and s = ?s]
    by fastforce
qed

end
