(* ===== verification/PrefixRules.thy ===== *)
theory PrefixRules
  imports Prelude
begin

section \<open>sandbox: prefix rules of policy files\<close>

text \<open>
  The rules a policy file declares with \<open>prefix_rule(...)\<close> (\<open>execpolicy/decision.rs\<close>,
  \<open>rule.rs\<close>, \<open>policy.rs\<close>, \<open>parser.rs\<close> and the report of \<open>execpolicycheck.rs\<close>).
  The Starlark interpreter is not modelled: a policy file is the sequence of calls of the builtin it
  makes, each with its arguments as Starlark values. The shell tokenizer \<open>shlex\<close> and the
  \<open>Debug\<close> rendering of a rule in an error text are the fields of \<open>rule_env\<close>. The
  multimap of rules keeps, for each program, its rules in the order they were inserted.
\<close>

subsection \<open>Decisions\<close>

datatype exec_decision = Allow | Prompt | Forbidden

fun decision_rank :: "exec_decision \<Rightarrow> nat" where
  "decision_rank Allow = 0"
| "decision_rank Prompt = 1"
| "decision_rank Forbidden = 2"

lemma decision_rank_inj: "decision_rank a = decision_rank b \<Longrightarrow> a = b"
  by (cases a; cases b) simp_all

text \<open>The derived \<open>Ord\<close>: the order of the variants.\<close>

instantiation exec_decision :: linorder
begin

definition less_eq_exec_decision :: "exec_decision \<Rightarrow> exec_decision \<Rightarrow> bool" where
  "less_eq_exec_decision a b \<longleftrightarrow> decision_rank a \<le> decision_rank b"

definition less_exec_decision :: "exec_decision \<Rightarrow> exec_decision \<Rightarrow> bool" where
  "less_exec_decision a b \<longleftrightarrow> decision_rank a < decision_rank b"

instance
  by standard (auto simp: less_eq_exec_decision_def less_exec_decision_def intro: decision_rank_inj)

end

definition most_restrictive :: "exec_decision \<Rightarrow> exec_decision \<Rightarrow> exec_decision" where
  "most_restrictive a b = (if b \<le> a then a else b)"

datatype rule_error =
    InvalidDecision str
  | InvalidPattern str
  | InvalidExample str
  | InvalidRule str
  | ExampleDidNotMatch "str list" "str list"
  | ExampleDidMatch str str

definition parse_decision :: "str \<Rightarrow> rule_error + exec_decision" where
  "parse_decision raw =
     (if raw = ''allow'' then Inr Allow
      else if raw = ''prompt'' then Inr Prompt
      else if raw = ''forbidden'' then Inr Forbidden
      else Inl (InvalidDecision raw))"

subsection \<open>Rules\<close>

datatype pattern_token = Single str | Alts "str list"

fun token_matches :: "pattern_token \<Rightarrow> str \<Rightarrow> bool" where
  "token_matches (Single expected) t = (expected = t)"
| "token_matches (Alts alternatives) t = list_ex (\<lambda>alt. alt = t) alternatives"

fun alternatives :: "pattern_token \<Rightarrow> str list" where
  "alternatives (Single expected) = [expected]"
| "alternatives (Alts alts) = alts"

record prefix_pattern =
  first_word :: str
  rest_words :: "pattern_token list"

fun bad_alternatives :: "pattern_token \<Rightarrow> bool" where
  "bad_alternatives (Single _) = False"
| "bad_alternatives (Alts alts) \<longleftrightarrow> alts = [] \<or> list_ex (\<lambda>alt. trim alt = []) alts"

definition new_pattern :: "str \<Rightarrow> pattern_token list \<Rightarrow> rule_error + prefix_pattern" where
  "new_pattern head_word others =
     (if head_word = [] then Inl (InvalidPattern ''pattern first token cannot be empty'')
      else if list_ex bad_alternatives others
      then Inl (InvalidPattern ''pattern alternatives cannot be empty or blank'')
      else Inr \<lparr>first_word = head_word, rest_words = others\<rparr>)"

definition is_prefix_match :: "prefix_pattern \<Rightarrow> str list \<Rightarrow> bool" where
  "is_prefix_match pat cmd =
     (let pattern_length = length (rest_words pat) + 1
      in if length cmd < pattern_length \<or> cmd ! 0 \<noteq> first_word pat then False
         else list_all (\<lambda>(p, c). token_matches p c)
                (zip (rest_words pat) (take (pattern_length - 1) (drop 1 cmd))))"

definition matches_prefix :: "prefix_pattern \<Rightarrow> str list \<Rightarrow> str list option" where
  "matches_prefix pat cmd =
     (if \<not> is_prefix_match pat cmd then None else Some (take (length (rest_words pat) + 1) cmd))"

datatype rule_match =
    PrefixRuleMatch "str list" exec_decision "str option"
  | HeuristicsRuleMatch "str list" exec_decision

fun match_decision :: "rule_match \<Rightarrow> exec_decision" where
  "match_decision (PrefixRuleMatch _ d _) = d"
| "match_decision (HeuristicsRuleMatch _ d) = d"

record prefix_rule =
  rule_pattern :: prefix_pattern
  rule_decision :: exec_decision
  justification :: "str option"

definition program :: "prefix_rule \<Rightarrow> str" where
  "program r = first_word (rule_pattern r)"

definition rule_matches :: "prefix_rule \<Rightarrow> str list \<Rightarrow> rule_match option" where
  "rule_matches r cmd =
     map_option (\<lambda>m. PrefixRuleMatch m (rule_decision r) (justification r)) (matches_prefix (rule_pattern r) cmd)"

definition rule_is_match :: "prefix_rule \<Rightarrow> str list \<Rightarrow> bool" where
  "rule_is_match r cmd = is_prefix_match (rule_pattern r) cmd"

subsection \<open>Examples\<close>

record rule_env =
  shlex_split :: "str \<Rightarrow> str list option"
  shlex_join :: "str list \<Rightarrow> str option"
  debug_rule :: "prefix_rule \<Rightarrow> str"

definition render_example :: "rule_env \<Rightarrow> str list \<Rightarrow> str" where
  "render_example env example =
     (case shlex_join env example of Some s \<Rightarrow> s | None \<Rightarrow> ''unable to render example'')"

definition bounded_rule_summaries :: "prefix_rule list \<Rightarrow> str list" where
  "bounded_rule_summaries rules =
     (let summaries = map program (take 8 rules);
          remaining = length rules - 8
      in if 0 < remaining then summaries @ [''(+'' @ show_nat remaining @ '' more rules)''] else summaries)"

definition validate_match_examples :: "rule_env \<Rightarrow> prefix_rule list \<Rightarrow> str list list \<Rightarrow> rule_error + unit" where
  "validate_match_examples env rules examples =
     (let unmatched = map (render_example env) (filter (\<lambda>e. \<not> list_ex (\<lambda>r. rule_is_match r e) rules) examples)
      in if unmatched = [] then Inr () else Inl (ExampleDidNotMatch (bounded_rule_summaries rules) unmatched))"

fun validate_not_match_examples :: "rule_env \<Rightarrow> prefix_rule list \<Rightarrow> str list list \<Rightarrow> rule_error + unit" where
  "validate_not_match_examples env rules [] = Inr ()"
| "validate_not_match_examples env rules (e # es) =
     (case find (\<lambda>r. rule_is_match r e) rules of
        Some r \<Rightarrow> Inl (ExampleDidMatch (debug_rule env r) (render_example env e))
      | None \<Rightarrow> validate_not_match_examples env rules es)"

subsection \<open>The policy\<close>

record policy =
  rules_by_program :: "str \<rightharpoonup> prefix_rule list"

definition empty_policy :: policy where
  "empty_policy = \<lparr>rules_by_program = Map.empty\<rparr>"

text \<open>\<open>MultiMap::insert\<close> and \<open>PolicyBuilder::add_rule\<close>.\<close>

definition insert_rule :: "str \<Rightarrow> prefix_rule \<Rightarrow> policy \<Rightarrow> policy" where
  "insert_rule k r p =
     p\<lparr>rules_by_program := (rules_by_program p)(k \<mapsto> (case rules_by_program p k of Some rs \<Rightarrow> rs @ [r] | None \<Rightarrow> [r]))\<rparr>"

definition add_rule :: "prefix_rule \<Rightarrow> policy \<Rightarrow> policy" where
  "add_rule r p = insert_rule (program r) r p"

definition add_prefix_rule :: "policy \<Rightarrow> str list \<Rightarrow> exec_decision \<Rightarrow> rule_error + policy" where
  "add_prefix_rule p pre d =
     (case pre of
        [] \<Rightarrow> Inl (InvalidPattern ''prefix cannot be empty'')
      | first_token # others \<Rightarrow>
          try_bind (new_pattern first_token (map Single others)) (\<lambda>pat.
            Inr (insert_rule first_token \<lparr>rule_pattern = pat, rule_decision = d, justification = None\<rparr> p)))"

definition matches_for_command :: "policy \<Rightarrow> str list \<Rightarrow> (str list \<Rightarrow> exec_decision) option \<Rightarrow> rule_match list" where
  "matches_for_command p cmd fallback =
     (let matched = (case cmd of
            [] \<Rightarrow> []
          | first # _ \<Rightarrow>
              (case rules_by_program p first of
                 None \<Rightarrow> []
               | Some rs \<Rightarrow> List.map_filter (\<lambda>r. rule_matches r cmd) rs))
      in case (matched, fallback) of
           ([], Some f) \<Rightarrow> [HeuristicsRuleMatch cmd (f cmd)]
         | _ \<Rightarrow> matched)"

record evaluation =
  eval_decision :: exec_decision
  matched_rules :: "rule_match list"

fun is_prefix_rule_match :: "rule_match \<Rightarrow> bool" where
  "is_prefix_rule_match (PrefixRuleMatch _ _ _) = True"
| "is_prefix_rule_match (HeuristicsRuleMatch _ _) = False"

definition evaluation_is_match :: "evaluation \<Rightarrow> bool" where
  "evaluation_is_match e = list_ex is_prefix_rule_match (matched_rules e)"

text \<open>\<open>Iterator::reduce\<close>.\<close>

definition reduce :: "('a \<Rightarrow> 'a \<Rightarrow> 'a) \<Rightarrow> 'a list \<Rightarrow> 'a option" where
  "reduce f xs = (case xs of [] \<Rightarrow> None | x # r \<Rightarrow> Some (foldl f x r))"

definition from_matches :: "rule_match list \<Rightarrow> evaluation" where
  "from_matches ms =
     \<lparr>eval_decision = (case reduce most_restrictive (map match_decision ms) of Some d \<Rightarrow> d | None \<Rightarrow> Forbidden),
      matched_rules = ms\<rparr>"

definition policy_check :: "policy \<Rightarrow> str list \<Rightarrow> (str list \<Rightarrow> exec_decision) \<Rightarrow> evaluation" where
  "policy_check p cmd fallback = from_matches (matches_for_command p cmd (Some fallback))"

definition check_multiple :: "policy \<Rightarrow> str list list \<Rightarrow> (str list \<Rightarrow> exec_decision) \<Rightarrow> evaluation" where
  "check_multiple p commands fallback =
     from_matches (concat (map (\<lambda>c. matches_for_command p c (Some fallback)) commands))"

text \<open>The report of the diagnostic command: no fallback, and no decision when no rule matches.\<close>

definition report_decision :: "rule_match list \<Rightarrow> exec_decision option" where
  "report_decision ms = reduce most_restrictive (map match_decision ms)"

subsection \<open>The builtin of policy files\<close>

text \<open>A Starlark value as the builtin inspects it: a string, a list, or a value of another type.\<close>

datatype starlark = SStr str | SList "starlark list" | SOther str

fun get_type :: "starlark \<Rightarrow> str" where
  "get_type (SStr _) = ''string''"
| "get_type (SList _) = ''list''"
| "get_type (SOther t) = t"

fun unpack_str :: "starlark \<Rightarrow> str option" where
  "unpack_str (SStr s) = Some s"
| "unpack_str _ = None"

text \<open>\<open>Iterator::collect\<close> into a \<open>Result\<close>: the first error wins.\<close>

fun collect_results :: "('e + 'a) list \<Rightarrow> 'e + 'a list" where
  "collect_results [] = Inr []"
| "collect_results (r # rs) = try_bind r (\<lambda>a. try_bind (collect_results rs) (\<lambda>as. Inr (a # as)))"

definition string_item :: "(str \<Rightarrow> rule_error) \<Rightarrow> str \<Rightarrow> starlark \<Rightarrow> rule_error + str" where
  "string_item err what v =
     (case unpack_str v of Some s \<Rightarrow> Inr s | None \<Rightarrow> Inl (err (what @ '' (got '' @ get_type v @ '')'')))"

fun parse_pattern_token :: "starlark \<Rightarrow> rule_error + pattern_token" where
  "parse_pattern_token (SStr s) = Inr (Single s)"
| "parse_pattern_token (SList vs) =
     try_bind (collect_results (map (string_item InvalidPattern ''pattern alternative must be a string'') vs)) (\<lambda>ts.
       case ts of
         [] \<Rightarrow> Inl (InvalidPattern ''pattern alternatives cannot be empty'')
       | [single] \<Rightarrow> Inr (Single single)
       | _ \<Rightarrow> Inr (Alts ts))"
| "parse_pattern_token (SOther t) =
     Inl (InvalidPattern (''pattern element must be a string or list of strings (got '' @ t @ '')''))"

definition parse_pattern :: "starlark list \<Rightarrow> rule_error + pattern_token list" where
  "parse_pattern vs =
     try_bind (collect_results (map parse_pattern_token vs)) (\<lambda>ts.
       if ts = [] then Inl (InvalidPattern ''pattern cannot be empty'') else Inr ts)"

definition parse_string_example :: "rule_env \<Rightarrow> str \<Rightarrow> rule_error + str list" where
  "parse_string_example env raw =
     (case shlex_split env raw of
        None \<Rightarrow> Inl (InvalidExample ''example string has invalid shell syntax'')
      | Some ts \<Rightarrow> if ts = [] then Inl (InvalidExample ''example cannot be an empty string'') else Inr ts)"

definition parse_list_example :: "starlark list \<Rightarrow> rule_error + str list" where
  "parse_list_example vs =
     try_bind (collect_results (map (string_item InvalidExample ''example tokens must be strings'') vs)) (\<lambda>ts.
       if ts = [] then Inl (InvalidExample ''example cannot be an empty list'') else Inr ts)"

fun parse_example :: "rule_env \<Rightarrow> starlark \<Rightarrow> rule_error + str list" where
  "parse_example env (SStr raw) = parse_string_example env raw"
| "parse_example env (SList vs) = parse_list_example vs"
| "parse_example env (SOther t) =
     Inl (InvalidExample (''example must be a string or list of strings (got '' @ t @ '')''))"

definition parse_examples :: "rule_env \<Rightarrow> starlark list \<Rightarrow> rule_error + str list list" where
  "parse_examples env vs = collect_results (map (parse_example env) vs)"

definition optional_examples :: "rule_env \<Rightarrow> starlark list option \<Rightarrow> rule_error + str list list" where
  "optional_examples env examples = (case examples of None \<Rightarrow> Inr [] | Some vs \<Rightarrow> parse_examples env vs)"

record rule_call =
  call_pattern :: "starlark list"
  call_decision :: "str option"
  call_match :: "starlark list option"
  call_not_match :: "starlark list option"
  call_justification :: "str option"

definition required_decision :: "str option \<Rightarrow> rule_error + exec_decision" where
  "required_decision d =
     (case d of
        Some raw \<Rightarrow> parse_decision raw
      | None \<Rightarrow> Inl (InvalidRule ''prefix_rule requires an explicit `decision` (allow|deny|ask)''))"

definition optional_justification :: "str option \<Rightarrow> rule_error + str option" where
  "optional_justification j =
     (case j of
        Some raw \<Rightarrow> if trim raw = [] then Inl (InvalidRule ''justification cannot be empty'') else Inr (Some raw)
      | None \<Rightarrow> Inr None)"

definition head_rule :: "exec_decision \<Rightarrow> str option \<Rightarrow> pattern_token list \<Rightarrow> str \<Rightarrow> rule_error + prefix_rule" where
  "head_rule d j others h =
     try_bind (new_pattern h others) (\<lambda>pat. Inr \<lparr>rule_pattern = pat, rule_decision = d, justification = j\<rparr>)"

definition prefix_rule_builtin :: "rule_env \<Rightarrow> rule_call \<Rightarrow> policy \<Rightarrow> rule_error + policy" where
  "prefix_rule_builtin env call p =
     try_bind (required_decision (call_decision call)) (\<lambda>d.
     try_bind (optional_justification (call_justification call)) (\<lambda>j.
     try_bind (parse_pattern (call_pattern call)) (\<lambda>pattern_tokens.
     try_bind (optional_examples env (call_match call)) (\<lambda>matches.
     try_bind (optional_examples env (call_not_match call)) (\<lambda>not_matches.
     case pattern_tokens of
       [] \<Rightarrow> Inl (InvalidPattern ''pattern cannot be empty'')
     | first_token # remaining_tokens \<Rightarrow>
         try_bind (collect_results (map (head_rule d j remaining_tokens) (alternatives first_token))) (\<lambda>rules.
         try_bind (validate_not_match_examples env rules not_matches) (\<lambda>_.
         try_bind (validate_match_examples env rules matches) (\<lambda>_.
           Inr (fold add_rule rules p)))))))))"

text \<open>A policy file: its calls in order, stopping at the first that fails.\<close>

fun load_policy :: "rule_env \<Rightarrow> rule_call list \<Rightarrow> policy \<Rightarrow> rule_error + policy" where
  "load_policy env [] p = Inr p"
| "load_policy env (c # cs) p = try_bind (prefix_rule_builtin env c p) (load_policy env cs)"

subsection \<open>Aggregation\<close>

lemma most_restrictive_max [simp]: "most_restrictive a b = max a b"
  by (auto simp: most_restrictive_def max_def)

lemma foldl_max: "foldl max (d::'a::linorder) ds = Max (insert d (set ds))"
proof (induction ds arbitrary: d)
  case (Cons a ds)
  show ?case by (simp only: foldl.simps Cons.IH list.set) (cases ds; simp add: ac_simps)
qed simp

lemma reduce_most_restrictive:
  "reduce most_restrictive ds = (if ds = [] then None else Some (Max (set ds)))"
  by (cases ds) (simp_all add: reduce_def foldl_max foldl_cong [of _ _ _ _ most_restrictive max])

lemma from_matches_decision:
  "eval_decision (from_matches ms) = (if ms = [] then Forbidden else Max (match_decision ` set ms))"
  by (auto simp: from_matches_def reduce_most_restrictive)

subsection \<open>The policy as the list of its rules\<close>

definition scan :: "prefix_rule list \<Rightarrow> str list \<Rightarrow> (str list \<Rightarrow> exec_decision) option \<Rightarrow> rule_match list" where
  "scan rs cmd fallback =
     (let matched = List.map_filter (\<lambda>r. rule_matches r cmd) rs
      in case (matched, fallback) of
           ([], Some f) \<Rightarrow> [HeuristicsRuleMatch cmd (f cmd)]
         | _ \<Rightarrow> matched)"

abbreviation policy_of :: "prefix_rule list \<Rightarrow> policy" where
  "policy_of rs \<equiv> fold add_rule rs empty_policy"

lemma policy_of_lookup:
  "rules_by_program (policy_of rs) k
     = (let ks = filter (\<lambda>r. program r = k) rs in if ks = [] then None else Some ks)"
  by (induction rs rule: rev_induct) (auto simp: add_rule_def insert_rule_def empty_policy_def Let_def)

lemma matches_program: "rule_matches r cmd = Some m \<Longrightarrow> \<exists>others. cmd = program r # others"
  by (cases cmd) (auto simp: rule_matches_def matches_prefix_def is_prefix_match_def program_def Let_def split: if_splits)

text \<open>The lookup by the first word finds what a scan of every rule finds.\<close>

lemma matches_for_command_scan: "matches_for_command (policy_of rs) cmd fb = scan rs cmd fb"
proof (cases cmd)
  case Nil
  have "List.map_filter (\<lambda>r. rule_matches r []) rs = []"
    using matches_program by (induction rs) (fastforce simp: List.map_filter_def)+
  with Nil show ?thesis by (simp add: matches_for_command_def scan_def)
next
  case (Cons w ws)
  let ?ks = "filter (\<lambda>r. program r = w) rs"
  have not_program: "rule_matches r cmd = None" if "program r \<noteq> w" for r
    using that Cons matches_program [of r cmd] by (cases "rule_matches r cmd") auto
  have "List.map_filter (\<lambda>r. rule_matches r cmd) ?ks
      = List.map_filter (\<lambda>r. if program r = w then rule_matches r cmd else None) rs"
    by (rule map_filter_filter)
  also have "\<dots> = List.map_filter (\<lambda>r. rule_matches r cmd) rs"
    using Cons not_program by (intro map_filter_cong) auto
  finally have keyed: "(case rules_by_program (policy_of rs) w of None \<Rightarrow> [] | Some ks \<Rightarrow> List.map_filter (\<lambda>r. rule_matches r cmd) ks)
      = List.map_filter (\<lambda>r. rule_matches r cmd) rs"
    by (auto simp: policy_of_lookup Let_def List.map_filter_simps)
  show ?thesis using keyed unfolding Cons by (simp add: matches_for_command_def scan_def)
qed

lemma rule_is_match_iff: "rule_is_match r cmd \<longleftrightarrow> (\<exists>m. rule_matches r cmd = Some m)"
  by (simp add: rule_is_match_def rule_matches_def matches_prefix_def)

lemma scan_set_iff:
  "m \<in> set (scan rs cmd (Some f)) \<longleftrightarrow>
     (\<exists>r\<in>set rs. rule_matches r cmd = Some m)
     \<or> (\<forall>r\<in>set rs. \<not> rule_is_match r cmd) \<and> m = HeuristicsRuleMatch cmd (f cmd)"
proof (cases "List.map_filter (\<lambda>r. rule_matches r cmd) rs")
  case Nil
  then have "\<forall>r\<in>set rs. rule_matches r cmd = None" by (simp add: map_filter_Nil_iff)
  with Nil show ?thesis by (auto simp: scan_def rule_is_match_iff)
next
  case (Cons a as)
  then have "\<exists>r\<in>set rs. rule_is_match r cmd"
    by (metis rule_is_match_iff list.set_intros(1) set_map_filter)
  with Cons show ?thesis
    using set_map_filter [of m "\<lambda>r. rule_matches r cmd" rs] by (auto simp: scan_def)
qed

lemma scan_not_Nil [simp]: "scan rs cmd (Some f) \<noteq> []"
  by (auto simp: scan_def Let_def split: list.splits)

lemma matches_decision: "rule_matches r cmd = Some m \<Longrightarrow> match_decision m = rule_decision r"
  by (auto simp: rule_matches_def)

lemma scan_decisions:
  "match_decision ` set (scan rs cmd (Some f)) =
     (if \<exists>r\<in>set rs. rule_is_match r cmd
      then rule_decision ` {r \<in> set rs. rule_is_match r cmd} else {f cmd})"
proof (cases "\<exists>r\<in>set rs. rule_is_match r cmd")
  case True
  have "match_decision ` set (scan rs cmd (Some f)) = rule_decision ` {r \<in> set rs. rule_is_match r cmd}"
  proof (intro set_eqI iffI)
    fix d assume "d \<in> match_decision ` set (scan rs cmd (Some f))"
    then show "d \<in> rule_decision ` {r \<in> set rs. rule_is_match r cmd}"
      using True by (fastforce simp: scan_set_iff rule_is_match_iff dest: matches_decision)
  next
    fix d assume "d \<in> rule_decision ` {r \<in> set rs. rule_is_match r cmd}"
    then obtain r m where "r \<in> set rs" "rule_matches r cmd = Some m" "d = rule_decision r"
      by (auto simp: rule_is_match_iff)
    then show "d \<in> match_decision ` set (scan rs cmd (Some f))"
      using matches_decision by (force simp: scan_set_iff)
  qed
  with True show ?thesis by simp
next
  case False
  then have "set (scan rs cmd (Some f)) = {HeuristicsRuleMatch cmd (f cmd)}"
    by (auto simp: scan_set_iff rule_is_match_iff)
  with False show ?thesis by simp
qed

subsection \<open>Declared rules\<close>

lemma collect_results_Inr: "collect_results rs = Inr as \<longleftrightarrow> rs = map Inr as"
  by (induction rs arbitrary: as) (auto simp: try_bind_Inr_iff map_eq_Cons_conv Cons_eq_map_conv)

lemma validate_match_Inr:
  "validate_match_examples env rules es = Inr u \<longleftrightarrow> (\<forall>e\<in>set es. \<exists>r\<in>set rules. rule_is_match r e)"
  by (auto simp: validate_match_examples_def Let_def filter_empty_conv list_ex_iff)

lemma validate_not_match_Inr:
  "validate_not_match_examples env rules es = Inr u \<longleftrightarrow> (\<forall>e\<in>set es. \<forall>r\<in>set rules. \<not> rule_is_match r e)"
  by (induction env rules es rule: validate_not_match_examples.induct)
     (auto split: option.splits simp: find_None_iff dest: find_SomeD)

text \<open>What one call of the builtin promises of the rules it adds.\<close>

definition declares :: "rule_env \<Rightarrow> rule_call \<Rightarrow> prefix_rule list \<Rightarrow> bool" where
  "declares env call rs \<longleftrightarrow>
     (\<exists>d tok others ms ns.
        required_decision (call_decision call) = Inr d
      \<and> parse_pattern (call_pattern call) = Inr (tok # others)
      \<and> optional_examples env (call_match call) = Inr ms
      \<and> optional_examples env (call_not_match call) = Inr ns
      \<and> map program rs = alternatives tok
      \<and> (\<forall>r\<in>set rs. program r \<noteq> [] \<and> rule_decision r = d \<and> rest_words (rule_pattern r) = others)
      \<and> (\<forall>e\<in>set ms. \<exists>r\<in>set rs. rule_is_match r e)
      \<and> (\<forall>e\<in>set ns. \<forall>r\<in>set rs. \<not> rule_is_match r e))"

lemma head_rule_Inr:
  "head_rule d j others h = Inr r \<Longrightarrow>
     program r = h \<and> h \<noteq> [] \<and> rule_decision r = d \<and> rest_words (rule_pattern r) = others"
  by (auto simp: head_rule_def try_bind_Inr_iff new_pattern_def program_def split: if_splits)

lemma builtin_declares:
  assumes "prefix_rule_builtin env call p = Inr p'"
  shows "\<exists>rs. p' = fold add_rule rs p \<and> declares env call rs"
proof -
  from assms obtain d j ts ms ns where
    d: "required_decision (call_decision call) = Inr d" and pats: "parse_pattern (call_pattern call) = Inr ts"
    and ex: "optional_examples env (call_match call) = Inr ms" "optional_examples env (call_not_match call) = Inr ns"
    and rest: "(case ts of [] \<Rightarrow> Inl (InvalidPattern ''pattern cannot be empty'')
     | first_token # remaining_tokens \<Rightarrow>
         try_bind (collect_results (map (head_rule d j remaining_tokens) (alternatives first_token))) (\<lambda>rules.
         try_bind (validate_not_match_examples env rules ns) (\<lambda>_.
         try_bind (validate_match_examples env rules ms) (\<lambda>_.
           Inr (fold add_rule rules p))))) = Inr p'"
    unfolding prefix_rule_builtin_def try_bind_Inr_iff apply (elim exE conjE)
    apply (rule that)
    apply assumption+
    done
  from rest obtain tok others where ts: "ts = tok # others" by (cases ts) (simp only: list.case sum.distinct, blast)
  have pat: "parse_pattern (call_pattern call) = Inr (tok # others)" using pats unfolding ts .
  from rest obtain rs where
    rules: "map (head_rule d j others) (alternatives tok) = map Inr rs"
    and valid: "\<forall>e\<in>set ms. \<exists>r\<in>set rs. rule_is_match r e" "\<forall>e\<in>set ns. \<forall>r\<in>set rs. \<not> rule_is_match r e"
    and p': "fold add_rule rs p = p'"
    unfolding ts list.case try_bind_Inr_iff collect_results_Inr validate_match_Inr validate_not_match_Inr sum.inject
    by (elim exE conjE) (rule that; assumption)
  have len: "length (alternatives tok) = length rs" using arg_cong [OF rules, of length] by simp
  have head: "head_rule d j others (alternatives tok ! i) = Inr (rs ! i)" if "i < length rs" for i
    using arg_cong [OF rules, of "\<lambda>xs. xs ! i"] that len by simp
  have each: "program (rs ! i) = alternatives tok ! i \<and> alternatives tok ! i \<noteq> []
      \<and> rule_decision (rs ! i) = d \<and> rest_words (rule_pattern (rs ! i)) = others" if "i < length rs" for i
    by (rule head_rule_Inr [OF head [OF that]])
  have "map program rs = alternatives tok"
    by (rule nth_equalityI) (simp_all add: len each)
  moreover have "\<forall>r\<in>set rs. program r \<noteq> [] \<and> rule_decision r = d \<and> rest_words (rule_pattern r) = others"
    unfolding all_set_conv_all_nth using each by metis
  ultimately have "declares env call rs"
    unfolding declares_def by (intro exI conjI) (rule d pat ex valid | assumption)+
  then show ?thesis using p' by (intro exI conjI) (rule sym)
qed

lemma load_declares:
  "load_policy env calls p = Inr p' \<Longrightarrow>
     \<exists>rss. p' = fold add_rule (concat rss) p \<and> list_all2 (declares env) calls rss"
proof (induction env calls p rule: load_policy.induct)
  case (2 env c cs p)
  then obtain p1 where c: "prefix_rule_builtin env c p = Inr p1" and cs: "load_policy env cs p1 = Inr p'"
    by (auto simp: try_bind_Inr_iff)
  from builtin_declares [OF c] obtain rs where rs: "p1 = fold add_rule rs p" "declares env c rs" by blast
  from 2(1) [OF cs] obtain rss where "p' = fold add_rule (concat rss) p1" "list_all2 (declares env) cs rss" by blast
  with rs have "p' = fold add_rule (concat (rs # rss)) p \<and> list_all2 (declares env) (c # cs) (rs # rss)" by simp
  then show ?case by blast
qed auto

section \<open>Properties\<close>

text \<open>C12: a policy file that loads means what its calls say. It is a list of rules, declared call by
  call: each call adds one rule for each alternative of its first word, with the decision it names and
  with its remaining words, matches every \<open>match\<close> example and no \<open>not_match\<close> example.
  The lookup by a command's first word gives exactly what a scan of all of these rules in order
  gives.\<close>

theorem policy_file_refines_scan:
  assumes "load_policy env calls empty_policy = Inr p"
  shows "\<exists>rss. list_all2 (declares env) calls rss
    \<and> (\<forall>cmd fallback. matches_for_command p cmd fallback = scan (concat rss) cmd fallback)"
proof -
  from load_declares [OF assms] obtain rss where
    "p = policy_of (concat rss)" "list_all2 (declares env) calls rss" by blast
  then have "list_all2 (declares env) calls rss
    \<and> (\<forall>cmd fallback. matches_for_command p cmd fallback = scan (concat rss) cmd fallback)"
    using matches_for_command_scan by blast
  then show ?thesis by blast
qed

definition plain_env :: rule_env where
  "plain_env = \<lparr>shlex_split = (\<lambda>s. Some (split_whitespace s)), shlex_join = (\<lambda>ws. Some (join '' '' ws)),
     debug_rule = program\<rparr>"

definition git_call :: rule_call where
  "git_call = \<lparr>call_pattern = [SStr ''git'', SList [SStr ''push'', SStr ''fetch'']], call_decision = Some ''prompt'',
     call_match = Some [SStr ''git push origin''], call_not_match = Some [SStr ''git status''],
     call_justification = None\<rparr>"

theorem policy_file_refines_scan_witness:
  "\<exists>p rss. load_policy plain_env [git_call] empty_policy = Inr p \<and> list_all2 (declares plain_env) [git_call] rss"
proof -
  have "\<not> isl (load_policy plain_env [git_call] empty_policy)" by code_simp
  then obtain p where p: "load_policy plain_env [git_call] empty_policy = Inr p"
    by (cases "load_policy plain_env [git_call] empty_policy") auto
  from policy_file_refines_scan [OF p] p show ?thesis by blast
qed

text \<open>The most restrictive rule decides. Checking a list of commands is forbidden when the list is
  empty; otherwise the decision is the largest among the decisions of every rule that matches one of
  the commands and the fallback's decision for every command no rule matches, in the order allow,
  prompt, forbidden.\<close>

theorem most_restrictive_decides:
  "eval_decision (check_multiple (fold add_rule rs empty_policy) commands fallback) =
     (if commands = [] then Forbidden
      else Max ({rule_decision r | r c. r \<in> set rs \<and> c \<in> set commands \<and> rule_is_match r c}
             \<union> {fallback c | c. c \<in> set commands \<and> \<not> (\<exists>r\<in>set rs. rule_is_match r c)}))"
proof -
  let ?ms = "concat (map (\<lambda>c. scan rs c (Some fallback)) commands)"
  have "?ms = [] \<longleftrightarrow> commands = []" by (cases commands) simp_all
  moreover have "match_decision ` set ?ms = (\<Union>c\<in>set commands. match_decision ` set (scan rs c (Some fallback)))"
    by auto
  then have "match_decision ` set ?ms =
      {rule_decision r | r c. r \<in> set rs \<and> c \<in> set commands \<and> rule_is_match r c}
      \<union> {fallback c | c. c \<in> set commands \<and> \<not> (\<exists>r\<in>set rs. rule_is_match r c)}"
    unfolding scan_decisions by (auto split: if_splits)
  ultimately show ?thesis
    by (simp only: check_multiple_def matches_for_command_scan from_matches_decision)
qed

text \<open>A rule added to a policy never loosens what it says of a command a rule already matches.\<close>

lemma added_rule_tightens:
  assumes "evaluation_is_match (policy_check (policy_of rs) cmd f)"
  shows "eval_decision (policy_check (policy_of rs) cmd f) \<le> eval_decision (policy_check (policy_of (rs @ [r])) cmd f)"
proof -
  have m: "\<exists>r\<in>set rs. rule_is_match r cmd"
    using assms unfolding policy_check_def matches_for_command_scan
    by (fastforce simp: evaluation_is_match_def from_matches_def list_ex_iff scan_set_iff rule_is_match_iff)
  have *: "eval_decision (policy_check (policy_of rs') cmd f) = Max (rule_decision ` {r \<in> set rs'. rule_is_match r cmd})"
    if "\<exists>r\<in>set rs'. rule_is_match r cmd" for rs'
    using that by (simp add: policy_check_def matches_for_command_scan from_matches_decision scan_decisions
        del: fold_append)
  show ?thesis
    unfolding * [OF m] using m by (subst *) (auto intro!: Max_mono)
qed

end
