(* ===== verification/Modes.thy ===== *)
theory Modes
  imports Prelude
begin

section \<open>agent: application modes and settings\<close>

text \<open>
  The enumerations of \<open>agent/src/mode.rs\<close>: the application mode, the approval mode and the
  reasoning effort, with their parsers, labels and key cyclers. An unknown spelling is \<open>None\<close>.
\<close>

datatype app_mode = Agent | Yolo | Plan | Coordinator

definition setting_key :: "str \<Rightarrow> str" where
  "setting_key value = to_ascii_lowercase (trim value)"

definition app_mode_from_setting :: "str \<Rightarrow> app_mode option" where
  "app_mode_from_setting value =
     (let v = setting_key value
      in if v = ''agent'' then Some Agent
         else if v = ''plan'' then Some Plan
         else if v = ''yolo'' then Some Yolo
         else if v = ''coordinator'' \<or> v = ''coordinator_mode'' then Some Coordinator
         else None)"

fun app_mode_as_setting :: "app_mode \<Rightarrow> str" where
  "app_mode_as_setting Agent = ''agent''"
| "app_mode_as_setting Yolo = ''yolo''"
| "app_mode_as_setting Plan = ''plan''"
| "app_mode_as_setting Coordinator = ''coordinator''"

fun app_mode_label :: "app_mode \<Rightarrow> str" where
  "app_mode_label Agent = ''AGENT''"
| "app_mode_label Yolo = ''YOLO''"
| "app_mode_label Plan = ''PLAN''"
| "app_mode_label Coordinator = ''COORDINATOR''"

fun app_mode_cycle_next :: "app_mode \<Rightarrow> bool \<Rightarrow> app_mode" where
  "app_mode_cycle_next Agent _ = Plan"
| "app_mode_cycle_next Plan _ = Yolo"
| "app_mode_cycle_next Yolo include_coordinator = (if include_coordinator then Coordinator else Agent)"
| "app_mode_cycle_next Coordinator _ = Agent"

datatype approval_setting = ApproveAuto | ApproveSuggest | ApproveNever

fun approval_label :: "approval_setting \<Rightarrow> str" where
  "approval_label ApproveAuto = ''AUTO''"
| "approval_label ApproveSuggest = ''SUGGEST''"
| "approval_label ApproveNever = ''NEVER''"

definition approval_from_config_value :: "str \<Rightarrow> approval_setting option" where
  "approval_from_config_value value =
     (let v = setting_key value
      in if v = ''auto'' then Some ApproveAuto
         else if v \<in> set [''suggest'', ''suggested'', ''on-request'', ''untrusted''] then Some ApproveSuggest
         else if v \<in> set [''never'', ''deny'', ''denied''] then Some ApproveNever
         else None)"

datatype reasoning_effort = EffortOff | EffortLow | EffortMedium | EffortHigh | EffortAuto | EffortMax

definition effort_from_setting :: "str \<Rightarrow> reasoning_effort option" where
  "effort_from_setting value =
     (let v = setting_key value
      in if v \<in> set [''off'', ''disabled'', ''none'', ''false''] then Some EffortOff
         else if v \<in> set [''low'', ''minimal''] then Some EffortLow
         else if v \<in> set [''medium'', ''mid''] then Some EffortMedium
         else if v = ''high'' then Some EffortHigh
         else if v \<in> set [''auto'', ''automatic''] then Some EffortAuto
         else if v \<in> set [''max'', ''maximum'', ''xhigh''] then Some EffortMax
         else None)"

fun effort_as_setting :: "reasoning_effort \<Rightarrow> str" where
  "effort_as_setting EffortOff = ''off''"
| "effort_as_setting EffortLow = ''low''"
| "effort_as_setting EffortMedium = ''medium''"
| "effort_as_setting EffortHigh = ''high''"
| "effort_as_setting EffortAuto = ''auto''"
| "effort_as_setting EffortMax = ''max''"

fun effort_short_label :: "reasoning_effort \<Rightarrow> str" where
  "effort_short_label EffortOff = ''off''"
| "effort_short_label EffortLow = ''low''"
| "effort_short_label EffortMedium = ''med''"
| "effort_short_label EffortHigh = ''high''"
| "effort_short_label EffortAuto = ''auto''"
| "effort_short_label EffortMax = ''max''"

definition effort_api_value :: "reasoning_effort \<Rightarrow> str option" where
  "effort_api_value e = Some (effort_as_setting e)"

fun effort_cycle_next :: "reasoning_effort \<Rightarrow> reasoning_effort" where
  "effort_cycle_next EffortOff = EffortHigh"
| "effort_cycle_next EffortAuto = EffortOff"
| "effort_cycle_next EffortLow = EffortMax"
| "effort_cycle_next EffortMedium = EffortMax"
| "effort_cycle_next EffortHigh = EffortMax"
| "effort_cycle_next EffortMax = EffortOff"

subsection \<open>Settings read back\<close>

lemma app_mode_roundtrip: "app_mode_from_setting (app_mode_as_setting m) = Some m"
proof -
  have "list_all (\<lambda>m. app_mode_from_setting (app_mode_as_setting m) = Some m) [Agent, Yolo, Plan, Coordinator]"
    by code_simp
  then show ?thesis by (cases m) simp_all
qed

lemma effort_roundtrip: "effort_from_setting (effort_as_setting e) = Some e"
proof -
  have "list_all (\<lambda>e. effort_from_setting (effort_as_setting e) = Some e)
      [EffortOff, EffortLow, EffortMedium, EffortHigh, EffortAuto, EffortMax]"
    by code_simp
  then show ?thesis by (cases e) simp_all
qed

text \<open>From any mode the key reaches the agent mode within three presses.\<close>

lemma cycle_reaches_agent:
  "\<exists>n\<le>3. ((\<lambda>m. app_mode_cycle_next m c) ^^ n) m = Agent"
proof -
  have "\<exists>n\<in>set [0, 1, 2, 3]. ((\<lambda>m. app_mode_cycle_next m c) ^^ n) m = Agent"
    by (cases m; cases c) (simp_all add: numeral_3_eq_3 numeral_2_eq_2)
  then obtain n where "n \<in> set [0, 1, 2, 3]" and n: "((\<lambda>m. app_mode_cycle_next m c) ^^ n) m = Agent" by blast
  then have "n \<le> 3" by auto
  with n show ?thesis by blast
qed

text \<open>The effort cycler stays within the three tiers that behave differently.\<close>

lemma effort_cycle_tiers: "effort_cycle_next e \<in> {EffortOff, EffortHigh, EffortMax}"
  by (cases e) simp_all

end
