(* ===== verification/Dispatch.thy ===== *)
theory Dispatch
  imports Json Modes
begin

section \<open>agent-runtime: tool dispatch\<close>

text \<open>
  The planning of a turn's tool calls (\<open>agent-runtime/src/engine/dispatch.rs\<close>): which callers
  may invoke a tool, the parser of a \<open>multi_tool_use.parallel\<close> call, and the grouping of the calls
  into batches. A batch runs its calls concurrently and finishes before the next starts. A
  \<open>PathBuf\<close> is the list of its components, which is what Rust's equality of paths compares;
  the set of paths a group names is a list without order.
\<close>

type_synonym path = "str list"

datatype tool_error =
    InvalidInput str
  | MissingField str
  | PathEscape path
  | ExecutionFailed str
  | Timeout "64 word"
  | NotAvailable str
  | PermissionDenied str
  | Rejected str

record tool_result =
  content :: str
  success :: bool
  canonical :: "json option"
  result_metadata :: "json option"

definition tool_result_success :: "str \<Rightarrow> tool_result" where
  "tool_result_success c = \<lparr>content = c, success = True, canonical = None, result_metadata = None\<rparr>"

definition tool_result_error :: "str \<Rightarrow> tool_result" where
  "tool_result_error m = \<lparr>content = m, success = False, canonical = None, result_metadata = None\<rparr>"

subsection \<open>Callers and error texts\<close>

record tool_caller =
  caller_type :: str
  tool_id :: "str option"

text \<open>\<open>allowed\<close> is the \<open>allowed_callers\<close> field of a tool's definition; no definition is \<open>None\<close>.\<close>

definition caller_type_for_tool_use :: "tool_caller option \<Rightarrow> str" where
  "caller_type_for_tool_use caller = (case caller of None \<Rightarrow> ''direct'' | Some c \<Rightarrow> caller_type c)"

definition caller_allowed_for_tool :: "tool_caller option \<Rightarrow> str list option option \<Rightarrow> bool" where
  "caller_allowed_for_tool caller allowed =
     (let requested = caller_type_for_tool_use caller
      in case allowed of
           Some (Some callers) \<Rightarrow>
             if callers = [] then requested = ''direct'' else list_ex (\<lambda>item. item = requested) callers
         | _ \<Rightarrow> requested = ''direct'')"

text \<open>The \<open>Display\<close> of the two errors whose text is printed verbatim; \<open>show_path\<close> is \<open>Path::display\<close>.\<close>

definition format_tool_error :: "(path \<Rightarrow> str) \<Rightarrow> tool_error \<Rightarrow> str \<Rightarrow> str" where
  "format_tool_error show_path err tool_name =
     (case err of
        InvalidInput message \<Rightarrow> ''Invalid input for tool '' @ [CHR 0x27] @ tool_name @ [CHR 0x27] @ '': '' @ message
      | MissingField field \<Rightarrow>
          ''Tool '' @ [CHR 0x27] @ tool_name @ [CHR 0x27] @ '' is missing required field '' @ [CHR 0x27] @ field @ [CHR 0x27]
      | PathEscape p \<Rightarrow>
          ''Failed to resolve path '' @ [CHR 0x27] @ show_path p @ [CHR 0x27] @ '': path escapes workspace.''
      | ExecutionFailed message \<Rightarrow> message
      | Timeout seconds \<Rightarrow>
          ''Tool '' @ [CHR 0x27] @ tool_name @ [CHR 0x27] @ '' timed out after '' @ show_nat (unat seconds)
            @ ''s. Try a narrower scope or a longer timeout.''
      | NotAvailable message \<Rightarrow>
          (let lower = to_ascii_lowercase message
           in if contains_str lower ''current tool catalog'' \<or> contains_str lower ''did you mean:'' then message
              else ''Tool '' @ [CHR 0x27] @ tool_name @ [CHR 0x27] @ '' is not available: '' @ message
                     @ ''. Check mode, feature flags, or tool name.'')
      | PermissionDenied message \<Rightarrow>
          ''Tool '' @ [CHR 0x27] @ tool_name @ [CHR 0x27] @ '' was denied: '' @ message
            @ ''. Adjust approval mode or request permission.''
      | Rejected message \<Rightarrow> ''Tool call rejected: '' @ message)"

subsection \<open>The parallel call\<close>

definition normalize_parallel_tool_name :: "str \<Rightarrow> str" where
  "normalize_parallel_tool_name raw =
     (let name = trim raw
      in case find_map (\<lambda>p. strip_prefix p name) [''functions.'', ''tools.'', ''tool.''] of
           Some stripped \<Rightarrow> stripped
         | None \<Rightarrow> name)"

text \<open>\<open>get(a).or_else(get(b))..\<close>: the first key that is present.\<close>

definition get_first :: "str list \<Rightarrow> json \<Rightarrow> json option" where
  "get_first ks v = find_map (\<lambda>k. json_get k v) ks"

definition parse_parallel_call :: "json \<Rightarrow> tool_error + str \<times> json" where
  "parse_parallel_call item =
     (case Option.bind (get_first [''recipient_name'', ''tool_name'', ''name'', ''tool''] item) as_str of
        None \<Rightarrow> Inl (MissingField ''recipient_name'')
      | Some name \<Rightarrow>
          let params = (case get_first [''parameters'', ''input'', ''args'', ''arguments''] item of
                Some p \<Rightarrow> p | None \<Rightarrow> JObj [])
          in Inr (normalize_parallel_tool_name name, params))"

fun parse_calls :: "json list \<Rightarrow> tool_error + (str \<times> json) list" where
  "parse_calls [] = Inr []"
| "parse_calls (item # items) =
     try_bind (parse_parallel_call item) (\<lambda>c. try_bind (parse_calls items) (\<lambda>cs. Inr (c # cs)))"

definition parse_parallel_tool_calls :: "json \<Rightarrow> tool_error + (str \<times> json) list" where
  "parse_parallel_tool_calls input =
     (case Option.bind (json_get ''tool_uses'' input) as_array of
        None \<Rightarrow> Inl (MissingField ''tool_uses'')
      | Some [] \<Rightarrow> Inl (InvalidInput ''multi_tool_use.parallel requires at least one tool call'')
      | Some items \<Rightarrow> parse_calls items)"

subsection \<open>Plans\<close>

record tool_plan =
  plan_index :: nat
  call_id :: str
  tool_name :: str
  call_input :: json
  caller :: "tool_caller option"
  interactive :: bool
  approval_required :: bool
  approval_description :: str
  supports_parallel :: bool
  read_only :: bool
  writes_files :: bool
  destructive :: bool
  touched_paths :: "path list"
  stream_early_start_safe :: bool
  blocked_error :: "tool_error option"
  guard_result :: "tool_result option"

datatype tool_batch = Parallel "tool_plan list" | Serial tool_plan

definition MAX_PARALLEL_BATCH :: nat where
  "MAX_PARALLEL_BATCH = 10"

definition REQUEST_USER_INPUT_NAME :: str where
  "REQUEST_USER_INPUT_NAME = ''request_user_input''"

definition tool_plan_is_parallel_safe :: "tool_plan \<Rightarrow> bool" where
  "tool_plan_is_parallel_safe p =
     (if interactive p \<or> destructive p then False
      else if tool_name p = REQUEST_USER_INPUT_NAME then False
      else if writes_files p \<and> touched_paths p = [] then False
      else read_only p \<or> writes_files p \<or> supports_parallel p)"

text \<open>\<open>HashSet::insert\<close> over an iterator of paths, stopping at the first path seen before.\<close>

fun all_claimed :: "path list \<Rightarrow> path list \<Rightarrow> bool" where
  "all_claimed claimed [] = True"
| "all_claimed claimed (p # ps) = (if p \<in> set claimed then False else all_claimed (p # claimed) ps)"

definition should_parallelize_tool_batch :: "tool_plan list \<Rightarrow> bool" where
  "should_parallelize_tool_batch plans =
     (if plans = [] \<or> \<not> list_all tool_plan_is_parallel_safe plans then False
      else all_claimed [] (concat (map touched_paths plans)))"

definition batch_stays_parallel_safe_with :: "tool_plan list \<Rightarrow> nat \<Rightarrow> path list \<Rightarrow> bool" where
  "batch_stays_parallel_safe_with plans index rewritten_paths =
     (case find (\<lambda>p. plan_index p = index) plans of
        None \<Rightarrow> False
      | Some t \<Rightarrow>
          if writes_files t \<and> rewritten_paths = [] then False
          else all_claimed []
                 (concat (map (\<lambda>p. if plan_index p = index then rewritten_paths else touched_paths p) plans)))"

subsection \<open>Grouping\<close>

record parallel_group =
  group_plans :: "tool_plan list"
  group_paths :: "path list"
  unbounded_reader :: bool
  has_writer :: bool

definition empty_group :: parallel_group where
  "empty_group = \<lparr>group_plans = [], group_paths = [], unbounded_reader = False, has_writer = False\<rparr>"

definition group_accepts :: "parallel_group \<Rightarrow> tool_plan \<Rightarrow> bool" where
  "group_accepts g p =
     (if \<not> tool_plan_is_parallel_safe p \<or> MAX_PARALLEL_BATCH \<le> length (group_plans g) then False
      else if writes_files p \<and> unbounded_reader g then False
      else if touched_paths p = [] \<and> has_writer g then False
      else \<not> list_ex (\<lambda>path. path \<in> set (group_paths g)) (touched_paths p))"

definition group_push :: "tool_plan \<Rightarrow> parallel_group \<Rightarrow> parallel_group" where
  "group_push p g =
     \<lparr>group_plans = group_plans g @ [p], group_paths = group_paths g @ touched_paths p,
      unbounded_reader = unbounded_reader g \<or> touched_paths p = [], has_writer = has_writer g \<or> writes_files p\<rparr>"

text \<open>\<open>ParallelGroup::take\<close> empties the group and returns its plans.\<close>

definition group_take :: "parallel_group \<Rightarrow> tool_plan list \<times> parallel_group" where
  "group_take g = (group_plans g, empty_group)"

fun plan_batches_from :: "parallel_group \<Rightarrow> tool_plan list \<Rightarrow> tool_batch list" where
  "plan_batches_from g [] =
     (if group_plans g \<noteq> [] then [Parallel (fst (group_take g))] else [])"
| "plan_batches_from g (p # ps) =
     (if group_accepts g p then plan_batches_from (group_push p g) ps
      else
        let (flushed, g') = (if group_plans g \<noteq> [] then ([Parallel (fst (group_take g))], snd (group_take g)) else ([], g))
        in flushed @ (if tool_plan_is_parallel_safe p then plan_batches_from (group_push p g') ps
                      else Serial p # plan_batches_from g' ps))"

definition plan_tool_execution_batches :: "tool_plan list \<Rightarrow> tool_batch list" where
  "plan_tool_execution_batches plans = plan_batches_from empty_group plans"

subsection \<open>Turn policies\<close>

definition should_stop_after_plan_tool :: "app_mode \<Rightarrow> str \<Rightarrow> tool_error + tool_result \<Rightarrow> bool" where
  "should_stop_after_plan_tool mode name result \<longleftrightarrow>
     mode = Plan \<and> name = ''exit_plan_mode'' \<and> \<not> isl result"

definition direct_plan_needles :: "str list" where
  "direct_plan_needles =
     [''quick plan'', ''short plan'', ''simple plan'', ''3-step plan'', ''3 step plan'', ''three-step plan'',
      ''three step plan'', ''high-level plan'', ''high level plan'', ''give me a plan'', ''make a plan'',
      ''outline a plan'', ''draft a plan'']"

definition exploration_needles :: "str list" where
  "exploration_needles =
     [''inspect the repo'', ''inspect the code'', ''explore the repo'', ''search the repo'', ''read the code'',
      ''review the code'', ''analyze the code'', ''investigate'', ''look through'', ''understand the current'',
      ''ground it in the codebase'', ''based on the codebase'']"

definition should_force_update_plan_first :: "app_mode \<Rightarrow> str \<Rightarrow> bool" where
  "should_force_update_plan_first mode text =
     (if mode \<noteq> Plan then False
      else let lower = to_ascii_lowercase text
           in if \<not> list_ex (contains_str lower) direct_plan_needles then False
              else \<not> list_ex (contains_str lower) exploration_needles)"

definition MCP_PARALLEL_SAFE_TOOLS :: "str list" where
  "MCP_PARALLEL_SAFE_TOOLS =
     [''list_mcp_resources'', ''list_mcp_resource_templates'', ''mcp_read_resource'', ''read_mcp_resource'',
      ''mcp_get_prompt'']"

definition mcp_tool_is_parallel_safe :: "str \<Rightarrow> bool" where
  "mcp_tool_is_parallel_safe name \<longleftrightarrow> name \<in> set MCP_PARALLEL_SAFE_TOOLS"

definition mcp_tool_is_read_only :: "str \<Rightarrow> bool" where
  "mcp_tool_is_read_only name \<longleftrightarrow> name \<in> set MCP_PARALLEL_SAFE_TOOLS"

subsection \<open>What a batch promises\<close>

fun batch_members :: "tool_batch \<Rightarrow> tool_plan list" where
  "batch_members (Parallel ps) = ps"
| "batch_members (Serial p) = [p]"

definition paths_apart :: "tool_plan \<Rightarrow> tool_plan \<Rightarrow> bool" where
  "paths_apart a b \<longleftrightarrow> set (touched_paths a) \<inter> set (touched_paths b) = {}"

text \<open>No two members name one file, and no writer runs beside a call that names no file.\<close>

definition race_free :: "tool_plan list \<Rightarrow> bool" where
  "race_free ps \<longleftrightarrow>
     sorted_wrt paths_apart ps
     \<and> ((\<exists>p\<in>set ps. writes_files p) \<longrightarrow> (\<forall>p\<in>set ps. touched_paths p \<noteq> []))"

fun batch_ok :: "tool_batch \<Rightarrow> bool" where
  "batch_ok (Parallel ps) \<longleftrightarrow>
     ps \<noteq> [] \<and> length ps \<le> MAX_PARALLEL_BATCH \<and> (\<forall>p\<in>set ps. tool_plan_is_parallel_safe p) \<and> race_free ps"
| "batch_ok (Serial p) \<longleftrightarrow> \<not> tool_plan_is_parallel_safe p"

text \<open>Why a call cannot join a batch.\<close>

definition cannot_join :: "tool_plan list \<Rightarrow> tool_plan \<Rightarrow> bool" where
  "cannot_join qs p \<longleftrightarrow>
     length qs = MAX_PARALLEL_BATCH \<or> (\<exists>q\<in>set qs. \<not> paths_apart q p)
     \<or> (writes_files p \<and> (\<exists>q\<in>set qs. touched_paths q = []))
     \<or> (touched_paths p = [] \<and> (\<exists>q\<in>set qs. writes_files q))"

definition group_ok :: "parallel_group \<Rightarrow> bool" where
  "group_ok g \<longleftrightarrow>
     set (group_paths g) = (\<Union>p\<in>set (group_plans g). set (touched_paths p))
     \<and> unbounded_reader g = (\<exists>p\<in>set (group_plans g). touched_paths p = [])
     \<and> has_writer g = (\<exists>p\<in>set (group_plans g). writes_files p)
     \<and> length (group_plans g) \<le> MAX_PARALLEL_BATCH
     \<and> (\<forall>p\<in>set (group_plans g). tool_plan_is_parallel_safe p)
     \<and> race_free (group_plans g)"

lemma empty_group_ok [simp]: "group_ok empty_group"
  by (simp add: group_ok_def empty_group_def race_free_def)

lemma safe_writer_names: "tool_plan_is_parallel_safe p \<Longrightarrow> writes_files p \<Longrightarrow> touched_paths p \<noteq> []"
  by (auto simp: tool_plan_is_parallel_safe_def split: if_splits)

lemma race_free_snoc:
  assumes "race_free qs" and "\<forall>q\<in>set qs. paths_apart q p" and "tool_plan_is_parallel_safe p"
    and "writes_files p \<Longrightarrow> \<forall>q\<in>set qs. touched_paths q \<noteq> []"
    and "touched_paths p = [] \<Longrightarrow> \<forall>q\<in>set qs. \<not> writes_files q"
  shows "race_free (qs @ [p])"
proof -
  have "touched_paths r \<noteq> []" if "w \<in> set (qs @ [p])" "writes_files w" "r \<in> set (qs @ [p])" for w r
  proof (cases "w = p")
    case True
    then show ?thesis using that assms(4) safe_writer_names [OF assms(3)] by auto
  next
    case False
    then have "w \<in> set qs" using that by simp
    then show ?thesis using that assms(1, 5) by (auto simp: race_free_def)
  qed
  moreover have "sorted_wrt paths_apart (qs @ [p])"
    using assms(1, 2) by (simp add: race_free_def sorted_wrt_append)
  ultimately show ?thesis unfolding race_free_def by blast
qed

lemma accepts_iff:
  assumes "group_ok g" and "tool_plan_is_parallel_safe p"
  shows "group_accepts g p \<longleftrightarrow> \<not> cannot_join (group_plans g) p"
proof -
  have "(list_ex (\<lambda>path. path \<in> set (group_paths g)) (touched_paths p)) \<longleftrightarrow> (\<exists>q\<in>set (group_plans g). \<not> paths_apart q p)"
    using assms(1) by (auto simp: group_ok_def list_ex_iff paths_apart_def)
  then show ?thesis
    using assms by (auto simp: group_accepts_def cannot_join_def group_ok_def)
qed

lemma push_ok:
  assumes "group_ok g" and "tool_plan_is_parallel_safe p" and "\<not> cannot_join (group_plans g) p"
  shows "group_ok (group_push p g)"
proof -
  have "race_free (group_plans g @ [p])"
    using assms by (intro race_free_snoc) (auto simp: group_ok_def cannot_join_def)
  moreover have "length (group_plans g) < MAX_PARALLEL_BATCH"
    using assms by (simp add: group_ok_def cannot_join_def)
  ultimately show ?thesis
    using assms(1, 2) by (auto simp: group_ok_def group_push_def)
qed

lemma accepts_safe: "group_accepts g p \<Longrightarrow> tool_plan_is_parallel_safe p"
  by (simp add: group_accepts_def split: if_splits)

lemma cannot_join_Nil [simp]: "\<not> cannot_join [] p"
  by (simp add: cannot_join_def MAX_PARALLEL_BATCH_def)

lemma group_plans_simps [simp]:
  "group_plans empty_group = []" "group_plans (group_push p g) = group_plans g @ [p]"
  by (simp_all add: empty_group_def group_push_def)

lemma empty_group_unique: "group_ok g \<Longrightarrow> group_plans g = [] \<Longrightarrow> set (group_paths g) = {}"
  by (simp add: group_ok_def)

text \<open>One step of the loop, by what it does with the call.\<close>

lemma plan_batches_cases:
  assumes "group_ok g"
  obtains
    (join) "plan_batches_from g (p # ps) = plan_batches_from (group_push p g) ps" "group_ok (group_push p g)"
  | (fresh) "plan_batches_from g (p # ps) = Parallel (group_plans g) # plan_batches_from (group_push p empty_group) ps"
      "group_plans g \<noteq> []" "cannot_join (group_plans g) p" "group_ok (group_push p empty_group)"
  | (flush) "plan_batches_from g (p # ps) = Parallel (group_plans g) # Serial p # plan_batches_from empty_group ps"
      "group_plans g \<noteq> []" "\<not> tool_plan_is_parallel_safe p"
  | (serial) "plan_batches_from g (p # ps) = Serial p # plan_batches_from g ps"
      "group_plans g = []" "\<not> tool_plan_is_parallel_safe p"
proof (cases "tool_plan_is_parallel_safe p")
  case safe: True
  show thesis
  proof (cases "cannot_join (group_plans g) p")
    case False
    then have "group_accepts g p" using accepts_iff assms safe by blast
    then show thesis using False assms safe push_ok by (intro join) simp_all
  next
    case True
    then have "\<not> group_accepts g p" and "group_plans g \<noteq> []" using accepts_iff assms safe by force+
    then show thesis using True safe push_ok [OF empty_group_ok, of p] by (intro fresh) (simp_all add: group_take_def)
  qed
next
  case False
  then have "\<not> group_accepts g p" using accepts_safe by blast
  with False serial flush show thesis
    by (cases "group_plans g = []") (simp_all add: group_take_def)
qed

lemma group_batch_ok: "group_ok g \<Longrightarrow> group_plans g \<noteq> [] \<Longrightarrow> batch_ok (Parallel (group_plans g))"
  by (simp add: group_ok_def)

lemma plan_batches_from_ok:
  "group_ok g \<Longrightarrow>
     concat (map batch_members (plan_batches_from g ps)) = group_plans g @ ps
     \<and> (\<forall>b\<in>set (plan_batches_from g ps). batch_ok b)"
proof (induction ps arbitrary: g)
  case Nil
  then show ?case using group_batch_ok [of g] by (simp add: group_take_def del: batch_ok.simps)
next
  case (Cons p ps)
  note IH = Cons.IH
  from Cons.prems show ?case
  proof (cases rule: plan_batches_cases [of g p ps])
    case join
    then show ?thesis using IH [of "group_push p g"] by simp
  next
    case fresh
    then show ?thesis
      using IH [of "group_push p empty_group"] group_batch_ok [OF Cons.prems] by (simp del: batch_ok.simps)
  next
    case flush
    then show ?thesis
      using IH [of empty_group] group_batch_ok [OF Cons.prems] by (simp del: batch_ok.simps(1))
  next
    case serial
    then show ?thesis using IH [of g] Cons.prems by simp
  qed
qed

text \<open>The first batch starts with the group being assembled.\<close>

lemma plan_batches_from_starts:
  "group_ok g \<Longrightarrow> group_plans g \<noteq> [] \<Longrightarrow>
     \<exists>more bs. plan_batches_from g ps = Parallel (group_plans g @ more) # bs"
proof (induction ps arbitrary: g)
  case (Cons p ps)
  from Cons.prems(1) show ?case
  proof (cases rule: plan_batches_cases [of g p ps])
    case join
    then show ?thesis using Cons.IH [of "group_push p g"] by auto
  qed (use Cons.prems in auto)
qed (simp add: group_take_def)

fun adjacent_ok :: "tool_batch list \<Rightarrow> bool" where
  "adjacent_ok (Parallel qs # Parallel (p # rs) # bs) \<longleftrightarrow> cannot_join qs p \<and> adjacent_ok (Parallel (p # rs) # bs)"
| "adjacent_ok (b # bs) = adjacent_ok bs"
| "adjacent_ok [] = True"

lemma plan_batches_from_adjacent: "group_ok g \<Longrightarrow> adjacent_ok (plan_batches_from g ps)"
proof (induction ps arbitrary: g)
  case (Cons p ps)
  from Cons.prems show ?case
  proof (cases rule: plan_batches_cases [of g p ps])
    case join
    then show ?thesis using Cons.IH by simp
  next
    case fresh
    obtain more bs where rest: "plan_batches_from (group_push p empty_group) ps = Parallel (p # more) # bs"
      using plan_batches_from_starts [OF fresh(4), of ps] by auto
    then show ?thesis using fresh Cons.IH [OF fresh(4)] by simp
  next
    case flush
    then show ?thesis using Cons.IH [of empty_group] by simp
  next
    case serial
    then show ?thesis using Cons.IH [OF Cons.prems] by simp
  qed
qed (simp add: group_take_def)

lemma adjacent_ok_tail: "adjacent_ok (b # bs) \<Longrightarrow> adjacent_ok bs"
  by (induction "b # bs" rule: adjacent_ok.induct) auto

lemma adjacent_ok_split: "adjacent_ok (us @ Parallel qs # Parallel (p # rs) # vs) \<Longrightarrow> cannot_join qs p"
  by (induction us) (auto dest: adjacent_ok_tail)

section \<open>Properties\<close>

text \<open>C13: the batches keep the order and exclude races. Read batch after batch, they are exactly the
  turn's calls in their order. A concurrent batch has one to ten calls, each eligible; no two of them
  name the same file, and when one writes files, none has an unbounded reach. A call stands alone
  exactly when it is not eligible.\<close>

theorem batches_in_order_without_races:
  "concat (map batch_members (plan_tool_execution_batches plans)) = plans
   \<and> list_all batch_ok (plan_tool_execution_batches plans)"
  using plan_batches_from_ok [of empty_group plans] by (simp add: plan_tool_execution_batches_def list_all_iff)

text \<open>Concurrency is given up only for a reason. When one concurrent batch follows another, the first
  is full, or the call that opens the second names a file a call of the first names, or one of the
  two writes while the other names no file.\<close>

theorem batch_split_has_reason:
  assumes "plan_tool_execution_batches plans = us @ Parallel qs # Parallel (p # rs) # vs"
  shows "length qs = MAX_PARALLEL_BATCH \<or> (\<exists>q\<in>set qs. set (touched_paths q) \<inter> set (touched_paths p) \<noteq> {})
    \<or> (writes_files p \<and> (\<exists>q\<in>set qs. touched_paths q = []))
    \<or> (touched_paths p = [] \<and> (\<exists>q\<in>set qs. writes_files q))"
proof -
  have "cannot_join qs p"
    using plan_batches_from_adjacent [OF empty_group_ok, of plans] assms
    by (intro adjacent_ok_split [of us qs p rs vs]) (simp add: plan_tool_execution_batches_def)
  then show ?thesis by (simp add: cannot_join_def paths_apart_def)
qed

definition write_plan :: "nat \<Rightarrow> path \<Rightarrow> tool_plan" where
  "write_plan i p = \<lparr>plan_index = i, call_id = [], tool_name = ''apply_patch'', call_input = JNull, caller = None,
     interactive = False, approval_required = False, approval_description = [], supports_parallel = False,
     read_only = False, writes_files = True, destructive = False, touched_paths = [p],
     stream_early_start_safe = False, blocked_error = None, guard_result = None\<rparr>"

theorem batch_split_has_reason_witness:
  "\<exists>q\<in>set [write_plan 0 [''a''], write_plan 1 [''b'']]. set (touched_paths q) \<inter> set (touched_paths (write_plan 2 [''a''])) \<noteq> {}"
proof -
  let ?a = "write_plan 0 [''a'']" and ?b = "write_plan 1 [''b'']" and ?c = "write_plan 2 [''a'']"
  have "plan_tool_execution_batches [?a, ?b, ?c] = [] @ Parallel [?a, ?b] # Parallel (?c # []) # []"
    by code_simp
  from batch_split_has_reason [OF this] show ?thesis
    by (simp add: MAX_PARALLEL_BATCH_def write_plan_def)
qed

subsection \<open>Every concurrent batch is one the checks on a whole batch accept\<close>

lemma all_claimed_iff: "all_claimed claimed ps \<longleftrightarrow> distinct ps \<and> set ps \<inter> set claimed = {}"
  by (induction ps arbitrary: claimed) auto

lemma distinct_concat_apart:
  "distinct (concat (map touched_paths ps)) \<longleftrightarrow>
     (\<forall>p\<in>set ps. distinct (touched_paths p)) \<and> sorted_wrt paths_apart ps"
  by (induction ps) (auto simp: paths_apart_def)

lemma parallel_batch_parallelizes:
  assumes "Parallel ps \<in> set (plan_tool_execution_batches plans)" and "\<forall>p\<in>set ps. distinct (touched_paths p)"
  shows "should_parallelize_tool_batch ps"
proof -
  have "batch_ok (Parallel ps)"
    using plan_batches_from_ok [OF empty_group_ok, of plans] assms(1) unfolding plan_tool_execution_batches_def by blast
  then show ?thesis
    using assms(2) by (auto simp: should_parallelize_tool_batch_def all_claimed_iff distinct_concat_apart race_free_def list_all_iff)
qed

text \<open>A call that names one file twice is eligible, and \<open>plan_tool_execution_batches\<close> runs it in a
  concurrent batch, but \<open>should_parallelize_tool_batch\<close> refuses that batch.\<close>

lemma duplicate_path_refused:
  "let p = (write_plan 0 [''a''])\<lparr>touched_paths := [[''a''], [''a'']]\<rparr>
   in plan_tool_execution_batches [p] = [Parallel [p]] \<and> \<not> should_parallelize_tool_batch [p]"
  by code_simp

subsection \<open>Rewritten calls\<close>

text \<open>The check of a batch whose calls an extension rewrote (\<open>engine/turn/batches.rs\<close>): each rewritten
  writer in turn is held against the paths the other calls had before any rewrite. The result is
  the list of the indices that are refused.\<close>

definition rewrite_blocks :: "tool_plan list \<Rightarrow> (nat \<times> path list) list \<Rightarrow> nat list" where
  "rewrite_blocks plans rewrites =
     concat (map (\<lambda>p.
       case map_of rewrites (plan_index p) of
         None \<Rightarrow> []
       | Some rewritten_paths \<Rightarrow>
           if writes_files p \<and> \<not> batch_stays_parallel_safe_with plans (plan_index p) rewritten_paths
           then [plan_index p] else []) plans)"

definition rewritten :: "(nat \<times> path list) list \<Rightarrow> tool_plan \<Rightarrow> tool_plan" where
  "rewritten rewrites p =
     (case map_of rewrites (plan_index p) of None \<Rightarrow> p | Some ps \<Rightarrow> p\<lparr>touched_paths := ps\<rparr>)"

text \<open>One rewritten writer that is let through leaves the files of the batch apart.\<close>

lemma single_rewrite_apart:
  assumes "distinct (map plan_index plans)" and "p \<in> set plans" and "writes_files p"
    and "rewrite_blocks plans [(plan_index p, ps)] = []"
  shows "ps \<noteq> [] \<and> sorted_wrt paths_apart (map (rewritten [(plan_index p, ps)]) plans)"
proof -
  have found: "find (\<lambda>q. plan_index q = plan_index p) plans = Some p"
    using assms(1, 2)
  proof (induction plans)
    case (Cons a plans)
    then show ?case by (cases "a = p") (auto simp: image_iff)
  qed simp
  have safe: "batch_stays_parallel_safe_with plans (plan_index p) ps"
  proof (rule ccontr)
    assume "\<not> batch_stays_parallel_safe_with plans (plan_index p) ps"
    then have "plan_index p \<in> set (rewrite_blocks plans [(plan_index p, ps)])"
      using assms(2, 3) by (auto simp: rewrite_blocks_def intro!: bexI [of _ p])
    with assms(4) show False by simp
  qed
  have paths: "map (\<lambda>q. if plan_index q = plan_index p then ps else touched_paths q) plans
      = map touched_paths (map (rewritten [(plan_index p, ps)]) plans)"
    by (simp add: rewritten_def)
  have "ps \<noteq> []" and "all_claimed [] (concat (map (\<lambda>q. if plan_index q = plan_index p then ps else touched_paths q) plans))"
    using safe found assms(3) by (auto simp: batch_stays_parallel_safe_with_def split: if_splits)
  then show ?thesis unfolding paths by (simp only: all_claimed_iff distinct_concat_apart simp_thms)
qed

text \<open>Two writers rewritten to the same file are both let through, and run concurrently.\<close>

lemma two_rewrites_collide:
  "let plans = [write_plan 0 [''a''], write_plan 1 [''b'']]; rewrites = [(0, [[''c'']]), (1, [[''c'']])]
   in plan_tool_execution_batches plans = [Parallel plans]
    \<and> rewrite_blocks plans rewrites = []
    \<and> \<not> should_parallelize_tool_batch (map (rewritten rewrites) plans)"
  by code_simp

end
