(* ===== verification/LoopGuard.thy ===== *)
theory LoopGuard
  imports Json "HOL-Library.List_Lexorder" "HOL-Library.Char_ord" "HOL-Library.Multiset"
begin

section \<open>agent-runtime: loop guard\<close>

text \<open>
  The counters of repeated calls, failures and steers that stop a turn which repeats itself
  (\<open>agent-runtime/src/engine/loop_guard.rs\<close>). \<open>serde_json\<close>'s text of a string
  (\<open>quote\<close>) and of a number (\<open>num\<close>) and the default hasher are arguments.
\<close>

subsection \<open>Canonical arguments\<close>

text \<open>\<open>sort_by\<close> on the keys: a stable sort in byte order.\<close>

function write_canonical_json :: "(str \<Rightarrow> str) \<Rightarrow> (json \<Rightarrow> str) \<Rightarrow> json \<Rightarrow> str" where
  "write_canonical_json quote num JNull = ''null''"
| "write_canonical_json quote num (JBool b) = (if b then ''true'' else ''false'')"
| "write_canonical_json quote num (JInt n) = num (JInt n)"
| "write_canonical_json quote num (JFloat s) = num (JFloat s)"
| "write_canonical_json quote num (JStr s) = quote s"
| "write_canonical_json quote num (JArr vs) =
     ''['' @ join '','' (map (write_canonical_json quote num) vs) @ '']''"
| "write_canonical_json quote num (JObj es) =
     ''{'' @ join '','' (map (\<lambda>(k, v). quote k @ '':'' @ write_canonical_json quote num v) (sort_key fst es)) @ ''}''"
  by pat_completeness auto

termination
proof (relation "measure (\<lambda>(_, _, v). size v)")
  fix quote :: "str \<Rightarrow> str" and num :: "json \<Rightarrow> str" and es :: "(str \<times> json) list" and x k v
  assume "x \<in> set (sort_key fst es)" and "(k, v) = x"
  then have "(k, v) \<in> set es" by simp
  then show "((quote, num, v), (quote, num, JObj es)) \<in> measure (\<lambda>(_, _, v). size v)"
    by (induction es) auto
qed (auto simp: less_Suc_eq_le size_list_estimation')

definition hash_args :: "(str \<Rightarrow> 64 word) \<Rightarrow> (str \<Rightarrow> str) \<Rightarrow> (json \<Rightarrow> str) \<Rightarrow> json \<Rightarrow> 64 word" where
  "hash_args hash quote num args = hash (write_canonical_json quote num args)"

subsection \<open>Attempts and outcomes\<close>

definition IDENTICAL_CALL_BLOCK_THRESHOLD :: "32 word" where
  "IDENTICAL_CALL_BLOCK_THRESHOLD = 3"

definition FAILURE_WARN_THRESHOLD :: "32 word" where
  "FAILURE_WARN_THRESHOLD = 3"

definition FAILURE_HALT_THRESHOLD :: "32 word" where
  "FAILURE_HALT_THRESHOLD = 8"

definition MAX_TURN_STEERS :: "32 word" where
  "MAX_TURN_STEERS = 3"

datatype attempt_decision = Proceed | Block str

datatype outcome_decision = Continue | Warn str | Halt str

record loop_guard =
  call_counts :: "str \<times> 64 word \<rightharpoonup> 32 word"
  failure_counts :: "str \<rightharpoonup> 32 word"
  turn_steers :: "32 word"

definition new_guard :: loop_guard where
  "new_guard = \<lparr>call_counts = Map.empty, failure_counts = Map.empty, turn_steers = 0\<rparr>"

text \<open>\<open>saturating_add(1)\<close> on a \<open>u32\<close>.\<close>

definition sat_incr :: "32 word \<Rightarrow> 32 word" where
  "sat_incr w = (if w = - 1 then w else w + 1)"

definition show_word :: "32 word \<Rightarrow> str" where
  "show_word w = show_nat (unat w)"

text \<open>\<open>key_hash\<close> is \<open>hash_args\<close> with its arguments fixed.\<close>

definition record_attempt :: "(json \<Rightarrow> 64 word) \<Rightarrow> str \<Rightarrow> json \<Rightarrow> loop_guard \<Rightarrow> attempt_decision \<times> loop_guard" where
  "record_attempt key_hash tool args g =
     (let key = (tool, key_hash args);
          count = sat_incr (case call_counts g key of None \<Rightarrow> 0 | Some c \<Rightarrow> c);
          g' = g\<lparr>call_counts := (call_counts g)(key \<mapsto> count)\<rparr>
      in (if IDENTICAL_CALL_BLOCK_THRESHOLD \<le> count
          then Block (''This call (`'' @ tool @ ''`) has already been made '' @ show_word count
                      @ '' times this turn with the same arguments '' @ [CHR 0xE2, CHR 0x80, CHR 0x94] @ '' try a different approach or change the arguments.'')
          else Proceed, g'))"

definition record_outcome :: "str \<Rightarrow> bool \<Rightarrow> loop_guard \<Rightarrow> outcome_decision \<times> loop_guard" where
  "record_outcome tool ok g =
     (let failures = (case failure_counts g tool of None \<Rightarrow> 0 | Some c \<Rightarrow> c)
      in if ok then (Continue, g\<lparr>failure_counts := (failure_counts g)(tool \<mapsto> 0)\<rparr>)
         else
           let failures = sat_incr failures; g' = g\<lparr>failure_counts := (failure_counts g)(tool \<mapsto> failures)\<rparr>
           in if FAILURE_HALT_THRESHOLD \<le> failures
              then (Halt (''Stop retrying `'' @ tool @ ''` - it has failed '' @ show_word failures
                          @ '' consecutive times. Choose a different approach.''), g')
              else if failures = FAILURE_WARN_THRESHOLD
              then (Warn (''Tool `'' @ tool @ ''` has failed '' @ show_word failures
                          @ '' consecutive times this turn.''), g')
              else (Continue, g'))"

definition record_turn_steer :: "loop_guard \<Rightarrow> bool \<times> loop_guard" where
  "record_turn_steer g =
     (let n = sat_incr (turn_steers g) in (n \<le> MAX_TURN_STEERS, g\<lparr>turn_steers := n\<rparr>))"

subsection \<open>The key does not depend on the order of object members\<close>

text \<open>Two values that differ only in the order of the members of their objects, at any depth.\<close>

inductive same_members :: "json \<Rightarrow> json \<Rightarrow> bool" where
  "same_members v v"
| "list_all2 same_members vs ws \<Longrightarrow> same_members (JArr vs) (JArr ws)"
| "list_all2 (\<lambda>x y. fst x = fst y \<and> same_members (snd x) (snd y)) es fs \<Longrightarrow> mset fs = mset gs \<Longrightarrow>
     distinct (map fst gs) \<Longrightarrow> same_members (JObj es) (JObj gs)"

lemma insort_key_map: "insort_key f (g x) (map g xs) = map g (insort_key (f \<circ> g) x xs)"
  by (induction xs) auto

lemma sort_key_map: "sort_key f (map g xs) = map g (sort_key (f \<circ> g) xs)"
  by (induction xs) (simp_all add: insort_key_map [unfolded comp_def] comp_def)

lemma filter_key_distinct:
  "distinct (map f xs) \<Longrightarrow> k \<in> set xs \<Longrightarrow> filter (\<lambda>x. f k = f x) xs = [k]"
proof (induction xs)
  case (Cons a xs)
  show ?case
  proof (cases "k = a")
    case True
    with Cons.prems have "filter (\<lambda>x. f k = f x) xs = []" by (auto simp: filter_empty_conv image_iff)
    with True show ?thesis by simp
  next
    case False
    with Cons show ?thesis by (auto simp: image_iff)
  qed
qed simp

lemma sort_key_distinct:
  assumes "mset xs = mset ys" and "distinct (map f ys)"
  shows "sort_key f xs = sort_key f ys"
proof -
  have dx: "distinct (map f xs)"
    using assms by (metis distinct_map mset_eq_imp_distinct_iff mset_eq_setD)
  have "filter (\<lambda>x. f k = f x) (sort_key f ys) = filter (\<lambda>x. f k = f x) xs" if "k \<in> set xs" for k
  proof -
    have "distinct ys" "inj_on f (set ys)" using assms(2) by (simp_all add: distinct_map)
    then have "distinct (map f (sort_key f ys))" by (simp add: distinct_map)
    moreover have "k \<in> set (sort_key f ys)" using that mset_eq_setD [OF assms(1)] by simp
    ultimately have "filter (\<lambda>x. f k = f x) (sort_key f ys) = [k]" by (rule filter_key_distinct)
    moreover have "filter (\<lambda>x. f k = f x) xs = [k]" using dx that by (rule filter_key_distinct)
    ultimately show ?thesis by simp
  qed
  note each = this
  show ?thesis
  proof (rule properties_for_sort_key)
    show "mset (sort_key f ys) = mset xs" using assms(1) by simp
    show "filter (\<lambda>x. f k = f x) (sort_key f ys) = filter (\<lambda>x. f k = f x) xs"
      if "k \<in> set (sort_key f ys)" for k
    proof (rule each)
      have "set xs = set ys" using assms(1) by (rule mset_eq_setD)
      with that show "k \<in> set xs" by simp
    qed
    show "sorted (map f (sort_key f ys))" by simp
  qed
qed

lemma write_members:
  "write_canonical_json quote num (JObj es) =
     ''{'' @ join '','' (map (\<lambda>(k, s). quote k @ '':'' @ s)
        (sort_key fst (map (\<lambda>(k, v). (k, write_canonical_json quote num v)) es))) @ ''}''"
  by (simp add: sort_key_map comp_def case_prod_beta' o_def)

lemma same_members_written:
  "same_members v w \<Longrightarrow> write_canonical_json quote num v = write_canonical_json quote num w"
proof (induction rule: same_members.induct)
  case (2 vs ws)
  then have "map (write_canonical_json quote num) vs = map (write_canonical_json quote num) ws"
    by (induction rule: list_all2_induct) auto
  then show ?case by simp
next
  case (3 es fs gs)
  let ?w = "\<lambda>(k, v). (k, write_canonical_json quote num v)"
  have "map ?w es = map ?w fs"
    using 3(1) by (induction rule: list_all2_induct) auto
  moreover have "sort_key fst (map ?w fs) = sort_key fst (map ?w gs)"
    using 3(2, 3) by (intro sort_key_distinct) (simp_all add: comp_def case_prod_beta')
  ultimately show ?case by (simp only: write_members)
qed simp

text \<open>Calls that differ only in the order in which the members of their arguments are written
  count as the same call: after any sequence of operations the guard decides both alike and counts
  both under one key.\<close>

theorem member_order_irrelevant:
  assumes "same_members args args'"
  shows "record_attempt (hash_args hash quote num) tool args g = record_attempt (hash_args hash quote num) tool args' g"
  using same_members_written [OF assms, of quote num] by (simp add: record_attempt_def hash_args_def)

theorem member_order_irrelevant_witness:
  "record_attempt (hash_args (\<lambda>_. 0) id (\<lambda>_. [])) ''read_file''
     (JObj [(''path'', JStr ''a''), (''offset'', JInt 0)]) new_guard
   = record_attempt (hash_args (\<lambda>_. 0) id (\<lambda>_. [])) ''read_file''
     (JObj [(''offset'', JInt 0), (''path'', JStr ''a'')]) new_guard"
proof -
  have "same_members (JObj [(''path'', JStr ''a''), (''offset'', JInt 0)]) (JObj [(''offset'', JInt 0), (''path'', JStr ''a'')])"
    by (rule same_members.intros(3) [of _ "[(''path'', JStr ''a''), (''offset'', JInt 0)]"])
       (auto intro: same_members.intros(1))
  then show ?thesis by (rule member_order_irrelevant)
qed

subsection \<open>Saturated counters\<close>

definition sat_of :: "nat \<Rightarrow> 32 word" where
  "sat_of n = word_of_nat (min n (2 ^ 32 - 1))"

lemma unat_sat_of: "unat (sat_of n) = min n (2 ^ 32 - 1)"
proof -
  have "min n (2 ^ 32 - 1) < (2::nat) ^ 32" by simp
  then show ?thesis by (simp add: sat_of_def unat_of_nat)
qed

lemma sat_of_0 [simp]: "sat_of 0 = 0"
  by (simp add: sat_of_def)

lemma unat_top: "unat (- 1 :: 32 word) = 2 ^ 32 - 1"
  by (simp add: unsigned_minus_1_eq_mask mask_eq_exp_minus_1)

lemma sat_incr_of [simp]: "sat_incr (sat_of n) = sat_of (Suc n)"
proof (rule word_unat_eq_iff [THEN iffD2])
  show "unat (sat_incr (sat_of n)) = unat (sat_of (Suc n))"
  proof (cases "n < 2 ^ 32 - 1")
    case True
    then have "unat (sat_of n + 1) = unat (sat_of n) + 1"
      by (simp add: unat_word_ariths unat_sat_of)
    moreover have "sat_of n \<noteq> - 1"
      using True by (auto simp: word_unat_eq_iff unat_sat_of unat_top)
    ultimately show ?thesis using True by (simp add: sat_incr_def unat_sat_of)
  next
    case False
    then have "sat_of n = - 1" by (auto simp: word_unat_eq_iff unat_sat_of unat_top)
    with False show ?thesis by (simp add: sat_incr_def unat_sat_of unat_top)
  qed
qed

lemma le_sat_of: "c \<le> sat_of n \<longleftrightarrow> unat c \<le> n"
  using unsigned_less [of c, where 'a = nat] by (auto simp: word_le_nat_alt unat_sat_of)

lemma sat_of_le: "unat c < 2 ^ 32 - 1 \<Longrightarrow> sat_of n \<le> c \<longleftrightarrow> n \<le> unat c"
  by (auto simp: word_le_nat_alt unat_sat_of)

lemma sat_of_eq: "unat c < 2 ^ 32 - 1 \<Longrightarrow> sat_of n = c \<longleftrightarrow> n = unat c"
  by (auto simp: word_unat_eq_iff unat_sat_of)

lemmas thresholds = IDENTICAL_CALL_BLOCK_THRESHOLD_def FAILURE_WARN_THRESHOLD_def FAILURE_HALT_THRESHOLD_def MAX_TURN_STEERS_def

subsection \<open>A turn's guard\<close>

datatype guard_op = Attempt str json | Outcome str bool | Steer

fun guard_step :: "(json \<Rightarrow> 64 word) \<Rightarrow> guard_op \<Rightarrow> loop_guard \<Rightarrow> loop_guard" where
  "guard_step h (Attempt t a) g = snd (record_attempt h t a g)"
| "guard_step h (Outcome t ok) g = snd (record_outcome t ok g)"
| "guard_step h Steer g = snd (record_turn_steer g)"

definition guard_run :: "(json \<Rightarrow> 64 word) \<Rightarrow> guard_op list \<Rightarrow> loop_guard" where
  "guard_run h ops = fold (guard_step h) ops new_guard"

text \<open>What the counters stand for: the identical attempts so far, the failures of a tool since its last
  success, the steers so far.\<close>

definition identical_attempts :: "(json \<Rightarrow> 64 word) \<Rightarrow> str \<Rightarrow> json \<Rightarrow> guard_op list \<Rightarrow> nat" where
  "identical_attempts h t a ops =
     length (filter (\<lambda>op. case op of Attempt t' a' \<Rightarrow> t' = t \<and> h a' = h a | _ \<Rightarrow> False) ops)"

fun failures_after :: "str \<Rightarrow> nat \<Rightarrow> guard_op list \<Rightarrow> nat" where
  "failures_after t n [] = n"
| "failures_after t n (Outcome t' ok # ops) =
     failures_after t (if t' \<noteq> t then n else if ok then 0 else Suc n) ops"
| "failures_after t n (_ # ops) = failures_after t n ops"

definition steers :: "guard_op list \<Rightarrow> nat" where
  "steers ops = length (filter (\<lambda>op. op = Steer) ops)"

lemma failures_after_snoc:
  "failures_after t n (ops @ [op]) =
     (case op of Outcome t' ok \<Rightarrow> if t' \<noteq> t then failures_after t n ops else if ok then 0 else Suc (failures_after t n ops)
      | _ \<Rightarrow> failures_after t n ops)"
  by (induction t n ops rule: failures_after.induct) (auto split: guard_op.splits)

definition read_count :: "32 word option \<Rightarrow> 32 word" where
  "read_count c = (case c of None \<Rightarrow> 0 | Some n \<Rightarrow> n)"

lemma guard_run_counts:
  "read_count (call_counts (guard_run h ops) (t, h a)) = sat_of (identical_attempts h t a ops)
   \<and> read_count (failure_counts (guard_run h ops) t) = sat_of (failures_after t 0 ops)
   \<and> turn_steers (guard_run h ops) = sat_of (steers ops)"
proof (induction ops rule: rev_induct)
  case (snoc op ops)
  then show ?case
    by (cases op)
       (auto simp: guard_run_def read_count_def identical_attempts_def steers_def failures_after_snoc
          record_attempt_def record_outcome_def record_turn_steer_def Let_def)
qed (simp add: guard_run_def new_guard_def read_count_def identical_attempts_def steers_def)

section \<open>Properties\<close>

text \<open>C14: the loop guard stops every loop. After any sequence of attempts, outcomes and steers of a turn:
  a call goes through exactly if fewer than two earlier ones had the same tool and arguments; a failure
  halts exactly from the eighth consecutive one of its tool on, and warns exactly at the third; a steer
  is granted exactly if fewer than three came before.\<close>

theorem guard_stops_loops:
  "(fst (record_attempt h t a (guard_run h ops)) = Proceed \<longleftrightarrow> identical_attempts h t a ops < 2)
   \<and> ((\<exists>m. fst (record_outcome t False (guard_run h ops)) = Halt m) \<longleftrightarrow> 7 \<le> failures_after t 0 ops)
   \<and> ((\<exists>m. fst (record_outcome t False (guard_run h ops)) = Warn m) \<longleftrightarrow> failures_after t 0 ops = 2)
   \<and> fst (record_outcome t True (guard_run h ops)) = Continue
   \<and> (fst (record_turn_steer (guard_run h ops)) \<longleftrightarrow> steers ops < 3)"
proof -
  note counts = guard_run_counts [of h ops t a, unfolded read_count_def]
  show ?thesis
    using counts
    by (auto simp: record_attempt_def record_outcome_def record_turn_steer_def Let_def thresholds le_sat_of
        sat_of_le sat_of_eq)
qed

end
