(* ===== verification/RoundDrivers.thy ===== *)
theory RoundDrivers
  imports Json
begin

section \<open>agent-runtime: goal rounds and compaction breakers\<close>

text \<open>
  The state of a goal and the rounds driven for it (\<open>agent-runtime/src/tool_state/goal.rs\<close>, with the
  decision applied by \<open>goal_round_after_turn\<close> of \<open>engine/idle_wake.rs\<close>), and the circuit breaker and
  the rapid-refill detector of the automatic compaction (\<open>compaction/circuit_breaker.rs\<close>). The
  clock is an argument: an \<open>Instant\<close> or a \<open>Duration\<close> is a number of ticks. \<open>u32\<close> and \<open>u64\<close>
  values are words; the one unchecked sum of token counts is taken modulo \<open>2^64\<close>, as a
  release build does.
\<close>

subsection \<open>Goals\<close>

datatype goal_status = GoalActive | GoalComplete | GoalBlocked | GoalPaused

fun goal_status_str :: "goal_status \<Rightarrow> str" where
  "goal_status_str GoalActive = ''active''"
| "goal_status_str GoalComplete = ''complete''"
| "goal_status_str GoalBlocked = ''blocked''"
| "goal_status_str GoalPaused = ''paused''"

datatype round_decision = Drive "32 word" | Pause str

definition MAX_GOAL_ROUNDS :: "32 word" where
  "MAX_GOAL_ROUNDS = 25"

record goal_state =
  objective :: "str option"
  token_budget :: "32 word option"
  goal_status :: "goal_status option"
  started_at :: "nat option"
  finished_at :: "nat option"
  evidence :: "str option"
  blocker :: "str option"
  rounds_driven :: "32 word"
  tokens_spent :: "64 word"

definition default_goal :: goal_state where
  "default_goal = \<lparr>objective = None, token_budget = None, goal_status = None, started_at = None, finished_at = None,
     evidence = None, blocker = None, rounds_driven = 0, tokens_spent = 0\<rparr>"

definition goal_is_active :: "goal_state \<Rightarrow> bool" where
  "goal_is_active g \<longleftrightarrow> objective g \<noteq> None \<and> goal_status g = Some GoalActive"

text \<open>The objective of a host's sync, trimmed, or nothing when blank.\<close>

definition host_objective :: "str option \<Rightarrow> str option" where
  "host_objective ob = (case ob of None \<Rightarrow> None | Some s \<Rightarrow> if trim s = [] then None else Some (trim s))"

definition host_status :: "nat \<Rightarrow> bool \<Rightarrow> bool \<Rightarrow> goal_state \<Rightarrow> goal_state" where
  "host_status now completed changed g =
     (let new_status = (if completed then GoalComplete else GoalActive);
          keep_blocked = (\<not> completed \<and> \<not> changed \<and> goal_status g = Some GoalBlocked)
      in if \<not> keep_blocked \<and> (changed \<or> goal_status g = None \<or> goal_status g \<noteq> Some new_status)
         then g\<lparr>goal_status := Some new_status, finished_at := (if completed then Some now else None),
                blocker := (if new_status \<noteq> GoalBlocked then None else blocker g),
                evidence := (if new_status \<noteq> GoalComplete then None else evidence g)\<rparr>
         else g)"

definition sync_from_host :: "nat \<Rightarrow> str option \<Rightarrow> 32 word option \<Rightarrow> bool \<Rightarrow> goal_state \<Rightarrow> goal_state" where
  "sync_from_host now ob budget completed g =
     (case host_objective ob of
        Some obj \<Rightarrow>
          let changed = (objective g \<noteq> Some obj);
              g' = (if changed
                    then g\<lparr>objective := Some obj, token_budget := budget, started_at := Some now, evidence := None,
                           blocker := None, rounds_driven := 0, tokens_spent := 0\<rparr>
                    else if budget \<noteq> None then g\<lparr>token_budget := budget\<rparr> else g)
          in host_status now completed changed g'
      | None \<Rightarrow> default_goal)"

definition goal_create :: "nat \<Rightarrow> str \<Rightarrow> 32 word option \<Rightarrow> goal_state \<Rightarrow> goal_state" where
  "goal_create now ob budget g =
     (let obj = trim ob
      in if obj = [] then g
         else g\<lparr>objective := Some obj, token_budget := budget, goal_status := Some GoalActive,
                started_at := Some now, finished_at := None, evidence := None, blocker := None,
                rounds_driven := 0, tokens_spent := 0\<rparr>)"

definition reactivated :: "goal_state \<Rightarrow> goal_state" where
  "reactivated g = g\<lparr>goal_status := Some GoalActive, finished_at := None, evidence := None, blocker := None\<rparr>"

definition goal_resume :: "nat \<Rightarrow> str option \<Rightarrow> goal_state \<Rightarrow> str + goal_state" where
  "goal_resume now ob g =
     (case ob of
        Some obj \<Rightarrow>
          if objective g = Some (trim obj) then Inr (reactivated g)
          else Inr (goal_create now obj (token_budget g) g)
      | None \<Rightarrow>
          if objective g = None then Inl ''No goal exists to resume.'' else Inr (reactivated g))"

definition mark_complete :: "nat \<Rightarrow> str \<Rightarrow> goal_state \<Rightarrow> str + goal_state" where
  "mark_complete now ev g =
     (if \<not> goal_is_active g then Inl ''No active goal exists to complete.''
      else Inr (g\<lparr>goal_status := Some GoalComplete, finished_at := Some now, evidence := Some ev, blocker := None\<rparr>))"

definition mark_blocked :: "nat \<Rightarrow> str \<Rightarrow> goal_state \<Rightarrow> str + goal_state" where
  "mark_blocked now b g =
     (if \<not> goal_is_active g then Inl ''No active goal exists to block.''
      else Inr (g\<lparr>goal_status := Some GoalBlocked, finished_at := Some now, evidence := None, blocker := Some b\<rparr>))"

definition goal_pause :: "nat \<Rightarrow> str \<Rightarrow> goal_state \<Rightarrow> goal_state" where
  "goal_pause now reason g =
     g\<lparr>goal_status := Some GoalPaused, finished_at := Some now, blocker := Some reason\<rparr>"

definition next_round :: "64 word \<Rightarrow> 64 word \<Rightarrow> goal_state \<Rightarrow> round_decision \<times> goal_state" where
  "next_round usage_input usage_output g =
     (let g1 = g\<lparr>tokens_spent := sat_add64 (tokens_spent g) (usage_input + usage_output)\<rparr>
      in if (case token_budget g1 of Some budget \<Rightarrow> ucast budget \<le> tokens_spent g1 | None \<Rightarrow> False)
         then (Pause ''token budget exhausted'', g1)
         else if MAX_GOAL_ROUNDS \<le> rounds_driven g1 then (Pause ''round limit reached'', g1)
         else (Drive (rounds_driven g1 + 1), g1\<lparr>rounds_driven := rounds_driven g1 + 1\<rparr>))"

text \<open>The driver after a cleanly ended turn, with its other conditions met: nothing for an inactive goal,
  otherwise the decision, a pause applied.\<close>

definition goal_round_after_turn :: "nat \<Rightarrow> 32 word \<Rightarrow> 32 word \<Rightarrow> goal_state \<Rightarrow> 32 word option \<times> goal_state" where
  "goal_round_after_turn now input_tokens output_tokens g =
     (if \<not> goal_is_active g then (None, g)
      else case next_round (ucast input_tokens) (ucast output_tokens) g of
             (Drive n, g') \<Rightarrow> (Some n, g')
           | (Pause reason, g') \<Rightarrow> (None, goal_pause now reason g'))"

record goal_snapshot =
  snap_objective :: "str option"
  snap_status :: str
  snap_token_budget :: "32 word option"
  elapsed_seconds :: "nat option"
  snap_evidence :: "str option"
  snap_blocker :: "str option"

text \<open>\<open>secs\<close> reads a difference of ticks as whole seconds.\<close>

definition goal_snapshot_of :: "(nat \<Rightarrow> nat) \<Rightarrow> nat \<Rightarrow> goal_state \<Rightarrow> goal_snapshot" where
  "goal_snapshot_of secs now g =
     \<lparr>snap_objective = objective g,
      snap_status = (case goal_status g of Some s \<Rightarrow> goal_status_str s | None \<Rightarrow> ''none''),
      snap_token_budget = token_budget g,
      elapsed_seconds =
        map_option (\<lambda>started. secs ((case finished_at g of Some e \<Rightarrow> e | None \<Rightarrow> now) - started)) (started_at g),
      snap_evidence = evidence g, snap_blocker = blocker g\<rparr>"

definition snapshot_is_active :: "goal_snapshot \<Rightarrow> bool" where
  "snapshot_is_active s \<longleftrightarrow> snap_objective s \<noteq> None \<and> snap_status s = goal_status_str GoalActive"

subsection \<open>The circuit breaker\<close>

datatype breaker_state = Closed | Open nat | HalfOpen

record breaker =
  consecutive_failures :: "32 word"
  trip_threshold :: "32 word"
  breaker_state :: breaker_state
  recovery_timeout :: nat

definition breaker_with_config :: "32 word \<Rightarrow> nat \<Rightarrow> breaker" where
  "breaker_with_config threshold timeout =
     \<lparr>consecutive_failures = 0, trip_threshold = threshold, breaker_state = Closed, recovery_timeout = timeout\<rparr>"

definition default_breaker :: "nat \<Rightarrow> breaker" where
  "default_breaker ticks_per_second = breaker_with_config 3 (300 * ticks_per_second)"

definition should_attempt :: "nat \<Rightarrow> breaker \<Rightarrow> bool \<times> breaker" where
  "should_attempt now b =
     (case breaker_state b of
        Closed \<Rightarrow> (True, b)
      | Open tripped_at \<Rightarrow>
          if recovery_timeout b \<le> now - tripped_at then (True, b\<lparr>breaker_state := HalfOpen\<rparr>) else (False, b)
      | HalfOpen \<Rightarrow> (False, b))"

definition force_attempt :: "breaker \<Rightarrow> bool" where
  "force_attempt b = True"

definition record_success :: "breaker \<Rightarrow> breaker" where
  "record_success b = b\<lparr>consecutive_failures := 0, breaker_state := Closed\<rparr>"

definition record_failure :: "nat \<Rightarrow> breaker \<Rightarrow> breaker" where
  "record_failure now b =
     (let b1 = b\<lparr>consecutive_failures := (if consecutive_failures b = - 1 then consecutive_failures b
                                         else consecutive_failures b + 1)\<rparr>
      in if trip_threshold b1 \<le> consecutive_failures b1 \<and> (case breaker_state b1 of Open _ \<Rightarrow> False | _ \<Rightarrow> True)
         then b1\<lparr>breaker_state := Open now\<rparr> else b1)"

definition is_tripped :: "breaker \<Rightarrow> bool" where
  "is_tripped b \<longleftrightarrow> breaker_state b \<noteq> Closed"

definition breaker_reset :: "breaker \<Rightarrow> breaker" where
  "breaker_reset b = b\<lparr>consecutive_failures := 0, breaker_state := Closed\<rparr>"

subsection \<open>The rapid-refill detector\<close>

definition RAPID_REFILL_STEP_WINDOW :: "32 word" where
  "RAPID_REFILL_STEP_WINDOW = 3"

definition RAPID_REFILL_MAX_STREAK :: "32 word" where
  "RAPID_REFILL_MAX_STREAK = 3"

record refill_detector =
  last_compaction_step :: "32 word option"
  streak :: "32 word"

definition new_detector :: refill_detector where
  "new_detector = \<lparr>last_compaction_step = None, streak = 0\<rparr>"

definition record_compaction :: "32 word \<Rightarrow> refill_detector \<Rightarrow> refill_detector" where
  "record_compaction step d = d\<lparr>last_compaction_step := Some step\<rparr>"

text \<open>\<open>True\<close> stands for \<open>Some(RAPID_REFILL_MESSAGE)\<close>.\<close>

definition record_trigger :: "32 word \<Rightarrow> refill_detector \<Rightarrow> bool \<times> refill_detector" where
  "record_trigger step d =
     (case last_compaction_step d of
        None \<Rightarrow> (False, d)
      | Some compacted \<Rightarrow>
          if RAPID_REFILL_STEP_WINDOW < sat_sub32 step compacted then (False, d\<lparr>streak := 0\<rparr>)
          else let d' = d\<lparr>streak := streak d + 1\<rparr> in (RAPID_REFILL_MAX_STREAK \<le> streak d', d'))"

definition discard_last_trigger :: "refill_detector \<Rightarrow> refill_detector" where
  "discard_last_trigger d = d\<lparr>streak := sat_sub32 (streak d) 1\<rparr>"

definition detector_reset :: "refill_detector \<Rightarrow> refill_detector" where
  "detector_reset d = d\<lparr>last_compaction_step := None, streak := 0\<rparr>"

subsection \<open>Rounds of a goal\<close>

text \<open>The turns of a session in order, each with its clock and its tokens: the rounds granted and the goal
  left behind.\<close>

fun drive_goal :: "(nat \<times> 32 word \<times> 32 word) list \<Rightarrow> goal_state \<Rightarrow> 32 word list \<times> goal_state" where
  "drive_goal [] g = ([], g)"
| "drive_goal ((now, i, t) # turns) g =
     (let (granted, g') = goal_round_after_turn now i t g; (rounds, g'') = drive_goal turns g'
      in ((case granted of Some n \<Rightarrow> [n] | None \<Rightarrow> []) @ rounds, g''))"

definition rounds_left :: "goal_state \<Rightarrow> nat" where
  "rounds_left g = 25 - unat (rounds_driven g)"

text \<open>A turn of an active goal either grants a round, with one fewer left and the budget not reached, or pauses.\<close>

lemma round_step:
  assumes "goal_is_active g"
  obtains
    (granted) n g' where "goal_round_after_turn now i t g = (Some n, g')" "goal_is_active g'"
      "rounds_left g = Suc (rounds_left g')" "token_budget g' = token_budget g"
      "\<forall>b. token_budget g = Some b \<longrightarrow> tokens_spent g' < ucast b"
  | (paused) g' where "goal_round_after_turn now i t g = (None, g')" "goal_status g' = Some GoalPaused"
proof -
  define d where "d = next_round (ucast i) (ucast t) g"
  show thesis
  proof (cases "fst d")
    case (Pause r)
    then show thesis
      using assms paused by (cases d) (auto simp: d_def goal_round_after_turn_def goal_pause_def)
  next
    case (Drive n)
    have step: "snd d = g\<lparr>tokens_spent := sat_add64 (tokens_spent g) (ucast i + ucast t), rounds_driven := rounds_driven g + 1\<rparr>"
      and lt: "rounds_driven g < 25"
      and budget: "\<forall>b. token_budget g = Some b \<longrightarrow> sat_add64 (tokens_spent g) (ucast i + ucast t) < ucast b"
      using Drive by (auto simp: d_def next_round_def Let_def MAX_GOAL_ROUNDS_def not_le split: if_splits option.splits)
    have "unat (rounds_driven g) < 25" using lt by (simp add: word_less_nat_alt)
    then have "unat (rounds_driven g + 1) = Suc (unat (rounds_driven g))" by (simp add: unat_word_ariths)
    then have left: "rounds_left g = Suc (rounds_left (snd d))"
      using \<open>unat (rounds_driven g) < 25\<close> by (simp add: rounds_left_def step)
    have "goal_round_after_turn now i t g = (Some n, snd d)"
      using assms Drive by (cases d) (simp add: d_def [symmetric] goal_round_after_turn_def)
    then show thesis
      by (rule granted) (use assms left budget in \<open>simp_all add: step goal_is_active_def\<close>)
  qed
qed

lemma not_active_stays: "\<not> goal_is_active g \<Longrightarrow> drive_goal turns g = ([], g)"
  by (induction turns) (auto simp: goal_round_after_turn_def)

section \<open>Properties\<close>

text \<open>C15: the goal driver stops. Over any turns an active goal is granted at most the rounds it has left
  of the 25; after more turns than that it is paused, and it stays paused over any further turns;
  while it is active it has spent less than its token budget.\<close>

theorem goal_driver_stops:
  assumes "goal_is_active g" and "drive_goal turns g = (rounds, g')"
  shows "length rounds \<le> 25 - unat (rounds_driven g)
    \<and> (25 - unat (rounds_driven g) < length turns \<longrightarrow>
         goal_status g' = Some GoalPaused \<and> (\<forall>more. drive_goal more g' = ([], g')))
    \<and> (\<forall>b. turns \<noteq> [] \<longrightarrow> token_budget g = Some b \<longrightarrow> goal_is_active g' \<longrightarrow> tokens_spent g' < ucast b)"
proof -
  have "length rounds \<le> rounds_left g
    \<and> (rounds_left g < length turns \<longrightarrow> goal_status g' = Some GoalPaused)
    \<and> (\<forall>b. turns \<noteq> [] \<longrightarrow> token_budget g = Some b \<longrightarrow> goal_is_active g' \<longrightarrow> tokens_spent g' < ucast b)"
    using assms
  proof (induction turns arbitrary: g rounds)
    case (Cons turn turns)
    obtain now i t where turn: "turn = (now, i, t)" by (cases turn)
    from Cons.prems(1) show ?case
    proof (cases rule: round_step [of g now i t])
      case (granted n g1)
      obtain rs where rs: "drive_goal turns g1 = (rs, g')" "rounds = n # rs"
        using Cons.prems(2) granted(1) by (auto simp: turn split: prod.splits)
      have "turns = [] \<Longrightarrow> g' = g1" using rs(1) by simp
      then show ?thesis using Cons.IH [OF granted(2) rs(1)] granted rs(2) by (cases turns) auto
    next
      case (paused g1)
      then have "\<not> goal_is_active g1" by (simp add: goal_is_active_def)
      then show ?thesis
        using Cons.prems(2) paused not_active_stays [of g1 turns] by (simp add: turn)
    qed
  qed simp
  moreover have "drive_goal more g' = ([], g')" if "goal_status g' = Some GoalPaused" for more
    using that by (intro not_active_stays) (simp add: goal_is_active_def)
  ultimately show ?thesis by (simp add: rounds_left_def)
qed

theorem goal_driver_stops_witness:
  "let g = goal_create 0 ''ship it'' (Some 100) default_goal
   in goal_status (snd (drive_goal (replicate 26 (1, 20, 20)) g)) = Some GoalPaused"
proof -
  let ?g = "goal_create 0 ''ship it'' (Some 100) default_goal"
  have "goal_is_active ?g" by code_simp
  from goal_driver_stops [OF this prod.collapse [symmetric], of "replicate 26 (1, 20, 20)"]
  have "25 - unat (rounds_driven ?g) < length (replicate 26 (1::nat, 20::32 word, 20::32 word)) \<longrightarrow>
      goal_status (snd (drive_goal (replicate 26 (1, 20, 20)) ?g)) = Some GoalPaused" by blast
  moreover have "rounds_driven ?g = 0" by code_simp
  ultimately show ?thesis by simp
qed

subsection \<open>What a pause leaves behind\<close>

text \<open>Resuming a goal that was paused at the round limit pauses it again after its next turn: the rounds are
  not reset.\<close>

lemma resume_at_limit_pauses_again:
  assumes "rounds_driven g = 25" and "token_budget g = None" and "objective g \<noteq> None"
  shows "\<exists>g'. goal_resume now None g = Inr g' \<and> goal_is_active g'
    \<and> fst (goal_round_after_turn later i t g') = None
    \<and> goal_status (snd (goal_round_after_turn later i t g')) = Some GoalPaused"
  using assms
  by (simp add: goal_resume_def reactivated_def goal_is_active_def goal_round_after_turn_def next_round_def
      MAX_GOAL_ROUNDS_def goal_pause_def)

text \<open>A host sync of the unchanged, uncompleted objective keeps a blocked goal blocked but reactivates a
  paused one.\<close>

lemma host_sync_reactivates_paused:
  assumes "host_objective ob = objective g" and "objective g \<noteq> None"
  shows "goal_status g = Some GoalBlocked \<Longrightarrow> goal_status (sync_from_host now ob None False g) = Some GoalBlocked"
    and "goal_status g = Some GoalPaused \<Longrightarrow> goal_is_active (sync_from_host now ob None False g)"
  using assms by (auto simp: sync_from_host_def host_status_def goal_is_active_def Let_def)

subsection \<open>Runs of the breaker\<close>

datatype breaker_op = BAttempt nat | BSuccess | BFailure nat | BReset

fun breaker_step :: "breaker_op \<Rightarrow> breaker \<Rightarrow> breaker" where
  "breaker_step (BAttempt now) b = snd (should_attempt now b)"
| "breaker_step BSuccess b = record_success b"
| "breaker_step (BFailure now) b = record_failure now b"
| "breaker_step BReset b = breaker_reset b"

definition breaker_run :: "breaker_op list \<Rightarrow> breaker \<Rightarrow> breaker" where
  "breaker_run ops b = fold breaker_step ops b"

text \<open>The attempts of a run that were let through.\<close>

fun admitted :: "breaker_op list \<Rightarrow> breaker \<Rightarrow> nat list" where
  "admitted [] b = []"
| "admitted (op # ops) b =
     (case op of BAttempt now \<Rightarrow> if fst (should_attempt now b) then [now] else [] | _ \<Rightarrow> [])
     @ admitted ops (breaker_step op b)"

text \<open>An attempt within a span of time, or a failure reported from outside.\<close>

fun quiet_between :: "nat \<Rightarrow> nat \<Rightarrow> breaker_op \<Rightarrow> bool" where
  "quiet_between start limit (BAttempt now) \<longleftrightarrow> start \<le> now \<and> now < limit"
| "quiet_between start limit (BFailure now) = True"
| "quiet_between start limit _ = False"

definition breaker_inv :: "32 word \<Rightarrow> nat \<Rightarrow> breaker \<Rightarrow> bool" where
  "breaker_inv threshold timeout b \<longleftrightarrow>
     trip_threshold b = threshold \<and> recovery_timeout b = timeout
     \<and> (is_tripped b \<longrightarrow> threshold \<le> consecutive_failures b)"

lemma le_incr: "a \<le> b \<Longrightarrow> a \<le> (if b = - 1 then b else b + (1 :: 32 word))"
proof -
  have "unat (b + 1) = Suc (unat b)" if "b \<noteq> - 1"
  proof -
    have "unat b \<noteq> 2 ^ 32 - 1"
      using that by (simp add: word_unat_eq_iff unsigned_minus_1_eq_mask mask_eq_exp_minus_1)
    then have "unat b + 1 < 2 ^ 32" using unsigned_less [of b, where 'a = nat] by simp
    then show ?thesis by (simp add: unat_word_ariths)
  qed
  then show "a \<le> b \<Longrightarrow> ?thesis" by (cases "b = - 1") (auto simp: word_le_nat_alt)
qed

lemma breaker_inv_step [inv_intros]: "breaker_inv n d b \<Longrightarrow> breaker_inv n d (breaker_step op b)"
  using le_incr [of n "consecutive_failures b"]
  by (cases op)
     (auto simp: breaker_inv_def is_tripped_def should_attempt_def record_success_def record_failure_def breaker_reset_def
        Let_def split: breaker_state.splits if_splits)

lemma breaker_inv_run: "breaker_inv n d b \<Longrightarrow> breaker_inv n d (breaker_run ops b)"
  by (induction ops arbitrary: b) (auto simp: breaker_run_def intro: inv_intros)

lemma breaker_inv_init: "breaker_inv n d (breaker_with_config n d)"
  by (simp add: breaker_inv_def breaker_with_config_def is_tripped_def)

lemma open_quiet_step:
  assumes "breaker_state b = Open t" and "quiet_between t (t + recovery_timeout b) op"
  shows "breaker_state (breaker_step op b) = Open t \<and> recovery_timeout (breaker_step op b) = recovery_timeout b
    \<and> admitted [op] b = []"
  using assms by (cases op) (auto simp: should_attempt_def record_failure_def Let_def)

lemma open_quiet_run:
  "breaker_state b = Open t \<Longrightarrow> \<forall>op\<in>set ops. quiet_between t (t + recovery_timeout b) op \<Longrightarrow>
     breaker_state (breaker_run ops b) = Open t \<and> recovery_timeout (breaker_run ops b) = recovery_timeout b
     \<and> admitted ops b = []"
proof (induction ops arbitrary: b)
  case (Cons op ops)
  note step = open_quiet_step [OF Cons.prems(1), of op]
  have "breaker_state (breaker_step op b) = Open t" "recovery_timeout (breaker_step op b) = recovery_timeout b"
    "admitted [op] b = []"
    using step Cons.prems(2) by simp_all
  then show ?case
    using Cons.IH [of "breaker_step op b"] Cons.prems(2) by (simp add: breaker_run_def)
qed (simp add: breaker_run_def)

text \<open>The compaction breaker recovers. In any run of a breaker, once it opens at time \<open>t\<close>, failures
  reported meanwhile do not move the window: no attempt before \<open>t\<close> plus the timeout is let through, and
  the first one from then on is. It is a single probe: every further attempt is refused until its
  outcome is known, which closes the breaker or opens it anew.\<close>

theorem breaker_recovers:
  assumes "b = breaker_run ops (breaker_with_config threshold timeout)" and "breaker_state b = Open t"
    and "\<forall>op\<in>set later. quiet_between t (t + timeout) op" and "t + timeout \<le> now"
  shows "admitted later b = []
    \<and> (\<exists>probe. should_attempt now (breaker_run later b) = (True, probe)
        \<and> (\<forall>again. should_attempt again probe = (False, probe))
        \<and> breaker_state (record_success probe) = Closed
        \<and> (\<forall>failed. breaker_state (record_failure failed probe) = Open failed))"
proof -
  have inv: "breaker_inv threshold timeout b"
    unfolding assms(1) by (intro breaker_inv_run breaker_inv_init)
  then have timeout: "recovery_timeout b = timeout" by (simp add: breaker_inv_def)
  let ?b = "breaker_run later b"
  have quiet: "breaker_state ?b = Open t" "recovery_timeout ?b = timeout" "admitted later b = []"
    using open_quiet_run [OF assms(2), of later] assms(3) timeout by simp_all
  have inv': "threshold \<le> consecutive_failures ?b" "trip_threshold ?b = threshold"
    using breaker_inv_run [OF inv, of later] quiet(1) by (simp_all add: breaker_inv_def is_tripped_def)
  let ?p = "?b\<lparr>breaker_state := HalfOpen\<rparr>"
  have "should_attempt now ?b = (True, ?p)"
    using quiet assms(4) by (simp add: should_attempt_def)
  moreover have "should_attempt again ?p = (False, ?p)" for again by (simp add: should_attempt_def)
  moreover have "breaker_state (record_success ?p) = Closed" by (simp add: record_success_def)
  moreover have "breaker_state (record_failure failed ?p) = Open failed" for failed
    using le_incr [OF inv'(1)] inv'(2) by (simp add: record_failure_def Let_def split: if_splits)
  ultimately show ?thesis using quiet(3) by blast
qed

theorem breaker_recovers_witness:
  "\<exists>probe. should_attempt 400 (breaker_run [BAttempt 50, BFailure 60] (breaker_run [BFailure 1, BFailure 2, BFailure 3]
     (breaker_with_config 3 300))) = (True, probe)"
proof -
  let ?b = "breaker_run [BFailure 1, BFailure 2, BFailure 3] (breaker_with_config 3 300)"
  have "breaker_state ?b = Open 3" by code_simp
  from breaker_recovers [OF refl this, of "[BAttempt 50, BFailure 60]" 400] show ?thesis by auto
qed

subsection \<open>The refill window\<close>

text \<open>A refill exactly \<open>RAPID_REFILL_STEP_WINDOW\<close> steps after a compaction counts as rapid.\<close>

lemma window_boundary_rapid:
  "record_trigger 13 (record_compaction 10 new_detector) = (False, \<lparr>last_compaction_step = Some 10, streak = 1\<rparr>)"
  by code_simp

end
