(* ===== verification/Transcript.thy ===== *)
theory Transcript
  imports Dispatch
begin

section \<open>Messages and the projections of a transcript\<close>

text \<open>
  The messages of the model protocol (\<open>agent/src/models.rs\<close>), the ids of the tool calls that executed
  (\<open>executed_tool_call_ids\<close> of \<open>agent-runtime/src/tool_state/mod.rs\<close>), and the interface between a
  tool that keeps state and the rebuild of that state from a transcript: a run of the tool either
  succeeds and changes the state as the replay of its input does, or fails and changes nothing.
\<close>

subsection \<open>Messages\<close>

datatype image_source =
    ImageBase64 str str
  | ImageFile path "str option"

record cache_control =
  cache_type :: str

datatype content_block =
    TextBlock str "cache_control option"
  | ImageBlock image_source
  | ThinkingBlock str
  | ToolUse str str json "tool_caller option"
  | ToolResultBlock str str "bool option" "json list option"
  | ServerToolUse str str json
  | ToolSearchToolResult str json
  | CodeExecutionToolResult str json

record message =
  role :: str
  blocks :: "content_block list"

fun successful_result :: "content_block \<Rightarrow> str option" where
  "successful_result (ToolResultBlock i _ is_error _) = (if is_error = Some False then Some i else None)"
| "successful_result _ = None"

definition executed_tool_call_ids :: "message list \<Rightarrow> str list" where
  "executed_tool_call_ids messages =
     concat (map (\<lambda>m. if role m \<noteq> ''user'' then [] else List.map_filter successful_result (blocks m)) messages)"

text \<open>The loop every projection runs over a transcript: the assistant's tool calls in order, those of them that
  executed.\<close>

fun replay_block :: "('p \<Rightarrow> str \<Rightarrow> json \<Rightarrow> 'p) \<Rightarrow> str list \<Rightarrow> content_block \<Rightarrow> 'p \<Rightarrow> 'p" where
  "replay_block replay executed (ToolUse i name input _) p = (if i \<in> set executed then replay p name input else p)"
| "replay_block replay executed _ p = p"

definition replay_message :: "('p \<Rightarrow> str \<Rightarrow> json \<Rightarrow> 'p) \<Rightarrow> str list \<Rightarrow> message \<Rightarrow> 'p \<Rightarrow> 'p" where
  "replay_message replay executed m p =
     (if role m \<noteq> ''assistant'' then p else fold (replay_block replay executed) (blocks m) p)"

definition replay_transcript :: "('p \<Rightarrow> str \<Rightarrow> json \<Rightarrow> 'p) \<Rightarrow> message list \<Rightarrow> 'p \<Rightarrow> 'p" where
  "replay_transcript replay messages p =
     fold (replay_message replay (executed_tool_call_ids messages)) messages p"

subsection \<open>The calls of a session\<close>

text \<open>A call of the model, and whether it was dispatched: a refused or interrupted call never runs.\<close>

record call =
  id_of :: str
  name_of :: str
  input_of :: json
  dispatched :: bool

fun block_call :: "content_block \<Rightarrow> (str \<times> str \<times> json) option" where
  "block_call (ToolUse i name input _) = Some (i, name, input)"
| "block_call _ = None"

definition calls_of :: "message list \<Rightarrow> (str \<times> str \<times> json) list" where
  "calls_of messages =
     concat (map (\<lambda>m. if role m \<noteq> ''assistant'' then [] else List.map_filter block_call (blocks m)) messages)"

text \<open>What the transcript records of a result: \<open>is_error\<close> is its negation.\<close>

definition result_ok :: "tool_error + tool_result \<Rightarrow> bool" where
  "result_ok r = (case r of Inl _ \<Rightarrow> False | Inr t \<Rightarrow> success t)"

lemma result_ok_simps [simp]:
  "result_ok (Inr (tool_result_success t))" "\<not> result_ok (Inr (tool_result_error t))" "\<not> result_ok (Inl e)"
  by (simp_all add: result_ok_def tool_result_success_def tool_result_error_def)

text \<open>The live session: each dispatched call runs on the state; the ids of those that succeeded.\<close>

fun run_calls :: "('s \<Rightarrow> str \<Rightarrow> json \<Rightarrow> bool \<times> 's) \<Rightarrow> call list \<Rightarrow> 's \<Rightarrow> str list \<times> 's" where
  "run_calls run [] s = ([], s)"
| "run_calls run (c # cs) s =
     (let (ok, s') = (if dispatched c then run s (name_of c) (input_of c) else (False, s));
          (okd, s'') = run_calls run cs s'
      in ((if ok then [id_of c] else []) @ okd, s''))"

text \<open>A transcript that records a session: its tool calls are the session's, each under an id of its own, and
  the successful results are those of the calls that succeeded.\<close>

definition records_session :: "message list \<Rightarrow> call list \<Rightarrow> str list \<Rightarrow> bool" where
  "records_session messages calls okd \<longleftrightarrow>
     calls_of messages = map (\<lambda>c. (id_of c, name_of c, input_of c)) calls
     \<and> distinct (map id_of calls)
     \<and> set (executed_tool_call_ids messages) = set okd"

subsection \<open>The interface\<close>

lemma replay_transcript_calls:
  "replay_transcript replay messages p =
     fold (\<lambda>(i, name, input) p. if i \<in> set (executed_tool_call_ids messages) then replay p name input else p)
       (calls_of messages) p"
proof -
  let ?ex = "executed_tool_call_ids messages"
  let ?f = "\<lambda>(i, name, input) p. if i \<in> set ?ex then replay p name input else p"
  have block: "fold (replay_block replay ?ex) bs p = fold ?f (List.map_filter block_call bs) p" for bs p
  proof (induction bs arbitrary: p)
    case (Cons b bs)
    then show ?case by (cases b) (simp_all add: List.map_filter_simps)
  qed (simp add: List.map_filter_simps)
  have "fold (replay_message replay ?ex) ms p = fold ?f (calls_of ms) p" for ms p
    by (induction ms arbitrary: p) (simp_all add: calls_of_def replay_message_def block)
  then show ?thesis by (simp add: replay_transcript_def)
qed

locale projection =
  fixes run :: "'s \<Rightarrow> str \<Rightarrow> json \<Rightarrow> bool \<times> 's"
    and replay :: "'p \<Rightarrow> str \<Rightarrow> json \<Rightarrow> 'p"
    and view :: "'s \<Rightarrow> 'p"
  assumes success: "run s name input = (True, s') \<Longrightarrow> view s' = replay (view s) name input"
    and failure: "run s name input = (False, s') \<Longrightarrow> view s' = view s"
begin

lemma run_calls_ids: "set (fst (run_calls run calls s)) \<subseteq> set (map id_of calls)"
proof (induction calls arbitrary: s)
  case (Cons c cs)
  have "set (fst (run_calls run (c # cs) s)) \<subseteq>
      insert (id_of c) (set (fst (run_calls run cs (snd (if dispatched c then run s (name_of c) (input_of c) else (False, s))))))"
    by (auto simp: Let_def split: prod.splits)
  with Cons show ?case by force
qed simp

lemma replay_calls:
  assumes "distinct (map id_of calls)" and "run_calls run calls s = (okd, s')" and "set okd \<subseteq> ex"
    and "\<forall>c\<in>set calls. id_of c \<in> ex \<longrightarrow> id_of c \<in> set okd"
  shows "view s' = fold (\<lambda>(i, name, input) p. if i \<in> ex then replay p name input else p)
    (map (\<lambda>c. (id_of c, name_of c, input_of c)) calls) (view s)"
  using assms
proof (induction calls arbitrary: s okd)
  case (Cons c cs)
  obtain ok s1 where step: "(if dispatched c then run s (name_of c) (input_of c) else (False, s)) = (ok, s1)"
    by (metis surj_pair)
  obtain rest where rest: "run_calls run cs s1 = (rest, s')" "okd = (if ok then [id_of c] else []) @ rest"
    using Cons.prems(2) step by (auto simp: Let_def split: prod.splits)
  have other: "id_of c \<notin> set rest"
    using run_calls_ids [of cs s1] rest(1) Cons.prems(1) by auto
  have "view s' = fold (\<lambda>(i, name, input) p. if i \<in> ex then replay p name input else p)
      (map (\<lambda>c. (id_of c, name_of c, input_of c)) cs) (view s1)"
  proof (rule Cons.IH [OF _ rest(1)])
    show "\<forall>a\<in>set cs. id_of a \<in> ex \<longrightarrow> id_of a \<in> set rest"
    proof (intro ballI impI)
      fix a assume "a \<in> set cs" "id_of a \<in> ex"
      then have "id_of a \<in> set okd" using Cons.prems(4) by simp
      moreover have "id_of a \<in> id_of ` set cs" using \<open>a \<in> set cs\<close> by (rule imageI)
      moreover have "id_of c \<notin> id_of ` set cs" using Cons.prems(1) by simp
      ultimately have "id_of a \<in> set okd" "id_of a \<noteq> id_of c" by metis+
      then show "id_of a \<in> set rest" using rest(2) by (auto split: if_splits)
    qed
  qed (use Cons.prems rest in auto)
  moreover have "view s1 = (if id_of c \<in> ex then replay (view s) (name_of c) (input_of c) else view s)"
  proof (cases ok)
    case True
    then have "dispatched c" and "run s (name_of c) (input_of c) = (True, s1)" using step by (auto split: if_splits)
    then show ?thesis using success Cons.prems(3) rest(2) True by auto
  next
    case False
    then have "id_of c \<notin> ex" using Cons.prems(4) rest(2) other by auto
    moreover have "view s1 = view s" using step False failure by (auto split: if_splits)
    ultimately show ?thesis by simp
  qed
  ultimately show ?case by simp
qed simp

text \<open>The rebuild of a recorded session is the view of its live state.\<close>

lemma rebuild_is_live:
  assumes "run_calls run calls s = (okd, s')" and "records_session messages calls okd"
  shows "replay_transcript replay messages (view s) = view s'"
  using assms replay_calls [of calls s okd s' "set (executed_tool_call_ids messages)"]
  by (simp add: records_session_def replay_transcript_calls)

end

text \<open>A replay that a view makes a replay of its own.\<close>

lemma replay_transcript_view:
  assumes "\<And>p name input. view (r p name input) = r' (view p) name input"
  shows "view (replay_transcript r messages p) = replay_transcript r' messages (view p)"
proof -
  have "view (fold (\<lambda>(i, name, input) p. if i \<in> ex then r p name input else p) cs p)
      = fold (\<lambda>(i, name, input) p. if i \<in> ex then r' p name input else p) cs (view p)" for ex cs p
  proof (induction cs arbitrary: p)
    case (Cons c cs)
    then show ?case by (cases c) (simp add: assms)
  qed simp
  then show ?thesis by (simp only: replay_transcript_calls)
qed

end
