(* ===== verification/TodoList.thy ===== *)
theory TodoList
  imports Transcript
begin

section \<open>agent-runtime: the todo list and its projection\<close>

text \<open>
  The checklist (\<open>agent-runtime/src/tool_state/todo.rs\<close>), the tools that change it
  (\<open>tool-impls/src/tools/todo.rs\<close>) and its rebuild from a transcript. The JSON printer is the
  argument \<open>show_json\<close> (compact) and \<open>pretty\<close>.
\<close>

subsection \<open>The list\<close>

datatype todo_status = Pending | InProgress | Completed

fun todo_status_str :: "todo_status \<Rightarrow> str" where
  "todo_status_str Pending = ''pending''"
| "todo_status_str InProgress = ''in_progress''"
| "todo_status_str Completed = ''completed''"

definition todo_status_from_str :: "str \<Rightarrow> todo_status option" where
  "todo_status_from_str value =
     (let v = to_lowercase (trim value)
      in if v = ''pending'' then Some Pending
         else if v = ''in_progress'' \<or> v = ''inprogress'' then Some InProgress
         else if v = ''completed'' \<or> v = ''done'' then Some Completed
         else None)"

record todo_item =
  todo_id :: "32 word"
  todo_content :: str
  todo_status :: todo_status

record todo_list =
  items :: "todo_item list"
  next_id :: "32 word"

record todo_snapshot =
  snapshot_items :: "todo_item list"
  completion_pct :: "8 word"
  snapshot_in_progress :: "32 word option"

definition new_todo_list :: todo_list where
  "new_todo_list = \<lparr>items = [], next_id = 1\<rparr>"

definition set_single_in_progress :: "32 word option \<Rightarrow> todo_list \<Rightarrow> todo_list" where
  "set_single_in_progress allow_id l =
     l\<lparr>items := map (\<lambda>i. if Some (todo_id i) \<noteq> allow_id \<and> todo_status i = InProgress
                        then i\<lparr>todo_status := Pending\<rparr> else i) (items l)\<rparr>"

definition todo_add :: "str \<Rightarrow> todo_status \<Rightarrow> todo_list \<Rightarrow> todo_item \<times> todo_list" where
  "todo_add c status l =
     (let l1 = (if status = InProgress then set_single_in_progress None l else l);
          item = \<lparr>todo_id = next_id l1, todo_content = c, todo_status = status\<rparr>
      in (item, l1\<lparr>next_id := next_id l1 + 1, items := items l1 @ [item]\<rparr>))"

text \<open>The loop that sets the status of the first item with the id.\<close>

fun set_status :: "32 word \<Rightarrow> todo_status \<Rightarrow> todo_item list \<Rightarrow> todo_item option \<times> todo_item list" where
  "set_status k status [] = (None, [])"
| "set_status k status (i # is) =
     (if todo_id i = k then (Some (i\<lparr>todo_status := status\<rparr>), i\<lparr>todo_status := status\<rparr> # is)
      else let (updated, is') = set_status k status is in (updated, i # is'))"

definition update_status :: "32 word \<Rightarrow> todo_status \<Rightarrow> todo_list \<Rightarrow> todo_item option \<times> todo_list" where
  "update_status k status l =
     (if \<not> list_ex (\<lambda>i. todo_id i = k) (items l) then (None, l)
      else
        let l1 = (if status = InProgress then set_single_in_progress (Some k) l else l);
            (updated, is) = set_status k status (items l1)
        in (updated, l1\<lparr>items := is\<rparr>))"

definition completion_percentage :: "todo_list \<Rightarrow> 8 word" where
  "completion_percentage l =
     (if items l = [] then 0
      else let total = length (items l);
               completed = length (filter (\<lambda>i. todo_status i = Completed) (items l));
               percent = (completed * 100 + total div 2) div total
           in if percent < 256 then word_of_nat percent else - 1)"

definition in_progress_id :: "todo_list \<Rightarrow> 32 word option" where
  "in_progress_id l = map_option todo_id (find (\<lambda>i. todo_status i = InProgress) (items l))"

definition todo_clear :: "todo_list \<Rightarrow> todo_list" where
  "todo_clear l = l\<lparr>items := [], next_id := 1\<rparr>"

definition todo_snapshot_of :: "todo_list \<Rightarrow> todo_snapshot" where
  "todo_snapshot_of l =
     \<lparr>snapshot_items = items l, completion_pct = completion_percentage l, snapshot_in_progress = in_progress_id l\<rparr>"

subsection \<open>The tools\<close>

record todo_env =
  pretty :: "todo_snapshot \<Rightarrow> str"
  show_json :: "json \<Rightarrow> str"

definition item_json :: "todo_item \<Rightarrow> json" where
  "item_json i = JObj [(''id'', json_uint (todo_id i)), (''content'', JStr (todo_content i)),
     (''status'', JStr (todo_status_str (todo_status i)))]"

definition snapshot_json :: "todo_snapshot \<Rightarrow> json" where
  "snapshot_json s = JObj [(''items'', JArr (map item_json (snapshot_items s))),
     (''completion_pct'', json_uint (completion_pct s)),
     (''in_progress_id'', json_opt json_uint (snapshot_in_progress s))]"

definition checklist_metadata :: "todo_snapshot \<Rightarrow> str \<Rightarrow> json" where
  "checklist_metadata s tool =
     JObj [(''canonical_tool'', JStr (case strip_prefix ''todo_'' tool of
              Some r \<Rightarrow> ''checklist_'' @ r | None \<Rightarrow> tool)),
           (''compat_alias'', JBool (starts_with tool ''todo_'')),
           (''task_updates'', JObj [(''checklist'', snapshot_json s)])]"

definition checklist_result :: "str \<Rightarrow> str \<Rightarrow> todo_snapshot \<Rightarrow> tool_result" where
  "checklist_result text tool s =
     (tool_result_success text)\<lparr>result_metadata := Some (checklist_metadata s tool), canonical := Some (snapshot_json s)\<rparr>"

definition parse_item_status :: "todo_env \<Rightarrow> json option \<Rightarrow> tool_error + todo_status" where
  "parse_item_status env value =
     (case value of
        None \<Rightarrow> Inr Pending
      | Some v \<Rightarrow>
          if is_null v then Inr Pending
          else case Option.bind (as_str v) todo_status_from_str of
                 Some s \<Rightarrow> Inr s
               | None \<Rightarrow> Inl (InvalidInput (''invalid '' @ [CHR 0x27] @ ''status'' @ [CHR 0x27] @ '' value: '' @ show_json env v)))"

definition as_id :: "json option \<Rightarrow> 32 word option" where
  "as_id v = Option.bind (Option.bind v as_u64) (\<lambda>w. if uint w < 2 ^ 32 then Some (ucast w) else None)"

definition todo_add_tool :: "todo_env \<Rightarrow> str \<Rightarrow> json \<Rightarrow> todo_list \<Rightarrow> (tool_error + tool_result) \<times> todo_list" where
  "todo_add_tool env tool input l =
     (case Option.bind (json_get ''content'' input) as_str of
        None \<Rightarrow> (Inl (InvalidInput (''Missing '' @ [CHR 0x27] @ ''content'' @ [CHR 0x27])), l)
      | Some c \<Rightarrow>
          case parse_item_status env (json_get ''status'' input) of
            Inl e \<Rightarrow> (Inl e, l)
          | Inr status \<Rightarrow>
              let (item, l') = todo_add c status l; s = todo_snapshot_of l'
              in (Inr (checklist_result (''Added todo #'' @ show_nat (unat (todo_id item)) @ '' (''
                    @ todo_status_str (todo_status item) @ '')'' @ [CHR 0x0A] @ pretty env s) tool s), l'))"

definition todo_update_tool :: "todo_env \<Rightarrow> str \<Rightarrow> json \<Rightarrow> todo_list \<Rightarrow> (tool_error + tool_result) \<times> todo_list" where
  "todo_update_tool env tool input l =
     (case as_id (json_get ''id'' input) of
        None \<Rightarrow> (Inl (InvalidInput (''Missing or invalid '' @ [CHR 0x27] @ ''id'' @ [CHR 0x27])), l)
      | Some k \<Rightarrow>
          case Option.bind (Option.bind (json_get ''status'' input) as_str) todo_status_from_str of
            None \<Rightarrow> (Inl (InvalidInput (''Missing or invalid '' @ [CHR 0x27] @ ''status'' @ [CHR 0x27])), l)
          | Some status \<Rightarrow>
              let (updated, l') = update_status k status l; s = todo_snapshot_of l'
              in case updated of
                   Some item \<Rightarrow>
                     (Inr (checklist_result (''Updated todo #'' @ show_nat (unat (todo_id item)) @ '' to ''
                         @ todo_status_str (todo_status item) @ [CHR 0x0A] @ pretty env s) tool s), l')
                 | None \<Rightarrow> (Inr (tool_result_error (''Todo id '' @ show_nat (unat k) @ '' not found'')), l'))"

definition parse_item :: "todo_env \<Rightarrow> json \<Rightarrow> tool_error + str \<times> todo_status" where
  "parse_item env item =
     (case Option.bind (json_get ''content'' item) as_str of
        None \<Rightarrow> Inl (InvalidInput (''Todo item missing '' @ [CHR 0x27] @ ''content'' @ [CHR 0x27]))
      | Some c \<Rightarrow> try_bind (parse_item_status env (json_get ''status'' item)) (\<lambda>status. Inr (c, status)))"

fun parse_items :: "todo_env \<Rightarrow> json list \<Rightarrow> tool_error + (str \<times> todo_status) list" where
  "parse_items env [] = Inr []"
| "parse_items env (i # is) = try_bind (parse_item env i) (\<lambda>p. try_bind (parse_items env is) (\<lambda>ps. Inr (p # ps)))"

definition add_all :: "(str \<times> todo_status) list \<Rightarrow> todo_list \<Rightarrow> todo_list" where
  "add_all ps l = fold (\<lambda>(c, status) l. snd (todo_add c status l)) ps l"

definition todo_write_tool :: "todo_env \<Rightarrow> str \<Rightarrow> json \<Rightarrow> todo_list \<Rightarrow> (tool_error + tool_result) \<times> todo_list" where
  "todo_write_tool env tool input l =
     (case Option.bind (json_get ''todos'' input) as_array of
        None \<Rightarrow> (Inl (InvalidInput (''Missing or invalid '' @ [CHR 0x27] @ ''todos'' @ [CHR 0x27] @ '' array'')), l)
      | Some todos \<Rightarrow>
          case parse_items env todos of
            Inl e \<Rightarrow> (Inl e, l)
          | Inr parsed \<Rightarrow>
              let l' = add_all parsed (todo_clear l); s = todo_snapshot_of l'
              in (Inr (checklist_result (''Todo list updated ('' @ show_nat (length (snapshot_items s)) @ '' items, ''
                    @ show_nat (unat (completion_pct s)) @ ''% complete)'' @ [CHR 0x0A] @ pretty env s) tool s), l'))"

definition todo_list_tool :: "todo_env \<Rightarrow> todo_list \<Rightarrow> tool_error + tool_result" where
  "todo_list_tool env l =
     (let s = todo_snapshot_of l
      in Inr (tool_result_success (''Todo list ('' @ show_nat (length (snapshot_items s)) @ '' items, ''
           @ show_nat (unat (completion_pct s)) @ ''% complete)'' @ [CHR 0x0A] @ pretty env s)))"

subsection \<open>The rebuild\<close>

definition lenient_status :: "json \<Rightarrow> todo_status" where
  "lenient_status item =
     (case Option.bind (Option.bind (json_get ''status'' item) as_str) todo_status_from_str of
        Some s \<Rightarrow> s | None \<Rightarrow> Pending)"

fun rebuild_items :: "json list \<Rightarrow> todo_list \<Rightarrow> todo_list option" where
  "rebuild_items [] l = Some l"
| "rebuild_items (i # is) l =
     (case Option.bind (json_get ''content'' i) as_str of
        None \<Rightarrow> None
      | Some c \<Rightarrow> rebuild_items is (snd (todo_add c (lenient_status i) l)))"

text \<open>The names under which the tools are registered.\<close>

definition writes_list :: "str \<Rightarrow> bool" where
  "writes_list name \<longleftrightarrow> name = ''todo_write'' \<or> name = ''checklist_write''"

definition adds_item :: "str \<Rightarrow> bool" where
  "adds_item name \<longleftrightarrow> name = ''todo_add'' \<or> name = ''checklist_add''"

definition updates_item :: "str \<Rightarrow> bool" where
  "updates_item name \<longleftrightarrow> name = ''todo_update'' \<or> name = ''checklist_update''"

definition lists_items :: "str \<Rightarrow> bool" where
  "lists_items name \<longleftrightarrow> name = ''todo_list'' \<or> name = ''checklist_list''"

lemma todo_names_disjoint:
  "adds_item name \<Longrightarrow> \<not> writes_list name" "updates_item name \<Longrightarrow> \<not> writes_list name \<and> \<not> adds_item name"
  by (auto simp: adds_item_def writes_list_def updates_item_def)

definition replay_todo :: "todo_list \<Rightarrow> str \<Rightarrow> json \<Rightarrow> todo_list" where
  "replay_todo l name input =
     (if writes_list name then
        (case Option.bind (json_get ''todos'' input) as_array of
           None \<Rightarrow> l
         | Some todos \<Rightarrow> (case rebuild_items todos new_todo_list of Some l' \<Rightarrow> l' | None \<Rightarrow> l))
      else if adds_item name then
        (case Option.bind (json_get ''content'' input) as_str of
           None \<Rightarrow> l
         | Some c \<Rightarrow> snd (todo_add c (lenient_status input) l))
      else if updates_item name then
        (case (as_id (json_get ''id'' input),
               Option.bind (Option.bind (json_get ''status'' input) as_str) todo_status_from_str) of
           (Some k, Some status) \<Rightarrow> snd (update_status k status l)
         | _ \<Rightarrow> l)
      else l)"

definition rebuild_todo_list :: "message list \<Rightarrow> todo_list" where
  "rebuild_todo_list messages = replay_transcript replay_todo messages new_todo_list"

subsection \<open>The live tools as a whole\<close>

text \<open>A dispatched call on the list, with its success as the transcript records it; the argument \<open>other\<close> gives the
  outcome of every tool that does not touch the list.\<close>

definition todo_call :: "todo_env \<Rightarrow> (str \<Rightarrow> json \<Rightarrow> bool) \<Rightarrow> todo_list \<Rightarrow> str \<Rightarrow> json \<Rightarrow> bool \<times> todo_list" where
  "todo_call env other l name input =
     (if writes_list name then map_prod result_ok id (todo_write_tool env name input l)
      else if adds_item name then map_prod result_ok id (todo_add_tool env name input l)
      else if updates_item name then map_prod result_ok id (todo_update_tool env name input l)
      else if lists_items name then (result_ok (todo_list_tool env l), l)
      else (other name input, l))"

subsection \<open>Each tool changes the list as its replay does\<close>

lemma checklist_result_ok [simp]: "result_ok (Inr (checklist_result t n s))"
  by (simp add: result_ok_def checklist_result_def tool_result_success_def)

lemma parse_item_status_lenient:
  "parse_item_status env (json_get ''status'' item) = Inr status \<Longrightarrow> lenient_status item = status"
  by (auto simp: parse_item_status_def lenient_status_def split: option.splits if_splits elim: is_null.elims)

lemma parse_items_rebuild:
  "parse_items env todos = Inr parsed \<Longrightarrow> rebuild_items todos l = Some (add_all parsed l)"
proof (induction todos arbitrary: parsed l)
  case (Cons i todos)
  then obtain c status ps where "Option.bind (json_get ''content'' i) as_str = Some c"
    and "parse_item_status env (json_get ''status'' i) = Inr status"
    and "parse_items env todos = Inr ps" "parsed = (c, status) # ps"
    by (auto simp: try_bind_Inr_iff parse_item_def split: option.splits)
  then show ?case using Cons.IH parse_item_status_lenient by (simp add: add_all_def)
qed (simp add: add_all_def)

lemma write_replays:
  assumes "todo_write_tool env tool input l = (r, l')"
  shows "l' = (if result_ok r then (case Option.bind (json_get ''todos'' input) as_array of None \<Rightarrow> l
        | Some todos \<Rightarrow> (case rebuild_items todos new_todo_list of Some l' \<Rightarrow> l' | None \<Rightarrow> l)) else l)"
proof (cases "Option.bind (json_get ''todos'' input) as_array")
  case None
  with assms show ?thesis by (auto simp: todo_write_tool_def)
next
  case (Some todos)
  show ?thesis
  proof (cases "parse_items env todos")
    case (Inl e)
    with Some assms show ?thesis by (auto simp: todo_write_tool_def)
  next
    case (Inr parsed)
    have "todo_clear l = new_todo_list" by (simp add: todo_clear_def new_todo_list_def)
    with Some Inr assms have "l' = add_all parsed new_todo_list" "result_ok r"
      by (auto simp: todo_write_tool_def Let_def)
    with Some parse_items_rebuild [OF Inr] show ?thesis by simp
  qed
qed

lemma add_replays:
  assumes "todo_add_tool env tool input l = (r, l')"
  shows "l' = (if result_ok r then (case Option.bind (json_get ''content'' input) as_str of
           None \<Rightarrow> l | Some c \<Rightarrow> snd (todo_add c (lenient_status input) l)) else l)"
proof (cases "Option.bind (json_get ''content'' input) as_str")
  case None
  with assms show ?thesis by (auto simp: todo_add_tool_def)
next
  case (Some c)
  show ?thesis
  proof (cases "parse_item_status env (json_get ''status'' input)")
    case (Inl e)
    with Some assms show ?thesis by (auto simp: todo_add_tool_def)
  next
    case (Inr status)
    with Some assms have "l' = snd (todo_add c status l)" "result_ok r"
      by (auto simp: todo_add_tool_def Let_def split: prod.splits)
    with Some parse_item_status_lenient [OF Inr] show ?thesis by simp
  qed
qed

lemma has_id: "list_ex (\<lambda>i. todo_id i = k) is \<longleftrightarrow> k \<in> set (map todo_id is)"
  by (auto simp: list_ex_iff)

lemma set_single_ids [simp]: "map todo_id (items (set_single_in_progress a l)) = map todo_id (items l)"
  by (simp add: set_single_in_progress_def)

lemma set_status_found: "k \<in> set (map todo_id is) \<Longrightarrow> fst (set_status k status is) \<noteq> None"
  by (induction "is") (auto simp: Let_def case_prod_beta')

lemma update_status_cases:
  obtains (missing) "k \<notin> set (map todo_id (items l))" "update_status k status l = (None, l)"
  | (found) i l' where "k \<in> set (map todo_id (items l))" "update_status k status l = (Some i, l')"
proof (cases "k \<in> set (map todo_id (items l))")
  case False
  then show thesis by (intro missing) (simp_all add: update_status_def has_id)
next
  case True
  let ?l1 = "if status = InProgress then set_single_in_progress (Some k) l else l"
  have "k \<in> set (map todo_id (items ?l1))" using True by (simp only: set_single_ids split: if_split) simp
  then obtain i where "fst (set_status k status (items ?l1)) = Some i" using set_status_found by blast
  then have "update_status k status l = (Some i, ?l1\<lparr>items := snd (set_status k status (items ?l1))\<rparr>)"
    using True by (simp add: update_status_def has_id Let_def case_prod_beta')
  with True show thesis by (rule found)
qed

lemma update_replays:
  assumes "todo_update_tool env tool input l = (r, l')"
  shows "l' = (if result_ok r then (case (as_id (json_get ''id'' input),
               Option.bind (Option.bind (json_get ''status'' input) as_str) todo_status_from_str) of
           (Some k, Some status) \<Rightarrow> snd (update_status k status l) | _ \<Rightarrow> l) else l)"
proof (cases "as_id (json_get ''id'' input)")
  case None
  with assms show ?thesis by (auto simp: todo_update_tool_def)
next
  case (Some k)
  show ?thesis
  proof (cases "Option.bind (Option.bind (json_get ''status'' input) as_str) todo_status_from_str")
    case None
    with Some assms show ?thesis by (auto simp: todo_update_tool_def)
  next
    case (Some status)
    show ?thesis
    proof (cases rule: update_status_cases [of k l status])
      case missing
      with Some \<open>as_id _ = Some k\<close> assms show ?thesis by (auto simp: todo_update_tool_def Let_def)
    next
      case (found i l'')
      with Some \<open>as_id _ = Some k\<close> assms show ?thesis by (auto simp: todo_update_tool_def Let_def)
    qed
  qed
qed

interpretation todo: projection "todo_call env other" replay_todo "\<lambda>l. l" for env other
proof
  have replay: "l' = (if ok then replay_todo l name input else l)"
    if call: "todo_call env other l name input = (ok, l')" for l name input ok l'
  proof -
    consider "writes_list name" | "adds_item name" | "updates_item name"
      | "\<not> writes_list name" "\<not> adds_item name" "\<not> updates_item name" by blast
    then show ?thesis
    proof cases
      case 1
      then obtain r where run: "todo_write_tool env name input l = (r, l')" and "ok = result_ok r"
        using call by (cases "todo_write_tool env name input l") (simp add: todo_call_def)
      with 1 write_replays [OF run] show ?thesis by (simp add: replay_todo_def)
    next
      case 2
      note n = todo_names_disjoint(1) [OF 2]
      obtain r where run: "todo_add_tool env name input l = (r, l')" and "ok = result_ok r"
        using call 2 n by (cases "todo_add_tool env name input l") (simp add: todo_call_def)
      with 2 n add_replays [OF run] show ?thesis by (simp add: replay_todo_def)
    next
      case 3
      note n = todo_names_disjoint(2) [OF 3]
      obtain r where run: "todo_update_tool env name input l = (r, l')" and "ok = result_ok r"
        using call 3 n by (cases "todo_update_tool env name input l") (simp add: todo_call_def)
      with 3 n update_replays [OF run] show ?thesis by (simp add: replay_todo_def)
    next
      case 4
      with call have "l' = l" by (simp add: todo_call_def split: if_splits)
      with 4 show ?thesis by (simp add: replay_todo_def)
    qed
  qed
  show "s' = replay_todo s name input" if "todo_call env other s name input = (True, s')" for s name input s'
    using replay [OF that] by simp
  show "s' = s" if "todo_call env other s name input = (False, s')" for s name input s'
    using replay [OF that] by simp
qed

subsection \<open>The invariant of the list\<close>

definition todo_ok :: "todo_list \<Rightarrow> bool" where
  "todo_ok l \<longleftrightarrow>
     map todo_id (items l) = map (\<lambda>i. word_of_nat (Suc i)) [0..<length (items l)]
     \<and> next_id l = word_of_nat (Suc (length (items l)))
     \<and> (length (items l) < 2 ^ 32 \<longrightarrow> length (filter (\<lambda>i. todo_status i = InProgress) (items l)) \<le> 1)"

lemma todo_ok_new [simp]: "todo_ok new_todo_list"
  by (simp add: todo_ok_def new_todo_list_def)

lemma single_none [simp]:
  "filter (\<lambda>i. todo_status i = InProgress) (items (set_single_in_progress None l)) = []"
  by (auto simp: set_single_in_progress_def filter_empty_conv)

lemma single_simps [simp]:
  "length (items (set_single_in_progress a l)) = length (items l)"
  "next_id (set_single_in_progress a l) = next_id l"
  by (simp_all add: set_single_in_progress_def)

lemma add_ok [inv_intros]:
  assumes "todo_ok l"
  shows "todo_ok (snd (todo_add c status l))"
proof -
  have "map todo_id (items (if status = InProgress then set_single_in_progress None l else l))
      = map (\<lambda>i. word_of_nat (Suc i)) [0..<length (items l)]"
    using assms by (simp add: todo_ok_def split: if_split)
  then show ?thesis
    using assms by (auto simp: todo_ok_def todo_add_def Let_def)
qed

lemma set_status_ids [simp]: "map todo_id (snd (set_status k status is)) = map todo_id is"
  by (induction "is") (auto simp: Let_def case_prod_beta')

lemma set_status_other:
  "status \<noteq> InProgress \<Longrightarrow>
     length (filter (\<lambda>i. todo_status i = InProgress) (snd (set_status k status is)))
     \<le> length (filter (\<lambda>i. todo_status i = InProgress) is)"
  by (induction "is") (auto simp: Let_def case_prod_beta')

text \<open>Once every other item is demoted, setting the item leaves at most it in progress.\<close>

lemma set_status_single:
  assumes "\<forall>i\<in>set is. todo_status i = InProgress \<longrightarrow> todo_id i = k" and "distinct (map todo_id is)"
  shows "length (filter (\<lambda>i. todo_status i = InProgress) (snd (set_status k status is))) \<le> 1"
proof -
  let ?f = "filter (\<lambda>i. todo_status i = InProgress) (snd (set_status k status is))"
  have "\<forall>i\<in>set (snd (set_status k status is)). todo_status i = InProgress \<longrightarrow> todo_id i = k"
    using assms(1) by (induction "is") (auto simp: Let_def case_prod_beta' split: if_splits)
  then have "set (map todo_id ?f) \<subseteq> {k}" by auto
  moreover have "distinct (map todo_id ?f)"
    using assms(2) by (metis distinct_map_filter set_status_ids)
  ultimately have "card (set (map todo_id ?f)) \<le> card {k}" and "card (set (map todo_id ?f)) = length (map todo_id ?f)"
    by (intro card_mono distinct_card; simp)+
  then show ?thesis by (simp only: length_map card.insert finite.emptyI empty_iff card.empty One_nat_def simp_thms)
qed

lemma todo_ids_distinct:
  assumes "todo_ok l" and "length (items l) < 2 ^ 32"
  shows "distinct (map todo_id (items l))"
proof -
  have "inj_on (\<lambda>i. word_of_nat (Suc i) :: 32 word) {0..<length (items l)}"
  proof (rule inj_onI)
    fix i j assume lt: "i \<in> {0..<length (items l)}" "j \<in> {0..<length (items l)}"
      and "word_of_nat (Suc i) = (word_of_nat (Suc j) :: 32 word)"
    then have "unat (word_of_nat (Suc i) :: 32 word) = unat (word_of_nat (Suc j) :: 32 word)" by (simp only:)
    then have "Suc i mod 2 ^ 32 = Suc j mod 2 ^ 32" by (simp only: unat_of_nat) simp
    then show "i = j" using lt assms(2) by simp
  qed
  then show ?thesis using assms(1) by (simp add: todo_ok_def distinct_map)
qed

lemma update_ok [inv_intros]:
  assumes "todo_ok l"
  shows "todo_ok (snd (update_status k status l))"
proof (cases "list_ex (\<lambda>i. todo_id i = k) (items l)")
  case True
  let ?l1 = "if status = InProgress then set_single_in_progress (Some k) l else l"
  let ?is = "snd (set_status k status (items ?l1))"
  have r: "snd (update_status k status l) = ?l1\<lparr>items := ?is\<rparr>"
    using True by (simp add: update_status_def Let_def case_prod_beta')
  have ids: "map todo_id ?is = map todo_id (items l)" by (simp split: if_split)
  then have len: "length ?is = length (items l)" by (metis length_map)
  have "length (filter (\<lambda>i. todo_status i = InProgress) ?is) \<le> 1" if small: "length (items l) < 2 ^ 32"
  proof (cases "status = InProgress")
    case False
    then show ?thesis
      using assms small set_status_other [OF False, of k "items l"] by (simp add: todo_ok_def)
  next
    case True
    have "\<forall>i\<in>set (items ?l1). todo_status i = InProgress \<longrightarrow> todo_id i = k"
      using True by (auto simp: set_single_in_progress_def)
    then show ?thesis
      using todo_ids_distinct [OF assms small] True by (intro set_status_single) simp_all
  qed
  then show ?thesis using assms ids len unfolding r by (simp add: todo_ok_def)
qed (simp add: update_status_def assms)

lemma add_all_ok: "todo_ok l \<Longrightarrow> todo_ok (add_all ps l)"
  by (induction ps arbitrary: l) (auto simp: add_all_def intro: inv_intros)

lemma rebuild_items_ok: "todo_ok l \<Longrightarrow> rebuild_items is l = Some l' \<Longrightarrow> todo_ok l'"
  by (induction "is" arbitrary: l) (auto split: option.splits intro: inv_intros)

lemma replay_ok [inv_intros]: "todo_ok l \<Longrightarrow> todo_ok (replay_todo l name input)"
proof -
  assume ok: "todo_ok l"
  define todos where "todos = Option.bind (json_get ''todos'' input) as_array"
  define c where "c = Option.bind (json_get ''content'' input) as_str"
  define k where "k = as_id (json_get ''id'' input)"
  define st where "st = Option.bind (Option.bind (json_get ''status'' input) as_str) todo_status_from_str"
  have "replay_todo l name input =
      (if writes_list name then
        (case todos of None \<Rightarrow> l | Some ts \<Rightarrow> (case rebuild_items ts new_todo_list of Some l' \<Rightarrow> l' | None \<Rightarrow> l))
       else if adds_item name then (case c of None \<Rightarrow> l | Some c \<Rightarrow> snd (todo_add c (lenient_status input) l))
       else if updates_item name then (case (k, st) of (Some k, Some status) \<Rightarrow> snd (update_status k status l) | _ \<Rightarrow> l)
       else l)"
    unfolding todos_def c_def k_def st_def by (rule replay_todo_def)
  also have "todo_ok \<dots>"
    using ok by (auto split: option.split intro: inv_intros dest: rebuild_items_ok [OF todo_ok_new])
  finally show ?thesis .
qed

lemma replay_transcript_ok: "todo_ok (rebuild_todo_list messages)"
proof -
  have fold_ok: "todo_ok l \<Longrightarrow> todo_ok (fold (\<lambda>(i, name, input) l. if i \<in> ex then replay_todo l name input else l) cs l)" for l ex cs
  proof (induction cs arbitrary: l)
    case (Cons c cs)
    then show ?case by (cases c) (simp add: replay_ok)
  qed simp
  show ?thesis
    unfolding rebuild_todo_list_def replay_transcript_calls by (rule fold_ok) simp
qed

lemma todo_call_ok:
  assumes "todo_ok l" and "todo_call env other l name input = (ok, l')"
  shows "todo_ok l'"
proof (cases ok)
  case True
  then show ?thesis using assms todo.success [of env other l name input l'] replay_ok by simp
next
  case False
  then show ?thesis using assms todo.failure [of env other l name input l'] by simp
qed

lemma run_calls_ok:
  "todo_ok l \<Longrightarrow> run_calls (todo_call env other) calls l = (okd, l') \<Longrightarrow> todo_ok l'"
proof (induction calls arbitrary: l okd)
  case (Cons c cs)
  let ?r = "if dispatched c then todo_call env other l (name_of c) (input_of c) else (False, l)"
  have "todo_ok (snd ?r)"
    using Cons.prems(1) todo_call_ok [OF Cons.prems(1)] by (metis prod.collapse snd_conv)
  moreover have "run_calls (todo_call env other) cs (snd ?r) = (fst (run_calls (todo_call env other) cs (snd ?r)), l')"
    using Cons.prems(2) by (simp add: Let_def case_prod_beta' prod_eq_iff)
  ultimately show ?case by (rule Cons.IH)
qed simp

lemma completion_at_most_100: "completion_percentage l \<le> 100"
proof (cases "items l = []")
  case False
  let ?t = "length (items l)" and ?c = "length (filter (\<lambda>i. todo_status i = Completed) (items l))"
  have "?c * 100 + ?t div 2 < ?t * 101"
  proof -
    have "?c \<le> ?t" "0 < ?t" using False by simp_all
    then show ?thesis by linarith
  qed
  then have "(?c * 100 + ?t div 2) div ?t < 101"
    using False by (simp add: div_less_iff_less_mult mult.commute)
  then show ?thesis
    using False by (simp add: completion_percentage_def Let_def word_le_nat_alt unat_of_nat)
qed (simp add: completion_percentage_def)

section \<open>Properties\<close>

text \<open>A resumed session finds its checklist. Whatever calls a session made, whichever of them were
  dispatched and however they ended, the list rebuilt from a transcript that records them is the list
  the live tools left behind, ids and order included.\<close>

theorem todo_rebuild_is_live:
  assumes "run_calls (todo_call env other) calls new_todo_list = (okd, l)" and "records_session messages calls okd"
  shows "rebuild_todo_list messages = l"
  using todo.rebuild_is_live [OF assms] by (simp add: rebuild_todo_list_def)

definition sample_env :: todo_env where
  "sample_env = \<lparr>pretty = (\<lambda>_. []), show_json = (\<lambda>_. [])\<rparr>"

definition sample_calls :: "call list" where
  "sample_calls =
     [\<lparr>id_of = ''c1'', name_of = ''checklist_add'', input_of = JObj [(''content'', JStr ''build'')], dispatched = True\<rparr>,
      \<lparr>id_of = ''c2'', name_of = ''checklist_update'', input_of = JObj [(''id'', JInt 7), (''status'', JStr ''done'')], dispatched = True\<rparr>]"

definition sample_transcript :: "message list" where
  "sample_transcript =
     [\<lparr>role = ''assistant'', blocks = map (\<lambda>c. ToolUse (id_of c) (name_of c) (input_of c) None) sample_calls\<rparr>,
      \<lparr>role = ''user'', blocks = [ToolResultBlock ''c1'' [] (Some False) None, ToolResultBlock ''c2'' [] (Some True) None]\<rparr>]"

theorem todo_rebuild_is_live_witness:
  "rebuild_todo_list sample_transcript = snd (run_calls (todo_call sample_env (\<lambda>_ _. True)) sample_calls new_todo_list)"
proof -
  let ?run = "run_calls (todo_call sample_env (\<lambda>_ _. True)) sample_calls new_todo_list"
  have "fst ?run = [''c1'']" by code_simp
  then have "?run = ([''c1''], snd ?run)" by (metis prod.collapse)
  moreover have "records_session sample_transcript sample_calls [''c1'']"
    by (simp add: records_session_def sample_transcript_def sample_calls_def calls_of_def executed_tool_call_ids_def
        List.map_filter_simps)
  ultimately show ?thesis by (rule todo_rebuild_is_live)
qed

text \<open>The list stays consistent. After any calls of a session the items carry the ids 1, 2, ... in
  order, at most one item is in progress (while there are fewer than \<open>2^32\<close> of them), and the
  completion is at most 100 per cent.\<close>

theorem todo_list_stays_consistent:
  assumes "run_calls (todo_call env other) calls new_todo_list = (okd, l)"
  shows "map todo_id (items l) = map (\<lambda>i. word_of_nat (Suc i)) [0..<length (items l)]
    \<and> (length (items l) < 2 ^ 32 \<longrightarrow> length (filter (\<lambda>i. todo_status i = InProgress) (items l)) \<le> 1)
    \<and> completion_percentage l \<le> 100"
  using run_calls_ok [OF todo_ok_new assms] completion_at_most_100 by (simp add: todo_ok_def)

theorem todo_list_stays_consistent_witness:
  "let l = snd (run_calls (todo_call sample_env (\<lambda>_ _. True)) sample_calls new_todo_list)
   in map todo_id (items l) = map (\<lambda>i. word_of_nat (Suc i)) [0..<length (items l)]"
  using todo_list_stays_consistent [OF prod.collapse [symmetric], of sample_env "\<lambda>_ _. True" sample_calls]
  by (simp add: Let_def)

end
