(* ===== verification/PlanState.thy ===== *)
theory PlanState
  imports Transcript
begin

section \<open>agent-runtime: the plan and its projection\<close>

text \<open>
  The plan (\<open>agent-runtime/src/tool_state/plan.rs\<close>), the tool that updates it
  (\<open>tool-impls/src/tools/plan.rs\<close>) and its rebuild from a transcript. Instants are numbers of ticks
  handed in; \<open>secs\<close> reads a number of ticks as whole seconds, \<open>pretty\<close> prints a snapshot.
\<close>

datatype step_status = StepPending | StepInProgress | StepCompleted

definition step_status_from_str :: "str \<Rightarrow> step_status option" where
  "step_status_from_str value =
     (let v = to_lowercase (trim value)
      in if v = ''pending'' then Some StepPending
         else if v = ''in_progress'' \<or> v = ''inprogress'' then Some StepInProgress
         else if v = ''completed'' \<or> v = ''done'' then Some StepCompleted
         else None)"

record plan_item =
  step_name :: str
  item_status :: step_status

record update_plan_args =
  args_explanation :: "str option"
  plan_items :: "plan_item list"

record plan_step =
  step_text :: str
  step_status :: step_status
  step_started :: "nat option"
  step_completed :: "nat option"

record plan_state =
  explanation :: "str option"
  steps :: "plan_step list"

definition new_step :: "str \<Rightarrow> step_status \<Rightarrow> plan_step" where
  "new_step t s = \<lparr>step_text = t, step_status = s, step_started = None, step_completed = None\<rparr>"

definition default_plan :: plan_state where
  "default_plan = \<lparr>explanation = None, steps = []\<rparr>"

definition step_elapsed :: "nat \<Rightarrow> plan_step \<Rightarrow> nat option" where
  "step_elapsed now s =
     (case (step_started s, step_completed s) of
        (Some start, Some stop) \<Rightarrow> Some (stop - start)
      | (Some start, None) \<Rightarrow> if step_status s = StepInProgress then Some (now - start) else None
      | _ \<Rightarrow> None)"

definition elapsed_str :: "(nat \<Rightarrow> nat) \<Rightarrow> nat \<Rightarrow> plan_step \<Rightarrow> str" where
  "elapsed_str secs now s =
     (case step_elapsed now s of
        Some d \<Rightarrow>
          let n = secs d
          in if n < 60 then show_nat n @ ''s''
             else if n < 3600 then show_nat (n div 60) @ ''m '' @ show_nat (n mod 60) @ ''s''
             else show_nat (n div 3600) @ ''h '' @ show_nat ((n mod 3600) div 60) @ ''m''
      | None \<Rightarrow> [])"

definition plan_is_empty :: "plan_state \<Rightarrow> bool" where
  "plan_is_empty p \<longleftrightarrow> steps p = [] \<and> (case explanation p of None \<Rightarrow> True | Some e \<Rightarrow> e = [])"

subsection \<open>Updates\<close>

text \<open>The step of one item of an update: an existing step of that text keeps its timing.\<close>

definition updated_step :: "nat \<Rightarrow> plan_step list \<Rightarrow> str \<Rightarrow> step_status \<Rightarrow> plan_step" where
  "updated_step now old t status =
     (case find (\<lambda>s. step_text s = t) old of
        Some o' \<Rightarrow>
          let s = o'\<lparr>step_status := status\<rparr>;
              s = (if step_status o' = StepPending \<and> status = StepInProgress then s\<lparr>step_started := Some now\<rparr> else s)
          in if step_status o' = StepInProgress \<and> status = StepCompleted then s\<lparr>step_completed := Some now\<rparr> else s
      | None \<Rightarrow>
          let s = new_step t status
          in if status = StepInProgress then s\<lparr>step_started := Some now\<rparr> else s)"

fun update_steps :: "nat \<Rightarrow> plan_step list \<Rightarrow> bool \<Rightarrow> plan_item list \<Rightarrow> plan_step list" where
  "update_steps now old in_progress_seen [] = []"
| "update_steps now old in_progress_seen (i # is) =
     (if item_status i = StepInProgress
      then if in_progress_seen
           then updated_step now old (step_name i) StepPending # update_steps now old in_progress_seen is
           else updated_step now old (step_name i) StepInProgress # update_steps now old True is
      else updated_step now old (step_name i) (item_status i) # update_steps now old in_progress_seen is)"

definition kept_explanation :: "str option \<Rightarrow> str option" where
  "kept_explanation e = (case e of Some s \<Rightarrow> if trim s = [] then None else Some s | None \<Rightarrow> None)"

definition plan_update :: "nat \<Rightarrow> update_plan_args \<Rightarrow> plan_state \<Rightarrow> plan_state" where
  "plan_update now args p =
     p\<lparr>explanation := kept_explanation (args_explanation args),
       steps := update_steps now (steps p) False (plan_items args)\<rparr>"

record plan_snapshot =
  snap_explanation :: "str option"
  snap_items :: "plan_item list"

definition plan_snapshot_of :: "plan_state \<Rightarrow> plan_snapshot" where
  "plan_snapshot_of p =
     \<lparr>snap_explanation = explanation p,
      snap_items = map (\<lambda>s. \<lparr>step_name = step_text s, item_status = step_status s\<rparr>) (steps p)\<rparr>"

definition plan_counts :: "plan_state \<Rightarrow> nat \<times> nat \<times> nat" where
  "plan_counts p =
     (length (filter (\<lambda>s. step_status s = StepPending) (steps p)),
      length (filter (\<lambda>s. step_status s = StepInProgress) (steps p)),
      length (filter (\<lambda>s. step_status s = StepCompleted) (steps p)))"

definition progress_percent :: "plan_state \<Rightarrow> 8 word" where
  "progress_percent p =
     (if steps p = [] then 0
      else let completed = length (filter (\<lambda>s. step_status s = StepCompleted) (steps p));
               percent = completed * 100 div length (steps p)
           in if percent < 256 then word_of_nat percent else - 1)"

datatype plan_validation = PlanOk | PlanWarning str

fun validate_items :: "(str \<Rightarrow> step_status option) \<Rightarrow> plan_item list \<Rightarrow> plan_validation" where
  "validate_items current [] = PlanOk"
| "validate_items current (i # is) =
     (if current (step_name i) = Some StepCompleted \<and> item_status i = StepPending
      then PlanWarning (''Step '' @ [CHR 0x27] @ step_name i @ [CHR 0x27] @ '' was completed but is now pending'')
      else if current (step_name i) = Some StepCompleted \<and> item_status i = StepInProgress
      then PlanWarning (''Step '' @ [CHR 0x27] @ step_name i @ [CHR 0x27] @ '' was completed but is now in progress'')
      else validate_items current is)"

text \<open>Collecting into a \<open>HashMap\<close> keeps the last of two steps with one text.\<close>

definition validate_plan_update :: "plan_state \<Rightarrow> update_plan_args \<Rightarrow> plan_validation" where
  "validate_plan_update current args =
     validate_items (map_of (rev (map (\<lambda>s. (step_text s, step_status s)) (steps current)))) (plan_items args)"

subsection \<open>The tool\<close>

definition parse_explanation :: "json \<Rightarrow> str option" where
  "parse_explanation input = Option.bind (json_get ''explanation'' input) as_str"

definition step_status_of :: "json \<Rightarrow> step_status" where
  "step_status_of item =
     (let status_str = (case Option.bind (json_get ''status'' item) as_str of Some s \<Rightarrow> s | None \<Rightarrow> ''pending'')
      in case step_status_from_str status_str of Some s \<Rightarrow> s | None \<Rightarrow> StepPending)"

fun parse_plan_items :: "json list \<Rightarrow> tool_error + plan_item list" where
  "parse_plan_items [] = Inr []"
| "parse_plan_items (i # is) =
     (case Option.bind (json_get ''step'' i) as_str of
        None \<Rightarrow> Inl (InvalidInput (''Plan item missing '' @ [CHR 0x27] @ ''step'' @ [CHR 0x27]))
      | Some step \<Rightarrow>
          try_bind (parse_plan_items is) (\<lambda>ps. Inr (\<lparr>step_name = step, item_status = step_status_of i\<rparr> # ps)))"

definition update_plan_tool ::
  "(plan_snapshot \<Rightarrow> str) \<Rightarrow> nat \<Rightarrow> json \<Rightarrow> plan_state \<Rightarrow> (tool_error + tool_result) \<times> plan_state" where
  "update_plan_tool pretty now input p =
     (case Option.bind (json_get ''plan'' input) as_array of
        None \<Rightarrow> (Inl (InvalidInput (''Missing or invalid '' @ [CHR 0x27] @ ''plan'' @ [CHR 0x27] @ '' array'')), p)
      | Some items \<Rightarrow>
          case parse_plan_items items of
            Inl e \<Rightarrow> (Inl e, p)
          | Inr plan_args \<Rightarrow>
              let p' = plan_update now \<lparr>args_explanation = parse_explanation input, plan_items = plan_args\<rparr> p;
                  (pending, in_progress, completed) = plan_counts p'
              in (Inr (tool_result_success (''Plan updated: '' @ show_nat pending @ '' pending, ''
                    @ show_nat in_progress @ '' in progress, '' @ show_nat completed @ '' completed (''
                    @ show_nat (unat (progress_percent p')) @ ''% done)'' @ [CHR 0x0A] @ pretty (plan_snapshot_of p'))), p'))"

subsection \<open>The rebuild\<close>

definition rebuilt_status :: "json \<Rightarrow> step_status" where
  "rebuilt_status item =
     (case Option.bind (Option.bind (json_get ''status'' item) as_str) step_status_from_str of
        Some s \<Rightarrow> s | None \<Rightarrow> StepPending)"

fun rebuild_plan_items :: "json list \<Rightarrow> plan_item list option" where
  "rebuild_plan_items [] = Some []"
| "rebuild_plan_items (i # is) =
     (case Option.bind (json_get ''step'' i) as_str of
        None \<Rightarrow> None
      | Some step \<Rightarrow> map_option ((#) \<lparr>step_name = step, item_status = rebuilt_status i\<rparr>) (rebuild_plan_items is))"

definition updates_plan :: "str \<Rightarrow> bool" where
  "updates_plan name \<longleftrightarrow> name = ''update_plan''"

definition replay_plan :: "nat \<Rightarrow> plan_state \<Rightarrow> str \<Rightarrow> json \<Rightarrow> plan_state" where
  "replay_plan now p name input =
     (if \<not> updates_plan name then p
      else case Option.bind (json_get ''plan'' input) as_array of
             None \<Rightarrow> p
           | Some items \<Rightarrow>
               (case rebuild_plan_items items of
                  None \<Rightarrow> p
                | Some ps \<Rightarrow> plan_update now \<lparr>args_explanation = parse_explanation input, plan_items = ps\<rparr> p))"

definition rebuild_plan :: "nat \<Rightarrow> message list \<Rightarrow> plan_state" where
  "rebuild_plan now messages = replay_transcript (replay_plan now) messages default_plan"

subsection \<open>The plan without its timing\<close>

type_synonym plan_view = "str option \<times> (str \<times> step_status) list"

definition plan_view :: "plan_state \<Rightarrow> plan_view" where
  "plan_view p = (explanation p, map (\<lambda>s. (step_text s, step_status s)) (steps p))"

text \<open>The statuses of an update: the second and later items in progress become pending.\<close>

fun single_in_progress :: "bool \<Rightarrow> plan_item list \<Rightarrow> (str \<times> step_status) list" where
  "single_in_progress seen [] = []"
| "single_in_progress seen (i # is) =
     (if item_status i = StepInProgress
      then (step_name i, if seen then StepPending else StepInProgress) # single_in_progress True is
      else (step_name i, item_status i) # single_in_progress seen is)"

lemma updated_step_view:
  "step_text (updated_step now old t st) = t" "step_status (updated_step now old t st) = st"
  by (auto simp: updated_step_def new_step_def Let_def split: option.splits dest: find_SomeD)

lemma update_steps_view:
  "map (\<lambda>s. (step_text s, step_status s)) (update_steps now old seen is) = single_in_progress seen is"
  by (induction seen "is" rule: single_in_progress.induct) (auto simp: updated_step_view)

lemma plan_update_view:
  "plan_view (plan_update now args p) =
     (kept_explanation (args_explanation args), single_in_progress False (plan_items args))"
  by (simp add: plan_view_def plan_update_def update_steps_view)

subsection \<open>The tool changes the plan as its replay does\<close>

text \<open>A dispatched call on the plan and the clock, which every call may advance.\<close>

definition plan_call ::
  "(plan_snapshot \<Rightarrow> str) \<Rightarrow> (nat \<Rightarrow> nat) \<Rightarrow> (str \<Rightarrow> json \<Rightarrow> bool) \<Rightarrow> nat \<times> plan_state \<Rightarrow> str \<Rightarrow> json
   \<Rightarrow> bool \<times> (nat \<times> plan_state)" where
  "plan_call pretty tick other np name input =
     (if updates_plan name
      then let (r, p') = update_plan_tool pretty (fst np) input (snd np) in (result_ok r, (tick (fst np), p'))
      else (other name input, (tick (fst np), snd np)))"

definition replay_view :: "plan_view \<Rightarrow> str \<Rightarrow> json \<Rightarrow> plan_view" where
  "replay_view v name input =
     (if \<not> updates_plan name then v
      else case Option.bind (json_get ''plan'' input) as_array of
             None \<Rightarrow> v
           | Some items \<Rightarrow>
               (case rebuild_plan_items items of
                  None \<Rightarrow> v
                | Some ps \<Rightarrow> (kept_explanation (parse_explanation input), single_in_progress False ps)))"

lemma replay_plan_view: "plan_view (replay_plan now p name input) = replay_view (plan_view p) name input"
  by (simp add: replay_plan_def replay_view_def plan_update_view split: option.split)

lemma pending_spelled: "step_status_from_str ''pending'' = Some StepPending"
  by code_simp

lemma status_same: "step_status_of item = rebuilt_status item"
  unfolding step_status_of_def rebuilt_status_def
  by (cases "Option.bind (json_get ''status'' item) as_str") (simp_all only: option.case bind.simps Let_def pending_spelled)

lemma plan_items_same:
  "rebuild_plan_items items = (case parse_plan_items items of Inl _ \<Rightarrow> None | Inr ps \<Rightarrow> Some ps)"
  by (induction items) (auto simp: status_same split: option.split sum.split)

lemma update_plan_tool_view:
  assumes "update_plan_tool pretty now input p = (r, p')" and "updates_plan name"
  shows "plan_view p' = (if result_ok r then replay_view (plan_view p) name input else plan_view p)"
proof (cases "Option.bind (json_get ''plan'' input) as_array")
  case None
  with assms show ?thesis by (auto simp: update_plan_tool_def)
next
  case (Some items)
  show ?thesis
  proof (cases "parse_plan_items items")
    case (Inl e)
    with Some assms show ?thesis by (auto simp: update_plan_tool_def)
  next
    case (Inr ps)
    with Some assms have "p' = plan_update now \<lparr>args_explanation = parse_explanation input, plan_items = ps\<rparr> p" "result_ok r"
      by (auto simp: update_plan_tool_def Let_def split: prod.splits)
    with Some Inr assms(2) show ?thesis by (simp add: replay_view_def plan_items_same plan_update_view)
  qed
qed

interpretation plan: projection "plan_call pretty tick other" replay_view "\<lambda>np. plan_view (snd np)" for pretty tick other
proof
  have replay: "plan_view (snd s') = (if ok then replay_view (plan_view (snd s)) name input else plan_view (snd s))"
    if call: "plan_call pretty tick other s name input = (ok, s')" for s name input ok s'
  proof (cases "updates_plan name")
    case True
    then obtain r p' where run: "update_plan_tool pretty (fst s) input (snd s) = (r, p')"
      and "ok = result_ok r" "snd s' = p'"
      using call by (cases "update_plan_tool pretty (fst s) input (snd s)") (auto simp: plan_call_def)
    with update_plan_tool_view [OF run True] show ?thesis by simp
  next
    case False
    with call show ?thesis by (auto simp: plan_call_def replay_view_def)
  qed
  show "plan_view (snd s') = replay_view (plan_view (snd s)) name input"
    if "plan_call pretty tick other s name input = (True, s')" for s name input s'
    using replay [OF that] by simp
  show "plan_view (snd s') = plan_view (snd s)"
    if "plan_call pretty tick other s name input = (False, s')" for s name input s'
    using replay [OF that] by simp
qed

subsection \<open>At most one step in progress\<close>

lemma single_in_progress_count:
  "length (filter (\<lambda>x. snd x = StepInProgress) (single_in_progress seen is)) \<le> (if seen then 0 else 1)"
  by (induction seen "is" rule: single_in_progress.induct) (auto split: if_splits)

lemma plan_update_single:
  "length (filter (\<lambda>s. step_status s = StepInProgress) (steps (plan_update now args p))) \<le> 1"
proof -
  have "map snd (snd (plan_view (plan_update now args p))) = map step_status (steps (plan_update now args p))"
    by (simp add: plan_view_def)
  then have "length (filter (\<lambda>s. step_status s = StepInProgress) (steps (plan_update now args p)))
      = length (filter (\<lambda>x. snd x = StepInProgress) (snd (plan_view (plan_update now args p))))"
    by (simp add: plan_view_def filter_map comp_def)
  also have "\<dots> \<le> 1"
    using single_in_progress_count [of False "plan_items args"] by (simp add: plan_update_view)
  finally show ?thesis .
qed

lemma progress_at_most_100: "progress_percent p \<le> 100"
proof (cases "steps p = []")
  case False
  let ?c = "length (filter (\<lambda>s. step_status s = StepCompleted) (steps p))"
  have "?c * 100 \<le> length (steps p) * 100" by simp
  then have "?c * 100 div length (steps p) \<le> 100"
    using False by (metis div_le_mono length_greater_0_conv nonzero_mult_div_cancel_left not_less0)
  then show ?thesis by (simp add: progress_percent_def Let_def word_le_nat_alt unat_of_nat)
qed (simp add: progress_percent_def)

section \<open>Properties\<close>

text \<open>C16: a resumed session finds its plan. Whatever calls a session made, the plan rebuilt from a transcript
  that records them has the explanation and the steps, with their texts and statuses in order, that the
  live tool left behind; only the timing is stamped anew.\<close>

theorem plan_rebuild_is_live:
  assumes "run_calls (plan_call pretty tick other) calls (now, default_plan) = (okd, (later, p))"
    and "records_session messages calls okd"
  shows "plan_snapshot_of (rebuild_plan stamp messages) = plan_snapshot_of p"
proof -
  have "plan_view (rebuild_plan stamp messages) = replay_transcript replay_view messages (plan_view default_plan)"
    unfolding rebuild_plan_def by (rule replay_transcript_view) (rule replay_plan_view)
  also have "\<dots> = plan_view p"
    using plan.rebuild_is_live [OF assms] by simp
  finally have *: "plan_view (rebuild_plan stamp messages) = plan_view p" .
  have "snap_items (plan_snapshot_of q) = map (\<lambda>(t, s). \<lparr>step_name = t, item_status = s\<rparr>) (snd (plan_view q))"
    and "snap_explanation (plan_snapshot_of q) = fst (plan_view q)" for q
    by (simp_all add: plan_snapshot_of_def plan_view_def)
  then show ?thesis using * by (intro plan_snapshot.equality) simp_all
qed

definition plan_calls :: "call list" where
  "plan_calls =
     [\<lparr>id_of = ''p1'', name_of = ''update_plan'',
       input_of = JObj [(''plan'', JArr [JObj [(''step'', JStr ''a''), (''status'', JStr ''in_progress'')]])], dispatched = True\<rparr>]"

definition plan_transcript :: "message list" where
  "plan_transcript =
     [\<lparr>role = ''assistant'', blocks = map (\<lambda>c. ToolUse (id_of c) (name_of c) (input_of c) None) plan_calls\<rparr>,
      \<lparr>role = ''user'', blocks = [ToolResultBlock ''p1'' [] (Some False) None]\<rparr>]"

theorem plan_rebuild_is_live_witness:
  "\<exists>p. plan_snapshot_of (rebuild_plan 9 plan_transcript) = plan_snapshot_of p \<and> steps p \<noteq> []"
proof -
  let ?run = "run_calls (plan_call (\<lambda>_. []) Suc (\<lambda>_ _. True)) plan_calls (0, default_plan)"
  have ids: "fst ?run = [''p1'']" and steps: "steps (snd (snd ?run)) \<noteq> []" by code_simp+
  have "records_session plan_transcript plan_calls [''p1'']"
    by (simp add: records_session_def plan_transcript_def plan_calls_def calls_of_def executed_tool_call_ids_def
        List.map_filter_simps)
  moreover have "?run = ([''p1''], (fst (snd ?run), snd (snd ?run)))" using ids by (metis prod.collapse)
  ultimately have "plan_snapshot_of (rebuild_plan 9 plan_transcript) = plan_snapshot_of (snd (snd ?run))"
    by (intro plan_rebuild_is_live)
  with steps show ?thesis by blast
qed

end
