(* ===== verification/SessionLog.thy ===== *)
theory SessionLog
  imports Transcript Text_Lemmas "HOL-Library.Multiset" "HOL-Library.List_Lexorder" "HOL-Library.Char_ord"
begin

section \<open>session: the three-zone log and its journal entries\<close>

text \<open>
  The prompt zones of a session (\<open>session/src/zones.rs\<close>): the frozen prefix with its drift check, the
  append-only log with its journal cursor and snapshot cache, the request assembled from the zones; and
  the journal's entries with the two folds that read them back, the transcript and the requests
  (\<open>session/src/journal.rs\<close>). The hash \<open>sha256_hex\<close> and the JSON text of tools and prompt blocks
  are arguments. An \<open>f32\<close> is only copied and is its bit pattern.
\<close>

subsection \<open>Requests\<close>

record system_block =
  block_type :: str
  block_text :: str
  block_cache :: "cache_control option"

datatype system_prompt = SystemText str | SystemBlocks "system_block list"

record tool_def =
  tool_type :: "str option"
  tool_def_name :: str
  tool_description :: str
  input_schema :: json
  output_schema :: "json option"
  allowed_callers :: "str list option"
  defer_loading :: "bool option"
  input_examples :: "json list option"
  strict :: "bool option"
  tool_cache :: "cache_control option"

record message_request =
  req_model :: str
  req_messages :: "message list"
  max_tokens :: "32 word"
  req_system :: "system_prompt option"
  req_tools :: "tool_def list option"
  tool_choice :: "json option"
  req_metadata :: "json option"
  thinking :: "json option"
  reasoning_effort :: "str option"
  stream :: "bool option"
  temperature :: "32 word option"
  top_p :: "32 word option"

subsection \<open>The frozen prefix\<close>

record codec =
  blocks_json :: "system_block list \<Rightarrow> str"
  tool_json :: "tool_def \<Rightarrow> str"
  sha256_hex :: "str \<Rightarrow> str"

definition system_text :: "codec \<Rightarrow> system_prompt option \<Rightarrow> str" where
  "system_text cd system =
     (case system of
        Some (SystemText t) \<Rightarrow> t
      | Some (SystemBlocks bs) \<Rightarrow> blocks_json cd bs
      | None \<Rightarrow> [])"

definition tool_catalog_digest :: "codec \<Rightarrow> tool_def list \<Rightarrow> str" where
  "tool_catalog_digest cd tools = join [CHR 0x0A] (sort (map (tool_json cd) tools))"

definition combined_hash :: "codec \<Rightarrow> str \<Rightarrow> tool_def list \<Rightarrow> str" where
  "combined_hash cd text tools =
     sha256_hex cd (sha256_hex cd text @ '':'' @ sha256_hex cd (tool_catalog_digest cd tools))"

record frozen_prefix =
  frozen_system :: str
  frozen_catalog :: str
  combined_sha256 :: str

record prefix_drift =
  system_changed :: bool
  tools_changed :: bool
  frozen_hash :: str
  current_hash :: str

definition freeze :: "codec \<Rightarrow> system_prompt option \<Rightarrow> tool_def list \<Rightarrow> frozen_prefix" where
  "freeze cd system tools =
     (let text = system_text cd system
      in \<lparr>frozen_system = text, frozen_catalog = tool_catalog_digest cd tools,
          combined_sha256 = combined_hash cd text tools\<rparr>)"

definition verify_prefix :: "codec \<Rightarrow> frozen_prefix \<Rightarrow> str \<Rightarrow> tool_def list \<Rightarrow> prefix_drift + unit" where
  "verify_prefix cd f current_text current_tools =
     (let sys = (current_text \<noteq> frozen_system f);
          tls = (tool_catalog_digest cd current_tools \<noteq> frozen_catalog f)
      in if \<not> sys \<and> \<not> tls then Inr ()
         else Inl \<lparr>system_changed = sys, tools_changed = tls, frozen_hash = combined_sha256 f,
                   current_hash = combined_hash cd current_text current_tools\<rparr>)"

definition short_id :: "frozen_prefix \<Rightarrow> str" where
  "short_id f = (if 12 \<le> length (combined_sha256 f) then take 12 (combined_sha256 f) else combined_sha256 f)"

definition drift_text :: "prefix_drift \<Rightarrow> str" where
  "drift_text d =
     (let cause = (if system_changed d \<and> tools_changed d then ''system prompt and tool set''
                   else if system_changed d then ''system prompt''
                   else if tools_changed d then ''tool set'' else ''unknown component'')
      in ''prefix drift: '' @ cause @ '' changed (frozen='' @ take 12 (frozen_hash d) @ '', current=''
         @ take 12 (current_hash d) @ '')'')"

subsection \<open>Journal entries\<close>

datatype rebuild_reason =
    ManualCompaction | AutoCompaction | Purge | MicroCompaction | ContextOverflowRecovery | FrontTrim
  | VerifyAndReplanReset | EditRollback | SessionSync | CycleReset | Runtime str | TraitClear

fun reason_text :: "rebuild_reason \<Rightarrow> str" where
  "reason_text ManualCompaction = ''manual compaction (/compact)''"
| "reason_text AutoCompaction = ''auto compaction''"
| "reason_text Purge = ''context purge (/purge)''"
| "reason_text MicroCompaction = ''micro-compaction''"
| "reason_text ContextOverflowRecovery = ''context-overflow recovery''"
| "reason_text FrontTrim = ''front trim to budget''"
| "reason_text VerifyAndReplanReset = ''verify-and-replan reset''"
| "reason_text EditRollback = ''edit rollback (/edit)''"
| "reason_text SessionSync = ''session sync/restore''"
| "reason_text CycleReset = ''cycle reset reseed''"
| "reason_text (Runtime what) = ''runtime: '' @ what"
| "reason_text TraitClear = ''history clear''"

record rebuild_record =
  rebuild_why :: rebuild_reason
  rebuild_before :: nat
  rebuild_after :: nat

record attempt_record =
  turn_id :: str
  attempt_step :: "32 word"
  error_category :: str
  error_message :: str
  transparent_retries :: "32 word"
  partial_content :: bool
  duration_ms :: "64 word"

datatype 'a recorded = Unchanged | Recorded 'a

datatype journal_entry =
    Header "32 word" str
  | Append "message list"
  | Rebuild str nat "message list"
  | Resume nat
  | Request message_request nat "message list option" "system_prompt option recorded" "tool_def list option recorded"
  | Attempt attempt_record

subsection \<open>The log\<close>

record journal_cursor =
  mark :: nat
  pending :: "journal_entry list"
  last_system :: "system_prompt option option"
  last_tools :: "tool_def list option option"

text \<open>The snapshot is the cached copy of the messages; whether a consumer still holds it is an argument of \<open>log_push\<close>.\<close>

record append_log =
  log_messages :: "message list"
  last_rebuild :: "rebuild_record option"
  journal :: "journal_cursor option"
  snapshot_cache :: "message list option"

definition new_log :: append_log where
  "new_log = \<lparr>log_messages = [], last_rebuild = None, journal = None, snapshot_cache = None\<rparr>"

definition from_messages :: "message list \<Rightarrow> append_log" where
  "from_messages ms = \<lparr>log_messages = ms, last_rebuild = None, journal = None, snapshot_cache = None\<rparr>"

definition clone_log :: "append_log \<Rightarrow> append_log" where
  "clone_log l = l\<lparr>journal := None, snapshot_cache := None\<rparr>"

definition seal_tail :: "message list \<Rightarrow> journal_cursor \<Rightarrow> journal_cursor" where
  "seal_tail ms c =
     (if mark c < length ms then c\<lparr>pending := pending c @ [Append (drop (mark c) ms)], mark := length ms\<rparr> else c)"

definition enable_journal :: "append_log \<Rightarrow> append_log" where
  "enable_journal l =
     (case journal l of
        None \<Rightarrow> l\<lparr>journal := Some \<lparr>mark = length (log_messages l), pending = [], last_system = None, last_tools = None\<rparr>\<rparr>
      | Some _ \<Rightarrow> l)"

definition record_request :: "message_request \<Rightarrow> append_log \<Rightarrow> append_log" where
  "record_request r l =
     (case journal l of
        None \<Rightarrow> l
      | Some c0 \<Rightarrow>
          let c = seal_tail (log_messages l) c0;
              message_count = length (req_messages r);
              is_prefix = (message_count \<le> length (log_messages l)
                           \<and> take message_count (log_messages l) = req_messages r);
              system = (if last_system c = Some (req_system r) then Unchanged else Recorded (req_system r));
              tools = (if last_tools c = Some (req_tools r) then Unchanged else Recorded (req_tools r));
              envelope = r\<lparr>req_messages := [], req_system := None, req_tools := None\<rparr>
          in l\<lparr>journal := Some (c\<lparr>last_system := Some (req_system r), last_tools := Some (req_tools r),
                 pending := pending c
                   @ [Request envelope message_count (if \<not> is_prefix then Some (req_messages r) else None) system tools]\<rparr>)\<rparr>)"

definition record_failed_attempt :: "attempt_record \<Rightarrow> append_log \<Rightarrow> append_log" where
  "record_failed_attempt a l =
     (case journal l of
        None \<Rightarrow> l
      | Some c0 \<Rightarrow>
          let c = seal_tail (log_messages l) c0
          in l\<lparr>journal := Some (c\<lparr>pending := pending c @ [Attempt a]\<rparr>)\<rparr>)"

definition take_journal_entries :: "append_log \<Rightarrow> journal_entry list \<times> append_log" where
  "take_journal_entries l =
     (case journal l of
        None \<Rightarrow> ([], l)
      | Some c \<Rightarrow>
          (pending c @ (if mark c < length (log_messages l) then [Append (drop (mark c) (log_messages l))] else []),
           l\<lparr>journal := Some (c\<lparr>pending := [], mark := length (log_messages l)\<rparr>)\<rparr>))"

definition log_push :: "bool \<Rightarrow> message \<Rightarrow> append_log \<Rightarrow> append_log" where
  "log_push unsold m l =
     l\<lparr>snapshot_cache := (case snapshot_cache l of Some s \<Rightarrow> if unsold then Some (s @ [m]) else None | None \<Rightarrow> None),
       log_messages := log_messages l @ [m]\<rparr>"

definition log_rebuild :: "rebuild_reason \<Rightarrow> message list \<Rightarrow> append_log \<Rightarrow> append_log" where
  "log_rebuild reason ms l =
     (let before = length (log_messages l)
      in l\<lparr>journal := map_option (\<lambda>c0.
             let c = seal_tail (log_messages l) c0
             in c\<lparr>pending := pending c @ [Rebuild (reason_text reason) before ms], mark := length ms\<rparr>) (journal l),
           log_messages := ms,
           last_rebuild := Some \<lparr>rebuild_why = reason, rebuild_before = before, rebuild_after = length ms\<rparr>,
           snapshot_cache := None\<rparr>)"

definition log_snapshot :: "append_log \<Rightarrow> message list \<times> append_log" where
  "log_snapshot l =
     (case snapshot_cache l of
        Some s \<Rightarrow> (s, l)
      | None \<Rightarrow> (log_messages l, l\<lparr>snapshot_cache := Some (log_messages l)\<rparr>))"

subsection \<open>The request of the zones\<close>

record turn_scratch =
  working_set :: "str list"
  user_message :: "message option"

definition clear_scratch :: "turn_scratch \<Rightarrow> turn_scratch" where
  "clear_scratch s = s\<lparr>working_set := [], user_message := None\<rparr>"

definition scratch_is_empty :: "turn_scratch \<Rightarrow> bool" where
  "scratch_is_empty s \<longleftrightarrow> working_set s = [] \<and> user_message s = None"

text \<open>The request's other fields are those of \<open>base\<close>.\<close>

definition wire_messages :: "message list \<Rightarrow> turn_scratch \<Rightarrow> message list" where
  "wire_messages log s = log @ (case user_message s of Some m \<Rightarrow> [m] | None \<Rightarrow> [])"

definition wire_count :: "message list \<Rightarrow> turn_scratch \<Rightarrow> nat" where
  "wire_count log s = length log + (if user_message s \<noteq> None then 1 else 0)"

definition into_message_request :: "message list \<Rightarrow> turn_scratch \<Rightarrow> message_request \<Rightarrow> message_request" where
  "into_message_request log s base = base\<lparr>req_messages := wire_messages log s\<rparr>"

subsection \<open>Reading a journal back\<close>

datatype io_error = InvalidData str | IoInvalidInput str | NotFound

fun fold_entries :: "journal_entry list \<Rightarrow> message list \<Rightarrow> io_error + message list" where
  "fold_entries [] t = Inr t"
| "fold_entries (e # es) t =
     (case e of
        Append ms \<Rightarrow> fold_entries es (t @ ms)
      | Rebuild _ _ ms \<Rightarrow> fold_entries es ms
      | Resume len \<Rightarrow>
          if len \<noteq> length t
          then Inl (InvalidData (''journal resume marker names '' @ show_nat len @ '' messages but the fold holds ''
                 @ show_nat (length t)))
          else fold_entries es t
      | _ \<Rightarrow> fold_entries es t)"

definition fold_transcript :: "journal_entry list \<Rightarrow> io_error + message list" where
  "fold_transcript es = fold_entries es []"

definition now_set :: "'a recorded \<Rightarrow> 'a option \<Rightarrow> 'a option" where
  "now_set r v = (case r of Recorded x \<Rightarrow> Some x | Unchanged \<Rightarrow> v)"

fun rebuild_requests ::
  "journal_entry list \<Rightarrow> message list \<Rightarrow> system_prompt option option \<Rightarrow> tool_def list option option
   \<Rightarrow> io_error + message_request list" where
  "rebuild_requests [] t sys tls = Inr []"
| "rebuild_requests (e # es) t sys tls =
     (case e of
        Append ms \<Rightarrow> rebuild_requests es (t @ ms) sys tls
      | Rebuild _ _ ms \<Rightarrow> rebuild_requests es ms sys tls
      | Request envelope message_count messages recorded_system recorded_tools \<Rightarrow>
          let sys' = now_set recorded_system sys; tls' = now_set recorded_tools tls
          in case sys' of
               None \<Rightarrow> Inl (InvalidData ''request entry before any system prompt'')
             | Some system \<Rightarrow>
                 (case tls' of
                    None \<Rightarrow> Inl (InvalidData ''request entry before any tool catalog'')
                  | Some tools \<Rightarrow>
                      if messages = None \<and> length t < message_count
                      then Inl (InvalidData (''request names '' @ show_nat message_count @ '' messages but the fold holds ''
                             @ show_nat (length t)))
                      else
                        let request = envelope\<lparr>req_system := system, req_tools := tools,
                              req_messages := (case messages of Some ms' \<Rightarrow> ms' | None \<Rightarrow> take message_count t)\<rparr>
                        in try_bind (rebuild_requests es t sys' tls') (\<lambda>rs. Inr (request # rs)))
      | _ \<Rightarrow> rebuild_requests es t sys tls)"

definition reconstruct_requests :: "journal_entry list \<Rightarrow> io_error + message_request list" where
  "reconstruct_requests es = rebuild_requests es [] None None"

subsection \<open>What the journal promises\<close>

type_synonym reader = "message list \<times> system_prompt option option \<times> tool_def list option option"

text \<open>Where a reader stands after an entry: the transcript and the system prompt and catalog in force.\<close>

fun absorb :: "journal_entry \<Rightarrow> reader \<Rightarrow> reader" where
  "absorb (Append ms) (t, sys, tls) = (t @ ms, sys, tls)"
| "absorb (Rebuild _ _ ms) (t, sys, tls) = (ms, sys, tls)"
| "absorb (Request _ _ _ rs rt) (t, sys, tls) = (t, now_set rs sys, now_set rt tls)"
| "absorb (Header _ _) p = p"
| "absorb (Resume _) p = p"
| "absorb (Attempt _) p = p"

definition absorb_all :: "journal_entry list \<Rightarrow> reader \<Rightarrow> reader" where
  "absorb_all es p = fold absorb es p"

lemma absorb_all_simps [simp]:
  "absorb_all [] p = p"
  "absorb_all (e # es) p = absorb_all es (absorb e p)"
  "absorb_all (es @ es') p = absorb_all es' (absorb_all es p)"
  by (simp_all add: absorb_all_def)

lemma try_bind_assoc: "try_bind (try_bind r f) g = try_bind r (\<lambda>x. try_bind (f x) g)"
  by (cases r) simp_all

lemma fold_entries_append:
  "fold_entries (es @ es') t = try_bind (fold_entries es t) (fold_entries es')"
  by (induction es t rule: fold_entries.induct) (auto split: journal_entry.splits)

lemma fold_entries_absorb:
  "fold_entries es t = Inr t' \<Longrightarrow> fst (absorb_all es (t, sys, tls)) = t'"
proof (induction es arbitrary: t sys tls)
  case (Cons e es)
  then show ?case by (cases e) (auto split: if_splits)
qed simp

lemma rebuild_requests_append:
  "rebuild_requests (es @ es') t sys tls =
     try_bind (rebuild_requests es t sys tls)
       (\<lambda>rs. case absorb_all es (t, sys, tls) of (t', sys', tls') \<Rightarrow>
          try_bind (rebuild_requests es' t' sys' tls') (\<lambda>rs'. Inr (rs @ rs')))"
proof (induction es arbitrary: t sys tls)
  case Nil
  then show ?case by (cases "rebuild_requests es' t sys tls") simp_all
next
  case (Cons e es)
  show ?case
  proof (cases e)
    case (Request env n ms rs rt)
    show ?thesis
    proof (cases "now_set rs sys"; cases "now_set rt tls")
      fix s c assume *: "now_set rs sys = Some s" "now_set rt tls = Some c"
      show ?thesis
        by (cases "absorb_all es (t, Some s, Some c)") (simp add: Request Cons.IH Let_def try_bind_assoc *)
    qed (simp_all add: Request)
  qed (simp_all add: Cons.IH)
qed

text \<open>An entry list whose fold is \<open>t\<close> and whose requests are \<open>rs\<close>.\<close>

definition journal_says :: "journal_entry list \<Rightarrow> message list \<Rightarrow> message_request list \<Rightarrow> bool" where
  "journal_says es t rs \<longleftrightarrow> fold_transcript es = Inr t \<and> reconstruct_requests es = Inr rs"


lemma journal_says_transcript: "journal_says es t rs \<Longrightarrow> fst (absorb_all es ([], sys, tls)) = t"
  by (simp add: journal_says_def fold_transcript_def fold_entries_absorb)

lemma journal_says_append: "journal_says es t rs \<Longrightarrow> journal_says (es @ [Append ms]) (t @ ms) rs"
  by (simp add: journal_says_def fold_transcript_def reconstruct_requests_def fold_entries_append
      rebuild_requests_append split: prod.split)

lemma journal_says_rebuild: "journal_says es t rs \<Longrightarrow> journal_says (es @ [Rebuild w b ms]) ms rs"
  by (simp add: journal_says_def fold_transcript_def reconstruct_requests_def fold_entries_append
      rebuild_requests_append split: prod.split)

lemma journal_says_attempt: "journal_says es t rs \<Longrightarrow> journal_says (es @ [Attempt a]) t rs"
  by (simp add: journal_says_def fold_transcript_def reconstruct_requests_def fold_entries_append
      rebuild_requests_append split: prod.split)

lemma journal_says_request:
  assumes "journal_says es t rs"
    and "absorb_all es ([], None, None) = (t, sys, tls)"
    and "now_set rsys sys = Some s" and "now_set rtls tls = Some cat"
    and "mm = None \<longrightarrow> n \<le> length t"
  shows "journal_says (es @ [Request env n mm rsys rtls]) t
           (rs @ [env\<lparr>req_system := s, req_tools := cat,
                     req_messages := (case mm of Some ms \<Rightarrow> ms | None \<Rightarrow> take n t)\<rparr>])"
  using assms
  by (auto simp: journal_says_def fold_transcript_def reconstruct_requests_def fold_entries_append
      rebuild_requests_append)

text \<open>The cursor's claim: what was drained, then what is pending, tells the log up to the mark.\<close>

definition cursor_ok :: "journal_entry list \<Rightarrow> message_request list \<Rightarrow> message list \<Rightarrow> journal_cursor \<Rightarrow> bool" where
  "cursor_ok es rs ms c \<longleftrightarrow>
     mark c \<le> length ms \<and> journal_says (es @ pending c) (take (mark c) ms) rs \<and>
     (last_system c = None \<or> last_system c = fst (snd (absorb_all (es @ pending c) ([], None, None)))) \<and>
     (last_tools c = None \<or> last_tools c = snd (snd (absorb_all (es @ pending c) ([], None, None))))"

lemma absorb_keeps_prompts:
  "snd (absorb (Append ms) p) = snd p" "snd (absorb (Rebuild w b ms) p) = snd p" "absorb (Attempt a) p = p"
  by (cases p; simp)+

lemma seal_tail_ok:
  assumes "cursor_ok es rs ms c"
  shows "cursor_ok es rs ms (seal_tail ms c)" "mark (seal_tail ms c) = length ms"
    "last_system (seal_tail ms c) = last_system c" "last_tools (seal_tail ms c) = last_tools c"
proof -
  have *: "take (mark c) ms @ drop (mark c) ms = ms" by simp
  show "cursor_ok es rs ms (seal_tail ms c)"
    using assms journal_says_append [of "es @ pending c" "take (mark c) ms" rs "drop (mark c) ms"]
    by (auto simp: cursor_ok_def seal_tail_def absorb_keeps_prompts)
  show "mark (seal_tail ms c) = length ms" using assms by (auto simp: cursor_ok_def seal_tail_def)
qed (auto simp: seal_tail_def)

definition in_step :: "journal_entry list \<Rightarrow> message_request list \<Rightarrow> append_log \<Rightarrow> bool" where
  "in_step es rs l \<longleftrightarrow> (\<exists>c. journal l = Some c \<and> cursor_ok es rs (log_messages l) c)"

lemma in_step_push: "in_step es rs l \<Longrightarrow> in_step es rs (log_push u m l)"
  by (auto simp: in_step_def log_push_def cursor_ok_def)

lemma in_step_rebuild: 
  assumes "in_step es rs l"
  shows "in_step es rs (log_rebuild w ms l)"
proof -
  obtain c where c: "journal l = Some c" "cursor_ok es rs (log_messages l) c" using assms by (auto simp: in_step_def)
  let ?c = "seal_tail (log_messages l) c"
  have ok: "cursor_ok es rs (log_messages l) ?c" by (rule seal_tail_ok(1) [OF c(2)])
  then have "cursor_ok es rs ms (?c\<lparr>pending := pending ?c @ [Rebuild (reason_text w) (length (log_messages l)) ms], mark := length ms\<rparr>)"
    using journal_says_rebuild [of "es @ pending ?c" _ rs "reason_text w"] by (auto simp add: cursor_ok_def absorb_keeps_prompts)
  then show ?thesis by (simp add: in_step_def log_rebuild_def c Let_def)
qed

lemma in_step_attempt:
  assumes "in_step es rs l"
  shows "in_step es rs (record_failed_attempt a l)"
proof -
  obtain c where c: "journal l = Some c" "cursor_ok es rs (log_messages l) c" using assms by (auto simp: in_step_def)
  let ?c = "seal_tail (log_messages l) c"
  have ok: "cursor_ok es rs (log_messages l) ?c" by (rule seal_tail_ok(1) [OF c(2)])
  then have "cursor_ok es rs (log_messages l) (?c\<lparr>pending := pending ?c @ [Attempt a]\<rparr>)"
    using journal_says_attempt [of "es @ pending ?c" _ rs a] by (auto simp add: cursor_ok_def absorb_keeps_prompts)
  then show ?thesis by (simp add: in_step_def record_failed_attempt_def c Let_def)
qed

lemma in_step_drain:
  assumes "in_step es rs l" and "take_journal_entries l = (new, l')"
  shows "in_step (es @ new) rs l'" "journal_says (es @ new) (log_messages l) rs" "log_messages l' = log_messages l"
proof -
  obtain c where c: "journal l = Some c" "cursor_ok es rs (log_messages l) c" using assms by (auto simp: in_step_def)
  let ?ms = "log_messages l" let ?c = "seal_tail ?ms c"
  have ok: "cursor_ok es rs ?ms ?c" "mark ?c = length ?ms" by (rule seal_tail_ok(1,2) [OF c(2)])+
  have new: "new = pending ?c" and l': "l' = l\<lparr>journal := Some (?c\<lparr>pending := []\<rparr>)\<rparr>"
    using assms(2) c by (auto simp: take_journal_entries_def seal_tail_def cursor_ok_def)
  show "in_step (es @ new) rs l'" using ok by (simp add: in_step_def l' new cursor_ok_def)
  show "journal_says (es @ new) ?ms rs" using ok by (simp add: new cursor_ok_def)
  show "log_messages l' = ?ms" by (simp add: l')
qed

lemma in_step_request:
  assumes "in_step es rs l"
  shows "in_step es (rs @ [r]) (record_request r l)"
proof -
  obtain c where c: "journal l = Some c" "cursor_ok es rs (log_messages l) c" using assms by (auto simp: in_step_def)
  let ?ms = "log_messages l" let ?c = "seal_tail ?ms c" and ?n = "length (req_messages r)"
  let ?pre = "?n \<le> length ?ms \<and> take ?n ?ms = req_messages r"
  let ?mm = "if \<not> ?pre then Some (req_messages r) else None"
  let ?rsys = "if last_system ?c = Some (req_system r) then Unchanged else Recorded (req_system r)"
  let ?rtls = "if last_tools ?c = Some (req_tools r) then Unchanged else Recorded (req_tools r)"
  let ?env = "r\<lparr>req_messages := [], req_system := None, req_tools := None\<rparr>"
  have ok: "cursor_ok es rs ?ms ?c" "mark ?c = length ?ms" by (rule seal_tail_ok(1,2) [OF c(2)])+
  then have says: "journal_says (es @ pending ?c) ?ms rs" by (simp add: cursor_ok_def)
  obtain sys tls where pos: "absorb_all (es @ pending ?c) ([], None, None) = (?ms, sys, tls)"
    using journal_says_transcript [OF says, of None None] by (metis prod.collapse)
  have sys: "now_set ?rsys sys = Some (req_system r)" and tls: "now_set ?rtls tls = Some (req_tools r)"
    using ok(1) pos by (auto simp: cursor_ok_def now_set_def)
  have req: "?env\<lparr>req_system := req_system r, req_tools := req_tools r,
      req_messages := (case ?mm of Some ms \<Rightarrow> ms | None \<Rightarrow> take ?n ?ms)\<rparr> = r"
    by auto
  have says': "journal_says ((es @ pending ?c) @ [Request ?env ?n ?mm ?rsys ?rtls]) ?ms (rs @ [r])"
    using journal_says_request [OF says pos sys tls, of ?mm ?n ?env] unfolding req by auto
  have "cursor_ok es (rs @ [r]) ?ms (?c\<lparr>last_system := Some (req_system r), last_tools := Some (req_tools r),
      pending := pending ?c @ [Request ?env ?n ?mm ?rsys ?rtls]\<rparr>)"
    using says' ok(2) pos sys tls by (simp add: cursor_ok_def)
  then show ?thesis unfolding in_step_def record_request_def
    by (simp only: c option.case Let_def append_log.simps) simp
qed


subsection \<open>A session on the log\<close>

datatype log_op =
    PushMessage bool message | RebuildLog rebuild_reason "message list" | SendRequest message_request
  | FailAttempt attempt_record | DrainJournal | TakeSnapshot

fun log_step :: "log_op \<Rightarrow> append_log \<Rightarrow> journal_entry list \<times> append_log" where
  "log_step (PushMessage unsold m) l = ([], log_push unsold m l)"
| "log_step (RebuildLog reason ms) l = ([], log_rebuild reason ms l)"
| "log_step (SendRequest r) l = ([], record_request r l)"
| "log_step (FailAttempt a) l = ([], record_failed_attempt a l)"
| "log_step DrainJournal l = take_journal_entries l"
| "log_step TakeSnapshot l = ([], snd (log_snapshot l))"

fun log_run :: "log_op list \<Rightarrow> append_log \<Rightarrow> journal_entry list \<times> append_log" where
  "log_run [] l = ([], l)"
| "log_run (oper # ops) l =
     (let (es, l1) = log_step oper l; (es', l2) = log_run ops l1 in (es @ es', l2))"

text \<open>The entries of a whole session, the last drain at its end included.\<close>

definition journal_of_session :: "log_op list \<Rightarrow> append_log \<Rightarrow> journal_entry list \<times> append_log" where
  "journal_of_session ops l =
     (let (es, l1) = log_run ops l; (rest, l2) = take_journal_entries l1 in (es @ rest, l2))"

fun sent_request :: "log_op \<Rightarrow> message_request option" where
  "sent_request (SendRequest r) = Some r"
| "sent_request _ = None"

lemma log_step_in_step:
  assumes "in_step es rs l" and "log_step oper l = (new, l')"
  shows "in_step (es @ new) (rs @ List.map_filter sent_request [oper]) l'"
proof (cases oper)
  case TakeSnapshot
  then show ?thesis using assms by (auto simp: in_step_def log_snapshot_def split: option.splits)
qed (use assms in \<open>auto simp: in_step_push in_step_rebuild in_step_attempt in_step_request in_step_drain\<close>)

lemma log_run_in_step:
  assumes "in_step es rs l" and "log_run ops l = (new, l')"
  shows "in_step (es @ new) (rs @ List.map_filter sent_request ops) l'"
  using assms
proof (induction ops arbitrary: es rs l new)
  case (Cons oper ops)
  obtain es1 l1 where 1: "log_step oper l = (es1, l1)" by (meson surj_pair)
  obtain es2 where 2: "log_run ops l1 = (es2, l')" "new = es1 @ es2"
    using Cons.prems(2) 1 by (auto split: prod.splits)
  have "in_step (es @ es1) (rs @ List.map_filter sent_request [oper]) l1"
    by (rule log_step_in_step [OF Cons.prems(1) 1])
  from Cons.IH [OF this 2(1)] show ?case
    by (cases "sent_request oper") (simp_all add: 2(2) List.map_filter_simps)
qed (simp add: List.map_filter_simps)

lemma enabled_in_step:
  assumes "journal_says es0 ms0 rs0"
  shows "in_step es0 rs0 (enable_journal (from_messages ms0))"
  using assms by (simp add: in_step_def enable_journal_def from_messages_def cursor_ok_def)

lemma session_journal:
  assumes "fold_transcript es0 = Inr ms0" and "reconstruct_requests es0 = Inr rs0"
    and "journal_of_session ops (enable_journal (from_messages ms0)) = (es, l)"
  shows "fold_transcript (es0 @ es) = Inr (log_messages l)
       \<and> reconstruct_requests (es0 @ es) = Inr (rs0 @ List.map_filter sent_request ops)"
proof -
  let ?l0 = "enable_journal (from_messages ms0)"
  obtain new l1 where 1: "log_run ops ?l0 = (new, l1)" by (meson surj_pair)
  obtain rest where 2: "take_journal_entries l1 = (rest, l)" "es = new @ rest"
    using assms(3) 1 by (auto simp: journal_of_session_def split: prod.splits)
  have "in_step (es0 @ new) (rs0 @ List.map_filter sent_request ops) l1"
    using log_run_in_step [OF enabled_in_step 1] assms(1,2) by (simp add: journal_says_def)
  from in_step_drain(2,3) [OF this 2(1)] show ?thesis by (simp add: 2(2) journal_says_def)
qed

text \<open>The engine resumes a session with an empty log that its first operation replaces.\<close>

lemma session_resync:
  assumes "fold_transcript es0 = Inr told" and "reconstruct_requests es0 = Inr rs0"
    and "journal_of_session (RebuildLog why ms # ops) (enable_journal new_log) = (es, l)"
  shows "fold_transcript (es0 @ es) = Inr (log_messages l)
       \<and> reconstruct_requests (es0 @ es) = Inr (rs0 @ List.map_filter sent_request ops)"
proof -
  let ?l0 = "log_rebuild why ms (enable_journal new_log)"
  have start: "in_step es0 rs0 ?l0"
    using journal_says_rebuild [of es0 told rs0 "reason_text why" 0 ms] assms(1,2)
    by (simp add: in_step_def log_rebuild_def enable_journal_def new_log_def seal_tail_def cursor_ok_def
        journal_says_def Let_def)
  obtain new l1 where 1: "log_run ops ?l0 = (new, l1)" by (meson surj_pair)
  obtain rest where 2: "take_journal_entries l1 = (rest, l)" "es = new @ rest"
    using assms(3) 1 by (auto simp: journal_of_session_def split: prod.splits)
  have "in_step (es0 @ new) (rs0 @ List.map_filter sent_request ops) l1"
    by (rule log_run_in_step [OF start 1])
  from in_step_drain(2,3) [OF this 2(1)] show ?thesis by (simp add: 2(2) journal_says_def)
qed

text \<open>C17: A journal that tells the transcript of the restored messages and the requests sent so far, with
  the entries of a session appended to it, reads back as the transcript the log ends with and as every
  main-turn request, each exactly as it was sent, in order: over every order of pushes, wholesale
  replacements, requests, failed attempts, snapshots and drains, and however the requests were
  rewritten.\<close>

theorem journal_replays_session:
  assumes "fold_transcript es0 = Inr ms0" and "reconstruct_requests es0 = Inr rs0"
    and "journal_of_session ops (enable_journal (from_messages ms0)) = (es, l)"
  shows "fold_transcript (es0 @ es) = Inr (log_messages l)
       \<and> reconstruct_requests (es0 @ es) = Inr (rs0 @ List.map_filter sent_request ops)"
  by (rule session_journal [OF assms])

definition sample_request :: "message list \<Rightarrow> message_request" where
  "sample_request ms = \<lparr>req_model = ''m'', req_messages = ms, max_tokens = 64, req_system = Some (SystemText ''be brief''),
     req_tools = None, tool_choice = None, req_metadata = None, thinking = None, reasoning_effort = None,
     stream = Some True, temperature = None, top_p = None\<rparr>"

lemma journal_replays_session_witness:
  "let a = \<lparr>role = ''user'', blocks = []\<rparr>; b = \<lparr>role = ''assistant'', blocks = []\<rparr>;
       es0 = [Header 1 ''s'', Append [a]];
       ops = [PushMessage True b, SendRequest (sample_request [a, b]), DrainJournal,
              RebuildLog AutoCompaction [b], SendRequest (sample_request [a])];
       (es, l) = journal_of_session ops (enable_journal (from_messages [a]))
   in fold_transcript (es0 @ es) = Inr [b]
      \<and> reconstruct_requests (es0 @ es) = Inr [sample_request [a, b], sample_request [a]]"
proof -
  define a where "a = \<lparr>role = ''user'', blocks = []\<rparr>"
  define b where "b = \<lparr>role = ''assistant'', blocks = []\<rparr>"
  define ops where "ops = [PushMessage True b, SendRequest (sample_request [a, b]), DrainJournal,
     RebuildLog AutoCompaction [b], SendRequest (sample_request [a])]"
  obtain es l where run: "journal_of_session ops (enable_journal (from_messages [a])) = (es, l)" by (meson surj_pair)
  have "log_messages (snd (journal_of_session ops (enable_journal (from_messages [a])))) = [b]"
    by (simp add: ops_def journal_of_session_def enable_journal_def from_messages_def log_push_def log_rebuild_def
        record_request_def take_journal_entries_def seal_tail_def Let_def)
  then have l: "log_messages l = [b]" by (simp add: run)
  have "fold_transcript ([Header 1 ''s'', Append [a]] @ es) = Inr (log_messages l)
      \<and> reconstruct_requests ([Header 1 ''s'', Append [a]] @ es) = Inr ([] @ List.map_filter sent_request ops)"
    by (rule journal_replays_session [OF _ _ run]) (simp_all add: fold_transcript_def reconstruct_requests_def)
  moreover have "List.map_filter sent_request ops = [sample_request [a, b], sample_request [a]]"
    by (simp add: ops_def List.map_filter_simps)
  ultimately show ?thesis unfolding a_def [symmetric] b_def [symmetric] Let_def ops_def [symmetric]
    by (simp add: run l)
qed

subsection \<open>The snapshot cache\<close>

definition snapshot_ok :: "append_log \<Rightarrow> bool" where
  "snapshot_ok l \<longleftrightarrow> (case snapshot_cache l of Some s \<Rightarrow> s = log_messages l | None \<Rightarrow> True)"

lemma log_step_snapshot_ok:
  assumes "snapshot_ok l"
  shows "snapshot_ok (snd (log_step oper l))"
proof (cases oper)
  case DrainJournal
  then show ?thesis using assms
    by (cases "journal l") (simp_all add: snapshot_ok_def take_journal_entries_def split: option.splits)
qed (use assms in \<open>auto simp: snapshot_ok_def log_push_def log_rebuild_def record_request_def
      record_failed_attempt_def log_snapshot_def Let_def split: option.splits\<close>)

lemma log_run_snapshot_ok: "snapshot_ok l \<Longrightarrow> snapshot_ok (snd (log_run ops l))"
proof (induction ops arbitrary: l)
  case (Cons oper ops)
  then show ?case using log_step_snapshot_ok [of l oper] by (auto simp: case_prod_beta' Let_def)
qed simp

text \<open>However pushes, replacements, drains and requests interleave, and whichever snapshots the
  consumers still hold, the snapshot the log hands out is its current transcript.\<close>

theorem snapshot_is_current:
  "let l = snd (log_run ops (from_messages ms)) in fst (log_snapshot l) = log_messages l"
proof -
  have "snapshot_ok (snd (log_run ops (from_messages ms)))"
    by (rule log_run_snapshot_ok) (simp add: snapshot_ok_def from_messages_def)
  then show ?thesis by (simp add: snapshot_ok_def log_snapshot_def Let_def split: option.splits)
qed

subsection \<open>The drift check\<close>

lemma split_on_join_lines:
  "\<forall>z\<in>set zs. c \<notin> set z \<Longrightarrow> split_on (\<lambda>d. d = c) (join [c] zs) = (if zs = [] then [[]] else zs)"
proof (induction zs)
  case (Cons z zs)
  have "c \<notin> set z \<Longrightarrow> split_on (\<lambda>d. d = c) z = [z]" for z
    by (induction z) auto
  with Cons show ?case by (cases "zs = []") (simp_all add: join_Cons split_on_join)
qed simp

lemma join_lines_inj:
  assumes "join [c] xs = join [c] ys"
    and "\<forall>x\<in>set xs \<union> set ys. x \<noteq> [] \<and> c \<notin> set x"
  shows "xs = ys"
proof -
  have "(if xs = [] then [[]] else xs) = (if ys = [] then [[]] else ys)"
    using split_on_join_lines [of xs c] split_on_join_lines [of ys c] assms by auto
  then show ?thesis using assms(2) by (auto split: if_splits)
qed

lemma catalog_digest_eq_iff:
  assumes "\<And>t. tool_json cd t \<noteq> [] \<and> CHR 0x0A \<notin> set (tool_json cd t)"
  shows "tool_catalog_digest cd ts = tool_catalog_digest cd us
           \<longleftrightarrow> mset (map (tool_json cd) ts) = mset (map (tool_json cd) us)" (is "_ \<longleftrightarrow> mset ?xs = mset ?ys")
proof
  assume "tool_catalog_digest cd ts = tool_catalog_digest cd us"
  then have "sort ?xs = sort ?ys"
    unfolding tool_catalog_digest_def by (rule join_lines_inj) (use assms in auto)
  then show "mset ?xs = mset ?ys" by (metis mset_sort)
next
  assume "mset ?xs = mset ?ys"
  then have "sort ?xs = sort ?ys" by (metis mset_sort properties_for_sort sorted_sort)
  then show "tool_catalog_digest cd ts = tool_catalog_digest cd us" by (simp add: tool_catalog_digest_def)
qed

text \<open>The frozen prefix verifies exactly when the system text is the frozen one and the catalog holds the
  same serialized definitions, whatever their order, each as often; otherwise the drift names what
  changed. It relies on the JSON text of a tool being a non-empty single line.\<close>

theorem prefix_verifies_iff:
  assumes "\<And>t. tool_json cd t \<noteq> [] \<and> CHR 0x0A \<notin> set (tool_json cd t)"
  shows "(verify_prefix cd (freeze cd system tools) text tools' = Inr ()
            \<longleftrightarrow> text = system_text cd system
                \<and> mset (map (tool_json cd) tools) = mset (map (tool_json cd) tools'))
       \<and> (\<forall>d. verify_prefix cd (freeze cd system tools) text tools' = Inl d \<longrightarrow>
              system_changed d = (text \<noteq> system_text cd system)
              \<and> tools_changed d = (mset (map (tool_json cd) tools) \<noteq> mset (map (tool_json cd) tools')))"
  using catalog_digest_eq_iff [OF assms, where ts = tools' and us = tools]
  by (auto simp: verify_prefix_def freeze_def Let_def split: if_splits)

definition sample_tool :: "str \<Rightarrow> tool_def" where
  "sample_tool nm = \<lparr>tool_type = None, tool_def_name = nm, tool_description = [], input_schema = JNull, output_schema = None,
     allowed_callers = None, defer_loading = None, input_examples = None, strict = None, tool_cache = None\<rparr>"

definition sample_codec :: codec where
  "sample_codec = \<lparr>blocks_json = (\<lambda>_. ''[]''),
     tool_json = (\<lambda>t. CHR 0x7B # filter (\<lambda>c. c \<noteq> CHR 0x0A) (tool_def_name t) @ [CHR 0x7D]), sha256_hex = (\<lambda>t. t)\<rparr>"

lemma prefix_verifies_iff_witness:
  "(\<forall>t. tool_json sample_codec t \<noteq> [] \<and> CHR 0x0A \<notin> set (tool_json sample_codec t))
   \<and> verify_prefix sample_codec (freeze sample_codec None [sample_tool ''b'', sample_tool ''a'']) []
       [sample_tool ''a'', sample_tool ''b''] = Inr ()"
proof -
  have hyp: "tool_json sample_codec t \<noteq> [] \<and> CHR 0x0A \<notin> set (tool_json sample_codec t)" for t
    by (simp add: sample_codec_def)
  show ?thesis
    using prefix_verifies_iff [OF hyp, of None "[sample_tool ''b'', sample_tool ''a'']" "[]" "[sample_tool ''a'', sample_tool ''b'']"] hyp
    by (simp add: system_text_def add.commute)
qed

end
