(* ===== verification/JournalFile.thy ===== *)
theory JournalFile
  imports SessionLog
begin
section \<open>session: the journal file\<close>

text \<open>
  The file \<open><id>.journal.jsonl\<close> (\<open>session/src/journal.rs\<close>): its path, the append with the cut of a torn
  final line, and the read. A directory is a map from file names to their bytes; the JSON text of a line,
  its parser and the clock are arguments. A crash leaves a prefix of the bytes of one write.
\<close>

subsection \<open>UTF-8\<close>

text \<open>The well-formed byte sequences, as \<open>read_to_string\<close> accepts them.\<close>

definition in_range :: "nat \<Rightarrow> nat \<Rightarrow> char \<Rightarrow> bool" where
  "in_range lo hi c \<longleftrightarrow> lo \<le> of_char c \<and> (of_char c :: nat) \<le> hi"

text \<open>A first byte: how many bytes follow it, and the range of the second one.\<close>

definition lead_byte :: "char \<Rightarrow> (nat \<times> nat \<times> nat) option" where
  "lead_byte a =
     (if in_range 0 0x7F a then Some (0, 0, 0)
      else if in_range 0xC2 0xDF a then Some (1, 0x80, 0xBF)
      else if a = CHR 0xE0 then Some (2, 0xA0, 0xBF)
      else if a = CHR 0xED then Some (2, 0x80, 0x9F)
      else if in_range 0xE1 0xEF a then Some (2, 0x80, 0xBF)
      else if a = CHR 0xF0 then Some (3, 0x90, 0xBF)
      else if in_range 0xF1 0xF3 a then Some (3, 0x80, 0xBF)
      else if a = CHR 0xF4 then Some (3, 0x80, 0x8F)
      else None)"

fun utf8_len :: "str \<Rightarrow> nat option" where
  "utf8_len [] = None"
| "utf8_len (a # r) =
     (case lead_byte a of
        None \<Rightarrow> None
      | Some (k, lo, hi) \<Rightarrow>
          if k = 0 then Some 1
          else if k \<le> length r \<and> in_range lo hi (hd r) \<and> list_all (in_range 0x80 0xBF) (take k r)
          then Some (Suc k) else None)"

lemma utf8_len_pos: "utf8_len s = Some n \<Longrightarrow> 0 < n \<and> n \<le> length s"
  by (cases s) (auto split: option.splits if_splits)

function utf8_ok :: "str \<Rightarrow> bool" where
  "utf8_ok s = (if s = [] then True else (case utf8_len s of Some n \<Rightarrow> utf8_ok (drop n s) | None \<Rightarrow> False))"
  by pat_completeness auto
termination by (relation "measure length") (auto dest: utf8_len_pos)

declare utf8_ok.simps [simp del]

lemma utf8_len_append: "utf8_len s = Some n \<Longrightarrow> utf8_len (s @ t) = Some n"
  by (cases s) (auto split: option.splits if_splits simp: hd_append)

lemma utf8_ok_append:
  assumes "utf8_ok s"
  shows "utf8_ok (s @ t) \<longleftrightarrow> utf8_ok t"
  using assms
proof (induction s rule: utf8_ok.induct)
  case (1 s)
  show ?case
  proof (cases "s = []")
    case False
    then obtain n where n: "utf8_len s = Some n" "utf8_ok (drop n s)"
      using "1.prems" by (subst (asm) utf8_ok.simps) (auto split: option.splits)
    have "utf8_ok (s @ t) = utf8_ok (drop n (s @ t))"
      using False utf8_len_append [OF n(1)] by (subst utf8_ok.simps) simp
    also have "drop n (s @ t) = drop n s @ t" using utf8_len_pos [OF n(1)] by simp
    also have "utf8_ok (drop n s @ t) \<longleftrightarrow> utf8_ok t" using "1.IH" False n by blast
    finally show ?thesis .
  qed simp
qed

lemma utf8_ok_Nil [simp]: "utf8_ok []" by (simp add: utf8_ok.simps)

lemma utf8_ok_concat: "(\<And>s. s \<in> set ss \<Longrightarrow> utf8_ok s) \<Longrightarrow> utf8_ok (concat ss)"
  by (induction ss) (simp_all add: utf8_ok_append)


subsection \<open>The file\<close>

record journal_codec =
  line_json :: "str \<Rightarrow> journal_entry \<Rightarrow> str"
  parse_line :: "str \<Rightarrow> str + journal_entry"
  debug_text :: "str \<Rightarrow> str"
  path_text :: "str \<Rightarrow> str"

type_synonym journal_dir = "str \<Rightarrow> str option"

definition JOURNAL_FORMAT_VERSION :: "32 word" where
  "JOURNAL_FORMAT_VERSION = 1"

definition journal_path :: "journal_codec \<Rightarrow> str \<Rightarrow> io_error + str" where
  "journal_path cd session_id =
     (let i = trim session_id
      in if i = [] \<or> CHR ''/'' \<in> set i \<or> CHR 0x5C \<in> set i \<or> i = ''.'' \<or> i = ''..'' \<or> CHR 0x00 \<in> set i
         then Inl (IoInvalidInput (''session id '' @ debug_text cd session_id @ '' is not a safe file name''))
         else Inr (i @ ''.journal.jsonl''))"

definition drop_torn_tail :: "str \<Rightarrow> str" where
  "drop_torn_tail bytes =
     (if bytes = [] then []
      else if last bytes = CHR 0x0A then bytes
      else rev (dropWhile (\<lambda>c. c \<noteq> CHR 0x0A) (rev bytes)))"

definition newer_header :: "journal_entry \<Rightarrow> 32 word option" where
  "newer_header e = (case e of Header v _ \<Rightarrow> if JOURNAL_FORMAT_VERSION < v then Some v else None | _ \<Rightarrow> None)"

text \<open>The lines from index \<open>n\<close> on; the last one may be torn.\<close>

fun read_lines :: "journal_codec \<Rightarrow> str \<Rightarrow> bool \<Rightarrow> nat \<Rightarrow> str list \<Rightarrow> io_error + journal_entry list" where
  "read_lines cd path torn_tail_allowed n [] = Inr []"
| "read_lines cd path torn_tail_allowed n (l # ls) =
     (case parse_line cd l of
        Inr e \<Rightarrow>
          (case newer_header e of
             Some v \<Rightarrow> Inl (InvalidData (''session journal '' @ path_text cd path @ '' is format v'' @ show_nat (unat v)
                 @ '', newer than supported v'' @ show_nat (unat JOURNAL_FORMAT_VERSION)))
           | None \<Rightarrow> try_bind (read_lines cd path torn_tail_allowed (Suc n) ls) (\<lambda>es. Inr (e # es)))
      | Inl err \<Rightarrow>
          if torn_tail_allowed \<and> ls = [] then Inr []
          else Inl (InvalidData (''session journal '' @ path_text cd path @ '' line '' @ show_nat (n + 1)
                 @ '' is unreadable: '' @ err)))"

definition read_journal :: "journal_codec \<Rightarrow> journal_dir \<Rightarrow> str \<Rightarrow> io_error + journal_entry list" where
  "read_journal cd dir path =
     (case dir path of
        None \<Rightarrow> Inl NotFound
      | Some text \<Rightarrow>
          if \<not> utf8_ok text then Inl (InvalidData ''stream did not contain valid UTF-8'')
          else read_lines cd path (\<not> ends_with text [CHR 0x0A]) 0 (filter (\<lambda>l. trim l \<noteq> []) (str_lines text)))"

text \<open>A batch that starts with a session resync whose transcript the file already tells starts with the resume
  marker instead.\<close>

definition resume_entries :: "journal_codec \<Rightarrow> journal_dir \<Rightarrow> str \<Rightarrow> journal_entry list \<Rightarrow> journal_entry list" where
  "resume_entries cd dir path entries =
     (case entries of
        Rebuild reason before messages # rest \<Rightarrow>
          if reason = reason_text SessionSync
             \<and> try_bind (read_journal cd dir path) fold_transcript = Inr messages
          then Resume (length messages) # rest else entries
      | _ \<Rightarrow> entries)"

definition journal_text :: "journal_codec \<Rightarrow> str \<Rightarrow> journal_entry list \<Rightarrow> str" where
  "journal_text cd now es = concat (map (\<lambda>e. line_json cd now e @ [CHR 0x0A]) es)"

text \<open>The append: the directory it leaves when the write completes.\<close>

definition journal_append ::
  "journal_codec \<Rightarrow> str \<Rightarrow> str \<Rightarrow> journal_entry list \<Rightarrow> journal_dir \<Rightarrow> io_error + journal_dir" where
  "journal_append cd now session_id entries dir =
     (if entries = [] then Inr dir
      else try_bind (journal_path cd session_id) (\<lambda>path.
        let kept = (case dir path of Some bytes \<Rightarrow> drop_torn_tail bytes | None \<Rightarrow> []);
            dir1 = (case dir path of Some _ \<Rightarrow> dir(path \<mapsto> kept) | None \<Rightarrow> dir);
            exists = (dir path \<noteq> None \<and> 0 < length kept);
            entries1 = (if exists then resume_entries cd dir1 path entries else entries);
            entries2 = (if \<not> exists then Header JOURNAL_FORMAT_VERSION (trim session_id) # entries1 else entries1)
        in Inr (dir1(path \<mapsto> kept @ journal_text cd now entries2))))"

subsection \<open>What a reader finds\<close>

text \<open>What the file relies on of the JSON text of a line: it parses back, and is non-blank UTF-8 on one line.\<close>

definition line_ok :: "str \<Rightarrow> bool" where
  "line_ok l \<longleftrightarrow> CHR 0x0A \<notin> set l \<and> trim l \<noteq> [] \<and> utf8_ok l \<and> last l \<noteq> CHR 0x0D"

definition readable :: "journal_codec \<Rightarrow> journal_entry \<Rightarrow> bool" where
  "readable cd e \<longleftrightarrow> newer_header e = None
     \<and> (\<forall>at. parse_line cd (line_json cd at e) = Inr e \<and> line_ok (line_json cd at e))"

abbreviation all_readable :: "journal_codec \<Rightarrow> (str \<times> journal_entry) list \<Rightarrow> bool" where
  "all_readable cd ses \<equiv> list_all (readable cd) (map snd ses)"

text \<open>The entries an append may write instead of, or before, the ones it is given.\<close>

definition written_too :: "str \<Rightarrow> journal_entry list \<Rightarrow> journal_entry list" where
  "written_too session_id entries =
     Header JOURNAL_FORMAT_VERSION (trim session_id)
       # (case entries of Rebuild _ _ messages # _ \<Rightarrow> [Resume (length messages)] | _ \<Rightarrow> [])"

text \<open>The bytes of entries, each with the time of its write.\<close>

definition stamped_text :: "journal_codec \<Rightarrow> (str \<times> journal_entry) list \<Rightarrow> str" where
  "stamped_text cd ses = concat (map (\<lambda>(at, e). line_json cd at e @ [CHR 0x0A]) ses)"

lemma stamped_text_simps [simp]:
  "stamped_text cd [] = []"
  "stamped_text cd ((at, e) # ses) = line_json cd at e @ CHR 0x0A # stamped_text cd ses"
  "stamped_text cd (ses @ ses') = stamped_text cd ses @ stamped_text cd ses'"
  by (simp_all add: stamped_text_def)

lemma journal_text_stamped: "journal_text cd now es = stamped_text cd (map (Pair now) es)"
  by (simp add: journal_text_def stamped_text_def comp_def)

lemma str_lines_acc_line:
  "CHR 0x0A \<notin> set l \<Longrightarrow> str_lines_acc cur (l @ CHR 0x0A # r) =
     (if cur @ l \<noteq> [] \<and> last (cur @ l) = CHR 0x0D then butlast (cur @ l) else cur @ l) # str_lines r"
  by (induction l arbitrary: cur) (auto simp: str_lines_def)

lemma str_lines_acc_tail: "CHR 0x0A \<notin> set l \<Longrightarrow> str_lines_acc cur l = (if cur @ l = [] then [] else [cur @ l])"
  by (induction l arbitrary: cur) auto

lemma trim_Nil [simp]: "trim [] = []"
  by (simp add: trim_def)

lemma line_ok_not_Nil: "line_ok l \<Longrightarrow> l \<noteq> []"
  by (auto simp: line_ok_def)

lemma readable_line: "readable cd e \<Longrightarrow> line_ok (line_json cd at e)" "readable cd e \<Longrightarrow> parse_line cd (line_json cd at e) = Inr e"
  "readable cd e \<Longrightarrow> newer_header e = None"
  by (auto simp: readable_def)

lemma str_lines_stamped:
  assumes "all_readable cd ses" and "CHR 0x0A \<notin> set frag"
  shows "str_lines (stamped_text cd ses @ frag) = map (\<lambda>(at, e). line_json cd at e) ses @ (if frag = [] then [] else [frag])"
  using assms(1)
proof (induction ses)
  case Nil
  then show ?case using assms(2) by (simp add: str_lines_def str_lines_acc_tail)
next
  case (Cons se ses)
  obtain at e where se: "se = (at, e)" by (cases se)
  have "line_ok (line_json cd at e)" using Cons.prems readable_line(1) by (simp add: se)
  then show ?case using Cons line_ok_not_Nil [of "line_json cd at e"]
    by (simp add: se str_lines_def [of "_ @ _"] str_lines_acc_line line_ok_def)
qed

lemma utf8_ok_stamped:
  assumes "all_readable cd ses"
  shows "utf8_ok (stamped_text cd ses @ frag) \<longleftrightarrow> utf8_ok frag"
proof -
  have nl: "utf8_ok [CHR 0x0A]" by code_simp
  have "utf8_ok (line_json cd at e @ [CHR 0x0A])" if "(at, e) \<in> set ses" for at e
    using readable_line(1) [of cd e at] that assms nl by (force simp: list_all_iff line_ok_def utf8_ok_append)
  then have "utf8_ok (stamped_text cd ses)"
    unfolding stamped_text_def by (intro utf8_ok_concat) auto
  then show ?thesis by (simp add: utf8_ok_append)
qed

lemma read_lines_stamped:
  assumes "all_readable cd ses"
  shows "read_lines cd path torn n (map (\<lambda>(at, e). line_json cd at e) ses @ ls)
           = try_bind (read_lines cd path torn (n + length ses) ls) (\<lambda>es. Inr (map snd ses @ es))"
  using assms
proof (induction ses arbitrary: n)
  case Nil
  then show ?case by (cases "read_lines cd path torn n ls") simp_all
next
  case (Cons se ses)
  then show ?case by (cases se) (simp add: readable_line [of cd] try_bind_assoc)
qed


lemma read_stamped:
  assumes "all_readable cd ses"
    and "dir path = Some (stamped_text cd ses @ frag)" and "CHR 0x0A \<notin> set frag"
    and "trim frag = [] \<or> (\<exists>err. parse_line cd frag = Inl err)"
  shows "read_journal cd dir path =
    (if utf8_ok frag then Inr (map snd ses) else Inl (InvalidData ''stream did not contain valid UTF-8''))"
proof (cases "utf8_ok frag")
  case True
  let ?ls = "map (\<lambda>(at, e). line_json cd at e) ses"
  have keep: "filter (\<lambda>l. trim l \<noteq> []) ?ls = ?ls"
    using readable_line(1) assms(1) by (force simp: filter_id_conv line_ok_def list_all_iff)
  show ?thesis
  proof (cases "trim frag = []")
    case True
    then show ?thesis using \<open>utf8_ok frag\<close> read_lines_stamped [OF assms(1), where ls = "[]"]
      by (simp add: read_journal_def assms(2) utf8_ok_stamped [OF assms(1)] str_lines_stamped [OF assms(1,3)] keep)
  next
    case False
    then obtain err where err: "parse_line cd frag = Inl err" "frag \<noteq> []"
      using assms(4) by (cases "frag = []") auto
    then have "\<not> ends_with (stamped_text cd ses @ frag) [CHR 0x0A]"
      using assms(3) by (cases frag rule: rev_cases) (auto simp: suffix_def simp flip: append_assoc)
    then show ?thesis using \<open>utf8_ok frag\<close> False err read_lines_stamped [OF assms(1), where ls = "[frag]"]
      by (simp add: read_journal_def assms(2) utf8_ok_stamped [OF assms(1)] str_lines_stamped [OF assms(1,3)] keep)
  qed
qed (simp add: read_journal_def assms(2) utf8_ok_stamped [OF assms(1)])

lemma drop_torn_stamped:
  assumes "CHR 0x0A \<notin> set frag"
  shows "drop_torn_tail (stamped_text cd ses @ frag) = stamped_text cd ses"
proof (cases frag rule: rev_cases)
  case Nil
  show ?thesis
  proof (cases ses rule: rev_cases)
    case (snoc ys y)
    then show ?thesis by (cases y) (simp add: Nil drop_torn_tail_def)
  qed (simp add: Nil drop_torn_tail_def)
next
  case (snoc ys y)
  have drop: "dropWhile (\<lambda>c. c \<noteq> CHR 0x0A) (rev frag @ r) = dropWhile (\<lambda>c. c \<noteq> CHR 0x0A) r" for r
    using assms by (intro dropWhile_append2) auto
  have "dropWhile (\<lambda>c. c \<noteq> CHR 0x0A) (rev (stamped_text cd ses)) = rev (stamped_text cd ses)"
  proof (cases ses rule: rev_cases)
    case (snoc ys y)
    then show ?thesis by (cases y) simp
  qed simp
  then show ?thesis using snoc assms drop [of "rev (stamped_text cd ses)"] by (auto simp: drop_torn_tail_def)
qed

lemma take_stamped:
  assumes "all_readable cd ses"
  shows "\<exists>j frag. j \<le> length ses \<and> take k (stamped_text cd ses) = stamped_text cd (take j ses) @ frag \<and> CHR 0x0A \<notin> set frag"
  using assms
proof (induction ses arbitrary: k)
  case Nil
  show ?case by (rule exI [of _ 0], rule exI [of _ "[]"]) simp
next
  case (Cons se ses)
  obtain at e where se: "se = (at, e)" by (cases se)
  let ?l = "line_json cd at e"
  have nl: "CHR 0x0A \<notin> set ?l" using readable_line(1) [of cd e at] Cons.prems by (simp add: se line_ok_def)
  show ?case
  proof (cases "k \<le> length ?l")
    case True
    have "take k (stamped_text cd (se # ses)) = stamped_text cd (take 0 (se # ses)) @ take k ?l"
      using True by (simp add: se)
    moreover have "CHR 0x0A \<notin> set (take k ?l)" using nl by (auto dest: in_set_takeD)
    ultimately show ?thesis by blast
  next
    case False
    then obtain m where k: "k = length ?l + Suc m" by (metis add_Suc_right less_imp_Suc_add not_le)
    obtain j frag where "j \<le> length ses" "take m (stamped_text cd ses) = stamped_text cd (take j ses) @ frag"
      "CHR 0x0A \<notin> set frag" using Cons by auto blast
    then show ?thesis by (intro exI [of _ "Suc j"] exI [of _ frag]) (simp add: se k)
  qed
qed

subsection \<open>Crash and append\<close>

lemma fold_transcript_header [simp]: "fold_transcript (Header v i # es) = fold_transcript es"
  by (simp add: fold_transcript_def)

lemma reconstruct_header [simp]: "reconstruct_requests (Header v i # es) = reconstruct_requests es"
  by (simp add: reconstruct_requests_def)

text \<open>Two entry lists that tell the same transcript and the same requests, and leave a reader at the same position.\<close>

definition tells_same :: "journal_entry list \<Rightarrow> journal_entry list \<Rightarrow> bool" where
  "tells_same es es' \<longleftrightarrow> fold_transcript es = fold_transcript es' \<and> reconstruct_requests es = reconstruct_requests es'
     \<and> absorb_all es ([], None, None) = absorb_all es' ([], None, None)"

lemma tells_same_refl [simp]: "tells_same es es"
  by (simp add: tells_same_def)

lemma tells_same_trans: "tells_same es es' \<Longrightarrow> tells_same es' es'' \<Longrightarrow> tells_same es es''"
  by (simp add: tells_same_def)

lemma tells_same_append: "tells_same es es' \<Longrightarrow> tells_same (es @ extra) (es' @ extra)"
  by (simp add: tells_same_def fold_transcript_def reconstruct_requests_def fold_entries_append rebuild_requests_append)

lemma resume_tells_same:
  assumes "fold_transcript es = Inr ms"
  shows "tells_same (es @ Resume (length ms) # rest) (es @ Rebuild w b ms # rest)"
proof -
  obtain sys tls where pos: "absorb_all es ([], None, None) = (ms, sys, tls)"
    using fold_entries_absorb assms unfolding fold_transcript_def by (metis prod.collapse fst_conv)
  show ?thesis using assms
    by (simp add: tells_same_def fold_transcript_def reconstruct_requests_def fold_entries_append
        rebuild_requests_append pos)
qed

lemma resume_entries_tell_same:
  assumes "read_journal cd dir path = Inr es"
  shows "tells_same (es @ resume_entries cd dir path entries) (es @ entries)"
  using assms resume_tells_same [of es]
  by (auto simp: resume_entries_def tells_same_def split: list.split journal_entry.split)

lemma resume_entries_readable:
  "list_all (readable cd) (written_too session_id entries @ entries)
     \<Longrightarrow> list_all (readable cd) (resume_entries cd dir path entries)"
  by (cases entries) (auto simp: resume_entries_def written_too_def split: journal_entry.splits)

text \<open>The entries that follow after what the file kept: the header of a fresh file first, a resume marker for a
  resync the file tells already.\<close>

lemma append_step:
  assumes "all_readable cd ses" and "list_all (readable cd) (written_too session_id entries @ entries)"
    and "dir path = Some (stamped_text cd ses @ frag)" and "CHR 0x0A \<notin> set frag"
    and "journal_path cd session_id = Inr path" and "entries \<noteq> []"
  shows "\<exists>dir' new. journal_append cd now session_id entries dir = Inr dir' \<and> (\<forall>p. p \<noteq> path \<longrightarrow> dir' p = dir p)
    \<and> dir' path = Some (stamped_text cd (ses @ new)) \<and> new \<noteq> [] \<and> all_readable cd (ses @ new)
    \<and> tells_same (map snd (ses @ new)) (map snd ses @ entries)"
proof -
  let ?kept = "stamped_text cd ses"
  let ?dir1 = "dir(path \<mapsto> ?kept)"
  have read1: "read_journal cd ?dir1 path = Inr (map snd ses)"
    using read_stamped [where dir = "?dir1" and path = path and frag = "[]", OF assms(1)] by simp
  define new where "new = (if ses = [] then Header JOURNAL_FORMAT_VERSION (trim session_id) # entries
                           else resume_entries cd ?dir1 path entries)"
  have empty: "stamped_text cd ses = [] \<longleftrightarrow> ses = []" by (cases ses) auto
  have app: "journal_append cd now session_id entries dir = Inr (?dir1(path \<mapsto> ?kept @ journal_text cd now new))"
  proof (cases "ses = []")
    case True
    then show ?thesis using drop_torn_stamped [OF assms(4), of cd "[]"]
      by (simp add: journal_append_def assms(3,5,6) Let_def new_def)
  next
    case False
    then show ?thesis by (simp add: journal_append_def assms(3,5,6) drop_torn_stamped [OF assms(4)] Let_def new_def empty)
  qed
  have readable: "all_readable cd (ses @ map (Pair now) new)"
    using assms(1,2) resume_entries_readable [OF assms(2)]
    by (auto simp: new_def comp_def written_too_def)
  have same: "tells_same (map snd ses @ new) (map snd ses @ entries)"
    using resume_entries_tell_same [OF read1] by (simp add: new_def tells_same_def)
  have "new \<noteq> []" using assms(6) by (auto simp: new_def resume_entries_def split: list.splits journal_entry.splits if_splits)
  then show ?thesis
    using app readable same
    by (intro exI [of _ "?dir1(path \<mapsto> ?kept @ journal_text cd now new)"] exI [of _ "map (Pair now) new"])
      (simp add: journal_text_stamped comp_def)
qed

lemma append_after:
  assumes "all_readable cd ses" and "list_all (readable cd) (written_too session_id entries @ entries)"
    and "dir path = Some (stamped_text cd ses @ frag)" and "CHR 0x0A \<notin> set frag"
    and "journal_path cd session_id = Inr path" and "entries \<noteq> []"
  shows "\<exists>dir' es. journal_append cd now session_id entries dir = Inr dir' \<and> (\<forall>p. p \<noteq> path \<longrightarrow> dir' p = dir p)
    \<and> read_journal cd dir' path = Inr es \<and> tells_same es (map snd ses @ entries)"
proof -
  obtain dir' new where new: "journal_append cd now session_id entries dir = Inr dir'" "\<forall>p. p \<noteq> path \<longrightarrow> dir' p = dir p"
    "dir' path = Some (stamped_text cd (ses @ new))" "all_readable cd (ses @ new)"
    "tells_same (map snd (ses @ new)) (map snd ses @ entries)"
    using append_step [where dir = dir and path = path and ses = ses and frag = frag and entries = entries and now = now
        and session_id = session_id, OF assms] by blast
  have "read_journal cd dir' path = Inr (map snd (ses @ new))"
    using read_stamped [where dir = dir' and path = path and frag = "[]", OF new(4)] new(3) by simp
  then show ?thesis using new by blast
qed

subsection \<open>A run of flushes\<close>

text \<open>The batches the engine flushes, each with its time.\<close>

fun append_batches :: "journal_codec \<Rightarrow> str \<Rightarrow> (str \<times> journal_entry list) list \<Rightarrow> journal_dir \<Rightarrow> io_error + journal_dir" where
  "append_batches cd session_id [] dir = Inr dir"
| "append_batches cd session_id ((now, entries) # bs) dir =
     try_bind (journal_append cd now session_id entries dir) (append_batches cd session_id bs)"

lemma append_batches_tell:
  assumes "all_readable cd ses"
    and "list_all (\<lambda>(now, entries). list_all (readable cd) (written_too session_id entries @ entries)) bs"
    and "dir path = Some (stamped_text cd ses)" and "journal_path cd session_id = Inr path"
  shows "\<exists>dir' new. append_batches cd session_id bs dir = Inr dir' \<and> (\<forall>p. p \<noteq> path \<longrightarrow> dir' p = dir p)
    \<and> dir' path = Some (stamped_text cd (ses @ new)) \<and> (concat (map snd bs) \<noteq> [] \<longrightarrow> new \<noteq> []) \<and> all_readable cd (ses @ new)
    \<and> tells_same (map snd (ses @ new)) (map snd ses @ concat (map snd bs))"
  using assms
proof (induction bs arbitrary: ses dir)
  case Nil
  then show ?case by (intro exI [of _ dir] exI [of _ "[]"]) simp
next
  case (Cons b bs)
  obtain now entries where b: "b = (now, entries)" by (cases b)
  have "\<exists>dir1 new1. journal_append cd now session_id entries dir = Inr dir1 \<and> (\<forall>p. p \<noteq> path \<longrightarrow> dir1 p = dir p)
    \<and> dir1 path = Some (stamped_text cd (ses @ new1)) \<and> (entries \<noteq> [] \<longrightarrow> new1 \<noteq> []) \<and> all_readable cd (ses @ new1)
    \<and> tells_same (map snd (ses @ new1)) (map snd ses @ entries)"
  proof (cases "entries = []")
    case True
    then show ?thesis using Cons.prems
      by (intro exI [of _ dir] exI [of _ "[]"]) (simp add: journal_append_def)
  next
    case False
    then show ?thesis
      using append_step [where dir = dir and path = path and ses = ses and frag = "[]" and entries = entries and now = now
          and session_id = session_id] Cons.prems by (simp add: b)
  qed
  then obtain dir1 new1 where 1: "journal_append cd now session_id entries dir = Inr dir1" "\<forall>p. p \<noteq> path \<longrightarrow> dir1 p = dir p"
    "dir1 path = Some (stamped_text cd (ses @ new1))" "entries \<noteq> [] \<longrightarrow> new1 \<noteq> []" "all_readable cd (ses @ new1)"
    "tells_same (map snd (ses @ new1)) (map snd ses @ entries)" by blast
  obtain dir2 new2 where 2: "append_batches cd session_id bs dir1 = Inr dir2" "\<forall>p. p \<noteq> path \<longrightarrow> dir2 p = dir1 p"
    "dir2 path = Some (stamped_text cd ((ses @ new1) @ new2))" "concat (map snd bs) \<noteq> [] \<longrightarrow> new2 \<noteq> []"
    "all_readable cd ((ses @ new1) @ new2)"
    "tells_same (map snd ((ses @ new1) @ new2)) (map snd (ses @ new1) @ concat (map snd bs))"
    using Cons.IH [where ses = "ses @ new1" and dir = dir1, OF 1(5) _ 1(3) Cons.prems(4)] Cons.prems(2) by auto
  have "tells_same (map snd (ses @ new1 @ new2)) (map snd ses @ entries @ concat (map snd bs))"
    using tells_same_trans [OF 2(6) tells_same_append [OF 1(6)]] by simp
  then show ?case using 1 2 by (intro exI [of _ dir2] exI [of _ "new1 @ new2"]) (auto simp: b)
qed

text \<open>C18: A crash loses only what was being written. When a write of a batch stopped after any number of bytes,
  whatever the file held before and wherever the bytes end, the next append succeeds, leaves every other
  file alone, and the file then reads as entries that tell the same transcript and the same requests as
  the entries written before, the lines of the torn batch that were complete, and the new entries.\<close>

theorem append_survives_crash:
  assumes "all_readable cd (before @ batch)" and "list_all (readable cd) (written_too session_id entries @ entries)"
    and "dir path = Some (stamped_text cd before @ take k (stamped_text cd batch))"
    and "journal_path cd session_id = Inr path" and "entries \<noteq> []"
  shows "\<exists>dir' j es. journal_append cd now session_id entries dir = Inr dir' \<and> (\<forall>p. p \<noteq> path \<longrightarrow> dir' p = dir p)
    \<and> j \<le> length batch \<and> (length (stamped_text cd batch) \<le> k \<longrightarrow> j = length batch)
    \<and> read_journal cd dir' path = Inr es
    \<and> tells_same es (map snd before @ map snd (take j batch) @ entries)"
proof -
  obtain j frag where j: "j \<le> length batch" "take k (stamped_text cd batch) = stamped_text cd (take j batch) @ frag"
    "CHR 0x0A \<notin> set frag" using take_stamped [of cd batch k] assms(1) by auto
  have full: "j = length batch" if "length (stamped_text cd batch) \<le> k"
  proof (rule ccontr)
    assume "j \<noteq> length batch"
    then obtain at e rest where "drop j batch = (at, e) # rest"
      using j(1) by (metis drop_eq_Nil le_antisym list.exhaust surj_pair)
    then have "stamped_text cd batch = stamped_text cd (take j batch) @ line_json cd at e @ CHR 0x0A # stamped_text cd rest"
      by (metis append_take_drop_id stamped_text_simps(2,3))
    then show False using that j(2,3) by auto
  qed
  have ok: "all_readable cd (before @ take j batch)"
    using assms(1) by (auto simp: list_all_iff dest: in_set_takeD)
  have dir: "dir path = Some (stamped_text cd (before @ take j batch) @ frag)"
    using assms(3) j(2) by simp
  obtain dir' es where "journal_append cd now session_id entries dir = Inr dir'" "\<forall>p. p \<noteq> path \<longrightarrow> dir' p = dir p"
    "read_journal cd dir' path = Inr es" "tells_same es (map snd (before @ take j batch) @ entries)"
    using append_after [where dir = dir and path = path and ses = "before @ take j batch" and frag = frag
        and entries = entries and now = now and session_id = session_id, OF ok assms(2) dir j(3) assms(4,5)]
    by blast
  then show ?thesis using j(1) full by (intro exI [of _ dir'] exI [of _ j] exI [of _ es]) simp
qed

text \<open>Reading a file whose final line is torn gives the complete lines exactly when the torn bytes are UTF-8 of
  their own; when the cut falls inside a character the whole read fails, though every complete line is
  intact.\<close>

theorem torn_tail_read:
  assumes "all_readable cd ses"
    and "dir path = Some (stamped_text cd ses @ frag)" and "CHR 0x0A \<notin> set frag"
    and "trim frag = [] \<or> (\<exists>err. parse_line cd frag = Inl err)"
  shows "(utf8_ok frag \<longrightarrow> read_journal cd dir path = Inr (map snd ses))
       \<and> (\<not> utf8_ok frag \<longrightarrow> read_journal cd dir path = Inl (InvalidData ''stream did not contain valid UTF-8''))"
  using read_stamped [where dir = dir and path = path and ses = ses and frag = frag, OF assms] by simp


definition sample_table :: "(str \<times> journal_entry) list" where
  "sample_table =
     [(''H'', Header 1 ''s''), (''Aa'', Append [\<lparr>role = ''user'', blocks = []\<rparr>]),
      (''Ab'', Append [\<lparr>role = ''assistant'', blocks = []\<rparr>]),
      (''R'', Rebuild ''session sync/restore'' 0 [\<lparr>role = ''user'', blocks = []\<rparr>]), (''S'', Resume 1)]"

definition sample_lines :: journal_codec where
  "sample_lines =
     \<lparr>line_json = (\<lambda>_ e. case find (\<lambda>p. snd p = e) sample_table of Some p \<Rightarrow> fst p | None \<Rightarrow> ''X''),
      parse_line = (\<lambda>l. case map_of sample_table l of Some e \<Rightarrow> Inr e | None \<Rightarrow> Inl ''bad line''),
      debug_text = (\<lambda>t. t), path_text = (\<lambda>t. t)\<rparr>"

lemma sample_lines_readable: "list_all (readable sample_lines) (map snd sample_table)"
proof -
  have "line_ok l" if "l \<in> set (map fst sample_table)" for l
  proof -
    have "list_all line_ok (map fst sample_table)" by code_simp
    with that show ?thesis by (auto simp: list_all_iff)
  qed
  then show ?thesis
    by (simp add: readable_def sample_lines_def sample_table_def newer_header_def JOURNAL_FORMAT_VERSION_def)
qed

lemma append_survives_crash_witness:
  "let a = \<lparr>role = ''user'', blocks = []\<rparr>; b = \<lparr>role = ''assistant'', blocks = []\<rparr>;
       before = [(''t0'', Header 1 ''s''), (''t0'', Append [a])]; batch = [(''t1'', Append [b])];
       dir = [''s.journal.jsonl'' \<mapsto> stamped_text sample_lines before @ take 2 (stamped_text sample_lines batch)]
   in \<exists>dir' j es. journal_append sample_lines ''t2'' ''s'' [Rebuild ''session sync/restore'' 0 [a]] dir = Inr dir'
        \<and> j \<le> 1 \<and> read_journal sample_lines dir' ''s.journal.jsonl'' = Inr es
        \<and> tells_same es ([Header 1 ''s'', Append [a]] @ map snd (take j batch) @ [Rebuild ''session sync/restore'' 0 [a]])"
proof -
  let ?a = "\<lparr>role = ''user'', blocks = []\<rparr> :: message" and ?b = "\<lparr>role = ''assistant'', blocks = []\<rparr> :: message"
  let ?before = "[(''t0'', Header 1 ''s''), (''t0'', Append [?a])]" and ?batch = "[(''t1'', Append [?b])]"
  let ?entries = "[Rebuild ''session sync/restore'' 0 [?a]]"
  let ?dir = "[''s.journal.jsonl'' \<mapsto> stamped_text sample_lines ?before @ take 2 (stamped_text sample_lines ?batch)]"
  have 1: "all_readable sample_lines (?before @ ?batch)"
    using sample_lines_readable by (simp add: sample_table_def)
  have "trim ''s'' = ''s''" by code_simp
  then have 2: "list_all (readable sample_lines) (written_too ''s'' ?entries @ ?entries)"
    using sample_lines_readable by (simp add: sample_table_def written_too_def JOURNAL_FORMAT_VERSION_def)
  have 3: "journal_path sample_lines ''s'' = Inr ''s.journal.jsonl''" by code_simp
  show ?thesis unfolding Let_def
    using append_survives_crash [where dir = ?dir and k = 2 and before = ?before and batch = ?batch and now = "''t2''",
        OF 1 2 _ 3] by auto
qed

lemma torn_tail_read_witness:
  "utf8_ok [CHR 0xC3, CHR 0xA9] \<and> \<not> utf8_ok [CHR 0xC3]
   \<and> read_journal sample_lines [''p'' \<mapsto> ''H'' @ [CHR 0x0A, CHR 0xC3]] ''p''
       = Inl (InvalidData ''stream did not contain valid UTF-8'')"
proof -
  have 1: "all_readable sample_lines [(''t'', Header 1 ''s'')]"
    using sample_lines_readable by (simp add: sample_table_def)
  have 2: "\<not> utf8_ok [CHR 0xC3]" "utf8_ok [CHR 0xC3, CHR 0xA9]" by code_simp+
  show ?thesis
    using torn_tail_read [where dir = "[''p'' \<mapsto> ''H'' @ [CHR 0x0A, CHR 0xC3]]" and path = "''p''" and frag = "[CHR 0xC3]", OF 1] 2
    by (simp add: sample_lines_def sample_table_def)
qed

end
