(* ===== verification/SessionRepair.thy ===== *)
theory SessionRepair
  imports SessionLog
begin


section \<open>session: the repair of interrupted tool calls\<close>

text \<open>
  The pairing of tool calls and results in a transcript (\<open>session/src/transcript.rs\<close>) and the two ways an
  interrupted call is closed (\<open>session/src/store.rs\<close>): the repair in place when a session is loaded, and
  the terminator the live, append-only transcript gets at its tail. A hash set of ids is a list.
\<close>

subsection \<open>Calls and results\<close>

fun use_id :: "content_block \<Rightarrow> str option" where
  "use_id (ToolUse i _ _ _) = Some i"
| "use_id _ = None"

fun result_id :: "content_block \<Rightarrow> str option" where
  "result_id (ToolResultBlock i _ _ _) = Some i"
| "result_id _ = None"

definition use_ids :: "message \<Rightarrow> str list" where
  "use_ids m = List.map_filter use_id (blocks m)"

definition result_ids :: "message \<Rightarrow> str list" where
  "result_ids m = List.map_filter result_id (blocks m)"

text \<open>The first occurrence of every id, as \<open>seen.insert\<close> keeps it.\<close>

fun first_seen :: "str list \<Rightarrow> str list \<Rightarrow> str list" where
  "first_seen seen [] = []"
| "first_seen seen (i # is) = (if i \<in> set seen then first_seen seen is else i # first_seen (i # seen) is)"

definition all_uses :: "message list \<Rightarrow> str list" where
  "all_uses messages = concat (map use_ids messages)"

definition all_results :: "message list \<Rightarrow> str list" where
  "all_results messages = concat (map result_ids messages)"

definition unanswered_tool_use_ids :: "message list \<Rightarrow> str list" where
  "unanswered_tool_use_ids messages =
     filter (\<lambda>i. i \<notin> set (all_results messages)) (first_seen [] (all_uses messages))"

definition tool_call_pairs_balanced :: "message list \<Rightarrow> bool" where
  "tool_call_pairs_balanced messages \<longleftrightarrow>
     unanswered_tool_use_ids messages = [] \<and> list_all (\<lambda>i. i \<in> set (all_uses messages)) (all_results messages)"

definition is_tool_result_batch :: "message \<Rightarrow> bool" where
  "is_tool_result_batch m \<longleftrightarrow>
     role m = ''user'' \<and> blocks m \<noteq> [] \<and> list_all (\<lambda>b. result_id b \<noteq> None) (blocks m)"

definition unknown_text :: "str \<Rightarrow> str" where
  "unknown_text origin =
     ''TOOL_OUTCOME_UNKNOWN: the turn was interrupted before this tool call'' @ [CHR 0x27] @ ''s result was recorded ('' @ origin
     @ ''); it may or may not have run '' @ [CHR 0xE2, CHR 0x80, CHR 0x94] @ '' repeat it only if doing so is safe''"

definition tool_outcome_unknown_message :: "str list \<Rightarrow> str \<Rightarrow> message" where
  "tool_outcome_unknown_message ids origin =
     \<lparr>role = ''user'', blocks = map (\<lambda>i. ToolResultBlock i (unknown_text origin) (Some True) None) ids\<rparr>"

subsection \<open>The repair in place\<close>

text \<open>The ids of a message still to be closed, each claimed once, and those that remain.\<close>

fun claim_ids :: "str list \<Rightarrow> str list \<Rightarrow> str list \<times> str list" where
  "claim_ids [] remaining = ([], remaining)"
| "claim_ids (i # is) remaining =
     (if i \<in> set remaining
      then let (ids, left) = claim_ids is (removeAll i remaining) in (i # ids, left)
      else claim_ids is remaining)"

text \<open>The loop from a message on: the messages it leaves and the ids it closed.\<close>

function repair_from :: "str list \<Rightarrow> message list \<Rightarrow> message list \<times> str list" where
  "repair_from remaining [] = ([], [])"
| "repair_from remaining (m # ms) =
     (if remaining = [] then (m # ms, [])
      else
        let (ids, left) = (if role m = ''assistant'' then claim_ids (use_ids m) remaining else ([], remaining))
        in if ids \<noteq> []
           then let (rest, repaired) = repair_from left (dropWhile is_tool_result_batch ms)
                in (m # takeWhile is_tool_result_batch ms @ tool_outcome_unknown_message ids ''session-repair'' # rest,
                    ids @ repaired)
           else let (rest, repaired) = repair_from left ms in (m # rest, repaired))"
  by pat_completeness auto
termination
  by (relation "measure (\<lambda>(r, ms). length ms)") (auto simp: le_imp_less_Suc length_dropWhile_le)

definition repair_interrupted_tool_calls :: "message list \<Rightarrow> message list \<times> str list" where
  "repair_interrupted_tool_calls messages = repair_from (unanswered_tool_use_ids messages) messages"

subsection \<open>The terminator of a live transcript\<close>

text \<open>The tail: the last message that is no batch of results, and the batches after it.\<close>

definition tail_batches :: "message list \<Rightarrow> message list" where
  "tail_batches messages = rev (takeWhile is_tool_result_batch (rev messages))"

definition tail_tool_outcome_unknown_terminator :: "message list \<Rightarrow> str \<Rightarrow> (message \<times> str list) option" where
  "tail_tool_outcome_unknown_terminator messages origin =
     (case dropWhile is_tool_result_batch (rev messages) of
        [] \<Rightarrow> None
      | assistant # _ \<Rightarrow>
          if role assistant \<noteq> ''assistant'' then None
          else
            let ids = filter (\<lambda>i. i \<notin> set (all_results (tail_batches messages))) (use_ids assistant)
            in if ids = [] then None else Some (tool_outcome_unknown_message ids origin, ids))"


subsection \<open>Ids\<close>

lemma first_seen_cong: "set seen = set seen' \<Longrightarrow> first_seen seen xs = first_seen seen' xs"
proof (induction xs arbitrary: seen seen')
  case (Cons x xs)
  have "first_seen (x # seen) xs = first_seen (x # seen') xs" by (rule Cons.IH) (simp add: Cons.prems)
  then show ?case using Cons.IH [OF Cons.prems] Cons.prems by simp
qed simp

lemma first_seen_Un: "first_seen (seen @ extra) xs = filter (\<lambda>i. i \<notin> set seen) (first_seen extra xs)"
proof (induction xs arbitrary: extra)
  case (Cons x xs)
  have move: "first_seen (x # seen @ extra) xs = first_seen (seen @ x # extra) xs"
    by (rule first_seen_cong) auto
  have known: "first_seen (seen @ extra) xs = first_seen (seen @ x # extra) xs" if "x \<in> set seen"
    using that by (intro first_seen_cong) auto
  show ?case
  proof (cases "x \<in> set extra")
    case True
    then show ?thesis using Cons.IH [of extra] by simp
  next
    case False
    then show ?thesis using Cons.IH [of "x # extra"] move known by simp
  qed
qed simp

lemma first_seen_filter: "first_seen seen xs = filter (\<lambda>i. i \<notin> set seen) (first_seen [] xs)"
  using first_seen_Un [of seen "[]" xs] by simp

lemma first_seen_append: "first_seen seen (xs @ ys) = first_seen seen xs @ first_seen (xs @ seen) ys"
proof (induction xs arbitrary: seen)
  case (Cons x xs)
  have "first_seen (xs @ x # seen) ys = first_seen (x # xs @ seen) ys" for xs
    by (rule first_seen_cong) auto
  moreover have "first_seen (xs @ seen) ys = first_seen (x # xs @ seen) ys" if "x \<in> set seen"
    using that by (intro first_seen_cong) auto
  ultimately show ?case using Cons.IH by auto
qed simp

lemma set_first_seen [simp]: "set (first_seen seen xs) = set xs - set seen"
  by (induction xs arbitrary: seen) auto

lemma first_seen_distinct: "distinct xs \<Longrightarrow> first_seen [] xs = xs"
proof (induction xs)
  case (Cons x xs)
  then show ?case using first_seen_filter [of "[x]" xs] by (auto simp: filter_id_conv)
qed simp

lemma claim_ids_eq:
  "claim_ids us remaining = (filter (\<lambda>i. i \<in> set remaining) (first_seen [] us), filter (\<lambda>i. i \<notin> set us) remaining)"
proof (induction us arbitrary: remaining)
  case (Cons u us)
  have "first_seen [u] us = filter (\<lambda>i. i \<noteq> u) (first_seen [] us)"
    using first_seen_filter [of "[u]" us] by simp
  moreover have "filter (\<lambda>i. i \<in> set (removeAll u remaining)) (first_seen [] us)
      = filter (\<lambda>i. i \<in> set remaining) (filter (\<lambda>i. i \<noteq> u) (first_seen [] us))"
    by (auto intro: filter_cong)
  moreover have "filter (\<lambda>i. i \<notin> set us) (removeAll u remaining) = filter (\<lambda>i. i \<noteq> u \<and> i \<notin> set us) remaining"
    by (auto simp: removeAll_filter_not_eq intro: filter_cong)
  moreover have "filter (\<lambda>i. i \<in> set remaining) (first_seen [] us)
      = filter (\<lambda>i. i \<in> set remaining) (filter (\<lambda>i. i \<noteq> u) (first_seen [] us))" if "u \<notin> set remaining"
    using that by (auto intro: filter_cong)
  moreover have "filter (\<lambda>i. i \<notin> set us) remaining = filter (\<lambda>i. i \<noteq> u \<and> i \<notin> set us) remaining"
    if "u \<notin> set remaining"
    using that by (auto intro: filter_cong)
  ultimately show ?case using Cons.IH by simp
qed simp

lemma use_result: "result_id b \<noteq> None \<Longrightarrow> use_id b = None"
  by (cases b) simp_all

lemma batch_no_uses [simp]: "is_tool_result_batch m \<Longrightarrow> use_ids m = []"
  unfolding is_tool_result_batch_def use_ids_def map_filter_Nil_iff by (auto simp: list_all_iff use_result)

lemma batches_no_uses: "list_all is_tool_result_batch ms \<Longrightarrow> all_uses ms = []"
  by (induction ms) (simp_all add: all_uses_def)

lemma all_uses_simps [simp]: "all_uses [] = []" "all_uses (m # ms) = use_ids m @ all_uses ms"
  "all_uses (ms @ ms') = all_uses ms @ all_uses ms'"
  by (simp_all add: all_uses_def)

lemma all_results_simps [simp]: "all_results [] = []" "all_results (m # ms) = result_ids m @ all_results ms"
  "all_results (ms @ ms') = all_results ms @ all_results ms'"
  by (simp_all add: all_results_def)

lemma terminator_ids [simp]:
  "use_ids (tool_outcome_unknown_message ids origin) = []"
  "result_ids (tool_outcome_unknown_message ids origin) = ids"
  "is_tool_result_batch (tool_outcome_unknown_message ids origin) \<longleftrightarrow> ids \<noteq> []"
proof -
  show "use_ids (tool_outcome_unknown_message ids origin) = []"
    by (simp add: use_ids_def tool_outcome_unknown_message_def map_filter_Nil_iff list_all_iff)
  show "result_ids (tool_outcome_unknown_message ids origin) = ids"
    by (induction ids) (simp_all add: result_ids_def tool_outcome_unknown_message_def List.map_filter_simps)
  show "is_tool_result_batch (tool_outcome_unknown_message ids origin) \<longleftrightarrow> ids \<noteq> []"
    by (simp add: is_tool_result_batch_def tool_outcome_unknown_message_def list_all_iff)
qed

text \<open>Calls stand in assistant messages, as the engine commits them.\<close>

definition calls_by_assistant :: "message list \<Rightarrow> bool" where
  "calls_by_assistant messages \<longleftrightarrow> list_all (\<lambda>m. role m = ''assistant'' \<or> use_ids m = []) messages"

lemma batch_role: "is_tool_result_batch m \<Longrightarrow> role m \<noteq> ''assistant''"
  by (simp add: is_tool_result_batch_def)

text \<open>A leading batch is passed over.\<close>

lemma repair_from_Nil [simp]: "repair_from [] ms = (ms, [])"
  by (cases ms) simp_all

lemma repair_from_quiet:
  assumes "role m = ''assistant'' \<longrightarrow> set (use_ids m) \<inter> set remaining = {}"
  shows "repair_from remaining (m # ms) = (m # fst (repair_from remaining ms), snd (repair_from remaining ms))"
proof -
  have "filter (\<lambda>i. i \<in> set remaining) (first_seen [] (use_ids m)) = []"
    "filter (\<lambda>i. i \<notin> set (use_ids m)) remaining = remaining" if "role m = ''assistant''"
    using assms that by (auto simp: filter_empty_conv filter_id_conv)
  then show ?thesis by (cases "remaining = []") (auto simp: claim_ids_eq case_prod_beta' Let_def)
qed

lemma repair_from_pre:
  assumes "set (all_uses pre) \<inter> set remaining = {}"
  shows "repair_from remaining (pre @ ms) = (pre @ fst (repair_from remaining ms), snd (repair_from remaining ms))"
  using assms
proof (induction pre)
  case (Cons m pre)
  then have "set (use_ids m) \<inter> set remaining = {}" "set (all_uses pre) \<inter> set remaining = {}" by auto
  then show ?case using Cons.IH repair_from_quiet [of m remaining "pre @ ms"] by simp
qed simp


lemma batches_split:
  "all_uses (takeWhile is_tool_result_batch ms) = []" "all_uses (dropWhile is_tool_result_batch ms) = all_uses ms"
proof -
  show 1: "all_uses (takeWhile is_tool_result_batch ms) = []"
    by (rule batches_no_uses) (auto simp: list_all_iff dest: set_takeWhileD)
  show "all_uses (dropWhile is_tool_result_batch ms) = all_uses ms"
    using 1 by (metis all_uses_simps(3) append_Nil takeWhile_dropWhile_id)
qed

lemma calls_by_assistant_Cons:
  "calls_by_assistant (m # ms) \<longleftrightarrow> (role m = ''assistant'' \<or> use_ids m = []) \<and> calls_by_assistant ms"
  by (simp add: calls_by_assistant_def)

lemma calls_by_assistant_dropWhile: "calls_by_assistant ms \<Longrightarrow> calls_by_assistant (dropWhile P ms)"
  by (auto simp: calls_by_assistant_def list_all_iff dest: set_dropWhileD)

text \<open>One round of the loop, whichever branch it takes.\<close>

lemma repair_from_step:
  assumes "role m = ''assistant'' \<or> use_ids m = []"
    and "ids = filter (\<lambda>i. i \<in> set remaining) (first_seen [] (use_ids m))"
    and "left = filter (\<lambda>i. i \<notin> set (use_ids m)) remaining"
  shows "repair_from remaining (m # ms) =
    (if ids = [] then (m # fst (repair_from left ms), snd (repair_from left ms))
     else (m # takeWhile is_tool_result_batch ms @ tool_outcome_unknown_message ids ''session-repair''
             # fst (repair_from left (dropWhile is_tool_result_batch ms)),
           ids @ snd (repair_from left (dropWhile is_tool_result_batch ms))))"
proof (cases "role m = ''assistant'' \<and> remaining \<noteq> []")
  case True
  then show ?thesis by (simp add: claim_ids_eq assms(2,3) case_prod_beta' Let_def)
next
  case False
  then have "ids = []" "left = remaining" using assms by (auto simp: filter_id_conv)
  then show ?thesis using False repair_from_quiet [of m remaining ms] by (cases "remaining = []") auto
qed

declare repair_from.simps(2) [simp del]

definition closes :: "str list \<Rightarrow> message list \<Rightarrow> message list \<times> str list \<Rightarrow> bool" where
  "closes remaining ms r \<longleftrightarrow>
     snd r = filter (\<lambda>i. i \<in> set remaining) (first_seen [] (all_uses ms))
     \<and> all_uses (fst r) = all_uses ms
     \<and> set (all_results (fst r)) = set (all_results ms) \<union> set (snd r)
     \<and> subseq ms (fst r)"

lemma repair_from_closes: "calls_by_assistant ms \<Longrightarrow> closes remaining ms (repair_from remaining ms)"
proof (induction ms arbitrary: remaining rule: length_induct)
  case (1 ms)
  show ?case
  proof (cases ms)
    case Nil
    then show ?thesis by (simp add: closes_def)
  next
    case (Cons m rest)
    define ids where "ids = filter (\<lambda>i. i \<in> set remaining) (first_seen [] (use_ids m))"
    define left where "left = filter (\<lambda>i. i \<notin> set (use_ids m)) remaining"
    let ?batch = "takeWhile is_tool_result_batch rest" and ?tl = "dropWhile is_tool_result_batch rest"
    have m: "role m = ''assistant'' \<or> use_ids m = []" and rest: "calls_by_assistant rest"
      using "1.prems" by (simp_all add: Cons calls_by_assistant_Cons)
    note step = repair_from_step [OF m ids_def left_def, of rest]
    have seen: "filter (\<lambda>i. i \<in> set remaining) (first_seen [] (use_ids m @ all_uses rest))
        = ids @ filter (\<lambda>i. i \<in> set left) (first_seen [] (all_uses rest))"
      unfolding ids_def left_def first_seen_append using first_seen_filter [of "use_ids m @ []" "all_uses rest"]
      by (auto intro: filter_cong)
    have IH1: "closes left rest (repair_from left rest)" using "1.IH" rest by (simp add: Cons)
    have "length ?tl < length ms" by (simp add: Cons le_imp_less_Suc length_dropWhile_le)
    then have IH2: "closes left ?tl (repair_from left ?tl)"
      using "1.IH" calls_by_assistant_dropWhile [OF rest] by blast
    have split: "all_results rest = all_results ?batch @ all_results ?tl"
      by (metis all_results_simps(3) takeWhile_dropWhile_id)
    have sub: "subseq rest (?batch @ tool_outcome_unknown_message ids ''session-repair'' # fst (repair_from left ?tl))"
      using IH2 unfolding closes_def
      by (metis list_emb_Cons list_emb_append_mono subseq_order.refl takeWhile_dropWhile_id)
    show ?thesis
    proof (cases "ids = []")
      case True
      then show ?thesis using IH1 seen by (simp add: Cons step closes_def Un_assoc)
    next
      case False
      let ?out = "repair_from left ?tl"
      have "set (all_results (m # ?batch @ tool_outcome_unknown_message ids ''session-repair'' # fst ?out))
          = set (all_results (m # rest)) \<union> set (ids @ snd ?out)"
        using IH2 by (simp add: closes_def split) blast
      then show ?thesis
        using IH2 seen batches_split [of rest] sub False unfolding Cons step closes_def by simp
    qed
  qed
qed

text \<open>
  Where the terminators stand. The transcript is cut into pieces, each ending with the results that directly follow
  an assistant message, and a tail; what is added is one message at the end of each piece, closing calls of
  that assistant message.
\<close>

definition interrupted_piece :: "message list \<Rightarrow> str list \<Rightarrow> bool" where
  "interrupted_piece xs js \<longleftrightarrow> js \<noteq> [] \<and>
     (\<exists>pre m results. xs = pre @ m # results \<and> role m = ''assistant'' \<and> set js \<subseteq> set (use_ids m)
        \<and> list_all is_tool_result_batch results)"

definition no_batch_first :: "message list \<Rightarrow> bool" where
  "no_batch_first ms \<longleftrightarrow> (\<forall>m rest. ms = m # rest \<longrightarrow> \<not> is_tool_result_batch m)"

fun cut_after_results :: "(message list \<times> str list) list \<Rightarrow> message list \<Rightarrow> bool" where
  "cut_after_results [] rest \<longleftrightarrow> True"
| "cut_after_results (p # ps) rest \<longleftrightarrow> no_batch_first (concat (map fst ps) @ rest) \<and> cut_after_results ps rest"

definition repaired_by :: "message list \<Rightarrow> message list \<times> str list \<Rightarrow> (message list \<times> str list) list \<Rightarrow> message list \<Rightarrow> bool" where
  "repaired_by messages r pieces rest \<longleftrightarrow>
     messages = concat (map fst pieces) @ rest
     \<and> fst r = concat (map (\<lambda>(xs, js). xs @ [tool_outcome_unknown_message js ''session-repair'']) pieces) @ rest
     \<and> snd r = concat (map snd pieces)
     \<and> (\<forall>(xs, js)\<in>set pieces. interrupted_piece xs js) \<and> cut_after_results pieces rest"

lemma repaired_by_quiet:
  assumes "repaired_by ms r pieces rest"
  shows "\<exists>pieces rest. repaired_by (m # ms) (m # fst r, snd r) pieces rest"
proof (cases pieces)
  case Nil
  with assms have "repaired_by (m # ms) (m # fst r, snd r) [] (m # rest)" by (simp add: repaired_by_def)
  then show ?thesis by blast
next
  case (Cons p ps)
  obtain xs js where p: "p = (xs, js)" by fastforce
  with assms Cons have "interrupted_piece xs js" by (simp add: repaired_by_def)
  then have "interrupted_piece (m # xs) js" unfolding interrupted_piece_def by (metis append_Cons)
  with assms Cons p have "repaired_by (m # ms) (m # fst r, snd r) ((m # xs, js) # ps) rest"
    by (simp add: repaired_by_def)
  then show ?thesis by blast
qed

lemma repaired_by_closed:
  assumes "repaired_by (dropWhile is_tool_result_batch ms) r pieces rest"
    and "role m = ''assistant''" "ids \<noteq> []" "set ids \<subseteq> set (use_ids m)"
  shows "\<exists>pieces rest. repaired_by (m # ms) (m # takeWhile is_tool_result_batch ms
    @ tool_outcome_unknown_message ids ''session-repair'' # fst r, ids @ snd r) pieces rest"
proof -
  have "list_all is_tool_result_batch (takeWhile is_tool_result_batch ms)"
    by (auto simp: list_all_iff dest: set_takeWhileD)
  then have "interrupted_piece (m # takeWhile is_tool_result_batch ms) ids"
    unfolding interrupted_piece_def using assms(2-4) by (metis append_Nil)
  moreover have ms: "takeWhile is_tool_result_batch ms @ concat (map fst pieces) @ rest = ms"
    using assms(1) by (metis repaired_by_def takeWhile_dropWhile_id)
  moreover have "no_batch_first (concat (map fst pieces) @ rest)"
    unfolding no_batch_first_def using assms(1) by (metis repaired_by_def dropWhile_eq_Cons_conv)
  ultimately have "repaired_by (m # ms) (m # takeWhile is_tool_result_batch ms
      @ tool_outcome_unknown_message ids ''session-repair'' # fst r, ids @ snd r)
      ((m # takeWhile is_tool_result_batch ms, ids) # pieces) rest"
    using assms(1) by (simp add: repaired_by_def)
  then show ?thesis by blast
qed

lemma repair_from_pieces:
  "calls_by_assistant ms \<Longrightarrow> \<exists>pieces rest. repaired_by ms (repair_from remaining ms) pieces rest"
proof (induction ms arbitrary: remaining rule: length_induct)
  case (1 ms)
  show ?case
  proof (cases ms)
    case Nil
    have "repaired_by [] ([], []) [] []" by (simp add: repaired_by_def)
    with Nil show ?thesis by auto
  next
    case (Cons m tl)
    define ids where "ids = filter (\<lambda>i. i \<in> set remaining) (first_seen [] (use_ids m))"
    define left where "left = filter (\<lambda>i. i \<notin> set (use_ids m)) remaining"
    have m: "role m = ''assistant'' \<or> use_ids m = []" and tl: "calls_by_assistant tl"
      using "1.prems" by (simp_all add: Cons calls_by_assistant_Cons)
    note step = repair_from_step [OF m ids_def left_def, of tl]
    show ?thesis
    proof (cases "ids = []")
      case True
      have "\<exists>pieces rest. repaired_by tl (repair_from left tl) pieces rest" using "1.IH" tl by (simp add: Cons)
      then show ?thesis using repaired_by_quiet True unfolding Cons step by auto
    next
      case False
      have "length (dropWhile is_tool_result_batch tl) < length ms"
        by (simp add: Cons le_imp_less_Suc length_dropWhile_le)
      then obtain pieces rest where
        r: "repaired_by (dropWhile is_tool_result_batch tl) (repair_from left (dropWhile is_tool_result_batch tl)) pieces rest"
        using "1.IH" calls_by_assistant_dropWhile [OF tl] by blast
      have "role m = ''assistant''" "set ids \<subseteq> set (use_ids m)" using m False by (auto simp: ids_def)
      with repaired_by_closed [OF r _ False] show ?thesis using False unfolding Cons step by simp
    qed
  qed
qed

text \<open>C19: Loading a session closes every interrupted call, once, and adds nothing else. When the calls stand in
  assistant messages, the transcript falls into pieces, each ending with the results directly after an assistant
  message, and a tail, and the repaired transcript is the same with one message at the end of each piece: a user
  message with one error result, in the text of an unknown outcome, for each of some calls of that assistant
  message. The ids closed are, in this order, exactly the unanswered ones in the order of their first
  appearance; afterwards none is unanswered, and repairing again changes nothing.\<close>

theorem repair_closes_interrupted_calls:
  assumes "calls_by_assistant messages" and "repair_interrupted_tool_calls messages = (repaired, ids)"
  shows "(\<exists>pieces rest. messages = concat (map fst pieces) @ rest
       \<and> repaired = concat (map (\<lambda>(xs, js). xs @ [\<lparr>role = ''user'', blocks =
             map (\<lambda>i. ToolResultBlock i (unknown_text ''session-repair'') (Some True) None) js\<rparr>]) pieces) @ rest
       \<and> ids = concat (map snd pieces)
       \<and> (\<forall>(xs, js)\<in>set pieces. interrupted_piece xs js) \<and> cut_after_results pieces rest)
     \<and> ids = unanswered_tool_use_ids messages \<and> unanswered_tool_use_ids repaired = []
     \<and> subseq messages repaired \<and> all_uses repaired = all_uses messages
     \<and> repair_interrupted_tool_calls repaired = (repaired, [])"
proof -
  have r: "closes (unanswered_tool_use_ids messages) messages (repaired, ids)"
    using repair_from_closes [OF assms(1), of "unanswered_tool_use_ids messages"] assms(2)
    by (simp add: repair_interrupted_tool_calls_def)
  have pieces: "\<exists>pieces rest. repaired_by messages (repaired, ids) pieces rest"
    using repair_from_pieces [OF assms(1), of "unanswered_tool_use_ids messages"] assms(2)
    by (simp add: repair_interrupted_tool_calls_def)
  have ids: "ids = unanswered_tool_use_ids messages"
    using r by (auto simp: closes_def unanswered_tool_use_ids_def intro: filter_cong)
  have none: "unanswered_tool_use_ids repaired = []"
    using r ids by (auto simp: closes_def unanswered_tool_use_ids_def filter_empty_conv)
  have "repair_interrupted_tool_calls repaired = (repaired, [])"
    by (simp add: none repair_interrupted_tool_calls_def)
  then show ?thesis
    using pieces r ids none unfolding closes_def repaired_by_def tool_outcome_unknown_message_def fst_conv snd_conv by blast
qed

subsection \<open>What a strict provider accepts\<close>

text \<open>Every call of a message is answered by a batch that directly follows it.\<close>

fun well_paired :: "message list \<Rightarrow> bool" where
  "well_paired [] \<longleftrightarrow> True"
| "well_paired (m # ms) \<longleftrightarrow>
     set (use_ids m) \<subseteq> set (all_results (takeWhile is_tool_result_batch ms)) \<and> well_paired ms"

text \<open>Every call that has an answer somewhere has it in a batch that directly follows.\<close>

fun answered_in_place :: "str list \<Rightarrow> message list \<Rightarrow> bool" where
  "answered_in_place answers [] \<longleftrightarrow> True"
| "answered_in_place answers (m # ms) \<longleftrightarrow>
     set (use_ids m) \<inter> set answers \<subseteq> set (all_results (takeWhile is_tool_result_batch ms)) \<and> answered_in_place answers ms"

lemma takeWhile_batches_repair:
  "takeWhile is_tool_result_batch (fst (repair_from remaining ms)) = takeWhile is_tool_result_batch ms"
  if "calls_by_assistant ms"
  using that
proof (induction ms arbitrary: remaining)
  case (Cons m ms)
  show ?case
  proof (cases "is_tool_result_batch m")
    case True
    then show ?thesis using Cons repair_from_quiet [of m remaining ms] batch_role [OF True]
      by (simp add: calls_by_assistant_Cons)
  next
    case False
    have "role m = ''assistant'' \<or> use_ids m = []" using Cons.prems by (simp add: calls_by_assistant_Cons)
    from repair_from_step [OF this refl refl, of remaining ms] show ?thesis using False by simp
  qed
qed simp

lemma well_paired_batches:
  "list_all is_tool_result_batch bs \<Longrightarrow> well_paired (bs @ ms) \<longleftrightarrow> well_paired ms"
  by (induction bs) auto

lemma answered_in_place_batches:
  "list_all is_tool_result_batch bs \<Longrightarrow> answered_in_place answers (bs @ ms) \<longleftrightarrow> answered_in_place answers ms"
  by (induction bs) auto

lemma takeWhile_all_batches: "list_all is_tool_result_batch (takeWhile is_tool_result_batch ms)"
  by (auto simp: list_all_iff dest: set_takeWhileD)

lemma repair_from_paired:
  assumes "calls_by_assistant ms" and "distinct (all_uses ms)" and "answered_in_place answers ms"
    and "set (all_uses ms) \<subseteq> set remaining \<union> set answers" and "set remaining \<inter> set answers = {}"
  shows "well_paired (fst (repair_from remaining ms))"
  using assms
proof (induction ms arbitrary: remaining rule: length_induct)
  case (1 ms)
  show ?case
  proof (cases ms)
    case (Cons m rest)
    define ids where "ids = filter (\<lambda>i. i \<in> set remaining) (first_seen [] (use_ids m))"
    define left where "left = filter (\<lambda>i. i \<notin> set (use_ids m)) remaining"
    let ?batch = "takeWhile is_tool_result_batch rest" and ?tl = "dropWhile is_tool_result_batch rest"
    have m: "role m = ''assistant'' \<or> use_ids m = []" and rest: "calls_by_assistant rest"
      using "1.prems"(1) by (simp_all add: Cons calls_by_assistant_Cons)
    note step = repair_from_step [OF m ids_def left_def, of rest]
    have left: "distinct (all_uses rest)" "set (all_uses rest) \<subseteq> set left \<union> set answers"
      "set left \<inter> set answers = {}" "answered_in_place answers rest"
      using "1.prems"(2-5) by (auto simp: Cons left_def)
    have m_answers: "set (use_ids m) \<inter> set answers \<subseteq> set (all_results ?batch)"
      using "1.prems"(3) by (simp add: Cons)
    have set_ids: "set ids = set (use_ids m) - set answers"
      using "1.prems"(4,5) by (auto simp: Cons ids_def)
    show ?thesis
    proof (cases "ids = []")
      case True
      have "well_paired (fst (repair_from left rest))"
        using "1.IH" rest left by (simp add: Cons)
      then show ?thesis using True set_ids m_answers
        by (auto simp: Cons step takeWhile_batches_repair [OF rest])
    next
      case False
      have "answered_in_place answers ?tl"
        using left(4) answered_in_place_batches [OF takeWhile_all_batches, of answers rest ?tl] by simp
      moreover have "length ?tl < length ms" by (simp add: Cons le_imp_less_Suc length_dropWhile_le)
      ultimately have out: "well_paired (fst (repair_from left ?tl))"
        using "1.IH" calls_by_assistant_dropWhile [OF rest] left batches_split [of rest] by metis
      have "set (use_ids m) \<subseteq> set (all_results ?batch) \<union> set ids"
        using set_ids m_answers by blast
      then have "set (use_ids m) \<subseteq> set (all_results (takeWhile is_tool_result_batch
          (?batch @ tool_outcome_unknown_message ids ''session-repair'' # fst (repair_from left ?tl))))"
        using takeWhile_all_batches [of rest] False by (auto simp: list_all_iff takeWhile_append2)
      then show ?thesis
        using out False by (simp add: Cons step well_paired_batches takeWhile_all_batches)
    qed
  qed simp
qed

text \<open>When every call has an id of its own and the answers that were recorded directly follow their calls, the
  transcript a load repairs is well paired: each call is answered by a batch of results directly after its
  message, which is what a strict provider accepts.\<close>

theorem repair_gives_well_paired:
  assumes "calls_by_assistant messages" and "distinct (all_uses messages)"
    and "answered_in_place (all_results messages) messages"
  shows "well_paired (fst (repair_interrupted_tool_calls messages))"
  unfolding repair_interrupted_tool_calls_def
  by (rule repair_from_paired [OF assms]) (auto simp: unanswered_tool_use_ids_def)

subsection \<open>The live terminator does what a load would\<close>

lemma tail_split:
  assumes "dropWhile is_tool_result_batch (rev messages) = a # pre"
  shows "messages = rev pre @ a # tail_batches messages" "list_all is_tool_result_batch (tail_batches messages)"
    "\<not> is_tool_result_batch a"
proof -
  have "rev messages = takeWhile is_tool_result_batch (rev messages) @ a # pre"
    using assms by (metis takeWhile_dropWhile_id)
  from arg_cong [OF this, of rev] show "messages = rev pre @ a # tail_batches messages"
    by (simp add: tail_batches_def)
  show "list_all is_tool_result_batch (tail_batches messages)"
    by (auto simp: tail_batches_def list_all_iff dest: set_takeWhileD)
  show "\<not> is_tool_result_batch a" using assms by (metis dropWhile_eq_Cons_conv)
qed

text \<open>C20: The terminator appended to a live transcript is the repair a load would make, but for the origin its text
  names. When calls stand in assistant messages with an id of their own each, and the calls at the tail are the only
  open ones, the terminator of any origin (the engine gives \<open>closed at turn start\<close> and \<open>closed at turn
  end\<close>) closes the ids that the repair of a saved copy closes, at the same place, with the same message up to the
  origin; and a transcript with the terminator has no open call and is left alone by the repair.\<close>

theorem terminator_agrees_with_repair:
  assumes "calls_by_assistant messages" and "distinct (all_uses messages)"
    and "tail_tool_outcome_unknown_terminator messages origin = Some (m, ids)"
    and "set (unanswered_tool_use_ids messages) = set ids"
  shows "m = tool_outcome_unknown_message ids origin
    \<and> repair_interrupted_tool_calls messages = (messages @ [tool_outcome_unknown_message ids ''session-repair''], ids)
    \<and> unanswered_tool_use_ids (messages @ [m]) = []
    \<and> repair_interrupted_tool_calls (messages @ [m]) = (messages @ [m], [])"
proof -
  obtain a pre where a: "dropWhile is_tool_result_batch (rev messages) = a # pre" "role a = ''assistant''"
    "ids = filter (\<lambda>i. i \<notin> set (all_results (tail_batches messages))) (use_ids a)" "ids \<noteq> []"
    "m = tool_outcome_unknown_message ids origin"
    using assms(3) by (auto simp: tail_tool_outcome_unknown_terminator_def Let_def split: list.splits if_splits)
  let ?tl = "tail_batches messages" and ?rem = "unanswered_tool_use_ids messages"
  note split = tail_split [OF a(1)]
  have uses: "distinct (use_ids a)" "set (all_uses (rev pre)) \<inter> set (use_ids a) = {}" "all_uses ?tl = []"
    using assms(2) batches_no_uses [OF split(2)] by (subst (asm) split(1), auto)+
  have pre: "set (all_uses (rev pre)) \<inter> set ?rem = {}"
    using uses(2) assms(4) a(3) by auto
  have ids: "filter (\<lambda>i. i \<in> set ?rem) (first_seen [] (use_ids a)) = ids"
    using assms(4) a(3) by (auto simp: first_seen_distinct [OF uses(1)] intro: filter_cong)
  have tl: "takeWhile is_tool_result_batch ?tl = ?tl" "dropWhile is_tool_result_batch ?tl = []"
    using split(2) by (auto simp: list_all_iff takeWhile_eq_all_conv dropWhile_eq_Nil_conv)
  have "repair_from ?rem (a # ?tl) = (a # ?tl @ [tool_outcome_unknown_message ids ''session-repair''], ids)"
    using a(4) unfolding repair_from_step [OF disjI1 [OF a(2)] refl refl, of ?rem ?tl, unfolded tl ids]
    by simp
  then have repair: "repair_interrupted_tool_calls messages = (messages @ [tool_outcome_unknown_message ids ''session-repair''], ids)"
    unfolding repair_interrupted_tool_calls_def
    using repair_from_pre [OF pre, of "a # ?tl"] split(1) by (metis append.assoc append_Cons fst_conv snd_conv)
  have "unanswered_tool_use_ids (messages @ [m]) = []"
    using assms(4) by (auto simp: unanswered_tool_use_ids_def a(5) filter_empty_conv)
  then show ?thesis using repair a(5) by (simp add: repair_interrupted_tool_calls_def)
qed

text \<open>A result without its call stays: the repair does not make a transcript balanced.\<close>

lemma repair_keeps_orphan_results:
  "let orphan = tool_outcome_unknown_message [''c1''] ''x''
   in repair_interrupted_tool_calls [orphan] = ([orphan], []) \<and> \<not> tool_call_pairs_balanced [orphan]"
  by (simp add: Let_def repair_interrupted_tool_calls_def unanswered_tool_use_ids_def tool_call_pairs_balanced_def)

subsection \<open>An interrupted turn\<close>

definition interrupted_turn :: "message list" where
  "interrupted_turn =
     [\<lparr>role = ''user'', blocks = [TextBlock ''go'' None]\<rparr>,
      \<lparr>role = ''assistant'', blocks = [ToolUse ''c1'' ''read'' JNull None, ToolUse ''c2'' ''run'' JNull None]\<rparr>,
      \<lparr>role = ''user'', blocks = [ToolResultBlock ''c1'' ''ok'' (Some False) None]\<rparr>]"

lemma interrupted_turn_facts:
  "calls_by_assistant interrupted_turn" "distinct (all_uses interrupted_turn)"
  "answered_in_place (all_results interrupted_turn) interrupted_turn"
  "unanswered_tool_use_ids interrupted_turn = [''c2'']"
  "tail_tool_outcome_unknown_terminator interrupted_turn ''closed at turn end''
     = Some (tool_outcome_unknown_message [''c2''] ''closed at turn end'', [''c2''])"
  by code_simp+

theorem repair_closes_interrupted_calls_witness:
  "unanswered_tool_use_ids interrupted_turn = [''c2'']
   \<and> unanswered_tool_use_ids (fst (repair_interrupted_tool_calls interrupted_turn)) = []
   \<and> snd (repair_interrupted_tool_calls interrupted_turn) = [''c2'']"
  using repair_closes_interrupted_calls [OF interrupted_turn_facts(1) prod.collapse [symmetric]] interrupted_turn_facts(4)
  by simp

theorem repair_gives_well_paired_witness:
  "\<not> well_paired interrupted_turn \<and> well_paired (fst (repair_interrupted_tool_calls interrupted_turn))"
proof -
  have "\<not> well_paired interrupted_turn" by code_simp
  then show ?thesis using repair_gives_well_paired [OF interrupted_turn_facts(1-3)] by blast
qed

theorem terminator_agrees_with_repair_witness:
  "repair_interrupted_tool_calls (interrupted_turn @ [tool_outcome_unknown_message [''c2''] ''closed at turn end''])
     = (interrupted_turn @ [tool_outcome_unknown_message [''c2''] ''closed at turn end''], [])"
  using terminator_agrees_with_repair [OF interrupted_turn_facts(1,2,5)] by (simp add: interrupted_turn_facts(4))

end
