(* ===== verification/TranscriptPaths.thy ===== *)
theory TranscriptPaths
  imports SessionLog
begin

section \<open>session: the paths a transcript names\<close>

text \<open>
  The extraction of repository paths from messages (\<open>session/src/transcript.rs\<close>). The regular-expression engine is
  an argument: the named groups of every match of a pattern in a text. A path is its text, as on Unix; a
  workspace is its components and the answer to whether a path joined to it exists.
\<close>

subsection \<open>Paths as text\<close>

record workspace_view =
  ws_rooted :: bool
  ws_parts :: "str list"
  ws_exists :: "str \<Rightarrow> bool"

text \<open>The first component of the body of a path and what follows it; empty and \<open>.\<close> segments are skipped.\<close>

function next_component :: "str \<Rightarrow> (str \<times> str) option" where
  "next_component s =
     (if s = [] then None
      else
        let seg = takeWhile (\<lambda>c. c \<noteq> CHR ''/'') s; rest = drop (Suc (length seg)) s
        in if seg = [] \<or> seg = ''.'' then next_component rest else Some (seg, rest))"
  by pat_completeness auto
termination by (relation "measure length") auto

fun strip_parts :: "str list \<Rightarrow> str \<Rightarrow> str option" where
  "strip_parts [] s = Some s"
| "strip_parts (part # parts) s =
     (case next_component s of
        Some (seg, rest) \<Rightarrow> if seg = part then strip_parts parts rest else None
      | None \<Rightarrow> None)"

function trim_front :: "str \<Rightarrow> str" where
  "trim_front s =
     (if s = [] then []
      else
        let seg = takeWhile (\<lambda>c. c \<noteq> CHR ''/'') s
        in if seg = [] \<or> seg = ''.'' then trim_front (drop (Suc (length seg)) s) else s)"
  by pat_completeness auto
termination by (relation "measure length") auto

text \<open>The same from the back: the text is read reversed.\<close>

definition trim_back :: "str \<Rightarrow> str" where
  "trim_back s = rev (trim_front (rev s))"

text \<open>\<open>Path::strip_prefix\<close> of an absolute path.\<close>

definition strip_workspace :: "workspace_view \<Rightarrow> str \<Rightarrow> str option" where
  "strip_workspace ws s =
     (if ws_rooted ws then map_option (\<lambda>rest. trim_back (trim_front rest)) (strip_parts (ws_parts ws) (tl s))
      else if ws_parts ws = [] then Some (CHR ''/'' # trim_back (tl s)) else None)"

function skip_dot_slash :: "str \<Rightarrow> str" where
  "skip_dot_slash s = (if starts_with s ''./'' then skip_dot_slash (drop 2 s) else s)"
  by pat_completeness auto
termination by (relation "measure length") (auto simp: prefix_def)

subsection \<open>Candidates\<close>

definition ROOT_FILES :: "str list" where
  "ROOT_FILES =
     [''Cargo.toml'', ''Cargo.lock'', ''README.md'', ''CHANGELOG.md'', ''AGENTS.md'', ''config.example.toml'']"

definition REPO_DIRS :: "str list" where
  "REPO_DIRS = [''src/'', ''tests/'', ''docs/'', ''examples/'', ''benches/'', ''crates/'', ''.github/'']"

text \<open>The last piece of a text split at dots always exists, so a slash is enough.\<close>

definition looks_repo_relative :: "str \<Rightarrow> bool" where
  "looks_repo_relative p \<longleftrightarrow>
     p \<in> set ROOT_FILES \<or> list_ex (starts_with p) REPO_DIRS \<or> CHR ''/'' \<in> set p \<and> split_char (CHR ''.'') p \<noteq> []"

definition normalize_path_candidate :: "str \<Rightarrow> workspace_view option \<Rightarrow> str option" where
  "normalize_path_candidate candidate workspace =
     (if candidate = [] then None
      else
        let cleaned = replace_char (CHR 0x5C) ''/'' candidate
        in case (if starts_with cleaned ''/'' then Option.bind workspace (\<lambda>ws. strip_workspace ws cleaned) else Some cleaned) of
             None \<Rightarrow> None
           | Some path_text \<Rightarrow>
               let rel = skip_dot_slash path_text
               in if rel = [] \<or> contains_str rel ''..'' then None
                  else (case workspace of
                          Some ws \<Rightarrow> if ws_exists ws rel \<or> looks_repo_relative rel then Some rel else None
                        | None \<Rightarrow> if looks_repo_relative rel then Some rel else None))"

subsection \<open>Extraction\<close>

text \<open>The pattern, in extended syntax: its lines, joined by newlines.\<close>

definition PATH_PATTERN :: "str list" where
  "PATH_PATTERN =
     [''(?x)'', ''(?:'', ''(?P<root>'', ''Cargo'' @ [CHR 0x5C] @ ''.toml|'', ''Cargo'' @ [CHR 0x5C] @ ''.lock|'',
      ''README'' @ [CHR 0x5C] @ ''.md|'', ''CHANGELOG'' @ [CHR 0x5C] @ ''.md|'', ''AGENTS'' @ [CHR 0x5C] @ ''.md|'',
      ''config'' @ [CHR 0x5C] @ ''.example'' @ [CHR 0x5C] @ ''.toml'', '')'', '')'', ''|'',
      ''(?P<path>'', ''(?:[A-Za-z0-9._-]+/)+'', ''[A-Za-z0-9._-]+'',
      [CHR 0x5C] @ ''.(?:rs|toml|md|json|ya?ml|txt|lock)'', '')'']"

text \<open>A match is its named groups.\<close>

type_synonym captures = "str list \<Rightarrow> str \<Rightarrow> (str \<Rightarrow> str option) list"

definition extract_paths_from_text :: "captures \<Rightarrow> str \<Rightarrow> workspace_view option \<Rightarrow> str list" where
  "extract_paths_from_text captures_iter t workspace =
     List.map_filter (\<lambda>caps.
       case (case caps ''path'' of Some m \<Rightarrow> Some m | None \<Rightarrow> caps ''root'') of
         Some candidate \<Rightarrow> normalize_path_candidate candidate workspace
       | None \<Rightarrow> None) (captures_iter PATH_PATTERN t)"

definition member_path :: "json \<Rightarrow> workspace_view option \<Rightarrow> str \<Rightarrow> str list" where
  "member_path obj workspace key =
     (case Option.bind (Option.bind (json_get key obj) as_str) (\<lambda>v. normalize_path_candidate v workspace) of
        Some p \<Rightarrow> [p]
      | None \<Rightarrow> [])"

definition member_paths :: "json \<Rightarrow> workspace_view option \<Rightarrow> str \<Rightarrow> str list" where
  "member_paths obj workspace key =
     (case Option.bind (json_get key obj) as_array of
        Some vals \<Rightarrow> List.map_filter (\<lambda>v. Option.bind (as_str v) (\<lambda>s. normalize_path_candidate s workspace)) vals
      | None \<Rightarrow> [])"

definition extract_paths_from_tool_input :: "json \<Rightarrow> workspace_view option \<Rightarrow> str list" where
  "extract_paths_from_tool_input input workspace =
     concat (map (member_path input workspace) [''path'', ''file'', ''target'', ''cwd''])
     @ concat (map (member_paths input workspace) [''paths'', ''files'', ''targets''])"

fun block_paths :: "captures \<Rightarrow> workspace_view option \<Rightarrow> content_block \<Rightarrow> str list" where
  "block_paths captures_iter workspace (TextBlock t _) = extract_paths_from_text captures_iter t workspace"
| "block_paths captures_iter workspace (ToolResultBlock _ t _ _) = extract_paths_from_text captures_iter t workspace"
| "block_paths captures_iter workspace (ToolUse _ _ input _) = extract_paths_from_tool_input input workspace"
| "block_paths captures_iter workspace _ = []"

definition extract_paths_from_message :: "captures \<Rightarrow> message \<Rightarrow> workspace_view option \<Rightarrow> str list" where
  "extract_paths_from_message captures_iter m workspace = concat (map (block_paths captures_iter workspace) (blocks m))"

subsection \<open>What a candidate becomes\<close>

declare next_component.simps [simp del] trim_front.simps [simp del] skip_dot_slash.simps [simp del]

lemma trim_front_start: "\<not> starts_with (trim_front s) ''/'' \<and> \<not> starts_with (trim_front s) ''./''"
proof (induction s rule: trim_front.induct)
  case (1 s)
  show ?case
  proof (cases "s = [] \<or> takeWhile (\<lambda>c. c \<noteq> CHR ''/'') s = [] \<or> takeWhile (\<lambda>c. c \<noteq> CHR ''/'') s = ''.''")
    case True
    then show ?thesis using 1 by (subst (1 2) trim_front.simps) (auto simp: Let_def)
  next
    case False
    then show ?thesis by (subst (1 2) trim_front.simps) (auto simp: Let_def prefix_def)
  qed
qed

lemma trim_front_suffix: "suffix (trim_front s) s"
proof (induction s rule: trim_front.induct)
  case (1 s)
  show ?case
    using 1 suffix_drop suffix_order.trans by (subst trim_front.simps) (fastforce simp: Let_def)
qed

lemma trim_back_prefix: "prefix (trim_back s) s"
  using trim_front_suffix [of "rev s"] by (simp add: trim_back_def suffix_to_prefix)

lemma skip_dot_slash_suffix: "suffix (skip_dot_slash s) s"
proof (induction s rule: skip_dot_slash.induct)
  case (1 s)
  show ?case using 1 suffix_drop suffix_order.trans by (subst skip_dot_slash.simps) fastforce
qed

lemma skip_dot_slash_start: "\<not> starts_with (skip_dot_slash s) ''./''"
proof (induction s rule: skip_dot_slash.induct)
  case (1 s)
  show ?case using 1 by (subst skip_dot_slash.simps) auto
qed

lemma next_component_suffix: "next_component s = Some (seg, rest) \<Longrightarrow> suffix rest s"
proof (induction s rule: next_component.induct)
  case (1 s)
  let ?rest = "drop (Suc (length (takeWhile (\<lambda>c. c \<noteq> CHR ''/'') s))) s"
  have "suffix rest ?rest"
    using 1 by (subst (asm) (2) next_component.simps) (auto simp: Let_def split: if_splits)
  then show ?case using suffix_drop suffix_order.trans by blast
qed

lemma strip_parts_suffix: "strip_parts parts s = Some rest \<Longrightarrow> suffix rest s"
proof (induction parts arbitrary: s)
  case (Cons part parts)
  then show ?case
    using next_component_suffix suffix_order.trans by (fastforce split: option.splits if_splits)
qed simp

lemma strip_workspace_text:
  assumes "strip_workspace ws s = Some rest" and "ws_rooted ws"
  shows "set rest \<subseteq> set s" and "\<not> starts_with rest ''/''" and "\<not> starts_with rest ''./''"
proof -
  obtain r where r: "strip_parts (ws_parts ws) (tl s) = Some r" "rest = trim_back (trim_front r)"
    using assms by (auto simp: strip_workspace_def)
  have "prefix rest (trim_front r)" using r trim_back_prefix by simp
  then show "\<not> starts_with rest ''/''" "\<not> starts_with rest ''./''"
    using trim_front_start [of r] prefix_order.trans by blast+
  have "set rest \<subseteq> set r"
    using \<open>prefix rest (trim_front r)\<close> trim_front_suffix [of r] set_mono_prefix set_mono_suffix by blast
  also have "\<dots> \<subseteq> set (tl s)" using strip_parts_suffix [OF r(1)] set_mono_suffix by blast
  also have "\<dots> \<subseteq> set s" by (cases s) auto
  finally show "set rest \<subseteq> set s" .
qed

lemma skip_dot_slash_same: "\<not> starts_with s ''./'' \<Longrightarrow> skip_dot_slash s = s"
  by (subst skip_dot_slash.simps) simp

text \<open>What a candidate becomes is a path of the repository: it is not empty, has no backslash and no two dots
  in a row, and does not start with \<open>./\<close>. Below a rooted workspace, or without one, it is relative but for
  one spelling: a relative candidate whose leading \<open>./\<close> hides a further slash keeps that slash.\<close>

theorem normalized_path_is_relative:
  assumes "normalize_path_candidate candidate workspace = Some p"
    and "\<And>ws. workspace = Some ws \<Longrightarrow> ws_rooted ws"
  shows "p \<noteq> [] \<and> CHR 0x5C \<notin> set p \<and> \<not> contains_str p ''..'' \<and> \<not> starts_with p ''./''
    \<and> (starts_with p ''/'' \<longleftrightarrow>
        (let cleaned = replace_char (CHR 0x5C) ''/'' candidate
         in \<not> starts_with cleaned ''/'' \<and> starts_with (skip_dot_slash cleaned) ''/''))"
proof -
  let ?c = "replace_char (CHR 0x5C) ''/'' candidate"
  have clean: "CHR 0x5C \<notin> set ?c" by (auto simp: replace_char_def)
  obtain t where t: "(if starts_with ?c ''/'' then Option.bind workspace (\<lambda>ws. strip_workspace ws ?c) else Some ?c) = Some t"
    and p: "p = skip_dot_slash t" "p \<noteq> []" "\<not> contains_str p ''..''"
    using assms(1) by (auto simp: normalize_path_candidate_def Let_def split: if_splits option.splits)
  have start: "set t \<subseteq> set ?c \<and> (starts_with ?c ''/'' \<longrightarrow> \<not> starts_with t ''/'' \<and> \<not> starts_with t ''./'')"
  proof (cases "starts_with ?c ''/''")
    case True
    then obtain ws where "workspace = Some ws" "strip_workspace ws ?c = Some t"
      using t by (auto simp: bind_eq_Some_conv)
    then show ?thesis using strip_workspace_text assms(2) by blast
  next
    case False
    then show ?thesis using t by simp
  qed
  have "CHR 0x5C \<notin> set p"
    using start clean skip_dot_slash_suffix [of t] set_mono_suffix p(1) by blast
  moreover have "starts_with p ''/'' \<longleftrightarrow> \<not> starts_with ?c ''/'' \<and> starts_with (skip_dot_slash ?c) ''/''"
  proof (cases "starts_with ?c ''/''")
    case True
    then show ?thesis using start skip_dot_slash_same [of t] p(1) by simp
  next
    case False
    then show ?thesis using t p(1) by simp
  qed
  ultimately show ?thesis using p skip_dot_slash_start [of t] by (simp add: Let_def)
qed

text \<open>The spelling that escapes, and one candidate of each ordinary kind.\<close>

lemma hidden_slash_stays: "normalize_path_candidate ''.//etc/passwd'' None = Some ''/etc/passwd''"
  by code_simp

lemma normalized_path_is_relative_witness:
  "let ws = \<lparr>ws_rooted = True, ws_parts = [''home'', ''w''], ws_exists = (\<lambda>_. False)\<rparr>
   in normalize_path_candidate ''/home/w/./src/a.rs'' (Some ws) = Some ''src/a.rs'' \<and> \<not> starts_with ''src/a.rs'' ''/''"
proof -
  let ?ws = "\<lparr>ws_rooted = True, ws_parts = [''home'', ''w''], ws_exists = (\<lambda>_. False)\<rparr>"
  have at: "normalize_path_candidate ''/home/w/./src/a.rs'' (Some ?ws) = Some ''src/a.rs''" by code_simp
  have "starts_with (replace_char (CHR 0x5C) ''/'' ''/home/w/./src/a.rs'') ''/''" by code_simp
  with normalized_path_is_relative [OF at] at show ?thesis by (simp add: Let_def)
qed

end
