(* ===== verification/Utf8.thy ===== *)
theory Utf8
  imports Prelude
begin

section \<open>The characters of UTF-8 text\<close>

text \<open>
  What \<open>str::chars\<close> yields of UTF-8 bytes, each character as its bytes: the characters of ASCII text, of text
  cut at a character, and the bytes of the characters.
\<close>

text \<open>The characters of UTF-8 text, each with its bytes.\<close>

definition continuation_byte :: "char \<Rightarrow> bool" where
  "continuation_byte d \<longleftrightarrow> 0x80 \<le> (of_char d :: nat) \<and> (of_char d :: nat) \<le> 0xBF"

function utf8_chars :: "str \<Rightarrow> str list" where
  "utf8_chars [] = []"
| "utf8_chars (c # s) = (c # takeWhile continuation_byte s) # utf8_chars (dropWhile continuation_byte s)"
  by pat_completeness auto
termination
  by (relation "measure length") (auto simp: le_imp_less_Suc length_dropWhile_le)

subsection \<open>Characters of cut text\<close>

lemma utf8_chars_ascii: "list_all (\<lambda>c. (of_char c :: nat) < 0x80) s \<Longrightarrow> utf8_chars s = map (\<lambda>c. [c]) s"
proof (induction s)
  case (Cons c s)
  have "takeWhile continuation_byte s = []" "dropWhile continuation_byte s = s"
    using Cons.prems by (cases s; simp add: continuation_byte_def)+
  then show ?case using Cons by simp
qed simp

text \<open>Whole characters followed by plain ASCII read back as those characters and the ASCII ones.\<close>

lemma utf8_chars_take:
  assumes "list_all (\<lambda>c. (of_char c :: nat) < 0x80) e"
  shows "utf8_chars (concat (take n (utf8_chars s)) @ e) = take n (utf8_chars s) @ map (\<lambda>c. [c]) e"
proof (induction s arbitrary: n rule: utf8_chars.induct)
  case 1
  then show ?case using utf8_chars_ascii [OF assms] by simp
next
  case (2 c s)
  let ?rest = "dropWhile continuation_byte s"
  show ?case
  proof (cases n)
    case 0
    then show ?thesis using utf8_chars_ascii [OF assms] by simp
  next
    case (Suc k)
    let ?t = "concat (take k (utf8_chars ?rest)) @ e"
    have stop: "takeWhile continuation_byte ?t = [] \<and> dropWhile continuation_byte ?t = ?t"
    proof (cases "take k (utf8_chars ?rest)")
      case Nil
      show ?thesis unfolding Nil using assms by (cases e) (simp_all add: continuation_byte_def)
    next
      case (Cons x xs)
      then obtain d r where r: "?rest = d # r" by (cases ?rest) simp_all
      then have "\<not> continuation_byte d" using dropWhile_eq_Cons_conv [of continuation_byte s d r] by simp
      moreover have "concat (x # xs) @ e = d # takeWhile continuation_byte r @ concat xs @ e" using Cons r by (cases k) simp_all
      ultimately show ?thesis unfolding Cons by simp
    qed
    have all: "\<And>d. d \<in> set (takeWhile continuation_byte s) \<Longrightarrow> continuation_byte d"
      by (rule set_takeWhileD [THEN conjunct2])
    have split1: "takeWhile continuation_byte (takeWhile continuation_byte s @ ?t) = takeWhile continuation_byte s"
      using takeWhile_append2 [of "takeWhile continuation_byte s" continuation_byte ?t] all stop by (metis append_Nil2)
    have split2: "dropWhile continuation_byte (takeWhile continuation_byte s @ ?t) = ?t"
      using dropWhile_append2 [of "takeWhile continuation_byte s" continuation_byte ?t] all stop by metis
    have "utf8_chars (c # takeWhile continuation_byte s @ ?t) = (c # takeWhile continuation_byte s) # utf8_chars ?t"
      unfolding utf8_chars.simps split1 split2 ..
    then show ?thesis using 2 [of k] Suc by simp
  qed
qed

lemma concat_utf8_chars: "concat (utf8_chars s) = s"
  by (induction s rule: utf8_chars.induct) simp_all

lemma utf8_chars_Nil_iff [simp]: "utf8_chars s = [] \<longleftrightarrow> s = []"
  by (cases s) simp_all

end
