(* ===== verification/Characters.thy ===== *)
theory Characters
  imports SessionLog Utf8
begin

section \<open>session: text as characters\<close>

text \<open>
  The token estimate of a text, by its characters (\<open>session/src/primitives.rs\<close>), and the string
  operations the session crate shares: the first \<open>n\<close> characters and the first occurrence of a pattern.
\<close>

fun code_point :: "str \<Rightarrow> nat" where
  "code_point [a] = of_char a"
| "code_point [a, b] = (of_char a mod 32) * 64 + of_char b mod 64"
| "code_point [a, b, c] = (of_char a mod 16) * 4096 + (of_char b mod 64) * 64 + of_char c mod 64"
| "code_point [a, b, c, d] =
     (of_char a mod 8) * 262144 + (of_char b mod 64) * 4096 + (of_char c mod 64) * 64 + of_char d mod 64"
| "code_point _ = 0"

definition is_cjk :: "nat \<Rightarrow> bool" where
  "is_cjk ch \<longleftrightarrow>
     0x3000 \<le> ch \<and> ch \<le> 0x303F \<or> 0x3040 \<le> ch \<and> ch \<le> 0x309F \<or> 0x30A0 \<le> ch \<and> ch \<le> 0x30FF
     \<or> 0x3400 \<le> ch \<and> ch \<le> 0x4DBF \<or> 0x4E00 \<le> ch \<and> ch \<le> 0x9FFF \<or> 0xAC00 \<le> ch \<and> ch \<le> 0xD7AF
     \<or> 0xF900 \<le> ch \<and> ch \<le> 0xFAFF \<or> 0xFF00 \<le> ch \<and> ch \<le> 0xFFEF"

definition estimate_text_tokens_conservative :: "str \<Rightarrow> nat" where
  "estimate_text_tokens_conservative text =
     (let (cjk, others) = partition (\<lambda>ch. is_cjk (code_point ch)) (utf8_chars text)
      in length cjk + (length others + 3) div 4)"

definition truncate_chars :: "str \<Rightarrow> nat \<Rightarrow> str" where
  "truncate_chars text max_chars = concat (take max_chars (utf8_chars text))"

fun find_str :: "str \<Rightarrow> str \<Rightarrow> nat option" where
  "find_str p [] = (if p = [] then Some 0 else None)"
| "find_str p (c # s) = (if starts_with (c # s) p then Some 0 else map_option Suc (find_str p s))"

lemma find_str_bound: "find_str p s = Some n \<Longrightarrow> n + length p \<le> length s"
proof (induction s arbitrary: n)
  case (Cons c s)
  then show ?case by (auto split: if_splits dest: prefix_length_le)
qed (auto split: if_splits)

end
