(* ===== verification/Artifacts.thy ===== *)
theory Artifacts
  imports Characters
begin

section \<open>session: artifacts\<close>

text \<open>
  The files large tool outputs are kept in (\<open>session/src/artifacts.rs\<close>): their ids, the relative and absolute
  path of an artifact, the write, the record and the reference a transcript shows. A path is its text, as
  on Unix; the directory the sessions live under is an argument (\<open>None\<close> when there is no home), and so is
  the debug text of a string. A write that fails is not modelled.
\<close>

subsection \<open>Ids\<close>

definition session_id_char :: "char \<Rightarrow> bool" where
  "session_id_char c \<longleftrightarrow> is_ascii_alphanumeric c \<or> c = CHR ''-'' \<or> c = CHR ''_''"

definition sanitize_id_component :: "str \<Rightarrow> str" where
  "sanitize_id_component input =
     map (\<lambda>ch. if length ch = 1 \<and> session_id_char (hd ch) then hd ch else CHR ''_'') (utf8_chars input)"

definition fnv1a_32 :: "str \<Rightarrow> 32 word" where
  "fnv1a_32 bytes = foldl (\<lambda>hash byte. xor hash (word_of_nat (of_char byte)) * 0x01000193) 0x811c9dc5 bytes"

definition hex_digit :: "nat \<Rightarrow> char" where
  "hex_digit n = (if n < 10 then char_of (48 + n) else char_of (87 + n))"

text \<open>The format \<open>{:08x}\<close>.\<close>

definition hex8 :: "32 word \<Rightarrow> str" where
  "hex8 w = map (\<lambda>i. hex_digit (unat w div 16 ^ (7 - i) mod 16)) [0..<8]"

definition is_valid_session_id :: "str \<Rightarrow> bool" where
  "is_valid_session_id session_id \<longleftrightarrow> session_id \<noteq> [] \<and> list_all session_id_char session_id"

definition artifact_id_for_tool_call :: "str \<Rightarrow> str" where
  "artifact_id_for_tool_call tool_call_id =
     (let sanitized = sanitize_id_component tool_call_id
      in if sanitized = tool_call_id then ''art_'' @ sanitized
         else ''art_'' @ sanitized @ ''_'' @ hex8 (fnv1a_32 tool_call_id))"

subsection \<open>Paths\<close>

text \<open>\<open>Path::join\<close>: an absolute path replaces the base.\<close>

definition path_join :: "str \<Rightarrow> str \<Rightarrow> str" where
  "path_join base p =
     (if starts_with p ''/'' then p
      else if base = [] \<or> last base = CHR ''/'' then base @ p else base @ ''/'' @ p)"

definition session_artifact_relative_path :: "str \<Rightarrow> str" where
  "session_artifact_relative_path i = path_join ''artifacts'' (i @ ''.txt'')"

definition is_windows_absolute_form :: "str \<Rightarrow> bool" where
  "is_windows_absolute_form p \<longleftrightarrow>
     starts_with p [CHR 0x5C] \<or> starts_with p ''/''
     \<or> 2 \<le> length p \<and> is_ascii_alphabetic (p ! 0) \<and> p ! 1 = CHR '':''"

definition session_artifact_absolute_path :: "str option \<Rightarrow> str \<Rightarrow> str \<Rightarrow> str option" where
  "session_artifact_absolute_path root session_id relative_path =
     (if \<not> is_valid_session_id session_id then None
      else if starts_with relative_path ''/'' \<or> is_windows_absolute_form relative_path
         \<or> list_ex (\<lambda>component. component = ''..'') (split_char (CHR ''/'') relative_path)
      then None
      else map_option (\<lambda>r. path_join (path_join r session_id) relative_path) root)"

datatype artifact_error = InvalidSessionId str | NoHomeDirectory

definition write_session_artifact ::
  "str option \<Rightarrow> (str \<Rightarrow> str) \<Rightarrow> str \<Rightarrow> str \<Rightarrow> str \<Rightarrow> (str \<Rightarrow> str option) \<Rightarrow> artifact_error + (str \<times> str) \<times> (str \<Rightarrow> str option)" where
  "write_session_artifact root debug session_id i body fs =
     (if \<not> is_valid_session_id session_id then Inl (InvalidSessionId (''invalid session id: '' @ debug session_id))
      else
        let relative_path = session_artifact_relative_path i
        in case session_artifact_absolute_path root session_id relative_path of
             None \<Rightarrow> Inl NoHomeDirectory
           | Some absolute_path \<Rightarrow> Inr ((absolute_path, relative_path), fs(absolute_path \<mapsto> body)))"

subsection \<open>Records\<close>

datatype artifact_kind = ToolOutput

record artifact_record =
  artifact_id :: str
  artifact_kind :: artifact_kind
  artifact_session :: str
  artifact_call :: str
  artifact_tool :: str
  artifact_created :: int
  artifact_bytes :: "64 word"
  artifact_preview :: str
  artifact_path :: str

definition preview_text :: "str \<Rightarrow> nat \<Rightarrow> str" where
  "preview_text t max_chars =
     concat (take max_chars (utf8_chars t)) @ (if max_chars < length (utf8_chars t) then ''...'' else [])"

definition record_tool_output_artifact_with_size ::
  "int \<Rightarrow> str \<Rightarrow> str \<Rightarrow> str \<Rightarrow> str \<Rightarrow> 64 word \<Rightarrow> str \<Rightarrow> artifact_record" where
  "record_tool_output_artifact_with_size now session_id tool_call_id tool storage_path byte_size preview =
     \<lparr>artifact_id = artifact_id_for_tool_call tool_call_id, artifact_kind = ToolOutput, artifact_session = session_id,
      artifact_call = tool_call_id, artifact_tool = tool, artifact_created = now, artifact_bytes = byte_size,
      artifact_preview = preview_text preview 200, artifact_path = storage_path\<rparr>"

definition record_tool_output_artifact ::
  "int \<Rightarrow> (str \<Rightarrow> str option) \<Rightarrow> str \<Rightarrow> str \<Rightarrow> str \<Rightarrow> str \<Rightarrow> str \<Rightarrow> artifact_record" where
  "record_tool_output_artifact now fs session_id tool_call_id tool storage_path body =
     (let byte_size = (case fs storage_path of Some bytes \<Rightarrow> word_of_nat (length bytes) | None \<Rightarrow> word_of_nat (length body))
      in record_tool_output_artifact_with_size now session_id tool_call_id tool storage_path byte_size
           (preview_text body 200))"

record transcript_artifact_ref =
  shown_id :: str
  shown_tool :: str
  shown_call :: str
  shown_bytes :: "64 word"
  shown_path :: str
  shown_preview :: str

definition ref_of_record :: "artifact_record \<Rightarrow> transcript_artifact_ref" where
  "ref_of_record r =
     \<lparr>shown_id = artifact_id r, shown_tool = artifact_tool r, shown_call = artifact_call r, shown_bytes = artifact_bytes r,
      shown_path = artifact_path r, shown_preview = artifact_preview r\<rparr>"

definition div_ceil :: "64 word \<Rightarrow> 64 word \<Rightarrow> 64 word" where
  "div_ceil a b = (let q = a div b in if 0 < a mod b then q + 1 else q)"

definition format_byte_size :: "64 word \<Rightarrow> str" where
  "format_byte_size bytes =
     (if 1024 * 1024 \<le> bytes then show_nat (unat (div_ceil bytes (1024 * 1024))) @ '' MB''
      else if 1024 \<le> bytes then show_nat (unat (div_ceil bytes 1024)) @ '' KB''
      else show_nat (unat bytes) @ '' B'')"

definition format_artifact_relative_path :: "str \<Rightarrow> str" where
  "format_artifact_relative_path p = replace_char (CHR 0x5C) ''/'' p"

definition render_transcript_artifact_ref :: "transcript_artifact_ref \<Rightarrow> str" where
  "render_transcript_artifact_ref r =
     join [CHR 0x0A]
       [''[artifact: '' @ shown_tool r @ '']'',
        ''id:           '' @ shown_id r,
        ''tool:         '' @ shown_tool r,
        ''tool_call_id: '' @ shown_call r,
        ''size:         '' @ format_byte_size (shown_bytes r),
        ''path:         '' @ format_artifact_relative_path (shown_path r),
        ''preview:      '' @ replace_char (CHR 0x0A) '' '' (shown_preview r),
        ''retrieve:     retrieve_tool_result ref='' @ shown_id r]"

subsection \<open>Ids are safe file names\<close>

lemma hex8_chars: "list_all session_id_char (hex8 w)"
proof -
  have "\<forall>n<16. session_id_char (hex_digit n)" by code_simp
  then show ?thesis by (simp add: hex8_def list_all_iff)
qed

lemma sanitize_chars: "list_all session_id_char (sanitize_id_component t)"
  by (auto simp: sanitize_id_component_def list_all_iff session_id_char_def)

lemma sanitize_clean: "list_all session_id_char t \<Longrightarrow> sanitize_id_component t = t"
proof -
  assume t: "list_all session_id_char t"
  have "list_all (\<lambda>c. (of_char c :: nat) < 0x80) (upper_letters @ lower_letters @ digit_chars @ ''-_'')" by code_simp
  then have "session_id_char c \<Longrightarrow> (of_char c :: nat) < 0x80" for c
    by (auto simp: list_all_iff session_id_char_def is_ascii_alphanumeric_def is_ascii_alphabetic_def is_ascii_digit_def)
  then have "utf8_chars t = map (\<lambda>c. [c]) t" using t by (intro utf8_chars_ascii) (auto simp: list_all_iff)
  then show ?thesis using t by (auto simp: sanitize_id_component_def list_all_iff intro: map_idI)
qed

lemma artifact_id_chars: "list_all session_id_char (artifact_id_for_tool_call call)"
proof -
  have "list_all session_id_char ''art_''" "session_id_char (CHR ''_'')" by code_simp+
  then show ?thesis
    using hex8_chars sanitize_chars [of call]
    by (cases "sanitize_id_component call = call") (simp_all add: artifact_id_for_tool_call_def Let_def)
qed

lemma not_id_chars: "\<not> session_id_char (CHR ''/'')" "\<not> session_id_char (CHR ''.'')" "\<not> session_id_char (CHR 0x5C)"
  "\<not> session_id_char (CHR '':'')"
  by code_simp+

lemma id_has_no_slash: "list_all session_id_char i \<Longrightarrow> CHR ''/'' \<notin> set i"
  using not_id_chars(1) by (auto simp: list_all_iff)

lemma relative_path_text:
  assumes "list_all session_id_char i"
  shows "session_artifact_relative_path i = ''artifacts/'' @ i @ ''.txt''"
  using id_has_no_slash [OF assms]
  by (cases i) (auto simp: session_artifact_relative_path_def path_join_def)

lemma split_on_none: "CHR ''/'' \<notin> set s \<Longrightarrow> split_char (CHR ''/'') s = [s]"
  by (induction s) auto

lemma relative_path_accepted:
  assumes "list_all session_id_char i" and "is_valid_session_id session_id"
  shows "session_artifact_absolute_path (Some root) session_id (''artifacts/'' @ i @ ''.txt'')
    = Some (path_join (path_join root session_id) (''artifacts/'' @ i @ ''.txt''))"
proof -
  have "split_char (CHR ''/'') (i @ ''.txt'') = [i @ ''.txt'']"
    using id_has_no_slash [OF assms(1)] split_on_none [of "i @ ''.txt''"] by (simp add: list_all_iff)
  then have "split_char (CHR ''/'') (''artifacts/'' @ i @ ''.txt'') = [''artifacts'', i @ ''.txt'']" by simp
  moreover have "i @ ''.txt'' \<noteq> ''..''" by (cases i) auto
  ultimately show ?thesis
    using assms(2) by (simp add: session_artifact_absolute_path_def is_windows_absolute_form_def)
qed

text \<open>An artifact of any tool call is written inside its session's directory: whatever the provider chose as the
  call's id, the write succeeds under a valid session id and a known root, the file is
  \<open>artifacts/\<close>, the artifact id and \<open>.txt\<close> below the session's directory, the artifact id has only letters,
  digits, hyphens and underscores, and no other file changes.\<close>

theorem artifact_written_inside_session:
  assumes "is_valid_session_id session_id" and "root \<noteq> []" and "last root \<noteq> CHR ''/''"
  shows "\<exists>i. list_all session_id_char i \<and> i = artifact_id_for_tool_call call
    \<and> write_session_artifact (Some root) debug session_id i body fs
        = Inr ((root @ ''/'' @ session_id @ ''/artifacts/'' @ i @ ''.txt'', ''artifacts/'' @ i @ ''.txt''),
               fs(root @ ''/'' @ session_id @ ''/artifacts/'' @ i @ ''.txt'' \<mapsto> body))"
proof -
  let ?i = "artifact_id_for_tool_call call"
  have sid: "CHR ''/'' \<notin> set session_id" "session_id \<noteq> []"
    using assms(1) id_has_no_slash by (auto simp: is_valid_session_id_def)
  then have "path_join root session_id = root @ ''/'' @ session_id"
    using assms(2,3) by (cases session_id) (auto simp: path_join_def)
  moreover have "last session_id \<noteq> CHR ''/''" using sid last_in_set by metis
  ultimately have "path_join (path_join root session_id) (''artifacts/'' @ ?i @ ''.txt'')
      = root @ ''/'' @ session_id @ ''/artifacts/'' @ ?i @ ''.txt''"
    using sid by (simp add: path_join_def)
  then show ?thesis
    using assms(1) artifact_id_chars relative_path_accepted [OF artifact_id_chars assms(1)]
    by (simp add: write_session_artifact_def relative_path_text Let_def)
qed

subsection \<open>When two calls share an id\<close>

lemma hex_digit_inj: "m < 16 \<Longrightarrow> n < 16 \<Longrightarrow> hex_digit m = hex_digit n \<Longrightarrow> m = n"
proof -
  have "of_char (hex_digit k) = (if k < 10 then 48 + k else 87 + k)" if "k < 16" for k :: nat
    using that by (simp add: hex_digit_def)
  moreover assume "m < 16" "n < 16" "hex_digit m = hex_digit n"
  ultimately have "(if m < 10 then 48 + m else 87 + m) = (if n < 10 then 48 + n else 87 + n)" by metis
  then show "m = n" by (simp split: if_splits)
qed

lemma same_hex_digits: "(\<And>i. i < k \<Longrightarrow> m div 16 ^ i mod 16 = n div 16 ^ i mod 16) \<Longrightarrow> m mod 16 ^ k = n mod (16 ^ k :: nat)"
proof (induction k)
  case (Suc k)
  have "x mod 16 ^ Suc k = 16 ^ k * (x div 16 ^ k mod 16) + x mod 16 ^ k" for x :: nat
    by (simp only: power_Suc2 mod_mult2_eq)
  then show ?case using Suc by simp
qed simp

lemma hex8_inj: "hex8 v = hex8 w \<Longrightarrow> v = w"
proof -
  assume same: "hex8 v = hex8 w"
  have "unat v div 16 ^ i mod 16 = unat w div 16 ^ i mod 16" if "i < 8" for i
  proof -
    have "7 - i \<in> set [0..<8]" by (simp only: set_upt atLeastLessThan_iff) simp
    from same [unfolded hex8_def map_eq_conv] this
    have "hex_digit (unat v div 16 ^ (7 - (7 - i)) mod 16) = hex_digit (unat w div 16 ^ (7 - (7 - i)) mod 16)"
      by (rule bspec)
    then have "hex_digit (unat v div 16 ^ i mod 16) = hex_digit (unat w div 16 ^ i mod 16)" using that by simp
    then show ?thesis by (intro hex_digit_inj) auto
  qed
  then have "unat v mod 16 ^ 8 = unat w mod 16 ^ 8" by (rule same_hex_digits)
  moreover have "unat x < 16 ^ 8" for x :: "32 word" using unsigned_less [where 'a = nat, of x] by simp
  ultimately have "unat v = unat w" by (simp only: mod_less)
  then show "v = w" by (rule unsigned_word_eqI)
qed

text \<open>Two calls share an artifact id only if their ids read the same once cleaned and have the same checksum, or
  one of them is, letter for letter, the cleaned id of the other followed by its checksum.\<close>

theorem artifact_ids_shared_only:
  assumes "artifact_id_for_tool_call a = artifact_id_for_tool_call b" and "a \<noteq> b"
  shows "(sanitize_id_component a = sanitize_id_component b \<and> fnv1a_32 a = fnv1a_32 b)
    \<or> a = sanitize_id_component b @ ''_'' @ hex8 (fnv1a_32 b)
    \<or> b = sanitize_id_component a @ ''_'' @ hex8 (fnv1a_32 a)"
proof -
  have len: "length (hex8 w) = 8" for w by (simp add: hex8_def)
  consider "sanitize_id_component a = a" "sanitize_id_component b = b"
    | "sanitize_id_component a = a" "sanitize_id_component b \<noteq> b"
    | "sanitize_id_component a \<noteq> a" "sanitize_id_component b = b"
    | "sanitize_id_component a \<noteq> a" "sanitize_id_component b \<noteq> b" by blast
  then show ?thesis
  proof cases
    case 4
    then have "(sanitize_id_component a @ ''_'') @ hex8 (fnv1a_32 a) = (sanitize_id_component b @ ''_'') @ hex8 (fnv1a_32 b)"
      using assms(1) by (simp add: artifact_id_for_tool_call_def Let_def)
    then show ?thesis using len hex8_inj by (simp add: append_eq_append_conv)
  qed (use assms in \<open>simp_all add: artifact_id_for_tool_call_def Let_def\<close>)
qed

text \<open>A call whose id is another's with the checksum appended does share its file.\<close>

lemma artifact_ids_can_collide:
  "artifact_id_for_tool_call ''call/a'' = artifact_id_for_tool_call (''call_a_'' @ hex8 (fnv1a_32 ''call/a''))"
proof -
  let ?call = "''call_a_'' @ hex8 (fnv1a_32 ''call/a'')"
  have "sanitize_id_component ''call/a'' = ''call_a''" "list_all session_id_char ''call_a_''" by code_simp+
  then show ?thesis
    using sanitize_clean [of ?call] hex8_chars by (simp add: artifact_id_for_tool_call_def Let_def)
qed

lemma artifact_written_inside_session_witness:
  "write_session_artifact (Some ''/home/u/sessions'') (\<lambda>t. t) ''s1'' (artifact_id_for_tool_call ''../../x'') ''out'' (\<lambda>_. None)
   = Inr ((''/home/u/sessions/s1/artifacts/'' @ artifact_id_for_tool_call ''../../x'' @ ''.txt'',
           ''artifacts/'' @ artifact_id_for_tool_call ''../../x'' @ ''.txt''),
          [''/home/u/sessions/s1/artifacts/'' @ artifact_id_for_tool_call ''../../x'' @ ''.txt'' \<mapsto> ''out''])"
proof -
  have "is_valid_session_id ''s1''" by code_simp
  from artifact_written_inside_session [OF this, of "''/home/u/sessions''" "''../../x''"] show ?thesis by simp
qed

lemma artifact_ids_shared_only_witness:
  "let b = ''call/a''; a = ''call_a_'' @ hex8 (fnv1a_32 b)
   in a \<noteq> b \<and> ((sanitize_id_component a = sanitize_id_component b \<and> fnv1a_32 a = fnv1a_32 b)
        \<or> a = sanitize_id_component b @ ''_'' @ hex8 (fnv1a_32 b) \<or> b = sanitize_id_component a @ ''_'' @ hex8 (fnv1a_32 a))"
proof -
  have "''call_a_'' @ hex8 (fnv1a_32 ''call/a'') \<noteq> ''call/a''" by simp
  with artifact_ids_shared_only [OF artifact_ids_can_collide [symmetric] this] show ?thesis by (simp add: Let_def)
qed

subsection \<open>The preview is cut once\<close>

text \<open>A preview cut again to the same length is the preview: recording an output does not shorten it twice.\<close>

lemma preview_text_again: "preview_text (preview_text t n) n = preview_text t n"
proof (cases "n < length (utf8_chars t)")
  case True
  have "utf8_chars (preview_text t n) = take n (utf8_chars t) @ [''.'', ''.'', ''.'']"
    using True utf8_chars_take [of "''...''" n t] by (simp add: preview_text_def)
  then show ?thesis using True by (simp add: preview_text_def)
next
  case False
  then show ?thesis by (simp add: preview_text_def concat_utf8_chars)
qed

lemma recorded_preview: "artifact_preview (record_tool_output_artifact now fs s c t p body) = preview_text body 200"
  by (simp add: record_tool_output_artifact_def record_tool_output_artifact_with_size_def preview_text_again)

end
