(* ===== verification/SessionStore.thy ===== *)
theory SessionStore
  imports JournalFile FactLedger Artifacts
begin


section \<open>session: the session store\<close>

text \<open>
  The file-backed store of saved sessions (\<open>session/src/store.rs\<close>): the saved record and its builders, the
  decode pipeline, save with the journal size, load with the recovery from the journal, listing, deletion,
  eviction and the choice of a session to resume. The JSON text of a record and the parsers of the JSON
  library, the order in which a directory is read, the file-system questions about a workspace, and the
  clock are arguments. Sizes are \<open>nat\<close>, instants are nanoseconds, an \<open>f64\<close> is its bits. A write that fails
  is not modelled: the file is replaced atomically.
\<close>

subsection \<open>The saved record\<close>

record cost_snapshot =
  session_cost_usd :: "64 word"
  session_cost_cny :: "64 word"
  subagent_cost_usd :: "64 word"
  subagent_cost_cny :: "64 word"
  displayed_cost_high_water_usd :: "64 word"
  displayed_cost_high_water_cny :: "64 word"

record session_metadata =
  meta_id :: str
  meta_title :: str
  created_at :: int
  updated_at :: int
  message_count :: nat
  meta_total_tokens :: "64 word"
  meta_model :: str
  reported_model :: "str option"
  meta_workspace :: path
  meta_mode :: "str option"
  meta_cost :: cost_snapshot
  parent_session_id :: "str option"
  forked_from_message_count :: "nat option"
  cumulative_turn_secs :: "64 word"

datatype reference_kind = FileRef | DirectoryRef | MissingRef | UnsupportedRef | MediaMention | MediaAttachment
datatype reference_source = AtMention | Attachment

record context_reference =
  ref_kind :: reference_kind
  ref_source :: reference_source
  ref_badge :: str
  ref_label :: str
  ref_target :: str
  ref_included :: bool
  ref_expanded :: bool
  ref_detail :: "str option"

record session_reference =
  message_index :: nat
  reference :: context_reference

record approval_record =
  tool_call_id :: str
  approved_tool :: str
  approval_key :: str
  grouping_key :: str
  approval_decision :: str
  approval_feedback :: "str option"
  approval_workspace :: str
  approval_at :: int

record saved_session =
  schema_version :: "32 word"
  metadata :: session_metadata
  saved_messages :: "message list"
  saved_system_prompt :: "str option"
  last_tool_catalog :: "tool_def list option"
  last_base_url :: "str option"
  saved_ledger :: "fact_ledger option"
  context_references :: "session_reference list"
  artifacts :: "artifact_record list"
  failed_attempts :: "attempt_record list"
  approvals :: "approval_record list"
  journal_bytes :: "nat option"

definition copy_cost_from :: "session_metadata \<Rightarrow> session_metadata \<Rightarrow> session_metadata" where
  "copy_cost_from other m = m\<lparr>meta_cost := meta_cost other\<rparr>"

definition mark_forked_from :: "session_metadata \<Rightarrow> session_metadata \<Rightarrow> session_metadata" where
  "mark_forked_from parent m =
     m\<lparr>parent_session_id := Some (meta_id parent), forked_from_message_count := Some (message_count parent)\<rparr>"

definition MAX_SESSIONS :: nat where "MAX_SESSIONS = 50"

definition CURRENT_SESSION_SCHEMA_VERSION :: "32 word" where "CURRENT_SESSION_SCHEMA_VERSION = 1"

subsection \<open>Titles\<close>

definition extract_user_prompt :: "str \<Rightarrow> str" where
  "extract_user_prompt raw =
     (let trimmed = trim_start raw
      in case strip_prefix ''<turn_meta>'' trimmed of
           None \<Rightarrow> trimmed
         | Some after_open \<Rightarrow>
             (case find_str ''</turn_meta>'' after_open of
                Some close_pos \<Rightarrow> trim_start (drop (close_pos + length ''</turn_meta>'') after_open)
              | None \<Rightarrow> trim_start after_open))"

definition extract_title :: "str \<Rightarrow> str" where
  "extract_title raw = (let title = extract_user_prompt raw in if title = [] then ''Session'' else title)"

definition truncate_title :: "str \<Rightarrow> nat \<Rightarrow> str" where
  "truncate_title s max_len =
     (let t = trim s;
          first_line = (case str_lines t of l # _ \<Rightarrow> l | [] \<Rightarrow> t)
      in if length (utf8_chars first_line) \<le> max_len then first_line
         else truncate_chars first_line (max_len - 3) @ ''...'')"

text \<open>A limit below three does not bound the title: the ellipsis is longer than it.\<close>

lemma tiny_title_too_long: "truncate_title ''abc'' 2 = ''...''"
  by code_simp

definition truncate_id :: "str \<Rightarrow> str" where
  "truncate_id i =
     (if length i < 8 then i
      else if length i = 8 \<or> \<not> in_range 0x80 0xBF (i ! 8) then take 8 i else i)"

definition whole_units :: "int \<Rightarrow> int \<Rightarrow> int" where
  "whole_units d per = (if 0 \<le> d then d div per else - ((- d) div per))"

definition show_int :: "int \<Rightarrow> str" where
  "show_int n = (if n < 0 then ''-'' @ show_nat (nat (- n)) else show_nat (nat n))"

definition format_age :: "int \<Rightarrow> int \<Rightarrow> str" where
  "format_age now dt =
     (let secs = whole_units (now - dt) 1000000000;
          minutes = whole_units secs 60; hours = whole_units secs 3600;
          days = whole_units secs 86400; weeks = whole_units secs 604800
      in if minutes < 1 then ''just now''
         else if hours < 1 then show_int minutes @ ''m ago''
         else if days < 1 then show_int hours @ ''h ago''
         else if weeks < 1 then show_int days @ ''d ago''
         else show_int weeks @ ''w ago'')"

definition format_session_line :: "int \<Rightarrow> session_metadata \<Rightarrow> str" where
  "format_session_line now m =
     truncate_id (meta_id m) @ '' | '' @ truncate_title (extract_title (meta_title m)) 40 @ '' | ''
     @ show_nat (message_count m) @ '' msgs''
     @ (case parent_session_id m of Some p \<Rightarrow> '' | fork '' @ truncate_id p | None \<Rightarrow> []) @ '' | ''
     @ format_age now (updated_at m)"

definition separator :: str where
  "separator = [CHR 0x0A, CHR 0x0A] @ ''---'' @ [CHR 0x0A, CHR 0x0A]"

definition system_prompt_to_string :: "system_prompt option \<Rightarrow> str option" where
  "system_prompt_to_string p =
     (case p of
        Some (SystemText t) \<Rightarrow> Some t
      | Some (SystemBlocks bs) \<Rightarrow> Some (join separator (map block_text bs))
      | None \<Rightarrow> None)"

definition strip_legacy_truncation_note :: "str option \<Rightarrow> str option" where
  "strip_legacy_truncation_note p =
     (case p of
        None \<Rightarrow> None
      | Some sp \<Rightarrow>
          (case strip_prefix (''[Session note]'' @ [CHR 0x0A]) sp of
             None \<Rightarrow> Some sp
           | Some trimmed \<Rightarrow>
               if \<not> contains_str trimmed ''older messages were dropped'' then Some sp
               else (case find_str separator trimmed of
                       Some pos \<Rightarrow> Some (drop (pos + length separator) trimmed)
                     | None \<Rightarrow> Some sp)))"

subsection \<open>Building and updating a record\<close>

fun text_title :: "content_block \<Rightarrow> str option" where
  "text_title (TextBlock t _) =
     (let prompt = extract_user_prompt t in if prompt = [] then None else Some (truncate_title prompt 50))"
| "text_title _ = None"

definition session_title :: "message list \<Rightarrow> str" where
  "session_title messages =
     (case Option.bind (find (\<lambda>m. role m = ''user'') messages) (\<lambda>m. find_map text_title (blocks m)) of
        Some t \<Rightarrow> t
      | None \<Rightarrow> ''New Session'')"

definition zero_cost :: cost_snapshot where
  "zero_cost = \<lparr>session_cost_usd = 0, session_cost_cny = 0, subagent_cost_usd = 0, subagent_cost_cny = 0,
     displayed_cost_high_water_usd = 0, displayed_cost_high_water_cny = 0\<rparr>"

definition create_saved_session ::
  "int \<Rightarrow> str \<Rightarrow> message list \<Rightarrow> str \<Rightarrow> path \<Rightarrow> 64 word \<Rightarrow> system_prompt option \<Rightarrow> str option \<Rightarrow> saved_session" where
  "create_saved_session now session_id messages model workspace total_tokens system mode =
     \<lparr>schema_version = CURRENT_SESSION_SCHEMA_VERSION,
      metadata = \<lparr>meta_id = session_id, meta_title = session_title messages, created_at = now, updated_at = now,
        message_count = length messages, meta_total_tokens = total_tokens, meta_model = model, reported_model = None,
        meta_workspace = workspace, meta_mode = mode, meta_cost = zero_cost, parent_session_id = None,
        forked_from_message_count = None, cumulative_turn_secs = 0\<rparr>,
      saved_messages = messages, saved_system_prompt = system_prompt_to_string system,
      last_tool_catalog = None, last_base_url = None, saved_ledger = None, context_references = [], artifacts = [],
      failed_attempts = [], approvals = [], journal_bytes = None\<rparr>"

definition update_session :: "int \<Rightarrow> saved_session \<Rightarrow> message list \<Rightarrow> 64 word \<Rightarrow> system_prompt option \<Rightarrow> saved_session" where
  "update_session now s messages total_tokens system =
     s\<lparr>schema_version := CURRENT_SESSION_SCHEMA_VERSION, saved_messages := messages,
       metadata := (metadata s)\<lparr>updated_at := now, message_count := length messages, meta_total_tokens := total_tokens\<rparr>,
       saved_system_prompt := (if system \<noteq> None then system_prompt_to_string system else saved_system_prompt s)\<rparr>"


subsection \<open>Decoding\<close>

definition KNOWN_CONTENT_BLOCK_TYPES :: "str list" where
  "KNOWN_CONTENT_BLOCK_TYPES =
     [''text'', ''image'', ''thinking'', ''tool_use'', ''tool_result'', ''server_tool_use'', ''tool_search_tool_result'',
      ''code_execution_tool_result'']"

definition block_kept :: "json \<Rightarrow> bool" where
  "block_kept block \<longleftrightarrow>
     (case Option.bind (json_get ''type'' block) as_str of
        Some tag \<Rightarrow> tag \<in> set KNOWN_CONTENT_BLOCK_TYPES
      | None \<Rightarrow> True)"

text \<open>Changing a member in place (\<open>get_mut\<close>): the value under the key the object reads.\<close>

fun map_member :: "str \<Rightarrow> (json \<Rightarrow> json) \<Rightarrow> json \<Rightarrow> json" where
  "map_member k f (JObj ms) = JObj (map (\<lambda>(n, v). (n, if n = k then f v else v)) ms)"
| "map_member k f j = j"

fun map_array :: "(json list \<Rightarrow> json list) \<Rightarrow> json \<Rightarrow> json" where
  "map_array f (JArr js) = JArr (f js)"
| "map_array f j = j"

definition sanitize_unknown_content_blocks :: "json \<Rightarrow> json" where
  "sanitize_unknown_content_blocks value =
     map_member ''messages'' (map_array (map (map_member ''content'' (map_array (filter block_kept))))) value"

record store_env =
  from_str :: "str \<Rightarrow> str + json"
  from_value :: "json \<Rightarrow> str + saved_session"
  to_pretty :: "saved_session \<Rightarrow> str"
  metadata_from_str :: "str \<Rightarrow> session_metadata option"
  journal_lines :: journal_codec
  dir_order :: "journal_dir \<Rightarrow> str list"

text \<open>\<open>fs::read_to_string\<close> of a file's bytes.\<close>

definition read_text :: "str \<Rightarrow> io_error + str" where
  "read_text bytes = (if utf8_ok bytes then Inr bytes else Inl (InvalidData ''stream did not contain valid UTF-8''))"

definition decode_session :: "store_env \<Rightarrow> str \<Rightarrow> io_error + saved_session" where
  "decode_session env raw =
     (case from_str env raw of
        Inl e \<Rightarrow> Inl (InvalidData e)
      | Inr value \<Rightarrow>
          (case from_value env (sanitize_unknown_content_blocks value) of
             Inl e \<Rightarrow> Inl (InvalidData e)
           | Inr s \<Rightarrow>
               if CURRENT_SESSION_SCHEMA_VERSION < schema_version s
               then Inl (InvalidData (''Session schema v'' @ show_nat (unat (schema_version s)) @ '' is newer than supported v''
                      @ show_nat (unat CURRENT_SESSION_SCHEMA_VERSION)))
               else Inr (s\<lparr>saved_system_prompt := strip_legacy_truncation_note (saved_system_prompt s),
                           saved_messages := fst (repair_interrupted_tool_calls (saved_messages s))\<rparr>)))"

subsection \<open>Metadata without the messages\<close>

definition latin_ws :: "char \<Rightarrow> bool" where
  "latin_ws c \<longleftrightarrow> (let n = of_char c :: nat in 9 \<le> n \<and> n \<le> 13 \<or> n = 32 \<or> n = 0x85 \<or> n = 0xA0)"

definition metadata_key :: str where
  "metadata_key = [CHR 0x22] @ ''metadata'' @ [CHR 0x22]"

definition key_here :: "str \<Rightarrow> bool" where
  "key_here s \<longleftrightarrow> starts_with s metadata_key
     \<and> starts_with (dropWhile latin_ws (drop (length metadata_key) s)) '':''"

text \<open>The text from the first key outside every string on.\<close>

fun find_key :: "bool \<Rightarrow> bool \<Rightarrow> str \<Rightarrow> str option" where
  "find_key in_string escape [] = None"
| "find_key in_string escape (c # s) =
     (if escape then find_key in_string False s
      else if c = CHR 0x5C then find_key in_string True s
      else if c = CHR 0x22 then
        (if \<not> in_string \<and> key_here (c # s) then Some (c # s) else find_key (\<not> in_string) False s)
      else find_key in_string False s)"

text \<open>The length of the balanced object a text starts with; braces in strings do not count.\<close>

fun object_len :: "int \<Rightarrow> bool \<Rightarrow> bool \<Rightarrow> str \<Rightarrow> nat option" where
  "object_len depth in_string escape [] = None"
| "object_len depth in_string escape (c # s) =
     (if escape then map_option Suc (object_len depth in_string False s)
      else if c = CHR 0x5C then map_option Suc (object_len depth in_string True s)
      else if c = CHR 0x22 then map_option Suc (object_len depth (\<not> in_string) False s)
      else if in_string then map_option Suc (object_len depth in_string False s)
      else if c = CHR 0x7B then map_option Suc (object_len (depth + 1) in_string False s)
      else if c = CHR 0x7D then
        (if depth - 1 = 0 then Some 1 else map_option Suc (object_len (depth - 1) in_string False s))
      else map_option Suc (object_len depth in_string False s))"

definition extract_top_level_metadata :: "store_env \<Rightarrow> str \<Rightarrow> session_metadata option" where
  "extract_top_level_metadata env buf =
     (if \<not> utf8_ok buf then None
      else Option.bind (find_key False False buf) (\<lambda>s.
        let after_key = dropWhile latin_ws (drop (length metadata_key) s)
        in if \<not> starts_with after_key '':'' then None
           else
             let value = dropWhile latin_ws (tl after_key)
             in if \<not> starts_with value [CHR 0x7B] then None
                else Option.bind (object_len 0 False False value) (\<lambda>n. metadata_from_str env (take n value))))"

definition load_session_metadata :: "store_env \<Rightarrow> str \<Rightarrow> session_metadata option" where
  "load_session_metadata env buf =
     (case extract_top_level_metadata env (take 65536 buf) of
        Some m \<Rightarrow> Some m
      | None \<Rightarrow> extract_top_level_metadata env buf)"

subsection \<open>The store\<close>

text \<open>The sessions directory: its files, the names of its subdirectories, and the checkpoint.\<close>

record session_dir =
  files :: journal_dir
  subdirs :: "str list"
  checkpoint :: "str option"

definition validated_session_path :: "str \<Rightarrow> io_error + str" where
  "validated_session_path session_id =
     (let trimmed = trim session_id
      in if trimmed = [] then Inl (IoInvalidInput ''Session id cannot be empty'')
         else if trimmed = ''checkpoints''
         then Inl (IoInvalidInput (''session id '' @ [CHR 0x27] @ ''checkpoints'' @ [CHR 0x27] @ '' is reserved''))
         else if \<not> list_all session_id_char trimmed
         then Inl (IoInvalidInput (''Invalid session id '' @ [CHR 0x27] @ session_id @ [CHR 0x27]))
         else Inr (trimmed @ ''.json''))"

definition journal_len :: "store_env \<Rightarrow> session_dir \<Rightarrow> str \<Rightarrow> nat option" where
  "journal_len env d session_id =
     (case journal_path (journal_lines env) session_id of
        Inl _ \<Rightarrow> None
      | Inr p \<Rightarrow> map_option length (files d p))"

definition recover_from_journal :: "store_env \<Rightarrow> session_dir \<Rightarrow> saved_session \<Rightarrow> saved_session" where
  "recover_from_journal env d s =
     (case (journal_bytes s, journal_len env d (meta_id (metadata s))) of
        (Some recorded, Some current) \<Rightarrow>
          if current \<le> recorded then s
          else
            (case try_bind (journal_path (journal_lines env) (meta_id (metadata s))) (\<lambda>p.
                     try_bind (read_journal (journal_lines env) (files d) p) fold_transcript) of
               Inr messages \<Rightarrow>
                 s\<lparr>saved_messages := fst (repair_interrupted_tool_calls messages), journal_bytes := Some current\<rparr>
             | Inl _ \<Rightarrow> s)
      | _ \<Rightarrow> s)"

definition load_session :: "store_env \<Rightarrow> session_dir \<Rightarrow> str \<Rightarrow> io_error + saved_session" where
  "load_session env d session_id =
     try_bind (validated_session_path session_id) (\<lambda>p.
       case files d p of
         None \<Rightarrow> Inl NotFound
       | Some bytes \<Rightarrow> try_bind (try_bind (read_text bytes) (decode_session env)) (\<lambda>s. Inr (recover_from_journal env d s)))"

definition is_session_file :: "str \<Rightarrow> bool" where
  "is_session_file name \<longleftrightarrow> ends_with name ''.json'' \<and> name \<noteq> ''.json''"

definition list_sessions :: "store_env \<Rightarrow> session_dir \<Rightarrow> session_metadata list" where
  "list_sessions env d =
     sort_key (\<lambda>m. - updated_at m)
       (List.map_filter (\<lambda>name. Option.bind (files d name) (load_session_metadata env))
         (filter is_session_file (dir_order env (files d))))"

definition remove_file :: "str \<Rightarrow> session_dir \<Rightarrow> session_dir" where
  "remove_file name d = d\<lparr>files := (files d)(name := None)\<rparr>"

definition delete_session :: "store_env \<Rightarrow> str \<Rightarrow> session_dir \<Rightarrow> io_error + session_dir" where
  "delete_session env session_id d =
     try_bind (validated_session_path session_id) (\<lambda>p.
       if files d p = None then Inl NotFound
       else
         let d1 = remove_file p d;
             d2 = d1\<lparr>subdirs := removeAll (trim session_id) (subdirs d1)\<rparr>;
             d3 = remove_file (trim session_id @ ''.inbox.jsonl'') d2
         in Inr (case journal_path (journal_lines env) session_id of Inr q \<Rightarrow> remove_file q d3 | Inl _ \<Rightarrow> d3))"

text \<open>A deletion that fails is logged and skipped.\<close>

definition try_delete :: "store_env \<Rightarrow> session_metadata \<Rightarrow> session_dir \<Rightarrow> session_dir" where
  "try_delete env m d = (case delete_session env (meta_id m) d of Inr d' \<Rightarrow> d' | Inl _ \<Rightarrow> d)"

definition cleanup_old_sessions :: "store_env \<Rightarrow> session_dir \<Rightarrow> session_dir" where
  "cleanup_old_sessions env d =
     (let sessions = list_sessions env d
      in if MAX_SESSIONS < length sessions then fold (try_delete env) (drop MAX_SESSIONS sessions) d else d)"

definition save_session :: "store_env \<Rightarrow> saved_session \<Rightarrow> session_dir \<Rightarrow> io_error + session_dir" where
  "save_session env s d =
     try_bind (validated_session_path (meta_id (metadata s))) (\<lambda>p.
       let size = journal_len env d (meta_id (metadata s));
           raw = to_pretty env (if size = journal_bytes s then s else s\<lparr>journal_bytes := size\<rparr>)
       in Inr (cleanup_old_sessions env (d\<lparr>files := (files d)(p \<mapsto> raw)\<rparr>)))"

definition save_checkpoint :: "store_env \<Rightarrow> saved_session \<Rightarrow> session_dir \<Rightarrow> session_dir" where
  "save_checkpoint env s d = d\<lparr>checkpoint := Some (to_pretty env s)\<rparr>"

definition load_checkpoint :: "store_env \<Rightarrow> session_dir \<Rightarrow> io_error + saved_session option" where
  "load_checkpoint env d =
     (case checkpoint d of
        None \<Rightarrow> Inr None
      | Some bytes \<Rightarrow> try_bind (try_bind (read_text bytes) (decode_session env)) (\<lambda>s. Inr (Some s)))"

definition clear_checkpoint :: "session_dir \<Rightarrow> session_dir" where
  "clear_checkpoint d = d\<lparr>checkpoint := None\<rparr>"

definition load_session_by_prefix :: "store_env \<Rightarrow> session_dir \<Rightarrow> str \<Rightarrow> io_error + saved_session" where
  "load_session_by_prefix env d p =
     (case filter (\<lambda>m. starts_with (meta_id m) p) (list_sessions env d) of
        [] \<Rightarrow> Inl NotFound
      | [m] \<Rightarrow> load_session env d (meta_id m)
      | ms \<Rightarrow> Inl (IoInvalidInput (''Ambiguous prefix '' @ [CHR 0x27] @ p @ [CHR 0x27] @ '' matches '' @ show_nat (length ms)
                @ '' sessions'')))"

fun prune_loop :: "store_env \<Rightarrow> int \<Rightarrow> session_metadata list \<Rightarrow> session_dir \<Rightarrow> nat \<times> session_dir" where
  "prune_loop env cutoff [] d = (0, d)"
| "prune_loop env cutoff (m # ms) d =
     (if updated_at m < cutoff
      then (case delete_session env (meta_id m) d of
              Inr d' \<Rightarrow> let (n, d'') = prune_loop env cutoff ms d' in (n + 1, d'')
            | Inl _ \<Rightarrow> prune_loop env cutoff ms d)
      else prune_loop env cutoff ms d)"

definition prune_sessions_older_than :: "store_env \<Rightarrow> int \<Rightarrow> int \<Rightarrow> session_dir \<Rightarrow> nat \<times> session_dir" where
  "prune_sessions_older_than env now max_age d = prune_loop env (now - max_age) (list_sessions env d) d"

definition search_sessions :: "store_env \<Rightarrow> (str \<Rightarrow> str) \<Rightarrow> session_dir \<Rightarrow> str \<Rightarrow> session_metadata list" where
  "search_sessions env lower d query =
     filter (\<lambda>m. contains_str (lower (meta_title m)) (lower query)) (list_sessions env d)"

subsection \<open>The session to resume\<close>

record workspace_fs =
  canonical :: "path \<Rightarrow> path option"
  is_directory :: "path \<Rightarrow> bool"
  is_regular_file :: "path \<Rightarrow> bool"
  file_text :: "path \<Rightarrow> str option"

definition is_git_metadata_entry :: "workspace_fs \<Rightarrow> path \<Rightarrow> bool" where
  "is_git_metadata_entry w p \<longleftrightarrow>
     (if is_directory w p then is_regular_file w (p @ [''HEAD''])
      else case file_text w p of Some t \<Rightarrow> starts_with (trim_start t) ''gitdir:'' | None \<Rightarrow> False)"

definition paths_equivalent_with :: "workspace_fs \<Rightarrow> path \<Rightarrow> path \<Rightarrow> path option \<Rightarrow> bool" where
  "paths_equivalent_with w lhs rhs rhs_canonical =
     (case (canonical w lhs, rhs_canonical) of
        (Some l, Some r) \<Rightarrow> l = r
      | _ \<Rightarrow> lhs = rhs)"

definition paths_equivalent :: "workspace_fs \<Rightarrow> path \<Rightarrow> path \<Rightarrow> bool" where
  "paths_equivalent w lhs rhs = paths_equivalent_with w lhs rhs (canonical w rhs)"

text \<open>A path is its components; the parent drops the last one.\<close>

function git_root_from :: "workspace_fs \<Rightarrow> path \<Rightarrow> path option" where
  "git_root_from w current =
     (if is_git_metadata_entry w (current @ [''.git'']) then Some current
      else if current = [] then None else git_root_from w (butlast current))"
  by pat_completeness auto
termination by (relation "measure (\<lambda>(w, p). length p)") auto

definition find_git_root :: "workspace_fs \<Rightarrow> path \<Rightarrow> path option" where
  "find_git_root w p = git_root_from w (case canonical w p of Some c \<Rightarrow> c | None \<Rightarrow> p)"

definition workspace_scope_matches :: "workspace_fs \<Rightarrow> path \<Rightarrow> path \<Rightarrow> bool" where
  "workspace_scope_matches w saved current \<longleftrightarrow>
     paths_equivalent w saved current
     \<or> (case (find_git_root w saved, find_git_root w current) of
          (Some saved_root, Some current_root) \<Rightarrow> paths_equivalent w saved_root current_root
        | _ \<Rightarrow> False)"

definition is_empty_auto_created_session :: "session_metadata \<Rightarrow> bool" where
  "is_empty_auto_created_session m \<longleftrightarrow>
     message_count m = 0 \<and> eq_ignore_ascii_case (trim (meta_title m)) ''New Session''"

definition get_latest_session_for_workspace :: "store_env \<Rightarrow> workspace_fs \<Rightarrow> session_dir \<Rightarrow> path \<Rightarrow> session_metadata option" where
  "get_latest_session_for_workspace env w d workspace =
     find (\<lambda>m. workspace_scope_matches w (meta_workspace m) workspace \<and> \<not> is_empty_auto_created_session m)
       (list_sessions env d)"


subsection \<open>Recovery after a crash\<close>

text \<open>A snapshot whose journal has grown loads as the journal's transcript, repaired.\<close>

lemma recover_from_grown_journal:
  assumes "journal_bytes s = Some recorded" and "journal_path (journal_lines env) (meta_id (metadata s)) = Inr q"
    and "files d q = Some bytes" and "recorded < length bytes"
    and "read_journal (journal_lines env) (files d) q = Inr es" and "fold_transcript es = Inr ms"
  shows "recover_from_journal env d s
           = s\<lparr>saved_messages := fst (repair_interrupted_tool_calls ms), journal_bytes := Some (length bytes)\<rparr>"
  using assms by (simp add: recover_from_journal_def journal_len_def)

lemma resync_entries_not_Nil:
  assumes "journal_of_session (RebuildLog why ms # ops) (enable_journal new_log) = (es, l)"
  shows "es \<noteq> []"
proof
  assume "es = []"
  then have told: "fold_transcript es0 = Inr (log_messages l)"
    if "fold_transcript es0 = Inr told" "reconstruct_requests es0 = Inr []" for es0 told
    using session_resync [OF that assms] by simp
  have "log_messages l = [m]" for m
    using told [of "[Append [m]]" "[m]"] by (simp add: fold_transcript_def reconstruct_requests_def)
  moreover have "log_messages l = []"
    using told [of "[]" "[]"] by (simp add: fold_transcript_def reconstruct_requests_def)
  ultimately show False by simp
qed

text \<open>C22: Nothing that reached the journal is lost. A snapshot was saved; then a session resumed with a resync and went
  on through any pushes, replacements, requests, failed attempts and drains; every drained batch was
  appended to the journal file, the last line perhaps torn; and the process died before the next
  snapshot. Loading gives exactly the transcript the log held, with its interrupted calls closed.\<close>

theorem crash_before_snapshot_recovers:
  assumes snapshot: "validated_session_path sid = Inr p" "files d p = Some bytes" "utf8_ok bytes"
      "decode_session env bytes = Inr s" "journal_bytes s = Some (length (stamped_text (journal_lines env) before))"
    and journal: "journal_path (journal_lines env) (meta_id (metadata s)) = Inr q"
      "before_dir q = Some (stamped_text (journal_lines env) before)" "all_readable (journal_lines env) before"
      "fold_transcript (map snd before) = Inr told" "reconstruct_requests (map snd before) = Inr rs0"
    and session: "journal_of_session (RebuildLog why ms # ops) (enable_journal new_log) = (concat (map snd flushes), l)"
      "list_all (\<lambda>(now, entries). list_all (readable (journal_lines env)) (written_too (meta_id (metadata s)) entries @ entries)) flushes"
      "append_batches (journal_lines env) (meta_id (metadata s)) flushes before_dir = Inr after_dir"
    and torn: "files d q = map_option (\<lambda>t. t @ frag) (after_dir q)" "CHR 0x0A \<notin> set frag" "utf8_ok frag"
      "trim frag = [] \<or> (\<exists>err. parse_line (journal_lines env) frag = Inl err)"
  shows "\<exists>s'. load_session env d sid = Inr s'
    \<and> saved_messages s' = fst (repair_interrupted_tool_calls (log_messages l))"
proof -
  let ?cd = "journal_lines env"
  obtain new where new: "after_dir q = Some (stamped_text ?cd (before @ new))" "new \<noteq> []" "all_readable ?cd (before @ new)"
    "tells_same (map snd (before @ new)) (map snd before @ concat (map snd flushes))"
    using append_batches_tell [where dir = before_dir and path = q and ses = before, OF journal(3) session(2) journal(2,1)] session(3) resync_entries_not_Nil [OF session(1)] by auto
  have ondisk: "files d q = Some (stamped_text ?cd (before @ new) @ frag)" using torn(1) new(1) by simp
  have read: "read_journal ?cd (files d) q = Inr (map snd (before @ new))"
    using read_stamped [where dir = "files d" and path = q and frag = frag, OF new(3) ondisk torn(2,4)] torn(3) by simp
  have told: "fold_transcript (map snd (before @ new)) = Inr (log_messages l)"
    using session_resync [OF journal(4,5) session(1)] new(4) by (simp add: tells_same_def)
  have "length (stamped_text ?cd before) < length (stamped_text ?cd (before @ new) @ frag)"
    using new(2) by (cases new) auto
  then have "recover_from_journal env d s = s\<lparr>saved_messages := fst (repair_interrupted_tool_calls (log_messages l)),
      journal_bytes := Some (length (stamped_text ?cd (before @ new) @ frag))\<rparr>"
    by (rule recover_from_grown_journal [where q = q and d = d, OF snapshot(5) journal(1) ondisk _ read told])
  then show ?thesis
    by (simp add: load_session_def snapshot(1-4) read_text_def)
qed


text \<open>A flush that fails drops its batch for good (\<open>flush_journal\<close> of the engine drains before it writes): what the
  journal then tells is not what the log held, and a load takes the journal's word.\<close>

lemma failed_flush_loses_messages:
  "let (lost, l1) = take_journal_entries (log_push False a (enable_journal new_log));
       (kept, l2) = take_journal_entries (log_push False b l1)
   in lost = [Append [a]] \<and> log_messages l2 = [a, b] \<and> fold_transcript kept = Inr [b]"
  by (simp add: take_journal_entries_def log_push_def enable_journal_def new_log_def fold_transcript_def)

text \<open>Growth is judged by size alone: when the snapshot was stamped over a torn tail that the next append cuts, the
  longer history is not noticed.\<close>

lemma cut_tail_hides_growth:
  assumes "journal_bytes s = Some recorded" and "journal_path (journal_lines env) (meta_id (metadata s)) = Inr q"
    and "files d q = Some bytes" and "length bytes \<le> recorded"
  shows "recover_from_journal env d s = s"
  using assms by (simp add: recover_from_journal_def journal_len_def)

lemma cut_tail_example:
  "let torn = ''H'' @ [CHR 0x0A] @ ''a line whose write was cut'';
       dir = [''s.journal.jsonl'' \<mapsto> torn]
   in \<exists>dir'. journal_append sample_lines ''t'' ''s'' [Append [\<lparr>role = ''user'', blocks = []\<rparr>]] dir = Inr dir'
        \<and> dir' ''s.journal.jsonl'' = Some (''H'' @ [CHR 0x0A] @ ''Aa'' @ [CHR 0x0A])
        \<and> length (''H'' @ [CHR 0x0A] @ ''Aa'' @ [CHR 0x0A]) \<le> length torn"
proof -
  have p: "journal_path sample_lines ''s'' = Inr ''s.journal.jsonl''" by code_simp
  have t: "trim ''s'' = ''s''" by code_simp
  show ?thesis
    by (simp add: Let_def journal_append_def p drop_torn_tail_def journal_text_def resume_entries_def)
      (simp add: sample_lines_def sample_table_def)
qed

subsection \<open>Eviction\<close>

text \<open>A directory that reads as its files in some order, and in which a listed session is stored under its own id.\<close>

definition reads_dir :: "store_env \<Rightarrow> journal_dir \<Rightarrow> bool" where
  "reads_dir env fs \<longleftrightarrow> distinct (dir_order env fs) \<and> set (dir_order env fs) = dom fs"

definition listed :: "store_env \<Rightarrow> session_dir \<Rightarrow> str \<Rightarrow> session_metadata option" where
  "listed env d name = (if is_session_file name then Option.bind (files d name) (load_session_metadata env) else None)"

definition stored_by_id :: "store_env \<Rightarrow> session_dir \<Rightarrow> bool" where
  "stored_by_id env d \<longleftrightarrow> (\<forall>name m. listed env d name = Some m \<longrightarrow> validated_session_path (meta_id m) = Inr name)"

lemma mset_map_filter: "mset (List.map_filter f xs) = image_mset (the \<circ> f) (filter_mset (\<lambda>x. f x \<noteq> None) (mset xs))"
  by (induction xs) (auto simp: List.map_filter_simps split: option.splits)

lemma mset_list_sessions:
  assumes "reads_dir env (files d)"
  shows "mset (list_sessions env d) = image_mset (the \<circ> listed env d) (mset_set {n. listed env d n \<noteq> None})"
proof -
  let ?ns = "dir_order env (files d)"
  have sub: "{n \<in> set ?ns. listed env d n \<noteq> None} = {n. listed env d n \<noteq> None}"
    using assms by (auto simp: reads_dir_def listed_def bind_eq_Some_conv split: if_splits)
  have "mset (list_sessions env d) = mset (List.map_filter (listed env d) ?ns)"
    by (simp add: list_sessions_def map_filter_filter listed_def [abs_def])
  also have "\<dots> = image_mset (the \<circ> listed env d) (filter_mset (\<lambda>n. listed env d n \<noteq> None) (mset ?ns))"
    by (rule mset_map_filter)
  also have "mset ?ns = mset_set (set ?ns)"
    using assms mset_set_set unfolding reads_dir_def by metis
  finally show ?thesis using sub by (simp add: comp_def)
qed

lemma list_sessions_newest_first: "sorted_wrt (\<lambda>m m'. updated_at m' \<le> updated_at m) (list_sessions env d)"
proof -
  have "sorted (map (\<lambda>m. - updated_at m) (list_sessions env d))" by (simp add: list_sessions_def)
  then show ?thesis by (simp add: sorted_wrt_map)
qed


lemma listed_files: "listed env d n \<noteq> None \<Longrightarrow> n \<in> dom (files d)"
  by (auto simp: listed_def bind_eq_Some_conv split: if_splits)

lemma validated_path_Inr: "validated_session_path i = Inr n \<longleftrightarrow>
  trim i \<noteq> [] \<and> trim i \<noteq> ''checkpoints'' \<and> list_all session_id_char (trim i) \<and> n = trim i @ ''.json''"
  by (auto simp: validated_session_path_def Let_def)

text \<open>Deleting a listed session takes its own file out of the list and nothing else.\<close>

lemma try_delete_listed:
  assumes "stored_by_id env d" and "listed env d n = Some m"
  shows "listed env (try_delete env m d) n' = (if n' = n then None else listed env d n')"
    and "dom (files (try_delete env m d)) \<subseteq> dom (files d)"
proof -
  have v: "validated_session_path (meta_id m) = Inr n" using assms by (simp add: stored_by_id_def)
  have n: "n = trim (meta_id m) @ ''.json''" using v by (simp add: validated_path_Inr)
  have there: "files d n \<noteq> None" using assms(2) listed_files [of env d n] by auto
  have lines: "\<not> is_session_file (t @ ''.inbox.jsonl'')" "\<not> is_session_file (t @ ''.journal.jsonl'')" for t
    by (auto simp: is_session_file_def suffix_def dest: arg_cong [of _ _ rev])
  obtain q where q: "try_delete env m d = (let d3 = remove_file (trim (meta_id m) @ ''.inbox.jsonl'')
      ((remove_file n d)\<lparr>subdirs := removeAll (trim (meta_id m)) (subdirs d)\<rparr>)
      in case q of None \<Rightarrow> d3 | Some p \<Rightarrow> remove_file p d3)"
    "\<forall>p. q = Some p \<longrightarrow> \<not> is_session_file p"
  proof (cases "journal_path (journal_lines env) (meta_id m)")
    case (Inl e)
    then show thesis by (intro that [of None]) (simp_all add: try_delete_def delete_session_def v there Let_def remove_file_def)
  next
    case (Inr p)
    then have "p = trim (meta_id m) @ ''.journal.jsonl''" by (auto simp: journal_path_def Let_def split: if_splits)
    then show thesis using Inr lines
      by (intro that [of "Some p"]) (simp_all add: try_delete_def delete_session_def v there Let_def remove_file_def)
  qed
  have "listed env (remove_file p d') n' = (if n' = p then None else listed env d' n')" for p d'
    by (simp add: listed_def remove_file_def)
  moreover have "listed env (d'\<lparr>subdirs := x\<rparr>) n' = listed env d' n'" for d' x
    by (simp add: listed_def)
  moreover have "listed env d' n' = None" if "\<not> is_session_file n'" for d' using that by (simp add: listed_def)
  ultimately show "listed env (try_delete env m d) n' = (if n' = n then None else listed env d n')"
    using q lines by (auto simp: Let_def split: option.splits)
  show "dom (files (try_delete env m d)) \<subseteq> dom (files d)"
    unfolding q(1) by (auto simp: Let_def remove_file_def split: option.splits if_splits)
qed

lemma try_delete_keeps:
  assumes "stored_by_id env d" and "listed env d n = Some m"
  shows "stored_by_id env (try_delete env m d)"
  using assms(1) try_delete_listed(1) [OF assms] by (auto simp: stored_by_id_def split: if_splits)


lemma set_list_sessions: "reads_dir env (files d) \<Longrightarrow> set (list_sessions env d) = {m. \<exists>n. listed env d n = Some m}"
  using listed_files [of env d]
  by (force simp: list_sessions_def map_filter_filter set_map_filter reads_dir_def listed_def split: if_splits)

lemma distinct_of_mset_set:
  assumes "mset xs = mset_set A"
  shows "distinct xs"
  unfolding distinct_count_atmost_1
proof
  fix a
  have "count (mset xs) a = (if finite A \<and> a \<in> A then 1 else 0)" unfolding assms by (simp add: count_mset_set')
  then show "count (mset xs) a = (if a \<in> set xs then 1 else 0)"
    by (metis count_mset_0_iff zero_neq_one)
qed

lemma stored_once:
  assumes "stored_by_id env d" and "listed env d n = Some m" and "listed env d n' = Some m"
  shows "n = n'"
proof -
  have "validated_session_path (meta_id m) = Inr n" "validated_session_path (meta_id m) = Inr n'"
    using assms(1) [unfolded stored_by_id_def] assms(2,3) by blast+
  then show ?thesis by simp
qed

lemma distinct_list_sessions:
  assumes "reads_dir env (files d)" and "stored_by_id env d"
  shows "distinct (list_sessions env d)"
proof -
  have "inj_on (the \<circ> listed env d) {n. listed env d n \<noteq> None}"
  proof (rule inj_onI)
    fix n n' assume at: "n \<in> {n. listed env d n \<noteq> None}" "n' \<in> {n. listed env d n \<noteq> None}"
      and eq: "(the \<circ> listed env d) n = (the \<circ> listed env d) n'"
    then obtain m where "listed env d n = Some m" "listed env d n' = Some m" by auto
    then show "n = n'" by (rule stored_once [OF assms(2)])
  qed
  then have "mset (list_sessions env d) = mset_set ((the \<circ> listed env d) ` {n. listed env d n \<noteq> None})"
    using mset_list_sessions [OF assms(1)] by (simp only: image_mset_mset_set)
  then show ?thesis by (rule distinct_of_mset_set)
qed

lemma fold_try_delete:
  assumes "stored_by_id env d" and "distinct ms" and "\<And>m. m \<in> set ms \<Longrightarrow> \<exists>n. listed env d n = Some m"
  shows "stored_by_id env (fold (try_delete env) ms d)
    \<and> (\<forall>n. listed env (fold (try_delete env) ms d) n
           = (case listed env d n of Some m \<Rightarrow> if m \<in> set ms then None else Some m | None \<Rightarrow> None))"
  using assms
proof (induction ms arbitrary: d)
  case Nil
  then show ?case by (auto split: option.splits)
next
  case (Cons m ms)
  obtain n where n: "listed env d n = Some m" using Cons.prems(3) by auto
  let ?d = "try_delete env m d"
  note at = try_delete_listed(1) [OF Cons.prems(1) n]
  have uniq: "n' = n" if "listed env d n' = Some m" for n'
    by (rule stored_once [OF Cons.prems(1) that n])
  have "\<exists>n'. listed env ?d n' = Some m'" if "m' \<in> set ms" for m'
  proof -
    obtain n' where "listed env d n' = Some m'" using Cons.prems(3) \<open>m' \<in> set ms\<close> by auto
    moreover have "m' \<noteq> m" using Cons.prems(2) that by auto
    ultimately show ?thesis using n at by (intro exI [of _ n']) auto
  qed
  moreover have "distinct ms" using Cons.prems(2) by simp
  ultimately have step: "stored_by_id env (fold (try_delete env) ms ?d)"
      "\<And>n'. listed env (fold (try_delete env) ms ?d) n'
           = (case listed env ?d n' of Some m \<Rightarrow> if m \<in> set ms then None else Some m | None \<Rightarrow> None)"
    using Cons.IH [OF try_delete_keeps [OF Cons.prems(1) n]] by blast+
  have "listed env (fold (try_delete env) ms ?d) n'
      = (case listed env d n' of Some m' \<Rightarrow> if m' \<in> set (m # ms) then None else Some m' | None \<Rightarrow> None)" for n'
  proof (cases "n' = n")
    case True
    then show ?thesis using n by (simp add: step(2) at)
  next
    case False
    then have "listed env d n' \<noteq> Some m" using uniq by blast
    then show ?thesis using False by (simp add: step(2) at split: option.split)
  qed
  then show ?case using step(1) by simp
qed

text \<open>Eviction keeps the newest sessions. When the directory reads as its files and each listed session is stored
  under its own id, the sessions listed after the clean-up of a save are exactly the 50 most recently
  updated ones of before, and none that was evicted is newer than one that stays.\<close>

theorem eviction_keeps_newest:
  assumes "reads_dir env (files d)" and "reads_dir env (files (cleanup_old_sessions env d))" and "stored_by_id env d"
  shows "mset (list_sessions env (cleanup_old_sessions env d)) = mset (take 50 (list_sessions env d))
    \<and> (\<forall>m\<in>set (list_sessions env (cleanup_old_sessions env d)).
         \<forall>m'\<in>set (list_sessions env d) - set (list_sessions env (cleanup_old_sessions env d)). updated_at m' \<le> updated_at m)"
proof -
  let ?ls = "list_sessions env d" and ?d = "cleanup_old_sessions env d"
  have same: "mset (list_sessions env ?d) = mset (take 50 ?ls)"
  proof (cases "MAX_SESSIONS < length ?ls")
    case False
    then show ?thesis by (simp add: cleanup_old_sessions_def MAX_SESSIONS_def)
  next
    case True
    then have d: "?d = fold (try_delete env) (drop 50 ?ls) d" by (simp add: cleanup_old_sessions_def MAX_SESSIONS_def)
    have dist: "distinct ?ls" by (rule distinct_list_sessions [OF assms(1,3)])
    have "\<exists>n. listed env d n = Some m" if "m \<in> set (drop 50 ?ls)" for m
      using that set_list_sessions [OF assms(1)] by (auto dest: in_set_dropD)
    from fold_try_delete [OF assms(3) _ this] dist
    have f: "stored_by_id env ?d" "\<And>n. listed env ?d n
        = (case listed env d n of Some m \<Rightarrow> if m \<in> set (drop 50 ?ls) then None else Some m | None \<Rightarrow> None)"
      unfolding d by simp_all
    have "set (list_sessions env ?d) = set ?ls - set (drop 50 ?ls)"
      unfolding set_list_sessions [OF assms(2)] set_list_sessions [OF assms(1)] f(2)
      by (auto split: option.splits if_splits)
    also have "\<dots> = set (take 50 ?ls)"
      using dist by (metis Diff_disjoint Un_Diff append_take_drop_id distinct_append set_append Diff_cancel
          Un_empty_right Diff_triv)
    finally show ?thesis
      using set_eq_iff_mset_eq_distinct [OF distinct_list_sessions [OF assms(2) f(1)]] dist by (metis distinct_take)
  qed
  have "sorted_wrt (\<lambda>m m'. updated_at m' \<le> updated_at m) (take 50 ?ls @ drop 50 ?ls)"
    using list_sessions_newest_first [of env d] by simp
  then have "updated_at m' \<le> updated_at m" if "m \<in> set (take 50 ?ls)" "m' \<in> set (drop 50 ?ls)" for m m'
    using that unfolding sorted_wrt_append by blast
  moreover have "set (list_sessions env ?d) = set (take 50 ?ls)" using same by (metis set_mset_mset)
  moreover have "set ?ls = set (take 50 ?ls) \<union> set (drop 50 ?ls)" by (metis append_take_drop_id set_append)
  ultimately show ?thesis using same by auto
qed

subsection \<open>Runs on a small store\<close>

text \<open>A store whose JSON is a toy: any text decodes as the one snapshot below, the journal lines are the sample ones.\<close>

definition sample_saved :: saved_session where
  "sample_saved =
     (create_saved_session 0 ''s'' [\<lparr>role = ''user'', blocks = []\<rparr>] ''m'' [] 0 None None)\<lparr>journal_bytes := Some 5\<rparr>"

definition sample_store :: store_env where
  "sample_store =
     \<lparr>from_str = (\<lambda>_. Inr JNull), from_value = (\<lambda>_. Inr sample_saved), to_pretty = (\<lambda>_. ''snap''),
      metadata_from_str = (\<lambda>_. None), journal_lines = sample_lines, dir_order = (\<lambda>_. [])\<rparr>"

lemma sample_saved_decodes: "decode_session sample_store ''snap'' = Inr sample_saved"
proof -
  have "repair_interrupted_tool_calls (saved_messages sample_saved) = (saved_messages sample_saved, [])"
    by code_simp
  then show ?thesis
    by (simp add: decode_session_def sample_store_def sample_saved_def create_saved_session_def
      CURRENT_SESSION_SCHEMA_VERSION_def strip_legacy_truncation_note_def system_prompt_to_string_def)
qed

lemma crash_before_snapshot_recovers_witness:
  "let a = \<lparr>role = ''user'', blocks = []\<rparr>; b = \<lparr>role = ''assistant'', blocks = []\<rparr>;
       line = (\<lambda>t. t @ [CHR 0x0A]);
       grown = line ''H'' @ line ''Aa'' @ line ''S'' @ line ''Ab'' @ ''A'';
       d = \<lparr>files = [''s.json'' \<mapsto> ''snap'', ''s.journal.jsonl'' \<mapsto> grown], subdirs = [], checkpoint = None\<rparr>
   in \<exists>s'. load_session sample_store d ''s'' = Inr s' \<and> saved_messages s' = [a, b]"
proof -
  let ?a = "\<lparr>role = ''user'', blocks = []\<rparr> :: message" and ?b = "\<lparr>role = ''assistant'', blocks = []\<rparr> :: message"
  let ?before = "[(''t0'', Header 1 ''s''), (''t0'', Append [?a])]"
  let ?flushes = "[(''t1'', [Rebuild ''session sync/restore'' 0 [?a], Append [?b]])]"
  let ?dir0 = "[''s.journal.jsonl'' \<mapsto> stamped_text sample_lines ?before]"
  let ?grown = "''H'' @ [CHR 0x0A] @ ''Aa'' @ [CHR 0x0A] @ ''S'' @ [CHR 0x0A] @ ''Ab'' @ [CHR 0x0A]"
  let ?dir1 = "[''s.journal.jsonl'' \<mapsto> ?grown]"
  let ?d = "\<lparr>files = [''s.json'' \<mapsto> ''snap'', ''s.journal.jsonl'' \<mapsto> ?grown @ ''A''], subdirs = [], checkpoint = None\<rparr>"
  have env: "journal_lines sample_store = sample_lines" by (simp add: sample_store_def)
  have bytes: "stamped_text sample_lines ?before = ''H'' @ [CHR 0x0A] @ ''Aa'' @ [CHR 0x0A]"
    by (simp add: sample_lines_def sample_table_def)
  have t: "trim ''s'' = ''s''" by code_simp
  have p: "validated_session_path ''s'' = Inr ''s.json''" by code_simp
  have q: "journal_path sample_lines ''s'' = Inr ''s.journal.jsonl''" by code_simp
  have u: "utf8_ok ''snap''" "utf8_ok ''A''" "trim ''A'' = ''A''" by code_simp+
  have saved: "meta_id (metadata sample_saved) = ''s''" "journal_bytes sample_saved = Some 5"
    by (simp_all add: sample_saved_def create_saved_session_def)
  have ready: "all_readable sample_lines ?before"
    using sample_lines_readable by (simp add: sample_table_def)
  have folds: "fold_transcript (map snd ?before) = Inr [?a]" "reconstruct_requests (map snd ?before) = Inr []"
    by (simp_all add: fold_transcript_def reconstruct_requests_def)
  let ?l = "snd (journal_of_session (RebuildLog SessionSync [?a] # [PushMessage False ?b]) (enable_journal new_log))"
  have run: "journal_of_session (RebuildLog SessionSync [?a] # [PushMessage False ?b]) (enable_journal new_log)
      = (concat (map snd ?flushes), ?l)" and l: "log_messages ?l = [?a, ?b]"
    by (simp_all add: journal_of_session_def take_journal_entries_def log_push_def log_rebuild_def enable_journal_def
      new_log_def seal_tail_def)
  have written: "list_all (\<lambda>(now, entries). list_all (readable sample_lines) (written_too ''s'' entries @ entries)) ?flushes"
    using sample_lines_readable by (simp add: sample_table_def written_too_def JOURNAL_FORMAT_VERSION_def t)
  have read: "read_journal sample_lines ?dir0 ''s.journal.jsonl'' = Inr (map snd ?before)"
    using read_stamped [where cd = sample_lines and ses = ?before and frag = "[]" and path = "''s.journal.jsonl''" and dir = ?dir0] ready
    by simp
  have kept: "drop_torn_tail (stamped_text sample_lines ?before) = stamped_text sample_lines ?before"
    using drop_torn_stamped [where cd = sample_lines and ses = ?before and frag = "[]"] ready by simp
  have resumed: "resume_entries sample_lines ?dir0 ''s.journal.jsonl'' [Rebuild ''session sync/restore'' 0 [?a], Append [?b]]
      = [Resume 1, Append [?b]]"
    unfolding resume_entries_def read by (simp add: fold_transcript_def)
  have lines: "journal_text sample_lines ''t1'' [Resume 1, Append [?b]] = ''S'' @ [CHR 0x0A] @ ''Ab'' @ [CHR 0x0A]"
    by (simp add: journal_text_def sample_lines_def sample_table_def)
  have "?dir0(''s.journal.jsonl'' \<mapsto> stamped_text sample_lines ?before) = ?dir0" by simp
  then have appended: "append_batches sample_lines ''s'' ?flushes ?dir0 = Inr ?dir1"
    using kept resumed lines bytes by (simp add: journal_append_def q Let_def del: stamped_text_simps)
  have same: "fst (repair_interrupted_tool_calls [?a, ?b]) = [?a, ?b]" by code_simp
  have snap: "files ?d ''s.json'' = Some ''snap''" by simp
  have size: "journal_bytes sample_saved = Some (length (stamped_text sample_lines ?before))"
    unfolding bytes saved by simp
  have first: "?dir0 ''s.journal.jsonl'' = Some (stamped_text sample_lines ?before)" by simp
  have last_line: "files ?d ''s.journal.jsonl'' = map_option (\<lambda>t. t @ ''A'') (?dir1 ''s.journal.jsonl'')"
    "CHR 0x0A \<notin> set ''A''" "trim ''A'' = [] \<or> (\<exists>err. parse_line sample_lines ''A'' = Inl err)"
    by (simp_all add: sample_lines_def sample_table_def)
  from crash_before_snapshot_recovers [where env = sample_store and d = ?d and before_dir = ?dir0 and after_dir = ?dir1 and before = ?before and flushes = ?flushes
        and frag = "''A''" and l = ?l, unfolded env,
      OF p snap u(1) sample_saved_decodes size _ first ready folds run _ _ last_line(1,2) u(2) last_line(3), unfolded saved(1),
      OF q written appended]
  show ?thesis unfolding l same by (simp add: Let_def)
qed

text \<open>A directory of one session whose metadata reads at the front of its file.\<close>

definition sample_listing :: store_env where
  "sample_listing = sample_store\<lparr>metadata_from_str := (\<lambda>_. Some (metadata sample_saved)), dir_order := (\<lambda>_. [''s.json''])\<rparr>"

lemma eviction_keeps_newest_witness:
  "let d = \<lparr>files = [''s.json'' \<mapsto> [CHR 0x22] @ ''metadata'' @ [CHR 0x22] @ '':{}''], subdirs = [], checkpoint = None\<rparr>
   in mset (list_sessions sample_listing (cleanup_old_sessions sample_listing d)) = {#metadata sample_saved#}"
proof -
  let ?d = "\<lparr>files = [''s.json'' \<mapsto> [CHR 0x22] @ ''metadata'' @ [CHR 0x22] @ '':{}''], subdirs = [], checkpoint = None\<rparr>"
  have buf: "find_key False False ([CHR 0x22] @ ''metadata'' @ [CHR 0x22] @ '':{}'')
      = Some ([CHR 0x22] @ ''metadata'' @ [CHR 0x22] @ '':{}'')" by code_simp
  have "utf8_ok ([CHR 0x22] @ ''metadata'' @ [CHR 0x22] @ '':{}'')"
    "dropWhile latin_ws (drop (length metadata_key) ([CHR 0x22] @ ''metadata'' @ [CHR 0x22] @ '':{}'')) = '':{}''"
    "dropWhile latin_ws ''{}'' = ''{}''" "starts_with '':{}'' '':''" "starts_with ''{}'' [CHR 0x7B]"
    "object_len 0 False False ''{}'' = Some 2" by code_simp+
  with buf have "load_session_metadata sample_listing ([CHR 0x22] @ ''metadata'' @ [CHR 0x22] @ '':{}'')
      = Some (metadata sample_saved)"
    by (simp add: load_session_metadata_def extract_top_level_metadata_def sample_listing_def sample_store_def Let_def)
  then have at: "Option.bind (files ?d ''s.json'') (load_session_metadata sample_listing) = Some (metadata sample_saved)"
    by simp
  have name: "is_session_file ''s.json''" "validated_session_path ''s'' = Inr ''s.json''" by code_simp+
  have order: "dir_order sample_listing fs = [''s.json'']" for fs by (simp add: sample_listing_def)
  have all: "list_sessions sample_listing ?d = [metadata sample_saved]"
    unfolding list_sessions_def order using name at by (simp add: map_filter_filter List.map_filter_simps del: bind.simps)
  have same: "cleanup_old_sessions sample_listing ?d = ?d"
    unfolding cleanup_old_sessions_def all by (simp add: MAX_SESSIONS_def)
  have reads: "reads_dir sample_listing (files ?d)" by (simp add: reads_dir_def order)
  have "meta_id (metadata sample_saved) = ''s''" by (simp add: sample_saved_def create_saved_session_def)
  then have "stored_by_id sample_listing ?d"
    using name at by (auto simp: stored_by_id_def listed_def split: if_splits)
  from eviction_keeps_newest [OF reads _ this] reads same all show ?thesis by (simp add: Let_def)
qed

end
