(* ===== verification/PatchFormat.thy ===== *)
theory PatchFormat
  imports Dispatch Text_Lemmas
begin

section \<open>tool-impls: unified diffs\<close>

text \<open>
  What an \<open>apply_patch\<close> call means before anything is read or written (\<open>tool-impls/src/tools/apply_patch.rs\<close>, the
  parser and the preflight, with the input helpers of \<open>tools/src/lib.rs\<close>). A \<open>usize\<close> is a \<open>nat\<close> below
  \<open>2 ^ 64\<close> where it is read from text, and the budget of a hunk's lines wraps as the release build does. The JSON
  text in an error message is an argument.
\<close>

subsection \<open>Fields of the input\<close>

definition required_str :: "(json \<Rightarrow> str) \<Rightarrow> json \<Rightarrow> str \<Rightarrow> tool_error + str" where
  "required_str show_json input field =
     (case json_get field input of
        Some (JStr s) \<Rightarrow> Inr s
      | None \<Rightarrow>
          Inl (case input of
                 JObj ms \<Rightarrow>
                   if ms = [] then MissingField field
                   else InvalidInput (''missing required field '' @ [CHR 0x27] @ field @ [CHR 0x27] @ ''. Input provided: ''
                          @ join '', '' (map fst ms))
               | _ \<Rightarrow> MissingField field)
      | Some v \<Rightarrow> Inl (InvalidInput (''field '' @ [CHR 0x27] @ field @ [CHR 0x27] @ '' must be a string, got: '' @ show_json v)))"

definition optional_str :: "json \<Rightarrow> str \<Rightarrow> str option" where
  "optional_str input field = Option.bind (json_get field input) as_str"

definition optional_u64 :: "(json \<Rightarrow> str) \<Rightarrow> json \<Rightarrow> str \<Rightarrow> 64 word \<Rightarrow> tool_error + 64 word" where
  "optional_u64 show_json input field dflt =
     (case json_get field input of
        None \<Rightarrow> Inr dflt
      | Some JNull \<Rightarrow> Inr dflt
      | Some v \<Rightarrow>
          (case as_u64 v of
             Some n \<Rightarrow> Inr n
           | None \<Rightarrow> Inl (InvalidInput (''field '' @ [CHR 0x27] @ field @ [CHR 0x27] @ '' must be a non-negative integer, got: ''
                       @ show_json v))))"

definition optional_bool :: "(json \<Rightarrow> str) \<Rightarrow> json \<Rightarrow> str \<Rightarrow> bool \<Rightarrow> tool_error + bool" where
  "optional_bool show_json input field dflt =
     (case json_get field input of
        None \<Rightarrow> Inr dflt
      | Some JNull \<Rightarrow> Inr dflt
      | Some v \<Rightarrow>
          (case as_bool v of
             Some b \<Rightarrow> Inr b
           | None \<Rightarrow> Inl (InvalidInput (''field '' @ [CHR 0x27] @ field @ [CHR 0x27] @ '' must be a boolean, got: '' @ show_json v))))"

subsection \<open>Hunks\<close>

datatype hunk_line = ContextLine str | AddLine str | RemoveLine str

record hunk =
  old_start :: nat
  old_count :: nat
  new_start :: nat
  new_count :: nat
  hunk_lines :: "hunk_line list"

definition parse_range :: "str \<Rightarrow> tool_error + nat \<times> nat" where
  "parse_range rng =
     (let parts = split_char (CHR '','') rng
      in case parse_uint 64 (parts ! 0) of
           None \<Rightarrow> Inl (InvalidInput (''Invalid line number `'' @ parts ! 0
                    @ ''` in hunk header. Use positive integers like `12` or `12,3`.''))
         | Some start \<Rightarrow>
             if 1 < length parts
             then (case parse_uint 64 (parts ! 1) of
                     None \<Rightarrow> Inl (InvalidInput (''Invalid line count `'' @ parts ! 1
                              @ ''` in hunk header. Use positive integers like `3`.''))
                   | Some n \<Rightarrow> Inr (start, n))
             else Inr (start, 1))"

definition starts_section :: "str \<Rightarrow> bool" where
  "starts_section l \<longleftrightarrow> starts_with l ''diff '' \<or> starts_with l ''--- '' \<or> starts_with l ''+++ ''"

text \<open>The lines of a hunk within a budget, and the lines left.\<close>

fun take_hunk_lines :: "nat \<Rightarrow> str list \<Rightarrow> hunk_line list \<times> str list" where
  "take_hunk_lines 0 ls = ([], ls)"
| "take_hunk_lines (Suc n) [] = ([], [])"
| "take_hunk_lines (Suc n) (l # ls) =
     (if starts_with l ''@@'' \<or> starts_section l then ([], l # ls)
      else
        let (hs, rest) = take_hunk_lines n ls
        in if starts_with l ''-'' then (RemoveLine (tl l) # hs, rest)
           else if starts_with l ''+'' then (AddLine (tl l) # hs, rest)
           else if starts_with l '' '' \<or> l = [] then (ContextLine (tl l) # hs, rest)
           else if \<not> starts_with l [CHR 0x5C] then (ContextLine l # hs, rest)
           else (hs, rest))"

text \<open>\<open>for _ in 0..expected_lines * 2\<close>, in 64-bit arithmetic.\<close>

definition line_budget :: "nat \<Rightarrow> nat \<Rightarrow> nat" where
  "line_budget old_n new_n = (max old_n new_n + min old_n new_n) mod 2 ^ 64 * 2 mod 2 ^ 64"

text \<open>For evaluation: the modulus is taken of an integer.\<close>

lemma line_budget_code [code]: "line_budget m n = nat (int (max m n + min m n) mod 2 ^ 64 * 2 mod 2 ^ 64)"
proof -
  have "int (line_budget m n) = int (max m n + min m n) mod 2 ^ 64 * 2 mod 2 ^ 64"
    unfolding line_budget_def of_nat_mod of_nat_mult of_nat_power by simp
  then show ?thesis by (metis nat_int)
qed

definition parse_hunk_header :: "str \<Rightarrow> str list \<Rightarrow> tool_error + hunk \<times> str list" where
  "parse_hunk_header header ls =
     (let parts = split_whitespace header
      in if length parts < 3
         then Inl (InvalidInput (''Invalid hunk header: '' @ header @ ''. Expected `@@ -start,count +start,count @@`.''))
         else
           try_bind (parse_range (trim_start_chars ''-'' (parts ! 1))) (\<lambda>(os, oc).
           try_bind (parse_range (trim_start_chars ''+'' (parts ! 2))) (\<lambda>(ns, nc).
             let (hs, rest) = take_hunk_lines (line_budget oc nc) ls
             in Inr (\<lparr>old_start = os, old_count = oc, new_start = ns, new_count = nc, hunk_lines = hs\<rparr>, rest))))"

lemma take_hunk_lines_shorter: "length (snd (take_hunk_lines n ls)) \<le> length ls"
  by (induction n ls rule: take_hunk_lines.induct) (auto simp: Let_def split: prod.splits)

lemma parse_hunk_header_shorter:
  assumes "parse_hunk_header l ls = Inr (h, rest)"
  shows "length rest \<le> length ls"
proof -
  obtain n where "rest = snd (take_hunk_lines n ls)"
    using assms
    by (auto simp: parse_hunk_header_def Let_def try_bind_Inr_iff case_prod_unfold split: if_splits)
  then show ?thesis by (simp add: take_hunk_lines_shorter)
qed

function parse_hunks :: "str list \<Rightarrow> tool_error + hunk list" where
  "parse_hunks [] = Inr []"
| "parse_hunks (l # ls) =
     (if starts_with l ''@@''
      then (case parse_hunk_header l ls of
              Inl e \<Rightarrow> Inl e
            | Inr (h, rest) \<Rightarrow> try_bind (parse_hunks rest) (\<lambda>hs. Inr (h # hs)))
      else parse_hunks ls)"
  by pat_completeness auto
termination
  by (relation "measure length") (auto dest: parse_hunk_header_shorter)

definition parse_unified_diff :: "str \<Rightarrow> tool_error + hunk list" where
  "parse_unified_diff patch = parse_hunks (dropWhile (\<lambda>l. \<not> starts_with l ''@@'') (str_lines patch))"

subsection \<open>Files\<close>

definition normalize_diff_path :: "str \<Rightarrow> str option" where
  "normalize_diff_path raw0 =
     (let raw = trim_chars [CHR 0x22] (trim (before_char (CHR 0x09) raw0))
      in if raw = [] then None
         else if raw = ''/dev/null'' \<or> raw = ''dev/null'' then None
         else Some (case strip_prefix ''a/'' raw of
                      Some p \<Rightarrow> p
                    | None \<Rightarrow> (case strip_prefix ''b/'' raw of Some p \<Rightarrow> p | None \<Rightarrow> raw)))"

record file_patch =
  patch_path :: str
  patch_hunks :: "hunk list"
  delete_after :: bool
  create_if_missing :: bool

definition resolve_diff_paths :: "str option \<Rightarrow> str option \<Rightarrow> bool \<Rightarrow> tool_error + str \<times> bool \<times> bool" where
  "resolve_diff_paths old_path new_path create =
     (let old_norm = Option.bind old_path normalize_diff_path; new_norm = Option.bind new_path normalize_diff_path
      in case (case new_norm of Some p \<Rightarrow> Some p | None \<Rightarrow> old_norm) of
           Some p \<Rightarrow> Inr (p, new_norm = None, create \<or> old_norm = None)
         | None \<Rightarrow> Inl (InvalidInput ''Patch is missing both old and new file paths''))"

definition finished :: "file_patch option \<Rightarrow> file_patch list" where
  "finished current = (case current of Some f \<Rightarrow> [f] | None \<Rightarrow> [])"

definition hunk_without_file :: "str option \<Rightarrow> tool_error" where
  "hunk_without_file old_path =
     InvalidInput (case old_path of
         Some p \<Rightarrow> ''Patch hunk encountered after `--- '' @ p
            @ ''` but before a matching `+++` header. Each file section must include both headers.''
       | None \<Rightarrow> ''Patch hunk encountered before any file header. Add `---`/`+++` headers or provide `path`.'')"

function parse_files :: "bool \<Rightarrow> str list \<Rightarrow> file_patch option \<Rightarrow> str option \<Rightarrow> tool_error + file_patch list" where
  "parse_files create [] current old_path = Inr (finished current)"
| "parse_files create (l # ls) current old_path =
     (if starts_with l ''diff --git ''
      then try_bind (parse_files create ls None None) (\<lambda>fs. Inr (finished current @ fs))
      else case strip_prefix ''--- '' l of
        Some stripped \<Rightarrow> parse_files create ls current (Some (trim stripped))
      | None \<Rightarrow>
        (case strip_prefix ''+++ '' l of
           Some stripped \<Rightarrow>
             (case resolve_diff_paths old_path (Some (trim stripped)) create of
                Inl e \<Rightarrow> Inl e
              | Inr (p, del, cr) \<Rightarrow>
                  try_bind (parse_files create ls
                      (Some \<lparr>patch_path = p, patch_hunks = [], delete_after = del, create_if_missing = cr\<rparr>) None)
                    (\<lambda>fs. Inr (finished current @ fs)))
         | None \<Rightarrow>
             if starts_with l ''@@''
             then (case current of
                     None \<Rightarrow> Inl (hunk_without_file old_path)
                   | Some f \<Rightarrow>
                       (case parse_hunk_header l ls of
                          Inl e \<Rightarrow> Inl e
                        | Inr (h, rest) \<Rightarrow> parse_files create rest (Some (f\<lparr>patch_hunks := patch_hunks f @ [h]\<rparr>)) old_path))
             else parse_files create ls current old_path))"
  by pat_completeness auto
termination
  by (relation "measure (\<lambda>(c, ls, cur, p). length ls)") (auto dest: parse_hunk_header_shorter)

definition parse_unified_diff_files :: "str \<Rightarrow> bool \<Rightarrow> tool_error + file_patch list" where
  "parse_unified_diff_files patch create = parse_files create (str_lines patch) None None"

subsection \<open>The preflight\<close>

record patch_shape =
  has_hunks :: bool
  header_files :: "str list"

text \<open>The set of files seen is the list of header files itself.\<close>

fun shape_from :: "str list \<Rightarrow> str option \<Rightarrow> patch_shape \<Rightarrow> patch_shape" where
  "shape_from [] old_path shape = shape"
| "shape_from (l # ls) old_path shape0 =
     (let shape = (if starts_with l ''@@'' then shape0\<lparr>has_hunks := True\<rparr> else shape0)
      in case strip_prefix ''--- '' l of
           Some stripped \<Rightarrow> shape_from ls (normalize_diff_path stripped) shape
         | None \<Rightarrow>
             (case strip_prefix ''+++ '' l of
                Some stripped \<Rightarrow>
                  (case (case normalize_diff_path stripped of Some p \<Rightarrow> Some p | None \<Rightarrow> old_path) of
                     Some p \<Rightarrow>
                       shape_from ls None
                         (if p \<in> set (header_files shape) then shape else shape\<lparr>header_files := header_files shape @ [p]\<rparr>)
                   | None \<Rightarrow> shape_from ls None shape)
              | None \<Rightarrow> shape_from ls old_path shape))"

definition inspect_patch_shape :: "str \<Rightarrow> patch_shape" where
  "inspect_patch_shape patch = shape_from (str_lines patch) None \<lparr>has_hunks = False, header_files = []\<rparr>"

definition FILE_LIST_LIMIT :: nat where "FILE_LIST_LIMIT = 6"

definition format_file_list :: "str list \<Rightarrow> str" where
  "format_file_list files =
     (if files = [] then ''<none>''
      else
        let shown = take FILE_LIST_LIMIT files; remaining = length files - length shown
        in join '', '' (if 0 < remaining then shown @ [''... (+'' @ show_nat remaining @ '' more)''] else shown))"

definition validate_patch_shape :: "patch_shape \<Rightarrow> str option \<Rightarrow> tool_error + unit" where
  "validate_patch_shape shape path_override =
     (if \<not> has_hunks shape
      then Inl (InvalidInput ''Patch must include at least one hunk header (`@@ -start,count +start,count @@`).'')
      else (case path_override of
              Some _ \<Rightarrow>
                if 1 < length (header_files shape)
                then Inl (InvalidInput (''Patch references multiple files ('' @ format_file_list (header_files shape)
                       @ '') but `path` was provided. Remove `path` to apply a multi-file patch, or provide a single-file patch.''))
                else Inr ()
            | None \<Rightarrow>
                if header_files shape = []
                then Inl (InvalidInput
                       ''Patch contains hunks but no file headers (`---`/`+++`). Provide `path` or add headers.'')
                else Inr ()))"

definition diff_header_mismatch :: "str \<Rightarrow> patch_shape \<Rightarrow> str option" where
  "diff_header_mismatch path_override shape =
     (case header_files shape of
        [header_path] \<Rightarrow>
          let override_norm = (case normalize_diff_path path_override of Some p \<Rightarrow> p | None \<Rightarrow> path_override)
          in if override_norm = header_path then None
             else Some (''Note: patch headers reference `'' @ header_path @ ''` but `path` overrides to `'' @ override_norm @ ''`.'')
      | _ \<Rightarrow> None)"

definition push_unique :: "str list \<Rightarrow> str \<Rightarrow> str list" where
  "push_unique target v = (if v \<in> set target then target else target @ [v])"

record patch_preflight =
  touched_files :: "str list"
  files_total :: nat
  hunks_total :: nat
  creates :: "str list"
  deletes :: "str list"
  path_override :: "str option"
  header_path_mismatch :: "str option"

datatype preflight_kind = Changes | PathOverride str "hunk list" | FilePatches "file_patch list"

fun changed_files :: "json list \<Rightarrow> tool_error + str list" where
  "changed_files [] = Inr []"
| "changed_files (c # cs) =
     (case Option.bind (json_get ''path'' c) as_str of
        None \<Rightarrow> Inl (MissingField ''changes[].path'')
      | Some p \<Rightarrow>
          (case Option.bind (json_get ''content'' c) as_str of
             None \<Rightarrow> Inl (MissingField ''changes[].content'')
           | Some _ \<Rightarrow> try_bind (changed_files cs) (\<lambda>ps. Inr (p # ps))))"

definition changes_array :: "json \<Rightarrow> tool_error + json list" where
  "changes_array changes_value =
     (case as_array changes_value of
        None \<Rightarrow> Inl (InvalidInput ''`changes` must be an array of objects like {path, content}'')
      | Some changes \<Rightarrow>
          if changes = [] then Inl (InvalidInput ''`changes` cannot be empty'') else Inr changes)"

definition preflight_changes :: "json \<Rightarrow> tool_error + patch_preflight" where
  "preflight_changes changes_value =
     try_bind (changes_array changes_value) (\<lambda>changes.
     try_bind (changed_files changes) (\<lambda>ps.
       Inr \<lparr>touched_files = foldl push_unique [] ps, files_total = length changes, hunks_total = 0, creates = [], deletes = [],
            path_override = None, header_path_mismatch = None\<rparr>))"

fun add_file_patches :: "file_patch list \<Rightarrow> patch_preflight \<Rightarrow> tool_error + patch_preflight" where
  "add_file_patches [] s = Inr s"
| "add_file_patches (f # fs) s =
     (if patch_hunks f = []
      then Inl (InvalidInput (''Patch section for `'' @ patch_path f @ ''` has no hunks (`@@ ... @@`).''))
      else add_file_patches fs
        (s\<lparr>touched_files := push_unique (touched_files s) (patch_path f),
           hunks_total := hunks_total s + length (patch_hunks f),
           creates := (if create_if_missing f \<and> \<not> delete_after f then push_unique (creates s) (patch_path f) else creates s),
           deletes := (if delete_after f then push_unique (deletes s) (patch_path f) else deletes s)\<rparr>))"

definition preflight_plan :: "(json \<Rightarrow> str) \<Rightarrow> json \<Rightarrow> tool_error + patch_preflight \<times> preflight_kind" where
  "preflight_plan show_json input =
     try_bind (optional_bool show_json input ''create_if_missing'' False) (\<lambda>create.
       case json_get ''changes'' input of
         Some changes_value \<Rightarrow> try_bind (preflight_changes changes_value) (\<lambda>s. Inr (s, Changes))
       | None \<Rightarrow>
           try_bind (required_str show_json input ''patch'') (\<lambda>patch.
             let override = optional_str input ''path''; shape = inspect_patch_shape patch
             in try_bind (validate_patch_shape shape override) (\<lambda>_.
               let mismatch = Option.bind override (\<lambda>p. diff_header_mismatch p shape)
               in case override of
                    Some p \<Rightarrow>
                      try_bind (parse_unified_diff patch) (\<lambda>hs.
                        if hs = []
                        then Inl (InvalidInput ''Patch did not contain any hunks (`@@ ... @@`). Provide a unified diff hunk.'')
                        else Inr (\<lparr>touched_files = [p], files_total = 1, hunks_total = length hs,
                               creates = (if create then [p] else []), deletes = [], path_override = Some p,
                               header_path_mismatch = mismatch\<rparr>, PathOverride p hs))
                  | None \<Rightarrow>
                      try_bind (parse_unified_diff_files patch create) (\<lambda>fps.
                        if fps = []
                        then Inl (InvalidInput
                               ''No valid file patches found. Ensure the patch includes `---`/`+++` headers or provide `path`.'')
                        else try_bind (add_file_patches fps
                               \<lparr>touched_files = [], files_total = length fps, hunks_total = 0, creates = [], deletes = [],
                                path_override = None, header_path_mismatch = mismatch\<rparr>)
                             (\<lambda>s. Inr (s, FilePatches fps))))))"

definition preflight_apply_patch :: "(json \<Rightarrow> str) \<Rightarrow> json \<Rightarrow> tool_error + patch_preflight" where
  "preflight_apply_patch show_json input = try_bind (preflight_plan show_json input) (\<lambda>(s, _). Inr s)"

lemma str_lines_unlines:
  assumes "\<And>l. l \<in> set ls \<Longrightarrow> CHR 0x0A \<notin> set l \<and> (l = [] \<or> last l \<noteq> CHR 0x0D)"
  shows "str_lines (concat (map (\<lambda>l. l @ [CHR 0x0A]) ls)) = ls"
proof -
  have line: "CHR 0x0A \<notin> set l \<Longrightarrow> str_lines_acc cur (l @ CHR 0x0A # r) =
     (if cur @ l \<noteq> [] \<and> last (cur @ l) = CHR 0x0D then butlast (cur @ l) else cur @ l) # str_lines r" for cur l r
    by (induction l arbitrary: cur) (auto simp: str_lines_def)
  show ?thesis using assms
  proof (induction ls)
    case (Cons l ls)
    have "str_lines (l @ CHR 0x0A # concat (map (\<lambda>l. l @ [CHR 0x0A]) ls)) = l # str_lines (concat (map (\<lambda>l. l @ [CHR 0x0A]) ls))"
      unfolding str_lines_def [of "l @ _"] using Cons.prems [of l] line [of l "[]"] by auto
    then show ?case using Cons by simp
  qed (simp add: str_lines_def)
qed

subsection \<open>The text of a patch\<close>

fun line_text :: "hunk_line \<Rightarrow> str" where
  "line_text (ContextLine s) = '' '' @ s"
| "line_text (AddLine s) = ''+'' @ s"
| "line_text (RemoveLine s) = ''-'' @ s"

definition header_text :: "hunk \<Rightarrow> str" where
  "header_text h = join '' '' [''@@'', ''-'' @ show_nat (old_start h) @ '','' @ show_nat (old_count h),
     ''+'' @ show_nat (new_start h) @ '','' @ show_nat (new_count h), ''@@'']"

definition hunk_text :: "hunk \<Rightarrow> str list" where
  "hunk_text h = header_text h # map line_text (hunk_lines h)"

definition file_text_lines :: "file_patch \<Rightarrow> str list" where
  "file_text_lines f =
     (''--- '' @ (if create_if_missing f then ''/dev/null'' else ''a/'' @ patch_path f))
     # (''+++ '' @ (if delete_after f then ''/dev/null'' else ''b/'' @ patch_path f))
     # concat (map hunk_text (patch_hunks f))"

definition patch_text :: "file_patch list \<Rightarrow> str" where
  "patch_text fs = concat (map (\<lambda>l. l @ [CHR 0x0A]) (concat (map file_text_lines fs)))"

text \<open>A line whose text is a line of a hunk and nothing else.\<close>

fun raw_line :: "hunk_line \<Rightarrow> str" where
  "raw_line (ContextLine s) = s"
| "raw_line (AddLine s) = s"
| "raw_line (RemoveLine s) = s"

definition line_fits :: "hunk_line \<Rightarrow> bool" where
  "line_fits l \<longleftrightarrow> CHR 0x0A \<notin> set (raw_line l) \<and> (raw_line l = [] \<or> last (raw_line l) \<noteq> CHR 0x0D)
     \<and> \<not> starts_section (line_text l)"

fun is_old :: "hunk_line \<Rightarrow> bool" where
  "is_old (AddLine s) = False"
| "is_old _ = True"

fun is_new :: "hunk_line \<Rightarrow> bool" where
  "is_new (RemoveLine s) = False"
| "is_new _ = True"

definition hunk_fits :: "hunk \<Rightarrow> bool" where
  "hunk_fits h \<longleftrightarrow> list_all line_fits (hunk_lines h)
     \<and> old_count h = length (filter is_old (hunk_lines h)) \<and> new_count h = length (filter is_new (hunk_lines h))
     \<and> length (hunk_lines h) < 2 ^ 62 \<and> old_start h < 2 ^ 64 \<and> new_start h < 2 ^ 64"

definition path_fits :: "str \<Rightarrow> bool" where
  "path_fits p \<longleftrightarrow> p \<noteq> [] \<and> no_ws p \<and> CHR 0x22 \<notin> set p"

definition file_fits :: "file_patch \<Rightarrow> bool" where
  "file_fits f \<longleftrightarrow> path_fits (patch_path f) \<and> list_all hunk_fits (patch_hunks f)
     \<and> \<not> (create_if_missing f \<and> delete_after f)"

lemma take_hunk_lines_text:
  assumes "list_all line_fits hs" and "length hs \<le> n" and "rest = [] \<or> starts_with (hd rest) ''@@'' \<or> starts_section (hd rest)"
  shows "take_hunk_lines n (map line_text hs @ rest) = (hs, rest)"
  using assms(1,2)
proof (induction hs arbitrary: n)
  case Nil
  show ?case using assms(3) by (cases n; cases rest) auto
next
  case (Cons h hs)
  obtain k where k: "n = Suc k" using Cons.prems(2) by (cases n) auto
  have "\<not> starts_with (line_text h) ''@@''" by (cases h) auto
  moreover have "\<not> starts_section (line_text h)" using Cons.prems(1) by (simp add: line_fits_def)
  moreover have "take_hunk_lines k (map line_text hs @ rest) = (hs, rest)" using Cons k by simp
  ultimately show ?case by (cases h) (simp_all add: k)
qed

lemma parse_range_text: "n < 2 ^ 64 \<Longrightarrow> m < 2 ^ 64 \<Longrightarrow> parse_range (show_nat n @ '','' @ show_nat m) = Inr (n, m)"
proof -
  assume "n < 2 ^ 64" "m < 2 ^ 64"
  have comma: "CHR '','' \<notin> set digit_chars" by code_simp
  have none: "split_char (CHR '','') (show_nat k) = [show_nat k]" for k
  proof -
    have "CHR '','' \<notin> set s \<Longrightarrow> split_char (CHR '','') s = [s]" for s by (induction s) auto
    then show ?thesis using show_nat_digits [of k] comma by blast
  qed
  have "split_char (CHR '','') (show_nat n @ CHR '','' # show_nat m) = [show_nat n, show_nat m]"
    by (subst split_on_join) (simp_all add: none)
  then show ?thesis using \<open>n < 2 ^ 64\<close> \<open>m < 2 ^ 64\<close> by (simp add: parse_range_def parse_show_nat)
qed

definition ws_heads :: "char list" where "ws_heads = map hd ws_encodings"

lemma no_ws_Cons:
  assumes "c \<notin> set ws_heads"
  shows "no_ws (c # t) = no_ws t"
proof -
  have "\<not> prefix w (c # t)" if "w \<in> set ws_encodings" for w
  proof
    assume "prefix w (c # t)"
    moreover have "w \<noteq> []" using that ws_encodings_nonempty by blast
    ultimately have "hd w = c" by (cases w) auto
    then show False using assms that by (auto simp: ws_heads_def)
  qed
  then have "ws_len (c # t) = 0" unfolding ws_len_0_iff by blast
  then show ?thesis by simp
qed

lemma no_ws_append_plain: "list_all (\<lambda>c. c \<notin> set ws_heads) s \<Longrightarrow> no_ws (s @ t) = no_ws t"
  by (induction s) (simp_all add: no_ws_Cons del: no_ws.simps(2))

lemma plain_bytes: "list_all (\<lambda>c. c \<notin> set ws_heads) (digit_chars @ '',-+ab/'')"
  by code_simp

lemma range_word: "is_word (c # show_nat n @ '','' @ show_nat m)" if "c \<in> set ''-+''"
proof -
  have d: "list_all (\<lambda>c. c \<notin> set ws_heads) (show_nat k)" for k
    using show_nat_digits [of k] plain_bytes by (auto simp: list_all_iff)
  have "no_ws (c # show_nat n @ CHR '','' # show_nat m) = no_ws (show_nat n @ CHR '','' # show_nat m)"
    by (rule no_ws_Cons) (use that plain_bytes in \<open>auto simp: list_all_iff\<close>)
  also have "\<dots> = no_ws (CHR '','' # show_nat m)" by (rule no_ws_append_plain [OF d])
  also have "\<dots> = no_ws (show_nat m)" by (rule no_ws_Cons) (use plain_bytes in \<open>simp add: list_all_iff\<close>)
  finally show ?thesis by (simp add: is_word_def show_nat_no_ws)
qed

lemma trim_sign: "c \<notin> set digit_chars \<Longrightarrow> trim_start_chars [c] (c # show_nat n @ t) = show_nat n @ t"
  using show_nat_digits [of n] by (cases "show_nat n") (auto simp: trim_start_chars_def)

lemma budget_enough: "length hs < 2 ^ 62 \<Longrightarrow> length hs \<le> line_budget (length (filter is_old hs)) (length (filter is_new hs))"
proof -
  assume small: "length hs < 2 ^ 62"
  let ?o = "length (filter is_old hs)" and ?n = "length (filter is_new hs)"
  have "length hs \<le> ?o + ?n"
  proof (induction hs)
    case (Cons h hs)
    then show ?case by (cases h) auto
  qed simp
  moreover have o: "?o < 2 ^ 62" and n: "?n < 2 ^ 62" using small by (auto intro: le_less_trans [OF length_filter_le])
  ultimately have "length hs \<le> (?o + ?n) * 2" "(?o + ?n) * 2 < 2 ^ 64" "?o + ?n < 2 ^ 64"
    using add_strict_mono [OF o n] by simp_all
  moreover have "max ?o ?n + min ?o ?n = ?o + ?n" by simp
  ultimately show ?thesis by (simp add: line_budget_def)
qed

lemma parse_hunk_text:
  assumes "hunk_fits h" and "rest = [] \<or> starts_with (hd rest) ''@@'' \<or> starts_section (hd rest)"
  shows "parse_hunk_header (header_text h) (map line_text (hunk_lines h) @ rest) = Inr (h, rest)"
proof -
  have "is_word ''@@''" by code_simp
  then have words: "split_whitespace (header_text h) = [''@@'', ''-'' @ show_nat (old_start h) @ '','' @ show_nat (old_count h),
     ''+'' @ show_nat (new_start h) @ '','' @ show_nat (new_count h), ''@@'']"
    unfolding header_text_def using range_word by (intro split_whitespace_join) auto
  have sign: "CHR ''-'' \<notin> set digit_chars" "CHR ''+'' \<notin> set digit_chars" by code_simp+
  have n: "old_count h < 2 ^ 64" "new_count h < 2 ^ 64" "old_start h < 2 ^ 64" "new_start h < 2 ^ 64"
    using assms(1) by (auto simp: hunk_fits_def intro: le_less_trans [OF length_filter_le])
  have "take_hunk_lines (line_budget (old_count h) (new_count h)) (map line_text (hunk_lines h) @ rest) = (hunk_lines h, rest)"
    using assms budget_enough [of "hunk_lines h"] by (intro take_hunk_lines_text) (simp_all add: hunk_fits_def)
  then show ?thesis
    using trim_sign [OF sign(1)] trim_sign [OF sign(2)] parse_range_text n
    by (simp add: parse_hunk_header_def words Let_def)
qed

lemma header_starts: "starts_with (header_text h) ''@@''" "\<not> starts_with (header_text h) ''diff --git ''"
  "strip_prefix ''--- '' (header_text h) = None" "strip_prefix ''+++ '' (header_text h) = None"
  by (simp_all add: header_text_def strip_prefix_def)

lemma parse_files_hunks:
  assumes "list_all hunk_fits hs" and "rest = [] \<or> starts_section (hd rest)"
  shows "parse_files create (concat (map hunk_text hs) @ rest) (Some f) old_path
    = parse_files create rest (Some (f\<lparr>patch_hunks := patch_hunks f @ hs\<rparr>)) old_path"
  using assms(1)
proof (induction hs arbitrary: f)
  case (Cons h hs)
  let ?rest = "concat (map hunk_text hs) @ rest"
  have "?rest = [] \<or> starts_with (hd ?rest) ''@@'' \<or> starts_section (hd ?rest)"
    using assms(2) by (cases hs) (auto simp: hunk_text_def header_starts)
  then have "parse_hunk_header (header_text h) (map line_text (hunk_lines h) @ ?rest) = Inr (h, ?rest)"
    using Cons.prems by (intro parse_hunk_text) auto
  then have "parse_files create (concat (map hunk_text (h # hs)) @ rest) (Some f) old_path
      = parse_files create ?rest (Some (f\<lparr>patch_hunks := patch_hunks f @ [h]\<rparr>)) old_path"
    using header_starts [of h] by (simp add: hunk_text_def)
  then show ?case using Cons by simp
qed simp

lemma no_ws_no_tab: "no_ws t \<Longrightarrow> CHR 0x09 \<notin> set t \<and> CHR 0x0A \<notin> set t \<and> CHR 0x0D \<notin> set t"
proof (induction t)
  case (Cons c t)
  have "ws_len (CHR 0x09 # t) \<noteq> 0" "ws_len (CHR 0x0A # t) \<noteq> 0" "ws_len (CHR 0x0D # t) \<noteq> 0"
    by (simp_all add: ws_len_0_iff ws_encodings_def)
  with Cons show ?case by auto
qed simp

lemma normalize_clean:
  assumes "no_ws t" and "CHR 0x22 \<notin> set t" and "t \<noteq> []"
  shows "normalize_diff_path (trim t) =
    (if t = ''/dev/null'' \<or> t = ''dev/null'' then None
     else Some (case strip_prefix ''a/'' t of Some p \<Rightarrow> p | None \<Rightarrow> (case strip_prefix ''b/'' t of Some p \<Rightarrow> p | None \<Rightarrow> t)))"
proof -
  have "before_char (CHR 0x09) t = t" using no_ws_no_tab [OF assms(1)] by (auto simp: before_char_def takeWhile_eq_all_conv)
  moreover have "trim_chars [CHR 0x22] t = t"
  proof -
    have keep: "CHR 0x22 \<notin> set u \<Longrightarrow> dropWhile (\<lambda>c. c \<in> set [CHR 0x22]) u = u" for u by (cases u) auto
    then show ?thesis using assms(2) keep [of "rev t"] by (simp add: trim_chars_def trim_start_chars_def trim_end_chars_def)
  qed
  ultimately show ?thesis using assms(3) by (simp add: normalize_diff_path_def trim_no_ws [OF assms(1)] Let_def)
qed

lemma normalize_side:
  assumes "path_fits p"
  shows "normalize_diff_path (trim (''a/'' @ p)) = Some p" and "normalize_diff_path (trim (''b/'' @ p)) = Some p"
    and "normalize_diff_path (trim ''/dev/null'') = None"
proof -
  have "no_ws (''a/'' @ p)" "no_ws (''b/'' @ p)"
    using assms plain_bytes no_ws_append_plain [of "''a/''" p] no_ws_append_plain [of "''b/''" p]
    by (simp_all add: path_fits_def)
  then show "normalize_diff_path (trim (''a/'' @ p)) = Some p" "normalize_diff_path (trim (''b/'' @ p)) = Some p"
    using assms normalize_clean [of "''a/'' @ p"] normalize_clean [of "''b/'' @ p"]
    by (simp_all add: path_fits_def strip_prefix_def)
  show "normalize_diff_path (trim ''/dev/null'') = None" by code_simp
qed

lemma parse_file_text:
  assumes "file_fits f" and "rest = [] \<or> starts_section (hd rest)"
  shows "parse_files False (file_text_lines f @ rest) current None
    = try_bind (parse_files False rest (Some f) None) (\<lambda>fs. Inr (finished current @ fs))"
proof -
  let ?old = "if create_if_missing f then ''/dev/null'' else ''a/'' @ patch_path f"
  let ?new = "if delete_after f then ''/dev/null'' else ''b/'' @ patch_path f"
  let ?f0 = "\<lparr>patch_path = patch_path f, patch_hunks = [], delete_after = delete_after f,
      create_if_missing = create_if_missing f\<rparr>"
  have fits: "path_fits (patch_path f)" "list_all hunk_fits (patch_hunks f)" "\<not> (create_if_missing f \<and> delete_after f)"
    using assms(1) by (simp_all add: file_fits_def)
  have sides: "resolve_diff_paths (Some (trim ?old)) (Some (trim ?new)) False
      = Inr (patch_path f, delete_after f, create_if_missing f)"
    using normalize_side [OF fits(1)] fits(3) by (auto simp: resolve_diff_paths_def)
  have "parse_files False (file_text_lines f @ rest) current None
      = try_bind (parse_files False (concat (map hunk_text (patch_hunks f)) @ rest) (Some ?f0) None)
          (\<lambda>fs. Inr (finished current @ fs))"
    using sides by (simp add: file_text_lines_def strip_prefix_def)
  also have "parse_files False (concat (map hunk_text (patch_hunks f)) @ rest) (Some ?f0) None
      = parse_files False rest (Some f) None"
    using parse_files_hunks [OF fits(2) assms(2), of False ?f0 None] by (cases f) simp
  finally show ?thesis .
qed

lemma parse_files_text:
  assumes "list_all file_fits fs"
  shows "parse_files False (concat (map file_text_lines fs)) current None = Inr (finished current @ fs)"
  using assms
proof (induction fs arbitrary: current)
  case (Cons f fs)
  have "concat (map file_text_lines fs) = [] \<or> starts_section (hd (concat (map file_text_lines fs)))"
    by (cases fs) (auto simp: file_text_lines_def starts_section_def)
  then have "parse_files False (file_text_lines f @ concat (map file_text_lines fs)) current None
    = try_bind (parse_files False (concat (map file_text_lines fs)) (Some f) None) (\<lambda>fs. Inr (finished current @ fs))"
    using Cons.prems by (intro parse_file_text) auto
  then show ?case using Cons by (simp add: finished_def)
qed (simp add: finished_def)

lemma patch_lines_clean:
  assumes "file_fits f" and "l \<in> set (file_text_lines f)"
  shows "CHR 0x0A \<notin> set l \<and> (l = [] \<or> last l \<noteq> CHR 0x0D)"
proof -
  have p: "CHR 0x0A \<notin> set (patch_path f)" "patch_path f \<noteq> []" "CHR 0x0D \<notin> set (patch_path f)"
    using assms(1) no_ws_no_tab [of "patch_path f"] by (simp_all add: file_fits_def path_fits_def)
  then have p': "last (patch_path f) \<noteq> CHR 0x0D" using last_in_set by metis
  have digits: "CHR 0x0A \<notin> set (show_nat n)" for n
    using show_nat_digits [of n] by (auto simp: digit_chars_def)
  have head: "CHR 0x0A \<notin> set (header_text h) \<and> last (header_text h) \<noteq> CHR 0x0D" for h
    using digits by (simp add: header_text_def)
  have body: "CHR 0x0A \<notin> set (line_text k) \<and> last (line_text k) \<noteq> CHR 0x0D" if "line_fits k" for k
    using that by (cases k) (auto simp: line_fits_def)
  show ?thesis using assms(2)
  proof (cases "l \<in> set (concat (map hunk_text (patch_hunks f)))")
    case True
    then obtain h where h: "h \<in> set (patch_hunks f)" "l \<in> set (hunk_text h)" by auto
    moreover from h(1) have "list_all line_fits (hunk_lines h)"
      using assms(1) by (auto simp: file_fits_def list_all_iff hunk_fits_def)
    ultimately show ?thesis using head body by (auto simp: hunk_text_def list_all_iff)
  next
    case False
    then have "l = ''--- '' @ (if create_if_missing f then ''/dev/null'' else ''a/'' @ patch_path f)
      \<or> l = ''+++ '' @ (if delete_after f then ''/dev/null'' else ''b/'' @ patch_path f)"
      using assms(2) by (auto simp: file_text_lines_def)
    then show ?thesis using p p' by (auto split: if_splits)
  qed
qed

lemma patch_text_lines: "list_all file_fits fs \<Longrightarrow> str_lines (patch_text fs) = concat (map file_text_lines fs)"
  unfolding patch_text_def using patch_lines_clean by (intro str_lines_unlines) (auto simp: list_all_iff)

lemma patch_text_parses: "list_all file_fits fs \<Longrightarrow> parse_unified_diff_files (patch_text fs) False = Inr fs"
  using parse_files_text [of fs None] by (simp add: parse_unified_diff_files_def patch_text_lines finished_def)

text \<open>C23: What a well-formed patch says is what the parser reads: the text of any list of file patches that fit
  (\<open>file_fits\<close>), with headers, counts and lines as a diff prints them, parses back to exactly those patches,
  creations and deletions included. A patch fits when its path is not empty and has no white space and no double quote, it
  does not both create and delete, each hunk's counts are those of its lines and its numbers stay below the
  machine's range, and each line is one line: no newline inside, no carriage return at its end, no removed text that
  starts with two hyphens and a blank and no added text that starts with two plus signs and a blank.\<close>

theorem patch_text_round_trip:
  assumes "list_all file_fits fs"
  shows "parse_unified_diff_files (patch_text fs) False = Inr fs"
  using assms by (rule patch_text_parses)

text \<open>The exception is real: a removed line of a comment that starts with two hyphens reads as a file header, and the
  hunk silently ends there.\<close>

lemma removed_comment_ends_hunk:
  "parse_unified_diff_files (patch_text [\<lparr>patch_path = ''q.sql'', patch_hunks =
       [\<lparr>old_start = 1, old_count = 3, new_start = 1, new_count = 2,
         hunk_lines = [ContextLine ''a'', RemoveLine ''-- note'', ContextLine ''b'']\<rparr>],
       delete_after = False, create_if_missing = False\<rparr>]) False
   = Inr [\<lparr>patch_path = ''q.sql'', patch_hunks =
       [\<lparr>old_start = 1, old_count = 3, new_start = 1, new_count = 2, hunk_lines = [ContextLine ''a'']\<rparr>],
       delete_after = False, create_if_missing = False\<rparr>]"
  by code_simp

lemma patch_text_round_trip_witness:
  "let f = \<lparr>patch_path = ''src/a.rs'', patch_hunks =
       [\<lparr>old_start = 7, old_count = 2, new_start = 7, new_count = 2,
         hunk_lines = [ContextLine [], RemoveLine ''x'', AddLine ''@@ y'']\<rparr>], delete_after = False, create_if_missing = False\<rparr>;
       g = \<lparr>patch_path = ''new.txt'', patch_hunks =
       [\<lparr>old_start = 0, old_count = 0, new_start = 1, new_count = 1, hunk_lines = [AddLine ''z'']\<rparr>],
       delete_after = False, create_if_missing = True\<rparr>
   in parse_unified_diff_files (patch_text [f, g]) False = Inr [f, g]"
proof -
  have "no_ws ''src/a.rs''" "no_ws ''new.txt''" by code_simp+
  then show ?thesis unfolding Let_def
    by (intro patch_text_round_trip)
      (simp add: file_fits_def path_fits_def hunk_fits_def line_fits_def starts_section_def)
qed

end
