(* ===== verification/PatchApply.thy ===== *)
theory PatchApply
  imports PatchFormat
begin

section \<open>tool-impls: applying a patch\<close>

text \<open>
  The application of hunks to the lines of a file, the pending writes of a batch and their execution
  with its rollback (\<open>tool-impls/src/tools/apply_patch.rs\<close>). The file system maps resolved paths to texts;
  the resolution of a path, the parse gate and the outcome of each file operation are arguments.
\<close>

subsection \<open>Finding the place of a hunk\<close>

definition HUNK_PREVIEW_LINES :: nat where "HUNK_PREVIEW_LINES = 4"
definition SNIPPET_RADIUS :: nat where "SNIPPET_RADIUS = 2"

datatype line_match = Exact | Loose

fun match_window :: "bool \<Rightarrow> str list \<Rightarrow> str list \<Rightarrow> bool \<Rightarrow> line_match option" where
  "match_window loose (old_line # os) (file_line # fs) any_loose =
     (if file_line = old_line then match_window loose os fs any_loose
      else if \<not> loose then None
      else if trim file_line \<noteq> trim old_line then None
      else match_window loose os fs True)"
| "match_window loose os fs any_loose = Some (if any_loose then Loose else Exact)"

definition matches_at_position :: "str list \<Rightarrow> str list \<Rightarrow> nat \<Rightarrow> bool \<Rightarrow> line_match option" where
  "matches_at_position ls old_lines pos loose =
     (if length ls < pos + length old_lines then None else match_window loose old_lines (drop pos ls) False)"

definition old_lines_of :: "hunk \<Rightarrow> str list" where
  "old_lines_of h = map raw_line (filter is_old (hunk_lines h))"

definition new_lines_of :: "hunk \<Rightarrow> str list" where
  "new_lines_of h = map raw_line (filter is_new (hunk_lines h))"

text \<open>The lines that replace the window: context lines are the file's own.\<close>

fun replaced_lines :: "hunk_line list \<Rightarrow> str list \<Rightarrow> str list" where
  "replaced_lines [] fs = []"
| "replaced_lines (ContextLine s # hs) fs = hd fs # replaced_lines hs (tl fs)"
| "replaced_lines (RemoveLine s # hs) fs = replaced_lines hs (tl fs)"
| "replaced_lines (AddLine t # hs) fs = t # replaced_lines hs fs"

text \<open>\<open>usize as isize\<close>.\<close>

definition as_isize :: "nat \<Rightarrow> int" where
  "as_isize n = (if n < 2 ^ 63 then int n else int n - 2 ^ 64)"

lemma as_isize_code [code]: "as_isize n = (if int n < 2 ^ 63 then int n else int n - 2 ^ 64)"
proof -
  have "int n < 2 ^ 63 \<longleftrightarrow> n < 2 ^ 63" by (metis of_nat_less_iff of_nat_numeral of_nat_power)
  then show ?thesis by (simp only: as_isize_def)
qed

definition start_index :: "hunk \<Rightarrow> int \<Rightarrow> nat" where
  "start_index h offset = nat (max 0 (as_isize (old_start h - 1) + offset))"

definition search_range :: "nat \<Rightarrow> nat \<Rightarrow> nat \<Rightarrow> nat list" where
  "search_range start fuzz len = (if fuzz = 0 then [start] else [start - fuzz ..< Suc (min (start + fuzz) len)])"

text \<open>The places tried, in order.\<close>

definition places :: "nat \<Rightarrow> nat \<Rightarrow> nat \<Rightarrow> (bool \<times> nat \<times> nat) list" where
  "places start max_fuzz len =
     concat (map (\<lambda>loose. concat (map (\<lambda>fuzz. map (\<lambda>pos. (loose, fuzz, pos)) (search_range start fuzz len)) [0..<Suc max_fuzz]))
       [False, True])"

record no_match =
  expected_line :: nat
  adjusted_line :: nat
  miss_offset :: int

record hunk_result =
  hunk_fuzz :: nat
  hunk_quality :: line_match
  lines_after :: "str list"
  offset_after :: int

definition apply_hunk :: "str list \<Rightarrow> hunk \<Rightarrow> nat \<Rightarrow> int \<Rightarrow> no_match + hunk_result" where
  "apply_hunk ls h max_fuzz offset =
     (let old_lines = old_lines_of h; start = start_index h offset
      in case find_map (\<lambda>(loose, fuzz, pos). map_option (\<lambda>q. (fuzz, q, pos)) (matches_at_position ls old_lines pos loose))
                (places start max_fuzz (length ls)) of
           Some (fuzz, q, pos) \<Rightarrow>
             let replaced = replaced_lines (hunk_lines h) (drop pos ls)
             in Inr \<lparr>hunk_fuzz = fuzz, hunk_quality = q,
                     lines_after = take pos ls @ replaced @ drop (pos + length old_lines) ls,
                     offset_after = offset + int (length replaced) - int (length old_lines)\<rparr>
         | None \<Rightarrow>
             if old_lines = [] \<and> (ls = [] \<or> length ls \<le> start)
             then Inr \<lparr>hunk_fuzz = 0, hunk_quality = Exact, lines_after = ls @ new_lines_of h,
                       offset_after = offset + int (length (new_lines_of h))\<rparr>
             else Inl \<lparr>expected_line = old_start h, adjusted_line = start + 1, miss_offset = offset\<rparr>)"

subsection \<open>Error texts\<close>

fun preview_line :: "hunk_line \<Rightarrow> str option" where
  "preview_line (ContextLine s) = Some (''  '' @ '' '' @ s)"
| "preview_line (RemoveLine s) = Some (''  '' @ ''-'' @ s)"
| "preview_line (AddLine s) = None"

definition preview_expected_lines :: "hunk \<Rightarrow> nat \<Rightarrow> str list" where
  "preview_expected_lines h limit =
     (let preview = take limit (List.map_filter preview_line (hunk_lines h))
      in if preview = [] then [''  <no context lines in hunk>''] else preview)"

text \<open>The format \<open>{:>4}\<close>.\<close>

definition pad_left :: "nat \<Rightarrow> str \<Rightarrow> str" where
  "pad_left n s = replicate (n - length s) (CHR '' '') @ s"

definition snippet_around :: "str list \<Rightarrow> nat \<Rightarrow> nat \<Rightarrow> str list" where
  "snippet_around ls line_1_based radius =
     (if ls = [] then [''  <empty file>'']
      else
        let center = min (line_1_based - 1) (length ls - 1);
            start = center - radius;
            stop = min (center + radius) (length ls - 1)
        in map (\<lambda>i. ''  '' @ pad_left 4 (show_nat (i + 1)) @ '': '' @ ls ! i) [start..<Suc stop])"

definition show_signed :: "int \<Rightarrow> str" where
  "show_signed n = (if n < 0 then ''-'' @ show_nat (nat (- n)) else ''+'' @ show_nat (nat n))"

definition format_hunk_no_match_error :: "str list \<Rightarrow> hunk \<Rightarrow> no_match \<Rightarrow> nat \<Rightarrow> str" where
  "format_hunk_no_match_error ls h e max_fuzz =
     ''could not find matching context near line '' @ show_nat (expected_line e)
     @ '' (searched around line '' @ show_nat (adjusted_line e) @ '' with offset '' @ show_signed (miss_offset e)
     @ '' and fuzz up to '' @ show_nat max_fuzz @ ''). Expected context preview:'' @ [CHR 0x0A]
     @ join [CHR 0x0A] (preview_expected_lines h HUNK_PREVIEW_LINES) @ [CHR 0x0A]
     @ ''File snippet near line '' @ show_nat (adjusted_line e) @ '':'' @ [CHR 0x0A]
     @ join [CHR 0x0A] (snippet_around ls (adjusted_line e) SNIPPET_RADIUS) @ [CHR 0x0A]
     @ ''Hints: ensure the patch matches the current file contents, increase `fuzz`, or regenerate the patch.''"

subsection \<open>All hunks of a file\<close>

record hunk_stats =
  applied_count :: nat
  fuzz_total :: nat
  fuzzy_count :: nat
  loose_count :: nat

definition no_hunks :: hunk_stats where
  "no_hunks = \<lparr>applied_count = 0, fuzz_total = 0, fuzzy_count = 0, loose_count = 0\<rparr>"

definition count_hunk :: "hunk_result \<Rightarrow> hunk_stats \<Rightarrow> hunk_stats" where
  "count_hunk r s =
     \<lparr>applied_count = applied_count s + 1, fuzz_total = fuzz_total s + hunk_fuzz r,
      fuzzy_count = (if 0 < hunk_fuzz r \<or> hunk_quality r = Loose then fuzzy_count s + 1 else fuzzy_count s),
      loose_count = (if hunk_quality r = Loose then loose_count s + 1 else loose_count s)\<rparr>"

fun apply_hunks_from ::
  "nat \<Rightarrow> str \<Rightarrow> nat \<Rightarrow> nat \<Rightarrow> hunk list \<Rightarrow> str list \<Rightarrow> int \<Rightarrow> hunk_stats \<Rightarrow> tool_error + str list \<times> hunk_stats" where
  "apply_hunks_from fuzz file_label n_hunks idx [] ls offset s = Inr (ls, s)"
| "apply_hunks_from fuzz file_label n_hunks idx (h # hs) ls offset s =
     (case apply_hunk ls h fuzz offset of
        Inr r \<Rightarrow> apply_hunks_from fuzz file_label n_hunks (Suc idx) hs (lines_after r) (offset_after r) (count_hunk r s)
      | Inl e \<Rightarrow>
          Inl (ExecutionFailed (''Failed to apply hunk '' @ show_nat (idx + 1) @ ''/'' @ show_nat n_hunks @ '' for `''
            @ file_label @ ''`: '' @ format_hunk_no_match_error ls h e fuzz)))"

definition apply_hunks_to_lines :: "str list \<Rightarrow> hunk list \<Rightarrow> nat \<Rightarrow> str \<Rightarrow> tool_error + str list \<times> hunk_stats" where
  "apply_hunks_to_lines ls hs fuzz file_label = apply_hunks_from fuzz file_label (length hs) 0 hs ls 0 no_hunks"

subsection \<open>Pending writes\<close>

record pending_write =
  write_path :: path
  write_content :: "str option"
  write_original :: "str option"




type_synonym texts = "path \<Rightarrow> str option"

record patch_env =
  resolve_path :: "str \<Rightarrow> tool_error + path"
  parse_gate :: "(path \<Rightarrow> str option \<Rightarrow> str \<Rightarrow> tool_error + str \<times> str option) option"
  display_path :: "path \<Rightarrow> str"
  create_dir_all :: "nat \<Rightarrow> path \<Rightarrow> str option"
  json_text :: "json \<Rightarrow> str"



text \<open>A file is its lines, the line end it uses and whether its last line has one.\<close>

definition file_eol :: "str \<Rightarrow> str" where
  "file_eol t = (if contains_str t [CHR 0x0D, CHR 0x0A] then [CHR 0x0D, CHR 0x0A] else [CHR 0x0A])"

definition rebuilt_text :: "str \<Rightarrow> str list \<Rightarrow> str" where
  "rebuilt_text base ls =
     (let t = join (file_eol base) ls in if ends_with base [CHR 0x0A] \<and> t \<noteq> [] then t @ file_eol base else t)"






subsection \<open>Execution and rollback\<close>

text \<open>The outcome of the \<open>k\<close>-th file operation: success, or an error text and what a failed write leaves of the file. A
  removal that fails, for this reason or because the file is absent, leaves it as it was. The creation of a
  directory before the \<open>k\<close>-th write succeeds or gives an error text; directories hold no text.\<close>

type_synonym io_outcomes = "nat \<Rightarrow> (str \<times> str option) option"

definition write_file :: "io_outcomes \<Rightarrow> nat \<Rightarrow> path \<Rightarrow> str \<Rightarrow> texts \<Rightarrow> str option \<times> texts" where
  "write_file io k p t fs =
     (case io k of
        None \<Rightarrow> (None, fs(p \<mapsto> t))
      | Some (e, left) \<Rightarrow> (Some e, fs(p := left)))"

definition remove_text :: "io_outcomes \<Rightarrow> nat \<Rightarrow> path \<Rightarrow> texts \<Rightarrow> str option \<times> texts" where
  "remove_text io k p fs =
     (case io k of
        Some (e, _) \<Rightarrow> (Some e, fs)
      | None \<Rightarrow> if fs p = None then (Some ''No such file or directory (os error 2)'', fs) else (None, fs(p := None)))"

fun rollback_from :: "patch_env \<Rightarrow> io_outcomes \<Rightarrow> nat \<Rightarrow> pending_write list \<Rightarrow> texts \<Rightarrow> str list \<times> texts" where
  "rollback_from env io k [] fs = ([], fs)"
| "rollback_from env io k (w # ws) fs =
     (let (result, fs1) = (case write_original w of
                             Some t \<Rightarrow> write_file io k (write_path w) t fs
                           | None \<Rightarrow> remove_text io k (write_path w) fs);
          (failures, fs2) = rollback_from env io (Suc k) ws fs1
      in (case result of
            Some e \<Rightarrow> (''restore '' @ display_path env (write_path w) @ '': '' @ e) # failures
          | None \<Rightarrow> failures, fs2))"

definition rollback_pending_writes :: "patch_env \<Rightarrow> io_outcomes \<Rightarrow> nat \<Rightarrow> pending_write list \<Rightarrow> texts \<Rightarrow> str list \<times> texts" where
  "rollback_pending_writes env io k applied fs = rollback_from env io k (rev applied) fs"

definition failed_text :: "patch_env \<Rightarrow> pending_write \<Rightarrow> str \<Rightarrow> str" where
  "failed_text env w e =
     (if write_content w \<noteq> None then ''Failed to write '' else ''Failed to delete '') @ display_path env (write_path w) @ '': '' @ e"

definition apply_write :: "io_outcomes \<Rightarrow> nat \<Rightarrow> pending_write \<Rightarrow> texts \<Rightarrow> str option \<times> texts" where
  "apply_write io k w fs =
     (case write_content w of
        Some t \<Rightarrow> write_file io k (write_path w) t fs
      | None \<Rightarrow> if fs (write_path w) \<noteq> None then remove_text io k (write_path w) fs else (None, fs))"

text \<open>A directory that cannot be created ends the function at once: the \<open>?\<close> leaves the loop before the rollback.\<close>

definition directory_error :: "patch_env \<Rightarrow> nat \<Rightarrow> pending_write \<Rightarrow> tool_error option" where
  "directory_error env k w =
     (if write_content w \<noteq> None \<and> write_path w \<noteq> []
      then map_option (\<lambda>e. ExecutionFailed (''Failed to create directory '' @ display_path env (butlast (write_path w)) @ '': '' @ e))
             (create_dir_all env k (butlast (write_path w)))
      else None)"

text \<open>The batch: the error if one write fails, and the files it leaves.\<close>

fun apply_pending :: "patch_env \<Rightarrow> io_outcomes \<Rightarrow> nat \<Rightarrow> pending_write list \<Rightarrow> pending_write list \<Rightarrow> texts \<Rightarrow> tool_error option \<times> texts" where
  "apply_pending env io k applied [] fs = (None, fs)"
| "apply_pending env io k applied (w # ws) fs =
     (case directory_error env k w of
        Some err \<Rightarrow> (Some err, fs)
      | None \<Rightarrow>
          let (result, fs1) = apply_write io k w fs
          in case result of
               None \<Rightarrow> apply_pending env io (Suc k) (applied @ [w]) ws fs1
             | Some e \<Rightarrow>
                 let (failures, fs2) = rollback_pending_writes env io (Suc k) applied fs1;
                     err = failed_text env w e
                 in (Some (ExecutionFailed
                       (if failures = [] then err
                        else ''Failed to execute tool: '' @ err @ ''; additionally, rollback left the workspace partially mutated: ''
                           @ join ''; '' failures @ '' (verify these paths manually)'')), fs2))"

definition apply_pending_writes :: "patch_env \<Rightarrow> io_outcomes \<Rightarrow> pending_write list \<Rightarrow> texts \<Rightarrow> tool_error option \<times> texts" where
  "apply_pending_writes env io pending fs = apply_pending env io 0 [] pending fs"

subsection \<open>The tool\<close>






subsection \<open>A patch made for the file\<close>

text \<open>An edit script: unchanged lines, then the lines of a hunk, and so on; the rest of the file is unchanged.\<close>

type_synonym edit_script = "(str list \<times> hunk_line list) list"

definition old_side :: "hunk_line list \<Rightarrow> str list" where "old_side b = map raw_line (filter is_old b)"
definition new_side :: "hunk_line list \<Rightarrow> str list" where "new_side b = map raw_line (filter is_new b)"

definition script_old :: "edit_script \<Rightarrow> str list \<Rightarrow> str list" where
  "script_old sc tail_lines = concat (map (\<lambda>(kept, b). kept @ old_side b) sc) @ tail_lines"

definition script_new :: "edit_script \<Rightarrow> str list \<Rightarrow> str list" where
  "script_new sc tail_lines = concat (map (\<lambda>(kept, b). kept @ new_side b) sc) @ tail_lines"

text \<open>The hunks a diff prints for the script: positions count from 1.\<close>

fun script_hunks :: "nat \<Rightarrow> nat \<Rightarrow> edit_script \<Rightarrow> hunk list" where
  "script_hunks m n [] = []"
| "script_hunks m n ((kept, b) # sc) =
     \<lparr>old_start = m + length kept + (if old_side b = [] then 0 else 1), old_count = length (old_side b),
      new_start = n + length kept + (if new_side b = [] then 0 else 1), new_count = length (new_side b), hunk_lines = b\<rparr>
     # script_hunks (m + length kept + length (old_side b)) (n + length kept + length (new_side b)) sc"








text \<open>The exception is real: a hunk without a line of the old file is applied one line too early.\<close>

lemma insertion_one_line_early:
  "let sc = [([''a''], [AddLine ''x''])]
   in script_new sc [''b''] = [''a'', ''x'', ''b'']
      \<and> apply_hunks_to_lines (script_old sc [''b'']) (script_hunks 0 0 sc) 0 ''f''
          = Inr ([''x'', ''a'', ''b''], no_hunks\<lparr>applied_count := 1\<rparr>)"
  by code_simp

subsection \<open>A patch changes its windows only\<close>

text \<open>Lines that match a window: equal, or equal but for blanks at both ends.\<close>

lemma match_window_lines:
  assumes "match_window loose os fs any_loose = Some q" and "length os \<le> length fs"
  shows "list_all2 (\<lambda>p f. f = p \<or> loose \<and> trim f = trim p) os (take (length os) fs)
    \<and> (q = Exact \<longrightarrow> \<not> any_loose \<and> take (length os) fs = os)"
  using assms
proof (induction loose os fs any_loose rule: match_window.induct)
  case (1 loose old_line os file_line fs any_loose)
  then show ?case by (auto split: if_splits)
qed (auto split: if_splits)

lemma replaced_window:
  "length w = length (old_side b) \<Longrightarrow> replaced_lines b (w @ rest) = replaced_lines b w"
proof (induction b arbitrary: w)
  case (Cons l b)
  show ?case
  proof (cases l)
    case (AddLine t)
    then show ?thesis using Cons.IH [of w] Cons.prems by (simp add: old_side_def)
  qed (use Cons in \<open>cases w; simp add: old_side_def\<close>)+
qed simp

lemma place_within: "(loose, fuzz, pos) \<in> set (places start max_fuzz len) \<Longrightarrow>
    fuzz \<le> max_fuzz \<and> pos \<le> start + fuzz \<and> start \<le> pos + fuzz"
  by (auto simp: places_def search_range_def split: if_splits)

text \<open>A hunk line as the file has it: an added line is the patch's, any other is the file's own and equals the
  patch's, up to blanks at its ends if the match was loose.\<close>

fun reads_as :: "line_match \<Rightarrow> hunk_line \<Rightarrow> hunk_line \<Rightarrow> bool" where
  "reads_as q (AddLine s) l = (l = AddLine s)"
| "reads_as q (ContextLine s) l = (\<exists>f. l = ContextLine f \<and> (f = s \<or> q = Loose \<and> trim f = trim s))"
| "reads_as q (RemoveLine s) l = (\<exists>f. l = RemoveLine f \<and> (f = s \<or> q = Loose \<and> trim f = trim s))"

lemma window_reads_as:
  assumes "list_all2 (\<lambda>shown f. f = shown \<or> q = Loose \<and> trim f = trim shown) (old_side b) w"
  shows "\<exists>own. list_all2 (reads_as q) b own \<and> old_side own = w \<and> new_side own = replaced_lines b w"
  using assms
proof (induction b arbitrary: w)
  case Nil
  then show ?case by (simp add: old_side_def new_side_def)
next
  case (Cons l b)
  show ?case
  proof (cases l)
    case (AddLine s)
    then obtain own where "list_all2 (reads_as q) b own" "old_side own = w" "new_side own = replaced_lines b w"
      using Cons.IH [of w] Cons.prems by (auto simp: old_side_def)
    then show ?thesis using AddLine by (intro exI [of _ "AddLine s # own"]) (simp add: old_side_def new_side_def)
  next
    case (ContextLine s)
    then obtain f w' where w: "w = f # w'" and f: "f = s \<or> q = Loose \<and> trim f = trim s"
      and rest: "list_all2 (\<lambda>shown f. f = shown \<or> q = Loose \<and> trim f = trim shown) (old_side b) w'"
      using Cons.prems by (cases w) (auto simp: old_side_def)
    from Cons.IH [OF rest] obtain own where "list_all2 (reads_as q) b own" "old_side own = w'" "new_side own = replaced_lines b w'"
      by blast
    then show ?thesis using ContextLine f by (intro exI [of _ "ContextLine f # own"]) (auto simp: w old_side_def new_side_def)
  next
    case (RemoveLine s)
    then obtain f w' where w: "w = f # w'" and f: "f = s \<or> q = Loose \<and> trim f = trim s"
      and rest: "list_all2 (\<lambda>shown f. f = shown \<or> q = Loose \<and> trim f = trim shown) (old_side b) w'"
      using Cons.prems by (cases w) (auto simp: old_side_def)
    from Cons.IH [OF rest] obtain own where "list_all2 (reads_as q) b own" "old_side own = w'" "new_side own = replaced_lines b w'"
      by blast
    then show ?thesis using RemoveLine f by (intro exI [of _ "RemoveLine f # own"]) (auto simp: w old_side_def new_side_def)
  qed
qed

text \<open>An applied hunk rewrites one window of the file and nothing else. There is a reading of the hunk in which its
  context and removed lines are the file's own bytes, equal to the patch's up to blanks at their ends: the
  window is the old side of that reading and is replaced by its new side, the lines around it stay, and
  the place is within the fuzz of where the hunk points. A hunk that shows no old line may be appended.\<close>

theorem hunk_changes_its_window:
  assumes "apply_hunk ls h max_fuzz offset = Inr r"
  shows "(\<exists>before own after. ls = before @ old_side own @ after \<and> lines_after r = before @ new_side own @ after
      \<and> list_all2 (reads_as (hunk_quality r)) (hunk_lines h) own
      \<and> hunk_fuzz r \<le> max_fuzz \<and> length before \<le> start_index h offset + hunk_fuzz r
      \<and> start_index h offset \<le> length before + hunk_fuzz r)
    \<or> old_side (hunk_lines h) = [] \<and> lines_after r = ls @ new_side (hunk_lines h)"
proof -
  let ?old = "old_lines_of h" and ?start = "start_index h offset"
  let ?attempt = "\<lambda>(loose, fuzz, pos). map_option (\<lambda>q. (fuzz, q, pos)) (matches_at_position ls ?old pos loose)"
  have side: "?old = old_side (hunk_lines h)" by (simp add: old_lines_of_def old_side_def)
  show ?thesis
  proof (cases "find_map ?attempt (places ?start max_fuzz (length ls))")
    case None
    then show ?thesis using assms
      by (auto simp: apply_hunk_def Let_def new_lines_of_def new_side_def side [symmetric] split: if_splits)
  next
    case (Some hit)
    obtain fuzz q pos where hit: "hit = (fuzz, q, pos)" by (cases hit)
    obtain loose where at: "(loose, fuzz, pos) \<in> set (places ?start max_fuzz (length ls))"
        "matches_at_position ls ?old pos loose = Some q"
      using find_map_SomeD [OF Some] by (auto simp: hit)
    let ?window = "take (length ?old) (drop pos ls)"
    have fit: "pos + length ?old \<le> length ls" and m: "match_window loose ?old (drop pos ls) False = Some q"
      using at(2) by (auto simp: matches_at_position_def split: if_splits)
    have r: "hunk_fuzz r = fuzz" "hunk_quality r = q"
      "lines_after r = take pos ls @ replaced_lines (hunk_lines h) (drop pos ls) @ drop (pos + length ?old) ls"
      using assms Some by (auto simp: apply_hunk_def Let_def hit)
    have replaced: "replaced_lines (hunk_lines h) (drop pos ls) = replaced_lines (hunk_lines h) ?window"
      using replaced_window [of ?window "hunk_lines h" "drop (length ?old) (drop pos ls)"] fit
      unfolding append_take_drop_id by (simp add: side)
    have lines: "list_all2 (\<lambda>p f. f = p \<or> loose \<and> trim f = trim p) ?old ?window" "q = Exact \<Longrightarrow> ?window = ?old"
      using match_window_lines [OF m] fit by simp_all
    have "list_all2 (\<lambda>shown f. f = shown \<or> q = Loose \<and> trim f = trim shown) (old_side (hunk_lines h)) ?window"
    proof (cases q)
      case Exact
      then show ?thesis using lines(2) by (simp add: side list.rel_refl)
    next
      case Loose
      show ?thesis using lines(1) unfolding side by (rule list_all2_mono) (use Loose in auto)
    qed
    then obtain own where own: "list_all2 (reads_as q) (hunk_lines h) own" "old_side own = ?window"
        "new_side own = replaced_lines (hunk_lines h) ?window"
      using window_reads_as by blast
    have "ls = take pos ls @ ?window @ drop (pos + length ?old) ls"
      by (metis add.commute append_take_drop_id drop_drop)
    then show ?thesis
      using place_within [OF at(1)] r own replaced fit
      by (intro disjI1 exI [of _ "take pos ls"] exI [of _ own] exI [of _ "drop (pos + length ?old) ls"]) simp
  qed
qed

lemma hunk_changes_its_window_witness:
  "let h = \<lparr>old_start = 1, old_count = 1, new_start = 1, new_count = 2, hunk_lines = [ContextLine ''a'', AddLine ''x'']\<rparr>;
       r = \<lparr>hunk_fuzz = 1, hunk_quality = Loose, lines_after = [''t'', '' a'', ''x'', ''b''], offset_after = 1\<rparr>
   in apply_hunk [''t'', '' a'', ''b''] h 3 0 = Inr r
      \<and> (\<exists>before own after. [''t'', '' a'', ''b''] = before @ old_side own @ after
            \<and> lines_after r = before @ new_side own @ after \<and> list_all2 (reads_as Loose) (hunk_lines h) own)"
proof -
  let ?h = "\<lparr>old_start = 1, old_count = 1, new_start = 1, new_count = 2, hunk_lines = [ContextLine ''a'', AddLine ''x'']\<rparr>"
  let ?r = "\<lparr>hunk_fuzz = 1, hunk_quality = Loose, lines_after = [''t'', '' a'', ''x'', ''b''], offset_after = 1\<rparr>"
  have run: "apply_hunk [''t'', '' a'', ''b''] ?h 3 0 = Inr ?r" by code_simp
  have "old_side (hunk_lines ?h) \<noteq> []" "hunk_quality ?r = Loose" by (simp_all add: old_side_def)
  with hunk_changes_its_window [OF run] run show ?thesis unfolding Let_def by metis
qed

subsection \<open>A patch made for the file, from end to end\<close>

definition unlines :: "str list \<Rightarrow> str" where
  "unlines ls = concat (map (\<lambda>l. l @ [CHR 0x0A]) ls)"

lemma unlines_simps [simp]: "unlines [] = []" "unlines (l # ls) = l @ CHR 0x0A # unlines ls"
  by (simp_all add: unlines_def)











lemma script_hunks_Nil [simp]: "script_hunks m n sc = [] \<longleftrightarrow> sc = []"
  by (cases sc) auto







subsection \<open>Three ways a file comes out differently\<close>

text \<open>A file that a patch creates lacks its final newline.\<close>

lemma created_file_without_newline: "rebuilt_text [] [''a'', ''b''] = ''a'' @ [CHR 0x0A] @ ''b''"
  by code_simp

text \<open>A file with both kinds of line ends gets one kind, also on lines no hunk touches.\<close>

lemma mixed_line_ends_change:
  "let base = ''a'' @ [CHR 0x0A] @ ''b'' @ [CHR 0x0D, CHR 0x0A]
   in rebuilt_text base (str_lines base) = ''a'' @ [CHR 0x0D, CHR 0x0A] @ ''b'' @ [CHR 0x0D, CHR 0x0A]"
  by code_simp

subsection \<open>A batch that fails\<close>

lemma write_file_other: "q \<noteq> p \<Longrightarrow> snd (write_file io k p t fs) q = fs q"
  by (simp add: write_file_def split: option.split)

lemma remove_text_other: "q \<noteq> p \<Longrightarrow> snd (remove_text io k p fs) q = fs q"
  by (simp add: remove_text_def split: option.split)

lemma apply_write_other: "q \<noteq> write_path w \<Longrightarrow> snd (apply_write io k w fs) q = fs q"
  by (simp add: apply_write_def write_file_other remove_text_other split: option.split)

definition originals_of :: "texts \<Rightarrow> pending_write list \<Rightarrow> bool" where
  "originals_of fs ws \<longleftrightarrow> (\<forall>w\<in>set ws. write_original w = fs (write_path w))"

lemma rollback_restores:
  assumes "rollback_from env io k ws fs = ([], fs')" and "originals_of fs0 ws"
  shows "fs' p = (if p \<in> write_path ` set ws then fs0 p else fs p)"
  using assms
proof (induction ws arbitrary: k fs)
  case (Cons w ws)
  define step where "step = (case write_original w of Some t \<Rightarrow> write_file io k (write_path w) t fs
      | None \<Rightarrow> remove_text io k (write_path w) fs)"
  have ok: "fst step = None" and rest: "rollback_from env io (Suc k) ws (snd step) = ([], fs')"
    using Cons.prems(1) by (auto simp: Let_def step_def [symmetric] split: prod.splits option.splits)
  have at: "snd step (write_path w) = fs0 (write_path w)"
    using ok Cons.prems(2)
    by (auto simp: step_def originals_of_def write_file_def remove_text_def split: option.splits if_splits)
  have other: "snd step q = fs q" if "q \<noteq> write_path w" for q
    using that by (simp add: step_def write_file_other remove_text_other split: option.split)
  have "originals_of fs0 ws" using Cons.prems(2) by (simp add: originals_of_def)
  from Cons.IH [OF rest this] show ?case using at other by auto
qed simp

lemma apply_pending_fails:
  assumes "apply_pending env io k applied ws fs = (Some (ExecutionFailed msg), fs')"
    and "\<not> starts_with msg ''Failed to execute tool: ''" "\<not> starts_with msg ''Failed to create directory ''"
    and "originals_of fs0 (applied @ ws)" and "\<And>p. p \<notin> write_path ` set applied \<Longrightarrow> fs p = fs0 p"
  shows "\<exists>w\<in>set ws. \<forall>p. p \<noteq> write_path w \<longrightarrow> fs' p = fs0 p"
  using assms
proof (induction ws arbitrary: k applied fs)
  case (Cons w ws)
  have made: "directory_error env k w = None"
    using Cons.prems(1,3) by (auto simp: directory_error_def split: option.splits if_splits)
  show ?case
  proof (cases "fst (apply_write io k w fs)")
    case None
    have run: "apply_pending env io (Suc k) (applied @ [w]) ws (snd (apply_write io k w fs)) = (Some (ExecutionFailed msg), fs')"
      using Cons.prems(1) None made by (auto simp: Let_def split: prod.splits)
    have "originals_of fs0 ((applied @ [w]) @ ws)" using Cons.prems(4) by simp
    moreover have "snd (apply_write io k w fs) p = fs0 p" if "p \<notin> write_path ` set (applied @ [w])" for p
      using that apply_write_other [of p w io k fs] Cons.prems(5) [of p] by simp
    ultimately show ?thesis using Cons.IH [OF run Cons.prems(2,3)] by auto
  next
    case (Some e)
    let ?fs1 = "snd (apply_write io k w fs)"
    obtain failures fs2 where rolled: "rollback_pending_writes env io (Suc k) applied ?fs1 = (failures, fs2)" by force
    have "failures = [] \<and> fs2 = fs'"
      using Cons.prems(1,2) Some rolled made by (auto simp: Let_def split: prod.splits if_splits)
    then have rolled': "rollback_from env io (Suc k) (rev applied) ?fs1 = ([], fs')"
      using rolled by (simp add: rollback_pending_writes_def)
    have "originals_of fs0 (rev applied)" using Cons.prems(4) by (simp add: originals_of_def)
    note restored = rollback_restores [OF rolled' this]
    have "fs' p = fs0 p" if "p \<noteq> write_path w" for p
      using restored [of p] apply_write_other [OF that, of io k fs] Cons.prems(5) [of p] by auto
    then show ?thesis by auto
  qed
qed simp

text \<open>C25: A batch that fails at a write or a removal, without a word about the rollback, leaves every file as it was but
  for the one whose operation failed: whichever operations fail, in whichever order, and whatever a failed
  write leaves behind.\<close>

theorem plain_error_means_restored:
  assumes "apply_pending_writes env io pending fs = (Some (ExecutionFailed msg), fs')"
    and "\<not> starts_with msg ''Failed to execute tool: ''" and "\<not> starts_with msg ''Failed to create directory ''"
    and "originals_of fs pending"
  shows "\<exists>w\<in>set pending. \<forall>p. p \<noteq> write_path w \<longrightarrow> fs' p = fs p"
  using apply_pending_fails [OF assms(1) [unfolded apply_pending_writes_def] assms(2,3), of fs] assms(4) by simp

text \<open>The file whose write failed is not among those restored: a write cut short leaves it cut short.\<close>

lemma torn_write_stays:
  "let io = (\<lambda>k. if k = 0 then Some (''No space left on device'', Some ''ha'') else None);
       w = \<lparr>write_path = [''f''], write_content = Some ''half'', write_original = Some ''whole''\<rparr>;
       env = \<lparr>resolve_path = (\<lambda>raw. Inr [raw]), parse_gate = None, display_path = join ''/'', create_dir_all = (\<lambda>_ _. None), json_text = (\<lambda>_. [])\<rparr>
   in apply_pending_writes env io [w] [[''f''] \<mapsto> ''whole'']
      = (Some (ExecutionFailed ''Failed to write f: No space left on device''), [[''f''] \<mapsto> ''ha''])"
  by (simp add: Let_def apply_pending_writes_def apply_write_def write_file_def rollback_pending_writes_def failed_text_def
      directory_error_def)

text \<open>A directory that cannot be created leaves the earlier writes of the batch in place, and the error does not say so.\<close>

lemma directory_failure_skips_rollback:
  "let w = \<lparr>write_path = [''f''], write_content = Some ''new'', write_original = Some ''old''\<rparr>;
       v = \<lparr>write_path = [''f'', ''g''], write_content = Some ''x'', write_original = None\<rparr>;
       env = \<lparr>resolve_path = (\<lambda>raw. Inr [raw]), parse_gate = None, display_path = join ''/'',
              create_dir_all = (\<lambda>k p. if p = [''f''] then Some ''File exists'' else None), json_text = (\<lambda>_. [])\<rparr>
   in apply_pending_writes env (\<lambda>_. None) [w, v] [[''f''] \<mapsto> ''old'']
      = (Some (ExecutionFailed ''Failed to create directory f: File exists''), [[''f''] \<mapsto> ''new''])"
  by (simp add: Let_def apply_pending_writes_def apply_write_def write_file_def directory_error_def)

lemma plain_error_means_restored_witness:
  "let io = (\<lambda>k. if k = 1 then Some (''denied'', None) else None);
       w = \<lparr>write_path = [''f''], write_content = Some ''new'', write_original = Some ''old''\<rparr>;
       v = \<lparr>write_path = [''g''], write_content = Some ''x'', write_original = None\<rparr>;
       env = \<lparr>resolve_path = (\<lambda>raw. Inr [raw]), parse_gate = None, display_path = join ''/'', create_dir_all = (\<lambda>_ _. None), json_text = (\<lambda>_. [])\<rparr>;
       fs = [[''f''] \<mapsto> ''old'']
   in \<exists>u\<in>set [w, v]. \<forall>p. p \<noteq> write_path u \<longrightarrow> snd (apply_pending_writes env io [w, v] fs) p = fs p"
proof -
  let ?io = "\<lambda>k::nat. if k = 1 then Some (''denied'', None) else None"
  let ?w = "\<lparr>write_path = [''f''], write_content = Some ''new'', write_original = Some ''old''\<rparr>"
  let ?v = "\<lparr>write_path = [''g''], write_content = Some ''x'', write_original = None\<rparr>"
  let ?env = "\<lparr>resolve_path = (\<lambda>raw. Inr [raw]), parse_gate = None, display_path = join ''/'', create_dir_all = (\<lambda>_ _. None), json_text = (\<lambda>_. [])\<rparr>"
  let ?fs = "[[''f''] \<mapsto> ''old''] :: texts"
  have run: "apply_pending_writes ?env ?io [?w, ?v] ?fs
      = (Some (ExecutionFailed ''Failed to write g: denied''), ?fs)"
    by (auto simp: apply_pending_writes_def apply_write_def write_file_def rollback_pending_writes_def failed_text_def
      directory_error_def Let_def)
  have "originals_of ?fs [?w, ?v]" by (simp add: originals_of_def)
  then have "\<exists>u\<in>set [?w, ?v]. \<forall>p. p \<noteq> write_path u \<longrightarrow> ?fs p = ?fs p"
    by (rule plain_error_means_restored [OF run, rotated 2]) simp_all
  then show ?thesis unfolding Let_def run snd_conv .
qed

end
