(* ===== verification/ApprovalRouter.thy ===== *)
theory ApprovalRouter
  imports Prelude "HOL-Library.Multiset"
begin

section \<open>Answers to approval requests (crates/agent-runtime/src/engine/approval.rs)\<close>

text \<open>
  One decision channel with many waiters: the turn's gate and every running sub-agent wait on it, and
  the host answers in any order.  A waiter is a program point of wait; one step of it runs to its next
  shared effect (a look at the parked decisions, the receive lock, a receive, a park), and the steps
  of the waiters interleave with the host's sends, cancellations and expiring timers.  The policy of
  an escalated retry is a type variable.  The mutexes are not poisoned, the lock is not fair, and the
  channel is a queue without its capacity.
\<close>

subsection \<open>Decisions\<close>

datatype 'p approval_decision = Approved str | Denied str | RetryWithPolicy str 'p

fun decision_id :: "'p approval_decision \<Rightarrow> str" where
  "decision_id (Approved call) = call"
| "decision_id (Denied call) = call"
| "decision_id (RetryWithPolicy call policy) = call"

datatype approval_wait_error = Cancelled | Closed

record 'p router =
  channel :: "'p approval_decision list"
  sender_open :: bool
  rx_locked :: bool
  parked :: "'p approval_decision list"

fun take_first :: "str \<Rightarrow> 'p approval_decision list \<Rightarrow> ('p approval_decision \<times> 'p approval_decision list) option" where
  "take_first call [] = None"
| "take_first call (d # ds) =
     (if decision_id d = call then Some (d, ds)
      else map_option (\<lambda>(e, rest). (e, d # rest)) (take_first call ds))"

definition take_parked :: "str \<Rightarrow> 'p router \<Rightarrow> ('p approval_decision \<times> 'p router) option" where
  "take_parked call r = map_option (\<lambda>(d, rest). (d, r\<lparr>parked := rest\<rparr>)) (take_first call (parked r))"

definition park :: "'p approval_decision \<Rightarrow> 'p router \<Rightarrow> 'p router" where
  "park d r = r\<lparr>parked := parked r @ [d]\<rparr>"

subsection \<open>One waiter\<close>

datatype 'p point =
    AtLoop
  | Queued
  | Locked
  | Receiving
  | InHand "'p approval_decision option"
  | Finished "approval_wait_error + 'p approval_decision"
  | TimedOut

definition unlock :: "'p router \<Rightarrow> 'p router" where
  "unlock r = r\<lparr>rx_locked := False\<rparr>"

fun wait_step :: "str \<Rightarrow> bool \<Rightarrow> 'p point \<Rightarrow> 'p router \<Rightarrow> ('p point \<times> 'p router) option" where
  "wait_step call cancelled AtLoop r =
     (case take_parked call r of
        Some (d, r') \<Rightarrow> Some (Finished (Inr d), r')
      | None \<Rightarrow> Some (Queued, r))"
| "wait_step call cancelled Queued r =
     (if rx_locked r then None else Some (Locked, r\<lparr>rx_locked := True\<rparr>))"
| "wait_step call cancelled Locked r =
     (case take_parked call r of
        Some (d, r') \<Rightarrow> Some (Finished (Inr d), unlock r')
      | None \<Rightarrow> Some (Receiving, r))"
| "wait_step call cancelled Receiving r =
     (if cancelled then Some (Finished (Inl Cancelled), unlock r)
      else case channel r of
             d # rest \<Rightarrow> Some (InHand (Some d), unlock (r\<lparr>channel := rest\<rparr>))
           | [] \<Rightarrow> if sender_open r then None else Some (InHand None, unlock r))"
| "wait_step call cancelled (InHand None) r = Some (Finished (Inl Closed), r)"
| "wait_step call cancelled (InHand (Some d)) r =
     (if decision_id d = call then Some (Finished (Inr d), r) else Some (AtLoop, park d r))"
| "wait_step call cancelled (Finished res) r = None"
| "wait_step call cancelled TimedOut r = None"

text \<open>A timer drops the future at one of its await points: the lock's or the channel's.\<close>

fun expire :: "'p point \<Rightarrow> 'p router \<Rightarrow> ('p point \<times> 'p router) option" where
  "expire Queued r = Some (TimedOut, r)"
| "expire Receiving r = Some (TimedOut, unlock r)"
| "expire p r = None"

text \<open>A waiter that runs while no other does; the fuel bounds its steps.\<close>

fun run_alone :: "nat \<Rightarrow> str \<Rightarrow> bool \<Rightarrow> 'p point \<Rightarrow> 'p router \<Rightarrow> 'p point \<times> 'p router" where
  "run_alone 0 call cancelled p r = (p, r)"
| "run_alone (Suc n) call cancelled p r =
     (case wait_step call cancelled p r of
        None \<Rightarrow> (p, r)
      | Some (p', r') \<Rightarrow> run_alone n call cancelled p' r')"

subsection \<open>Many waiters\<close>

record 'p waiter =
  waiter_id :: str
  cancel_asked :: bool
  point_of :: "'p point"

record 'p system =
  waiters :: "'p waiter list"
  shared :: "'p router"
  sent :: "'p approval_decision list"

definition fresh_system :: "'p system" where
  "fresh_system =
     \<lparr>waiters = [], shared = \<lparr>channel = [], sender_open = True, rx_locked = False, parked = []\<rparr>, sent = []\<rparr>"

definition move :: "nat \<Rightarrow> 'p point \<Rightarrow> 'p router \<Rightarrow> 'p system \<Rightarrow> 'p system" where
  "move i p r s = s\<lparr>waiters := (waiters s)[i := (waiters s ! i)\<lparr>point_of := p\<rparr>], shared := r\<rparr>"

inductive sys_step :: "'p system \<Rightarrow> 'p system \<Rightarrow> bool" where
  ask: "sys_step s (s\<lparr>waiters := waiters s @ [\<lparr>waiter_id = call, cancel_asked = False, point_of = AtLoop\<rparr>]\<rparr>)"
| send: "sender_open (shared s) \<Longrightarrow>
     sys_step s (s\<lparr>shared := (shared s)\<lparr>channel := channel (shared s) @ [d]\<rparr>, sent := sent s @ [d]\<rparr>)"
| close: "sys_step s (s\<lparr>shared := (shared s)\<lparr>sender_open := False\<rparr>\<rparr>)"
| cancel: "i < length (waiters s) \<Longrightarrow>
     sys_step s (s\<lparr>waiters := (waiters s)[i := (waiters s ! i)\<lparr>cancel_asked := True\<rparr>]\<rparr>)"
| step: "i < length (waiters s) \<Longrightarrow>
     wait_step (waiter_id (waiters s ! i)) (cancel_asked (waiters s ! i)) (point_of (waiters s ! i)) (shared s) = Some (p, r) \<Longrightarrow>
     sys_step s (move i p r s)"
| timeout: "i < length (waiters s) \<Longrightarrow> expire (point_of (waiters s ! i)) (shared s) = Some (p, r) \<Longrightarrow>
     sys_step s (move i p r s)"

inductive reachable :: "'p system \<Rightarrow> bool" where
  start: "reachable fresh_system"
| next_state: "reachable s \<Longrightarrow> sys_step s s' \<Longrightarrow> reachable s'"

inductive_cases sys_stepE: "sys_step s s'"

subsection \<open>The decisions in flight\<close>

fun held :: "'p point \<Rightarrow> 'p approval_decision multiset" where
  "held (InHand (Some d)) = {#d#}"
| "held (Finished (Inr d)) = {#d#}"
| "held p = {#}"

definition has_lock :: "'p point \<Rightarrow> bool" where
  "has_lock p \<longleftrightarrow> p = Locked \<or> p = Receiving"

lemma take_first_mset: "take_first call ds = Some (d, rest) \<Longrightarrow> mset ds = add_mset d (mset rest) \<and> decision_id d = call"
  by (induction ds arbitrary: rest) (auto split: if_splits)

lemma take_first_None: "take_first call ds = None \<longleftrightarrow> (\<forall>d\<in>set ds. decision_id d \<noteq> call)"
  by (induction ds) auto

lemma take_parked_SomeD:
  "take_parked call r = Some (d, r') \<Longrightarrow>
     mset (parked r) = add_mset d (mset (parked r')) \<and> decision_id d = call \<and> channel r' = channel r \<and>
     rx_locked r' = rx_locked r \<and> sender_open r' = sender_open r"
  by (auto simp: take_parked_def dest: take_first_mset)

lemma sum_list_update_elem:
  fixes f :: "'a \<Rightarrow> 'b::comm_monoid_add"
  assumes "i < length xs"
  shows "sum_list (map f (xs[i := x])) + f (xs ! i) = sum_list (map f xs) + f x"
  using assms
proof (induction xs arbitrary: i)
  case (Cons y ys)
  then show ?case by (cases i) (simp_all add: ac_simps)
qed simp

definition in_flight :: "'p system \<Rightarrow> 'p approval_decision multiset" where
  "in_flight s = mset (channel (shared s)) + mset (parked (shared s)) + (\<Sum>w\<leftarrow>waiters s. held (point_of w))"

definition lock_count :: "'p system \<Rightarrow> nat" where
  "lock_count s = (\<Sum>w\<leftarrow>waiters s. if has_lock (point_of w) then 1 else 0)"

definition own_answer :: "'p waiter \<Rightarrow> bool" where
  "own_answer w \<longleftrightarrow> (\<forall>d. point_of w = Finished (Inr d) \<longrightarrow> decision_id d = waiter_id w)"

definition router_ok :: "'p system \<Rightarrow> bool" where
  "router_ok s \<longleftrightarrow>
     mset (sent s) = in_flight s \<and>
     lock_count s = (if rx_locked (shared s) then 1 else 0) \<and>
     (\<forall>w\<in>set (waiters s). own_answer w)"

text \<open>What one move of a waiter, a step or an expired timer, does to the shared state.\<close>

definition moves :: "str \<Rightarrow> bool \<Rightarrow> 'p point \<Rightarrow> 'p router \<Rightarrow> 'p point \<Rightarrow> 'p router \<Rightarrow> bool" where
  "moves call c p r p' r' \<longleftrightarrow> wait_step call c p r = Some (p', r') \<or> expire p r = Some (p', r')"

lemma moves_keep_decisions:
  assumes "moves call c p r p' r'"
  shows "mset (channel r') + mset (parked r') + held p' = mset (channel r) + mset (parked r) + held p"
  using assms unfolding moves_def
  by (cases p rule: held.cases)
    (auto simp: unlock_def park_def split: option.splits if_splits list.splits dest!: take_parked_SomeD)

lemma moves_lock:
  assumes "moves call c p r p' r'" and "has_lock p \<Longrightarrow> rx_locked r"
  shows "(has_lock p' \<and> \<not> has_lock p \<longrightarrow> \<not> rx_locked r) \<and> (rx_locked r' \<longleftrightarrow> has_lock p' \<or> rx_locked r \<and> \<not> has_lock p)"
  using assms unfolding moves_def
  by (cases p rule: held.cases)
    (auto simp: unlock_def park_def has_lock_def split: option.splits if_splits list.splits dest!: take_parked_SomeD)

lemma moves_own_answer: "moves call c p r (Finished (Inr d)) r' \<Longrightarrow> decision_id d = call"
  unfolding moves_def
  by (cases p rule: held.cases) (auto split: option.splits if_splits list.splits dest!: take_parked_SomeD)

lemma lock_count_ge: "i < length (waiters s) \<Longrightarrow> has_lock (point_of (waiters s ! i)) \<Longrightarrow> 1 \<le> lock_count s"
proof -
  assume i: "i < length (waiters s)" and h: "has_lock (point_of (waiters s ! i))"
  have "(if has_lock (point_of (waiters s ! i)) then 1 else 0 :: nat) \<le> lock_count s"
    unfolding lock_count_def using nth_mem [OF i] by (intro member_le_sum_list) (auto simp del: nth_mem)
  then show ?thesis using h by simp
qed

lemma move_ok:
  assumes ok: "router_ok s" and i: "i < length (waiters s)"
    and m: "moves (waiter_id (waiters s ! i)) (cancel_asked (waiters s ! i)) (point_of (waiters s ! i)) (shared s) p r"
  shows "router_ok (move i p r s)"
proof -
  let ?w = "waiters s ! i" and ?L = "\<lambda>p :: 'a point. (if has_lock p then 1 else 0) :: nat"
  have locked: "has_lock (point_of ?w) \<Longrightarrow> rx_locked (shared s)"
    using lock_count_ge [OF i] ok by (auto simp: router_ok_def split: if_splits)
  have held_sum: "(\<Sum>w\<leftarrow>waiters (move i p r s). held (point_of w)) + held (point_of ?w)
      = (\<Sum>w\<leftarrow>waiters s. held (point_of w)) + held p"
    using sum_list_update_elem [OF i, of "\<lambda>w. held (point_of w)"] by (simp add: move_def)
  have decisions: "in_flight (move i p r s) = in_flight s"
    using held_sum moves_keep_decisions [OF m] by (simp add: in_flight_def move_def multiset_eq_iff) (smt (verit) add.assoc add.commute add_left_cancel)
  have lock_sum: "lock_count (move i p r s) + ?L (point_of ?w) = lock_count s + ?L p"
    using sum_list_update_elem [OF i, of "\<lambda>w. ?L (point_of w)"] by (simp add: lock_count_def move_def)
  have "lock_count (move i p r s) = (if rx_locked r then 1 else 0)"
    using lock_sum moves_lock [OF m locked] ok locked by (auto simp: router_ok_def split: if_splits)
  moreover have "own_answer w" if "w \<in> set (waiters (move i p r s))" for w
  proof -
    have "w = ?w\<lparr>point_of := p\<rparr> \<or> w \<in> set (waiters s)"
      using that set_update_subset_insert [of "waiters s" i "?w\<lparr>point_of := p\<rparr>"] by (auto simp: move_def)
    then show ?thesis using m ok by (auto simp: own_answer_def router_ok_def dest: moves_own_answer)
  qed
  ultimately show ?thesis using ok decisions by (simp add: router_ok_def move_def)
qed

lemma sys_step_ok: "sys_step s s' \<Longrightarrow> router_ok s \<Longrightarrow> router_ok s'"
proof (induction rule: sys_step.induct)
  case (cancel i s)
  let ?w = "waiters s ! i"
  have sums: "(\<Sum>w\<leftarrow>(waiters s)[i := ?w\<lparr>cancel_asked := True\<rparr>]. held (point_of w)) = (\<Sum>w\<leftarrow>waiters s. held (point_of w))"
    "(\<Sum>w\<leftarrow>(waiters s)[i := ?w\<lparr>cancel_asked := True\<rparr>]. (if has_lock (point_of w) then 1 else 0) :: nat)
      = (\<Sum>w\<leftarrow>waiters s. if has_lock (point_of w) then 1 else 0)"
    using sum_list_update_elem [OF cancel(1), of "\<lambda>w. held (point_of w)" "?w\<lparr>cancel_asked := True\<rparr>"]
      sum_list_update_elem [OF cancel(1), of "\<lambda>w. (if has_lock (point_of w) then 1 else 0) :: nat" "?w\<lparr>cancel_asked := True\<rparr>"]
    by simp_all
  show ?case using cancel sums set_update_subset_insert [of "waiters s" i "?w\<lparr>cancel_asked := True\<rparr>"]
    by (fastforce simp: router_ok_def in_flight_def lock_count_def own_answer_def)
next
  case (step i s p r)
  then show ?case by (intro move_ok) (simp_all add: moves_def)
next
  case (timeout i s p r)
  then show ?case by (intro move_ok) (simp_all add: moves_def)
qed (auto simp: router_ok_def in_flight_def lock_count_def own_answer_def has_lock_def)

lemma reachable_ok: "reachable s \<Longrightarrow> router_ok s"
proof (induction rule: reachable.induct)
  case start
  show ?case by (simp add: fresh_system_def router_ok_def in_flight_def lock_count_def)
next
  case (next_state s s')
  then show ?case by (blast intro: sys_step_ok)
qed

text \<open>C26: However waiters, host, cancellations and timers interleave, no decision is lost, delivered twice or delivered
  to another waiter: what the host has sent is exactly what is in the channel, parked, in a waiter's hand
  or returned; a waiter that returns a decision returns one for its own call; and at most one waiter is
  inside the receive lock.\<close>

theorem no_answer_lost:
  assumes "reachable s"
  shows "mset (sent s) = mset (channel (shared s)) + mset (parked (shared s)) + (\<Sum>w\<leftarrow>waiters s. held (point_of w))
    \<and> (\<forall>w\<in>set (waiters s). \<forall>d. point_of w = Finished (Inr d) \<longrightarrow> decision_id d = waiter_id w)
    \<and> length (filter (\<lambda>w. has_lock (point_of w)) (waiters s)) \<le> 1"
proof -
  have count: "length (filter (\<lambda>w. has_lock (point_of w)) ws) = (\<Sum>w\<leftarrow>ws. if has_lock (point_of w) then 1 else 0)" for ws :: "'a waiter list"
    by (induction ws) simp_all
  show ?thesis using reachable_ok [OF assms]
    by (simp add: router_ok_def in_flight_def own_answer_def count lock_count_def)
qed

subsection \<open>A race between two waiters\<close>

text \<open>
  The receive lock is released before the received decision is parked.  A waiter that takes the lock in
  between looks at the parked decisions, does not find its own, and goes on to receive; its answer is then
  parked behind its back, and nothing wakes it.  Waiter 0 asks for a, waiter 1 for b, and b is answered.
\<close>

definition at_points :: "'p point list \<Rightarrow> 'p router \<Rightarrow> 'p approval_decision list \<Rightarrow> 'p system" where
  "at_points ps r ds =
     \<lparr>waiters = map (\<lambda>(i, p). \<lparr>waiter_id = i, cancel_asked = False, point_of = p\<rparr>) (zip [''a'', ''b''] ps),
      shared = r, sent = ds\<rparr>"

definition idle_router :: "'p router" where
  "idle_router = \<lparr>channel = [], sender_open = True, rx_locked = False, parked = []\<rparr>"

lemmas race_simps = at_points_def idle_router_def move_def take_parked_def park_def unlock_def

lemma move_first:
  assumes "reachable (at_points [p, q] r ds)" and "wait_step ''a'' False p r = Some (p', r')"
  shows "reachable (at_points [p', q] r' ds)"
proof -
  have "sys_step (at_points [p, q] r ds) (move 0 p' r' (at_points [p, q] r ds))"
    by (rule sys_step.step) (use assms(2) in \<open>simp_all add: at_points_def\<close>)
  moreover have "move 0 p' r' (at_points [p, q] r ds) = at_points [p', q] r' ds" by (simp add: at_points_def move_def)
  ultimately show ?thesis using assms(1) reachable.next_state by metis
qed

lemma move_second:
  assumes "reachable (at_points [p, q] r ds)" and "wait_step ''b'' False q r = Some (q', r')"
  shows "reachable (at_points [p, q'] r' ds)"
proof -
  have "sys_step (at_points [p, q] r ds) (move 1 q' r' (at_points [p, q] r ds))"
    by (rule sys_step.step) (use assms(2) in \<open>simp_all add: at_points_def\<close>)
  moreover have "move 1 q' r' (at_points [p, q] r ds) = at_points [p, q'] r' ds" by (simp add: at_points_def move_def)
  ultimately show ?thesis using assms(1) reachable.next_state by metis
qed

definition race_state :: "unit system" where
  "race_state = at_points [Queued, Receiving] (idle_router\<lparr>rx_locked := True, parked := [Denied ''b'']\<rparr>) [Denied ''b'']"

lemma race_reachable: "reachable race_state"
proof -
  have one: "reachable (fresh_system\<lparr>waiters := [\<lparr>waiter_id = ''a'', cancel_asked = False, point_of = AtLoop\<rparr>]\<rparr> :: unit system)"
    using reachable.next_state [OF reachable.start sys_step.ask [of fresh_system "''a''"]] by (simp add: fresh_system_def)
  have two: "reachable (at_points [AtLoop, AtLoop] idle_router [] :: unit system)"
    using reachable.next_state [OF one sys_step.ask [of _ "''b''"]] by (simp add: fresh_system_def at_points_def idle_router_def)
  let ?l = "idle_router\<lparr>rx_locked := True\<rparr> :: unit router" and ?b = "Denied ''b'' :: unit approval_decision"
  have "reachable (at_points [Queued, AtLoop] idle_router [] :: unit system)"
    by (rule move_first [OF two]) (simp add: race_simps)
  then have "reachable (at_points [Locked, AtLoop] ?l [])" by (rule move_first) (simp add: race_simps)
  then have "reachable (at_points [Receiving, AtLoop] ?l [])" by (rule move_first) (simp add: race_simps)
  then have wait: "reachable (at_points [Receiving, Queued] ?l [])" by (rule move_second) (simp add: race_simps)
  have "sys_step (at_points [Receiving, Queued] ?l []) (at_points [Receiving, Queued] (?l\<lparr>channel := [?b]\<rparr>) [?b])"
    using sys_step.send [of "at_points [Receiving, Queued] ?l []" ?b] by (simp add: race_simps)
  with wait have "reachable (at_points [Receiving, Queued] (?l\<lparr>channel := [?b]\<rparr>) [?b])" by (rule reachable.next_state)
  then have "reachable (at_points [InHand (Some ?b), Queued] idle_router [?b])" by (rule move_first) (simp add: race_simps)
  then have "reachable (at_points [InHand (Some ?b), Locked] ?l [?b])" by (rule move_second) (simp add: race_simps)
  then have "reachable (at_points [InHand (Some ?b), Receiving] ?l [?b])" by (rule move_second) (simp add: race_simps)
  then have "reachable (at_points [AtLoop, Receiving] (?l\<lparr>parked := [?b]\<rparr>) [?b])" by (rule move_first) (simp add: race_simps)
  then show ?thesis unfolding race_state_def by (rule move_first) (simp add: race_simps)
qed

lemma answered_waiter_sleeps:
  "reachable race_state
   \<and> waiters race_state ! 1 = \<lparr>waiter_id = ''b'', cancel_asked = False, point_of = Receiving\<rparr>
   \<and> parked (shared race_state) = [Denied ''b'']
   \<and> (\<forall>w\<in>set (waiters race_state). wait_step (waiter_id w) (cancel_asked w) (point_of w) (shared race_state) = None)"
  using race_reachable by (simp add: race_state_def race_simps)

lemma no_answer_lost_witness:
  "reachable race_state
   \<and> mset (sent race_state) = mset (channel (shared race_state)) + mset (parked (shared race_state)) + (\<Sum>w\<leftarrow>waiters race_state. held (point_of w))"
  using no_answer_lost [OF race_reachable] race_reachable by blast

text \<open>The cancellation is only looked at in the receive: a cancelled waiter that queues for the lock stays there.\<close>

lemma cancelled_in_queue: "wait_step call True Queued r = None \<longleftrightarrow> rx_locked r"
  by simp

subsection \<open>A waiter alone\<close>

text \<open>What a wait comes to when no other waiter runs: a parked answer first, then a cancellation, then the first
  answer for the call in the channel with the foreign ones before it parked, then the closed channel.\<close>

definition lone_outcome :: "str \<Rightarrow> bool \<Rightarrow> 'p router \<Rightarrow> 'p point \<times> 'p router" where
  "lone_outcome call cancelled r =
     (case take_first call (parked r) of
        Some (d, rest) \<Rightarrow> (Finished (Inr d), r\<lparr>parked := rest\<rparr>)
      | None \<Rightarrow>
          if cancelled then (Finished (Inl Cancelled), r)
          else
            let foreign = takeWhile (\<lambda>d. decision_id d \<noteq> call) (channel r)
            in case dropWhile (\<lambda>d. decision_id d \<noteq> call) (channel r) of
                 d # rest \<Rightarrow> (Finished (Inr d), r\<lparr>channel := rest, parked := parked r @ foreign\<rparr>)
               | [] \<Rightarrow> (if sender_open r then Receiving else Finished (Inl Closed),
                       r\<lparr>channel := [], parked := parked r @ foreign, rx_locked := sender_open r\<rparr>))"

lemma run_finished [simp]: "run_alone n call c (Finished res) r = (Finished res, r)"
  by (cases n) simp_all

lemma run_receiving: "wait_step call c Receiving r = None \<Longrightarrow> run_alone n call c Receiving r = (Receiving, r)"
  by (cases n) simp_all

lemma unlocked_again: "\<not> rx_locked r \<Longrightarrow> r\<lparr>rx_locked := False\<rparr> = r"
  by (cases r) simp

lemma run_step:
  "wait_step call c p r = Some (p', r') \<Longrightarrow> 0 < n \<Longrightarrow> run_alone n call c p r = run_alone (n - 1) call c p' r'"
  by (cases n) simp_all

lemma lone_steps:
  assumes "take_first call (parked r) = None" and "\<not> rx_locked r"
  shows "run_alone (Suc (Suc (Suc n))) call c AtLoop r = run_alone n call c Receiving (r\<lparr>rx_locked := True\<rparr>)"
  using assms by (simp add: take_parked_def)

lemma take_first_append_None: "take_first call ds = None \<Longrightarrow> decision_id d \<noteq> call \<Longrightarrow> take_first call (ds @ [d]) = None"
  by (simp add: take_first_None)

lemma lone_run:
  assumes "\<not> rx_locked r" and "5 * length (channel r) \<le> n"
  shows "run_alone (Suc (Suc (Suc (Suc (Suc n))))) call c AtLoop r = lone_outcome call c r"
  using assms
proof (induction "channel r" arbitrary: r n)
  case Nil
  show ?case
  proof (cases "take_first call (parked r)")
    case None
    then show ?thesis unfolding lone_steps [OF None Nil.prems(1)] using Nil
      by (cases r) (simp add: lone_outcome_def unlock_def)
  qed (simp add: lone_outcome_def take_parked_def split: prod.split)
next
  case (Cons d ds)
  show ?case
  proof (cases "take_first call (parked r)")
    case None
    note start = lone_steps [OF None Cons.prems(1)]
    show ?thesis
    proof (cases "c \<or> decision_id d = call")
      case True
      then show ?thesis unfolding start using Cons.prems(1) Cons.hyps(2) [symmetric] None
        by (cases r) (auto simp add: lone_outcome_def unlock_def Let_def)
    next
      case False
      let ?r = "r\<lparr>channel := ds, parked := parked r @ [d]\<rparr>"
      obtain m where n: "n = Suc (Suc (Suc (Suc (Suc m))))" and m: "5 * length ds \<le> m"
        using Cons.prems(2) Cons.hyps(2) [symmetric] that [of "n - 5"] by simp
      have "run_alone (Suc (Suc (Suc (Suc (Suc m))))) call c AtLoop ?r = lone_outcome call c ?r"
        using Cons.hyps(1) [of ?r m] Cons.prems(1) m by simp
      moreover have "lone_outcome call c ?r = lone_outcome call c r"
        using False None take_first_append_None [OF None, of d] Cons.hyps(2) [symmetric]
        by (cases r) (auto simp: lone_outcome_def Let_def simp del: dropWhile_eq_Nil_conv split: list.split)
      moreover have "run_alone (Suc (Suc n)) call c Receiving (r\<lparr>rx_locked := True\<rparr>) = run_alone n call c AtLoop ?r"
        using False Cons.hyps(2) [symmetric] Cons.prems(1) by (cases r) (simp add: unlock_def park_def)
      ultimately show ?thesis unfolding start n by simp
    qed
  qed (simp add: lone_outcome_def take_parked_def split: prod.split)
qed

text \<open>C27: A wait that no other waiter disturbs returns the answer to its own call whenever there is one, in at most five
  steps per decision in the channel: a parked answer even if cancelled, the first one in the channel otherwise,
  every foreign decision before it parked in order and the rest left in the channel. Without an answer it
  ends with the cancellation or the closed channel, or waits in the receive.\<close>

theorem lone_wait_returns:
  assumes "\<not> rx_locked r" and "5 * Suc (length (channel r)) \<le> n"
  shows "run_alone n call cancelled AtLoop r = lone_outcome call cancelled r"
proof -
  have "n = Suc (Suc (Suc (Suc (Suc (n - 5)))))" and "5 * length (channel r) \<le> n - 5" using assms(2) by simp_all
  then show ?thesis using lone_run [OF assms(1), of "n - 5"] by metis
qed

lemma lone_wait_returns_witness:
  "run_alone 15 ''b'' False AtLoop (idle_router\<lparr>channel := [Denied ''a'', Approved ''b'' :: unit approval_decision]\<rparr>)
     = (Finished (Inr (Approved ''b'')), idle_router\<lparr>parked := [Denied ''a'']\<rparr>)"
proof -
  let ?r = "idle_router\<lparr>channel := [Denied ''a'', Approved ''b'' :: unit approval_decision]\<rparr>"
  have "run_alone 15 ''b'' False AtLoop ?r = lone_outcome ''b'' False ?r"
    by (rule lone_wait_returns) (simp_all add: idle_router_def)
  also have "\<dots> = (Finished (Inr (Approved ''b'')), idle_router\<lparr>parked := [Denied ''a'']\<rparr>)"
    by (simp add: lone_outcome_def idle_router_def)
  finally show ?thesis .
qed

end
