(* ===== verification/ApprovalGrants.thy ===== *)
theory ApprovalGrants
  imports Prelude "HOL-Library.List_Lexorder" "HOL-Library.Char_ord"
begin

section \<open>Persistent approval grants (crates/cli/src/approval_grants.rs)\<close>

text \<open>
  The store of grants per workspace and its file \<open>approvals.toml\<close>.  A \<open>BTreeSet\<close> is a set, a \<open>BTreeMap\<close> a
  map.  The TOML text of the document, the clock and the result of reading the file are arguments; the lock
  makes one save atomic, and a write that fails leaves the file (it is a rename).
\<close>

subsection \<open>The store and its operations\<close>

record approval_grants =
  projects :: "str \<rightharpoonup> str set"
  removed :: "str \<rightharpoonup> str set"

record grants_project =
  project_grants :: "str set"
  updated_at :: "str option"

type_synonym grants_doc = "str \<rightharpoonup> grants_project"

datatype grants_file = Missing | Unreadable str | Corrupt | Document grants_doc

definition no_grants :: approval_grants where
  "no_grants = \<lparr>projects = Map.empty, removed = Map.empty\<rparr>"

definition load_doc :: "grants_file \<Rightarrow> str + grants_doc" where
  "load_doc f =
     (case f of
        Missing \<Rightarrow> Inr Map.empty
      | Unreadable err \<Rightarrow> Inl err
      | Corrupt \<Rightarrow> Inr Map.empty
      | Document doc \<Rightarrow> Inr doc)"

definition load_grants :: "grants_file \<Rightarrow> approval_grants" where
  "load_grants f =
     (let doc = (case load_doc f of Inl err \<Rightarrow> Map.empty | Inr doc \<Rightarrow> doc)
      in \<lparr>projects = (\<lambda>key. map_option project_grants (doc key)), removed = Map.empty\<rparr>)"

definition grants_of :: "(str \<rightharpoonup> str set) \<Rightarrow> str \<Rightarrow> str set" where
  "grants_of m key = (case m key of Some gs \<Rightarrow> gs | None \<Rightarrow> {})"

definition is_granted :: "approval_grants \<Rightarrow> str \<Rightarrow> str \<Rightarrow> bool" where
  "is_granted g workspace key = (case projects g workspace of Some gs \<Rightarrow> key \<in> gs | None \<Rightarrow> False)"

definition grants_for :: "approval_grants \<Rightarrow> str \<Rightarrow> str list" where
  "grants_for g workspace = (case projects g workspace of Some gs \<Rightarrow> sorted_list_of_set gs | None \<Rightarrow> [])"

definition grant :: "str \<Rightarrow> str \<Rightarrow> approval_grants \<Rightarrow> approval_grants" where
  "grant workspace key g =
     \<lparr>projects = (projects g)(workspace \<mapsto> insert key (grants_of (projects g) workspace)),
      removed = (case removed g workspace of
                   Some rs \<Rightarrow> (removed g)(workspace \<mapsto> rs - {key})
                 | None \<Rightarrow> removed g)\<rparr>"

definition revoke :: "str \<Rightarrow> str \<Rightarrow> approval_grants \<Rightarrow> bool \<times> approval_grants" where
  "revoke workspace key g =
     (is_granted g workspace key,
      \<lparr>projects = (case projects g workspace of
                     Some gs \<Rightarrow> (projects g)(workspace \<mapsto> gs - {key})
                   | None \<Rightarrow> projects g),
       removed = (removed g)(workspace \<mapsto> insert key (grants_of (removed g) workspace))\<rparr>)"

text \<open>The document after the merge: per project, the union with the store, minus what was removed; empty projects
  go, and the store's projects get the time.\<close>

definition merged_project :: "approval_grants \<Rightarrow> str \<Rightarrow> grants_project option \<Rightarrow> grants_project option" where
  "merged_project g key p =
     (case projects g key of
        Some gs \<Rightarrow> Some (case p of
                          Some q \<Rightarrow> q\<lparr>project_grants := project_grants q \<union> gs\<rparr>
                        | None \<Rightarrow> \<lparr>project_grants = gs, updated_at = None\<rparr>)
      | None \<Rightarrow> p)"

definition without_removed :: "approval_grants \<Rightarrow> str \<Rightarrow> grants_project option \<Rightarrow> grants_project option" where
  "without_removed g key p =
     (case removed g key of
        Some rs \<Rightarrow> map_option (\<lambda>q. q\<lparr>project_grants := project_grants q - rs\<rparr>) p
      | None \<Rightarrow> p)"

definition retained :: "str \<Rightarrow> approval_grants \<Rightarrow> str \<Rightarrow> grants_project option \<Rightarrow> grants_project option" where
  "retained now g key p =
     (case p of
        None \<Rightarrow> None
      | Some q \<Rightarrow>
          if project_grants q = {} then None
          else Some (if projects g key \<noteq> None then q\<lparr>updated_at := Some now\<rparr> else q))"

definition save_grants :: "str \<Rightarrow> approval_grants \<Rightarrow> grants_file \<Rightarrow> str + grants_file" where
  "save_grants now g f =
     try_bind (load_doc f) (\<lambda>doc.
       Inr (Document (\<lambda>key. retained now g key (without_removed g key (merged_project g key (doc key))))))"

subsection \<open>What a file grants\<close>

definition file_grants :: "grants_file \<Rightarrow> str \<Rightarrow> str set" where
  "file_grants f workspace = grants_of (projects (load_grants f)) workspace"

lemma is_granted_grants_of: "is_granted g w key \<longleftrightarrow> key \<in> grants_of (projects g) w"
  by (simp add: is_granted_def grants_of_def split: option.split)

lemma grant_effect:
  "grants_of (projects (grant w key g)) v = (if v = w then insert key (grants_of (projects g) w) else grants_of (projects g) v)"
  "grants_of (removed (grant w key g)) v = (if v = w then grants_of (removed g) w - {key} else grants_of (removed g) v)"
  by (auto simp: grant_def grants_of_def split: option.split)

lemma revoke_effect:
  "grants_of (projects (snd (revoke w key g))) v = (if v = w then grants_of (projects g) w - {key} else grants_of (projects g) v)"
  "grants_of (removed (snd (revoke w key g))) v = (if v = w then insert key (grants_of (removed g) w) else grants_of (removed g) v)"
  by (auto simp: revoke_def grants_of_def split: option.split)

lemma save_effect:
  assumes "save_grants now g f = Inr f'"
  shows "file_grants f' w = (file_grants f w \<union> grants_of (projects g) w) - grants_of (removed g) w"
proof -
  obtain doc where doc: "load_doc f = Inr doc" "f' = Document (\<lambda>key. retained now g key (without_removed g key (merged_project g key (doc key))))"
    using assms by (auto simp: save_grants_def try_bind_Inr_iff)
  show ?thesis
    unfolding doc(2) file_grants_def grants_of_def load_grants_def doc(1)
    by (cases "projects g w"; cases "removed g w"; cases "doc w")
      (simp_all add: load_doc_def merged_project_def without_removed_def retained_def)
qed

subsection \<open>Sessions that share the file\<close>

text \<open>What a session does with its store: it loads it once, then grants, revokes and saves.\<close>

datatype store_op = GrantOp str str | RevokeOp str str

fun store_step :: "store_op \<Rightarrow> approval_grants \<Rightarrow> approval_grants" where
  "store_step (GrantOp w key) g = grant w key g"
| "store_step (RevokeOp w key) g = snd (revoke w key g)"

definition store_run :: "store_op list \<Rightarrow> approval_grants \<Rightarrow> approval_grants" where
  "store_run ops g = fold store_step ops g"

fun concerns :: "str \<Rightarrow> str \<Rightarrow> store_op \<Rightarrow> bool" where
  "concerns w key (GrantOp v k) = (v = w \<and> k = key)"
| "concerns w key (RevokeOp v k) = (v = w \<and> k = key)"

fun grants_it :: "store_op \<Rightarrow> bool" where
  "grants_it (GrantOp v k) = True"
| "grants_it (RevokeOp v k) = False"

text \<open>The last word of a session on one grant.\<close>

definition last_word :: "str \<Rightarrow> str \<Rightarrow> store_op list \<Rightarrow> bool option" where
  "last_word w key ops = (case rev (filter (concerns w key) ops) of [] \<Rightarrow> None | x # _ \<Rightarrow> Some (grants_it x))"

lemma last_word_snoc:
  "last_word w key (ops @ [x]) = (if concerns w key x then Some (grants_it x) else last_word w key ops)"
  by (simp add: last_word_def)

lemma store_run_word:
  "(key \<in> grants_of (projects (store_run ops (load_grants f))) w \<longleftrightarrow>
      (case last_word w key ops of Some b \<Rightarrow> b | None \<Rightarrow> key \<in> file_grants f w))
   \<and> (key \<in> grants_of (removed (store_run ops (load_grants f))) w \<longleftrightarrow> last_word w key ops = Some False)"
proof (induction ops rule: rev_induct)
  case Nil
  show ?case by (simp add: store_run_def last_word_def file_grants_def) (simp add: load_grants_def grants_of_def)
next
  case (snoc x ops)
  then show ?case
    by (cases x) (auto simp: store_run_def last_word_snoc grant_effect revoke_effect split: option.splits)
qed

text \<open>C28: A save writes exactly what the session decided: a grant of any workspace is in the file afterwards if the
  session's last word on it was a grant, is not if its last word was a removal, and if the session never
  touched it, is there if it was in the file at the save or at the session's start. So no session that
  only adds loses another's grants, whatever was saved in between.\<close>

theorem save_keeps_the_others:
  assumes "save_grants now (store_run ops (load_grants f0)) f = Inr f'"
  shows "key \<in> file_grants f' w \<longleftrightarrow>
    (case last_word w key ops of
       Some granted \<Rightarrow> granted
     | None \<Rightarrow> key \<in> file_grants f w \<or> key \<in> file_grants f0 w)"
  using save_effect [OF assms, of w] store_run_word [of key ops f0 w]
  by (auto split: option.splits)

lemma save_keeps_the_others_witness:
  "let f0 = Document [''/w'' \<mapsto> \<lparr>project_grants = {''shell:ls''}, updated_at = None\<rparr>];
       f = Document [''/w'' \<mapsto> \<lparr>project_grants = {''shell:make''}, updated_at = None\<rparr>];
       ops = [GrantOp ''/w'' ''shell:cargo build'', RevokeOp ''/w'' ''shell:ls'']
   in \<exists>f'. save_grants ''now'' (store_run ops (load_grants f0)) f = Inr f' \<and> ''shell:make'' \<in> file_grants f' ''/w''
        \<and> ''shell:ls'' \<notin> file_grants f' ''/w''"
proof -
  let ?start = "Document [''/w'' \<mapsto> \<lparr>project_grants = {''shell:ls''}, updated_at = None\<rparr>]"
  let ?disk = "Document [''/w'' \<mapsto> \<lparr>project_grants = {''shell:make''}, updated_at = None\<rparr>]"
  let ?ops = "[GrantOp ''/w'' ''shell:cargo build'', RevokeOp ''/w'' ''shell:ls'']"
  obtain f' where saved: "save_grants ''now'' (store_run ?ops (load_grants ?start)) ?disk = Inr f'"
    by (simp add: save_grants_def load_doc_def)
  have "''shell:make'' \<in> file_grants ?disk ''/w''" by (simp add: file_grants_def load_grants_def load_doc_def grants_of_def)
  then show ?thesis
    using saved save_keeps_the_others [OF saved, of "''shell:make''" "''/w''"] save_keeps_the_others [OF saved, of "''shell:ls''" "''/w''"]
    by (auto simp: last_word_def Let_def)
qed

text \<open>A removal holds in the file only until another session saves that had loaded the grant before: its merge adds
  the grant again, though no one granted it.\<close>

lemma removed_grant_returns:
  "let f0 = Document [''/w'' \<mapsto> \<lparr>project_grants = {''shell:ls''}, updated_at = None\<rparr>]
   in \<exists>f1 f2. save_grants ''t1'' (store_run [RevokeOp ''/w'' ''shell:ls''] (load_grants f0)) f0 = Inr f1
      \<and> ''shell:ls'' \<notin> file_grants f1 ''/w''
      \<and> save_grants ''t2'' (store_run [GrantOp ''/w'' ''shell:make''] (load_grants f0)) f1 = Inr f2
      \<and> ''shell:ls'' \<in> file_grants f2 ''/w''"
proof -
  let ?start = "Document [''/w'' \<mapsto> \<lparr>project_grants = {''shell:ls''}, updated_at = None\<rparr>]"
  obtain f1 where one: "save_grants ''t1'' (store_run [RevokeOp ''/w'' ''shell:ls''] (load_grants ?start)) ?start = Inr f1"
    by (simp add: save_grants_def load_doc_def)
  obtain f2 where two: "save_grants ''t2'' (store_run [GrantOp ''/w'' ''shell:make''] (load_grants ?start)) f1 = Inr f2"
    using one by (cases f1) (auto simp: save_grants_def load_doc_def)
  have "''shell:ls'' \<in> file_grants ?start ''/w''" by (simp add: file_grants_def load_grants_def load_doc_def grants_of_def)
  then show ?thesis
    using one two save_effect [OF one, of "''/w''"] save_effect [OF two, of "''/w''"]
      store_run_word [of "''shell:ls''" "[RevokeOp ''/w'' ''shell:ls'']" ?start "''/w''"]
      store_run_word [of "''shell:ls''" "[GrantOp ''/w'' ''shell:make'']" ?start "''/w''"]
    by (auto simp: last_word_def Let_def)
qed

end
