(* ===== verification/ApprovalKeys.thy ===== *)
theory ApprovalKeys
  imports CommandSafety SandboxRules LoopGuard PatchFormat
begin

section \<open>Keys of approval decisions (crates/agent-runtime/src/tools/approval_cache.rs)\<close>

text \<open>
  The exact key of a call, which a denial is stored under, and its grouping key, which a grant is stored
  under and which collapses the calls of one family.  The bash parser, the word splitter, SHA-256, the
  path hasher, the URL parser and serde_json's texts of strings and numbers are arguments.
\<close>

subsection \<open>The cache\<close>

datatype approval_cache_status = CacheApproved | CacheDenied | CacheUnknown

record approval_cache_entry =
  created :: nat
  approved_for_session :: bool

type_synonym approval_cache = "str \<rightharpoonup> approval_cache_entry"

definition cache_check :: "approval_cache \<Rightarrow> str \<Rightarrow> approval_cache_status" where
  "cache_check c key =
     (case c key of
        None \<Rightarrow> CacheUnknown
      | Some entry \<Rightarrow> if approved_for_session entry then CacheApproved else CacheDenied)"

definition cache_insert :: "nat \<Rightarrow> str \<Rightarrow> bool \<Rightarrow> approval_cache \<Rightarrow> approval_cache" where
  "cache_insert now key approved c = c(key \<mapsto> \<lparr>created = now, approved_for_session = approved\<rparr>)"

definition cache_clear :: "approval_cache \<Rightarrow> approval_cache" where
  "cache_clear c = Map.empty"

subsection \<open>Canonical text of an input\<close>

function push_canonical_json :: "(str \<Rightarrow> str) \<Rightarrow> (json \<Rightarrow> str) \<Rightarrow> json \<Rightarrow> str" where
  "push_canonical_json quote num JNull = ''null''"
| "push_canonical_json quote num (JBool b) = ''bool:'' @ (if b then ''true'' else ''false'')"
| "push_canonical_json quote num (JInt n) = ''number:'' @ num (JInt n)"
| "push_canonical_json quote num (JFloat s) = ''number:'' @ num (JFloat s)"
| "push_canonical_json quote num (JStr s) = ''string:'' @ quote s"
| "push_canonical_json quote num (JArr vs) = ''['' @ join '','' (map (push_canonical_json quote num) vs) @ '']''"
| "push_canonical_json quote num (JObj es) =
     ''{'' @ join '','' (map (\<lambda>(k, v). quote k @ '':'' @ push_canonical_json quote num v) (sort_key fst es)) @ ''}''"
  by pat_completeness auto

termination
proof (relation "measure (\<lambda>(_, _, v). size v)")
  fix quote :: "str \<Rightarrow> str" and num :: "json \<Rightarrow> str" and es :: "(str \<times> json) list" and x k v
  assume "x \<in> set (sort_key fst es)" and "(k, v) = x"
  then have "(k, v) \<in> set es" by simp
  then show "((quote, num, v), (quote, num, JObj es)) \<in> measure (\<lambda>(_, _, v). size v)"
    by (induction es) auto
qed (auto simp: less_Suc_eq_le size_list_estimation')

text \<open>The first eight bytes of the digest, in hexadecimal: 16 digits.\<close>

record key_env =
  parse_bash :: bash_parser
  split_words :: word_splitter
  short_sha :: "str \<Rightarrow> str"
  path_hash :: "str list \<Rightarrow> str"
  parse_url :: "str \<Rightarrow> (str \<times> str option) option"
  quote_json :: "str \<Rightarrow> str"
  show_number :: "json \<Rightarrow> str"

definition hash_json_value :: "key_env \<Rightarrow> json \<Rightarrow> str" where
  "hash_json_value env v = short_sha env (push_canonical_json (quote_json env) (show_number env) v)"

subsection \<open>The exact key\<close>

definition SHELL_TOOLS :: "str list" where
  "SHELL_TOOLS = [''exec_shell'', ''task_shell_start'', ''exec_shell_wait'', ''exec_shell_interact'', ''exec_wait'', ''exec_interact'']"

definition FETCH_TOOLS :: "str list" where
  "FETCH_TOOLS = [''fetch_url'', ''web.fetch'', ''web_fetch'']"

definition FILE_TOOLS :: "str list" where
  "FILE_TOOLS = [''apply_patch'', ''write_file'', ''edit_file'', ''fim_edit'']"

definition build_approval_key :: "key_env \<Rightarrow> str \<Rightarrow> json \<Rightarrow> str" where
  "build_approval_key env tool input =
     (if tool \<in> set FILE_TOOLS then ''file:'' @ tool @ '':'' @ hash_json_value env input
      else if tool \<in> set SHELL_TOOLS then ''shell:'' @ tool @ '':'' @ hash_json_value env input
      else if tool \<in> set FETCH_TOOLS then ''net:'' @ tool @ '':'' @ hash_json_value env input
      else ''tool:'' @ tool @ '':'' @ hash_json_value env input)"

subsection \<open>The grouping key\<close>

datatype grouping_key_kind = ShellPrefix | NetHost | PatchPaths | ToolName

definition grouping_key_kind_of :: "str \<Rightarrow> grouping_key_kind" where
  "grouping_key_kind_of tool =
     (if tool = ''apply_patch'' then PatchPaths
      else if tool \<in> set SHELL_TOOLS then ShellPrefix
      else if tool \<in> set FETCH_TOOLS then NetHost
      else ToolName)"

definition EXACT_CALL_KEY_PREFIX :: str where "EXACT_CALL_KEY_PREFIX = ''exact:''"

definition exact_call_key :: "key_env \<Rightarrow> json \<Rightarrow> str" where
  "exact_call_key env input = EXACT_CALL_KEY_PREFIX @ hash_json_value env input"

definition command_of :: "json \<Rightarrow> str" where
  "command_of input = (case Option.bind (json_get ''command'' input) as_str of Some c \<Rightarrow> c | None \<Rightarrow> [])"

definition command_families :: "key_env \<Rightarrow> str \<Rightarrow> str list" where
  "command_families env command =
     remdups_adj (sort (filter (\<lambda>f. f \<noteq> [])
       (map (\<lambda>segment. classify_command (split_whitespace segment)) (split_segments (parse_bash env) command))))"

definition is_dangerous :: "key_env \<Rightarrow> str \<Rightarrow> bool" where
  "is_dangerous env command \<longleftrightarrow> sa_level (analyze_command (parse_bash env) (split_words env) command) = Dangerous"

definition shell_grouping_key :: "key_env \<Rightarrow> json \<Rightarrow> str" where
  "shell_grouping_key env input =
     (let command = command_of input
      in if is_dangerous env command then exact_call_key env input
         else
           let families = command_families env command
           in if families = [] then exact_call_key env input else ''shell:'' @ join '' + '' families)"

text \<open>The paths are those of \<open>changes\<close>, or of the \<open>+++ b/\<close> lines of \<open>patch\<close>.\<close>

definition patch_key_paths :: "json \<Rightarrow> str list" where
  "patch_key_paths input =
     remdups_adj (sort
       (case Option.bind (json_get ''changes'' input) as_array of
          Some changes \<Rightarrow> List.map_filter (\<lambda>change. Option.bind (json_get ''path'' change) as_str) changes
        | None \<Rightarrow>
            (case Option.bind (json_get ''patch'' input) as_str of
               Some patch \<Rightarrow> List.map_filter (\<lambda>line. map_option trim (strip_prefix ''+++ b/'' line)) (str_lines patch)
             | None \<Rightarrow> [])))"

definition hash_patch_paths :: "key_env \<Rightarrow> json \<Rightarrow> str" where
  "hash_patch_paths env input =
     (let paths = patch_key_paths input in if paths = [] then ''no_files'' else path_hash env paths)"

definition parse_net_host :: "key_env \<Rightarrow> json \<Rightarrow> str option" where
  "parse_net_host env input =
     (case Option.bind (json_get ''url'' input) as_str of
        None \<Rightarrow> None
      | Some url \<Rightarrow>
          (case parse_url env url of
             Some (scheme, Some host) \<Rightarrow> Some (scheme @ ''://'' @ host)
           | _ \<Rightarrow> None))"

definition build_approval_grouping_key :: "key_env \<Rightarrow> str \<Rightarrow> json \<Rightarrow> str" where
  "build_approval_grouping_key env tool input =
     (case grouping_key_kind_of tool of
        PatchPaths \<Rightarrow> ''patch:'' @ hash_patch_paths env input
      | ShellPrefix \<Rightarrow> shell_grouping_key env input
      | NetHost \<Rightarrow>
          (case parse_net_host env input of
             Some net \<Rightarrow> ''net:'' @ net
           | None \<Rightarrow> exact_call_key env input)
      | ToolName \<Rightarrow> ''tool:'' @ tool)"

subsection \<open>Families of a command\<close>

lemma families_set:
  "set (command_families env command)
     = {f. f \<noteq> [] \<and> (\<exists>segment\<in>set (split_segments (parse_bash env) command). f = classify_command (split_whitespace segment))}"
  by (auto simp: command_families_def)

lemma families_not_Nil: "f \<in> set (command_families env command) \<Longrightarrow> f \<noteq> []"
  by (simp add: families_set)

lemma shell_key_families:
  assumes "\<not> is_dangerous env (command_of input)" and "command_families env (command_of input) \<noteq> []"
  shows "shell_grouping_key env input = ''shell:'' @ join '' + '' (command_families env (command_of input))"
  using assms by (simp add: shell_grouping_key_def Let_def)

subsection \<open>Patches that share a key\<close>

definition diff_text :: "str list \<Rightarrow> str" where
  "diff_text ls = concat (map (\<lambda>l. l @ [CHR 0x0A]) ls)"

text \<open>The key hashes the paths in the text of the patch, and the tool writes to \<open>path\<close> when it is given: a grant for a
  patch of one file covers the same patch sent to any other.\<close>

lemma patch_key_ignores_path:
  "let patch = diff_text [''--- a/README.md'', ''+++ b/README.md'', ''@@ -1 +1 @@'', ''-x'', ''+y''];
       plain = JObj [(''patch'', JStr patch)];
       sent = JObj [(''patch'', JStr patch), (''path'', JStr ''src/main.rs'')]
   in build_approval_grouping_key env ''apply_patch'' sent = build_approval_grouping_key env ''apply_patch'' plain
      \<and> map_sum id touched_files (preflight_apply_patch show_json plain) = Inr [''README.md'']
      \<and> map_sum id touched_files (preflight_apply_patch show_json sent) = Inr [''src/main.rs'']"
proof -
  have "let patch = diff_text [''--- a/README.md'', ''+++ b/README.md'', ''@@ -1 +1 @@'', ''-x'', ''+y''];
       plain = JObj [(''patch'', JStr patch)];
       sent = JObj [(''patch'', JStr patch), (''path'', JStr ''src/main.rs'')]
   in patch_key_paths sent = patch_key_paths plain
      \<and> map_sum id touched_files (preflight_apply_patch show_json plain) = Inr [''README.md'']
      \<and> map_sum id touched_files (preflight_apply_patch show_json sent) = Inr [''src/main.rs'']"
    by code_simp
  then show ?thesis unfolding Let_def by (simp add: build_approval_grouping_key_def grouping_key_kind_of_def hash_patch_paths_def)
qed

text \<open>Patches without a \<open>+++ b/\<close> line share one key, whatever they touch: every deletion, and every patch whose
  headers lack the prefix.\<close>

lemma deletions_share_a_key:
  "let del = (\<lambda>f. JObj [(''patch'', JStr (diff_text [''--- a/'' @ f, ''+++ /dev/null'', ''@@ -1 +0,0 @@'', ''-x'']))])
   in build_approval_grouping_key env ''apply_patch'' (del ''a.rs'') = ''patch:no_files''
      \<and> build_approval_grouping_key env ''apply_patch'' (del ''b.rs'') = ''patch:no_files''
      \<and> map_sum id deletes (preflight_apply_patch show_json (del ''a.rs'')) = Inr [''a.rs'']
      \<and> map_sum id deletes (preflight_apply_patch show_json (del ''b.rs'')) = Inr [''b.rs'']"
proof -
  have "let del = (\<lambda>f. JObj [(''patch'', JStr (diff_text [''--- a/'' @ f, ''+++ /dev/null'', ''@@ -1 +0,0 @@'', ''-x'']))])
   in patch_key_paths (del ''a.rs'') = [] \<and> patch_key_paths (del ''b.rs'') = []
      \<and> map_sum id deletes (preflight_apply_patch show_json (del ''a.rs'')) = Inr [''a.rs'']
      \<and> map_sum id deletes (preflight_apply_patch show_json (del ''b.rs'')) = Inr [''b.rs'']"
    by code_simp
  then show ?thesis unfolding Let_def by (simp add: build_approval_grouping_key_def grouping_key_kind_of_def hash_patch_paths_def)
qed

end
