(* ===== verification/ApprovalGate.thy ===== *)
theory ApprovalGate
  imports ApprovalKeys ApprovalGrants Modes SessionStore
begin

section \<open>The approval gate of the terminal session (crates/cli/src/interactive)\<close>

text \<open>
  How a request for approval is answered: by the mode, by a denial, by a grant or by the user
  (\<open>render.rs\<close>), what \<open>/permissions\<close> changes (\<open>commands/permission_cmds.rs\<close>) and what a switch of the
  mode does to the posture (\<open>state.rs\<close>).  The lines the user types, the time and whether the running turn
  takes a steer are arguments; printing and the hooks are left out.
\<close>

subsection \<open>State\<close>

record repl_state =
  app_mode_of :: app_mode
  approval_mode :: approval_setting
  allow_shell :: bool
  trust_mode :: bool
  yolo_flag :: bool
  plan_restore_mode :: "app_mode option"
  workspace_key :: str
  session_approved :: "str set"
  session_denied :: "str set"
  grants_store :: approval_grants
  approvals_log :: "approval_record list"
  queued_messages :: "str list"

record approval_request =
  request_id :: str
  request_tool :: str
  exact_key :: str
  group_key :: str

datatype engine_op = ApproveCall str | DenyCall str | Steer str

subsection \<open>The parts of a grouping key\<close>

definition GROUPING_PART_SEPARATOR :: str where "GROUPING_PART_SEPARATOR = '' + ''"

definition grouping_parts :: "str \<Rightarrow> str list" where
  "grouping_parts key = split_str GROUPING_PART_SEPARATOR key"

definition record_always_approved :: "str set \<Rightarrow> str \<Rightarrow> str set" where
  "record_always_approved approved key = approved \<union> set (grouping_parts key)"

definition approval_always_granted :: "str set \<Rightarrow> approval_grants \<Rightarrow> str \<Rightarrow> str \<Rightarrow> bool" where
  "approval_always_granted approved grants workspace key =
     list_all (\<lambda>part. part \<in> approved \<or> is_granted grants workspace part) (grouping_parts key)"

definition approval_denied_in_session :: "str set \<Rightarrow> str \<Rightarrow> str \<Rightarrow> bool" where
  "approval_denied_in_session denied exact key =
     (if exact \<in> denied \<or> key \<in> denied then True
      else case strip_prefix ''shell:'' key of
             None \<Rightarrow> False
           | Some families \<Rightarrow> list_ex (\<lambda>family. ''shell:'' @ family \<in> denied) (split_str GROUPING_PART_SEPARATOR families))"

definition approval_always_scope :: "str \<Rightarrow> str \<Rightarrow> str" where
  "approval_always_scope tool key =
     (if starts_with key EXACT_CALL_KEY_PREFIX then ''this exact call''
      else case grouping_key_kind_of tool of
             ShellPrefix \<Rightarrow> if length (grouping_parts key) \<le> 1 then ''this command family'' else ''each of these command families''
           | PatchPaths \<Rightarrow> ''patches to the same paths''
           | NetHost \<Rightarrow> ''requests to the same host''
           | ToolName \<Rightarrow> ''every '' @ tool @ '' call'')"

subsection \<open>The answers\<close>

datatype approval_answer = RunOnce | AlwaysSession | YoloAnswer | NeverThis | Revise str | NeedFeedback | Skip

text \<open>\<open>split_once(char::is_whitespace)\<close>.\<close>

fun split_once_ws :: "str \<Rightarrow> str \<Rightarrow> str \<times> str" where
  "split_once_ws cur [] = (cur, [])"
| "split_once_ws cur (c # r) =
     (let n = ws_len (c # r) in if n = 0 then split_once_ws (cur @ [c]) r else (cur, drop n (c # r)))"

definition parse_feedback_answer :: "str \<Rightarrow> approval_answer" where
  "parse_feedback_answer line =
     (let (key, rest) = split_once_ws [] line;
          bare_key = trim_end_chars '':'' key
      in if \<not> (eq_ignore_ascii_case bare_key ''r'' \<or> eq_ignore_ascii_case bare_key ''revise'') then Revise line
         else
           let feedback = trim (trim_start_chars '':'' rest)
           in if feedback = [] then NeedFeedback else Revise feedback)"

definition parse_approval_answer :: "str \<Rightarrow> approval_answer" where
  "parse_approval_answer raw =
     (let trimmed = trim raw; key = to_ascii_lowercase trimmed
      in if key \<in> set [''y'', ''yes''] then RunOnce
         else if key \<in> set [''a'', ''always''] then AlwaysSession
         else if key \<in> set [''o'', ''yolo''] then YoloAnswer
         else if key \<in> set [''e'', ''never''] then NeverThis
         else if key \<in> set [''n'', ''no'', []] then Skip
         else parse_feedback_answer trimmed)"

definition parse_plan_approval_answer :: "str \<Rightarrow> approval_answer" where
  "parse_plan_approval_answer raw =
     (let trimmed = trim raw; key = to_ascii_lowercase trimmed
      in if key \<in> set [''y'', ''yes'', ''a'', ''always'', ''o'', ''yolo''] then RunOnce
         else if key \<in> set [''n'', ''no'', ''e'', ''never'', []] then Skip
         else parse_feedback_answer trimmed)"

text \<open>The loop of the prompt; the end of the input reads as an empty line.\<close>

fun read_answer :: "(str \<Rightarrow> approval_answer) \<Rightarrow> str list \<Rightarrow> approval_answer" where
  "read_answer parse [] = parse []"
| "read_answer parse (line # rest) =
     (case parse line of NeedFeedback \<Rightarrow> read_answer parse rest | answer \<Rightarrow> answer)"

subsection \<open>Modes\<close>

definition set_mode :: "app_mode \<Rightarrow> repl_state \<Rightarrow> repl_state" where
  "set_mode m s =
     (if app_mode_of s = m then s
      else
        let previous = app_mode_of s;
            s1 = s\<lparr>app_mode_of := m\<rparr>;
            s2 = (if m = Plan \<and> previous \<noteq> Plan then s1\<lparr>plan_restore_mode := Some previous\<rparr>
                  else if m \<noteq> Plan then s1\<lparr>plan_restore_mode := None\<rparr>
                  else s1);
            s3 = (if m = Coordinator \<and> previous \<noteq> Coordinator then s2\<lparr>approval_mode := ApproveAuto, allow_shell := True\<rparr>
                  else if previous = Coordinator \<and> m \<noteq> Coordinator then s2\<lparr>approval_mode := ApproveSuggest, allow_shell := False\<rparr>
                  else s2);
            s4 = (if m = Yolo \<and> previous \<noteq> Yolo
                  then s3\<lparr>allow_shell := True, trust_mode := True, approval_mode := ApproveAuto\<rparr>
                  else if previous = Yolo \<and> m \<noteq> Yolo
                  then s3\<lparr>allow_shell := False, trust_mode := False, approval_mode := ApproveSuggest\<rparr>
                  else s3)
        in s4\<lparr>yolo_flag := (m = Yolo)\<rparr>)"

definition cycle_mode :: "bool \<Rightarrow> repl_state \<Rightarrow> repl_state" where
  "cycle_mode coordinator_in_ring s = set_mode (app_mode_cycle_next (app_mode_of s) coordinator_in_ring) s"

subsection \<open>The gate\<close>

definition log_approval :: "int \<Rightarrow> approval_request \<Rightarrow> str \<Rightarrow> str option \<Rightarrow> repl_state \<Rightarrow> repl_state" where
  "log_approval now q decision feedback s =
     s\<lparr>approvals_log := approvals_log s @
        [\<lparr>tool_call_id = request_id q, approved_tool = request_tool q, approval_key = exact_key q, grouping_key = group_key q,
          approval_decision = decision, approval_feedback = feedback, approval_workspace = workspace_key s, approval_at = now\<rparr>]\<rparr>"

definition PLAN_REJECTED_NOTE :: str where
  "PLAN_REJECTED_NOTE = ''The user rejected this plan without feedback. Stay in plan mode: revise the plan file and present it again with exit_plan_mode.''"

fun apply_answer :: "int \<Rightarrow> bool \<Rightarrow> approval_request \<Rightarrow> approval_answer \<Rightarrow> repl_state \<Rightarrow> repl_state \<times> engine_op list" where
  "apply_answer now steer_ok q RunOnce s =
     (log_approval now q ''run-once'' None s, [ApproveCall (request_id q)])"
| "apply_answer now steer_ok q AlwaysSession s =
     (log_approval now q ''always-session'' None (s\<lparr>session_approved := record_always_approved (session_approved s) (group_key q)\<rparr>),
      [ApproveCall (request_id q)])"
| "apply_answer now steer_ok q YoloAnswer s =
     (log_approval now q ''yolo'' None ((set_mode Yolo s)\<lparr>approval_mode := ApproveAuto\<rparr>), [ApproveCall (request_id q)])"
| "apply_answer now steer_ok q NeverThis s =
     ((log_approval now q ''never-this'' None s)\<lparr>session_denied := insert (exact_key q) (session_denied s)\<rparr>, [DenyCall (request_id q)])"
| "apply_answer now steer_ok q (Revise feedback) s =
     (let s1 = log_approval now q ''feedback'' (Some feedback) s
      in (if steer_ok then s1 else s1\<lparr>queued_messages := queued_messages s1 @ [feedback]\<rparr>,
          [DenyCall (request_id q), Steer feedback]))"
| "apply_answer now steer_ok q skipped s =
     (log_approval now q ''skip'' None s,
      DenyCall (request_id q) # (if request_tool q = ''exit_plan_mode'' then [Steer PLAN_REJECTED_NOTE] else []))"

definition handle_approval :: "int \<Rightarrow> bool \<Rightarrow> str list \<Rightarrow> approval_request \<Rightarrow> repl_state \<Rightarrow> repl_state \<times> engine_op list" where
  "handle_approval now steer_ok typed q s =
     (if approval_mode s = ApproveAuto
      then (log_approval now q ''auto-mode'' None s, [ApproveCall (request_id q)])
      else if approval_denied_in_session (session_denied s) (exact_key q) (group_key q)
      then (log_approval now q ''session-deny'' None s, [DenyCall (request_id q)])
      else if approval_always_granted (session_approved s) (grants_store s) (workspace_key s) (group_key q)
      then (log_approval now q
              (if approval_always_granted (session_approved s) no_grants (workspace_key s) (group_key q)
               then ''session-grant'' else ''workspace-grant'') None s,
            [ApproveCall (request_id q)])
      else
        let parse = (if request_tool q = ''exit_plan_mode'' then parse_plan_approval_answer else parse_approval_answer)
        in apply_answer now steer_ok q (read_answer parse typed) s)"

subsection \<open>The permissions command\<close>

definition unquoted :: "char \<Rightarrow> str \<Rightarrow> str option" where
  "unquoted c t =
     (if 2 \<le> length t \<and> starts_with t [c] \<and> ends_with t [c] then Some (trim (take (length t - 2) (drop 1 t))) else None)"

definition normalize_rule :: "str \<Rightarrow> str" where
  "normalize_rule argument =
     (let trimmed = trim argument
      in case unquoted (CHR 0x22) trimmed of
           Some r \<Rightarrow> r
         | None \<Rightarrow> (case unquoted (CHR 0x27) trimmed of Some r \<Rightarrow> r | None \<Rightarrow> trimmed))"

definition shell_grant_key :: "str \<Rightarrow> str" where
  "shell_grant_key command =
     (let tokens = split_whitespace command
      in if tokens = [] then ''shell:<empty>'' else ''shell:'' @ classify_command tokens)"

text \<open>The stored change; the save that follows is \<open>save_grants\<close> on the store.\<close>

definition permission_allow :: "str \<Rightarrow> repl_state \<Rightarrow> repl_state" where
  "permission_allow command s =
     (let rule = normalize_rule command; key = shell_grant_key rule
      in if rule = [] then s
         else s\<lparr>grants_store := grant (workspace_key s) key (grants_store s), session_denied := session_denied s - {key}\<rparr>)"

definition permission_allow_many :: "str list \<Rightarrow> repl_state \<Rightarrow> repl_state" where
  "permission_allow_many rules s = fold permission_allow rules s"

definition permission_remove :: "str \<Rightarrow> repl_state \<Rightarrow> repl_state" where
  "permission_remove command s =
     (let rule = normalize_rule command; key = shell_grant_key rule
      in if rule = [] then s
         else s\<lparr>grants_store := snd (revoke (workspace_key s) key (grants_store s)), session_approved := session_approved s - {key}\<rparr>)"

definition permission_deny :: "str \<Rightarrow> repl_state \<Rightarrow> repl_state" where
  "permission_deny command s =
     (let rule = normalize_rule command
      in if rule = [] then s else s\<lparr>session_denied := insert (shell_grant_key rule) (session_denied s)\<rparr>)"

definition apply_config_rules :: "str list \<Rightarrow> repl_state \<Rightarrow> repl_state" where
  "apply_config_rules rules s =
     fold (\<lambda>rule s. if trim rule = [] then s
                    else s\<lparr>session_approved := insert (shell_grant_key (trim rule)) (session_approved s)\<rparr>) rules s"

subsection \<open>Splitting what was joined\<close>

text \<open>A part that does not look like the start of a separator survives the round through a key.\<close>

definition plain_part :: "str \<Rightarrow> bool" where
  "plain_part f \<longleftrightarrow> \<not> contains_str f '' +''"

lemma plain_part_Cons: "plain_part (c # f) \<Longrightarrow> plain_part f"
  by (auto simp: plain_part_def sublist_Cons_right)

lemma no_separator: "plain_part (c # f) \<Longrightarrow> r = [] \<or> hd r = CHR '' '' \<Longrightarrow> \<not> prefix '' + '' (c # f @ r)"
  by (cases f; cases r) (auto simp: plain_part_def sublist_Cons_right)

lemma split_part:
  assumes "plain_part f"
  shows "split_str_acc '' + '' cur (f @ '' + '' @ r) = (cur @ f) # split_str_acc '' + '' [] r"
    and "split_str_acc '' + '' cur f = [cur @ f]"
proof -
  show "split_str_acc '' + '' cur (f @ '' + '' @ r) = (cur @ f) # split_str_acc '' + '' [] r"
    using assms
  proof (induction f arbitrary: cur)
    case (Cons c f)
    have "\<not> prefix '' + '' (c # f @ '' + '' @ r)" using no_separator [OF Cons.prems, of "'' + '' @ r"] by simp
    then show ?case using Cons.IH [OF plain_part_Cons [OF Cons.prems], of "cur @ [c]"] by simp
  qed simp
  show "split_str_acc '' + '' cur f = [cur @ f]"
    using assms
  proof (induction f arbitrary: cur)
    case (Cons c f)
    have "\<not> prefix '' + '' (c # f)" using no_separator [OF Cons.prems, of "[]"] by simp
    then show ?case using Cons.IH [OF plain_part_Cons [OF Cons.prems], of "cur @ [c]"] by simp
  qed simp
qed

lemma split_join_parts: "fs \<noteq> [] \<Longrightarrow> list_all plain_part fs \<Longrightarrow> split_str '' + '' (join '' + '' fs) = fs"
proof (induction "'' + '' :: str" fs rule: join.induct)
  case (3 x y ys)
  then show ?case using split_part(1) [of x "[]" "join '' + '' (y # ys)"] by (simp add: split_str_def)
qed (simp_all add: split_str_def split_part(2))

lemma plain_shell: "plain_part f \<Longrightarrow> plain_part (''shell:'' @ f)"
  by (simp add: plain_part_def sublist_Cons_right)

text \<open>The parts of a command's key: its first family with the prefix, the others bare.\<close>

lemma shell_key_parts:
  assumes "families = f # fs" and "list_all plain_part families"
  shows "grouping_parts (''shell:'' @ join '' + '' families) = (''shell:'' @ f) # fs"
proof -
  have "''shell:'' @ join '' + '' families = join '' + '' ((''shell:'' @ f) # fs)"
    by (cases fs) (simp_all add: assms(1))
  then show ?thesis using split_join_parts [of "(''shell:'' @ f) # fs"] assms plain_shell [of f]
    by (simp add: grouping_parts_def GROUPING_PART_SEPARATOR_def)
qed

text \<open>A family is found again if it and those before it are plain, whatever those after it look like.\<close>

lemma split_finds_part:
  "list_all plain_part (us @ [f]) \<Longrightarrow> f \<in> set (split_str '' + '' (join '' + '' (us @ f # vs)))"
proof (induction us)
  case Nil
  then show ?case
    by (cases vs) (simp_all add: split_str_def split_part(2) split_part(1) [of f "[]", simplified])
next
  case (Cons u us)
  obtain w ws where w: "us @ f # vs = w # ws" by (cases us) auto
  have "f \<in> set (split_str '' + '' (join '' + '' (w # ws)))" using Cons by (simp add: w)
  then show ?case
    using split_part(1) [of u "[]" "join '' + '' (w # ws)"] Cons.prems by (simp add: w split_str_def)
qed

lemma any_family_denies:
  assumes "families = us @ f # vs" and "list_all plain_part (us @ [f])" and "''shell:'' @ f \<in> denied"
  shows "approval_denied_in_session denied exact (''shell:'' @ join '' + '' families)"
  using split_finds_part [OF assms(2), of vs] assms(1,3)
  by (auto simp: approval_denied_in_session_def GROUPING_PART_SEPARATOR_def strip_prefix_def list_ex_iff)

subsection \<open>A session\<close>

datatype repl_event =
    RequestEvent int bool "str list" approval_request
  | AllowEvent str
  | RemoveEvent str
  | DenyEvent str
  | ModeEvent app_mode

fun repl_step :: "repl_event \<Rightarrow> repl_state \<Rightarrow> repl_state" where
  "repl_step (RequestEvent now steer_ok typed q) s = fst (handle_approval now steer_ok typed q s)"
| "repl_step (AllowEvent c) s = permission_allow c s"
| "repl_step (RemoveEvent c) s = permission_remove c s"
| "repl_step (DenyEvent c) s = permission_deny c s"
| "repl_step (ModeEvent m) s = set_mode m s"

definition repl_run :: "repl_event list \<Rightarrow> repl_state \<Rightarrow> repl_state" where
  "repl_run es s = fold repl_step es s"

lemma set_mode_keeps [simp]:
  "session_approved (set_mode m s) = session_approved s" "session_denied (set_mode m s) = session_denied s"
  "grants_store (set_mode m s) = grants_store s" "approvals_log (set_mode m s) = approvals_log s"
  "workspace_key (set_mode m s) = workspace_key s"
  by (simp_all add: set_mode_def Let_def)

lemma apply_answer_effect:
  assumes "apply_answer now steer_ok q a s = (s', ops)"
  shows "(\<exists>r. approvals_log s' = approvals_log s @ [r] \<and> grouping_key r = group_key q
      \<and> approval_decision r \<notin> {''session-grant'', ''workspace-grant''}
      \<and> session_approved s' = (if approval_decision r = ''always-session''
           then session_approved s \<union> set (grouping_parts (group_key q)) else session_approved s))
    \<and> grants_store s' = grants_store s \<and> workspace_key s' = workspace_key s \<and> session_denied s \<subseteq> session_denied s'"
  using assms by (cases a) (auto simp: log_approval_def record_always_approved_def Let_def split: if_splits)

definition covered :: "repl_state \<Rightarrow> str \<Rightarrow> bool" where
  "covered s part \<longleftrightarrow> part \<in> session_approved s \<or> is_granted (grants_store s) (workspace_key s) part"

lemma handle_approval_effect:
  assumes "handle_approval now steer_ok typed q s = (s', ops)"
  shows "(\<exists>r. approvals_log s' = approvals_log s @ [r] \<and> grouping_key r = group_key q
      \<and> (approval_decision r \<in> {''session-grant'', ''workspace-grant''} \<longrightarrow> (\<forall>part\<in>set (grouping_parts (group_key q)). covered s part))
      \<and> session_approved s' = (if approval_decision r = ''always-session''
           then session_approved s \<union> set (grouping_parts (group_key q)) else session_approved s))
    \<and> grants_store s' = grants_store s \<and> workspace_key s' = workspace_key s \<and> session_denied s \<subseteq> session_denied s'"
proof -
  have logged: "\<exists>r. approvals_log (log_approval now q d fb s) = approvals_log s @ [r] \<and> grouping_key r = group_key q
      \<and> approval_decision r = d" for d fb
    by (simp add: log_approval_def)
  consider (auto) d where "s' = log_approval now q d None s" "d = ''auto-mode'' \<or> d = ''session-deny''"
    | (granted) d where "s' = log_approval now q d None s" "d = ''session-grant'' \<or> d = ''workspace-grant''"
        "approval_always_granted (session_approved s) (grants_store s) (workspace_key s) (group_key q)"
    | (asked) parse where "apply_answer now steer_ok q (read_answer parse typed) s = (s', ops)"
    using assms by (auto simp: handle_approval_def Let_def split: if_splits)
  then show ?thesis
  proof cases
    case auto
    then show ?thesis by (auto simp: log_approval_def)
  next
    case granted
    then show ?thesis by (auto simp: log_approval_def approval_always_granted_def list_all_iff covered_def)
  next
    case asked
    from apply_answer_effect [OF this] show ?thesis by auto
  qed
qed

lemma covered_step:
  assumes "covered (repl_step e s) part"
  shows "covered s part
    \<or> (\<exists>r. approvals_log (repl_step e s) = approvals_log s @ [r] \<and> approval_decision r = ''always-session''
          \<and> part \<in> set (grouping_parts (grouping_key r)))
    \<or> (\<exists>c. e = AllowEvent c \<and> part = shell_grant_key (normalize_rule c))"
proof (cases e)
  case (RequestEvent now steer_ok typed q)
  obtain s' ops where run: "handle_approval now steer_ok typed q s = (s', ops)" by force
  from handle_approval_effect [OF run] show ?thesis
    using assms RequestEvent run by (auto simp: covered_def split: if_splits)
next
  case (AllowEvent c)
  then show ?thesis using assms
    by (auto simp: covered_def permission_allow_def Let_def is_granted_grants_of grant_effect split: if_splits)
next
  case (RemoveEvent c)
  then show ?thesis using assms
    by (auto simp: covered_def permission_remove_def Let_def is_granted_grants_of revoke_effect split: if_splits)
next
  case (DenyEvent c)
  then show ?thesis using assms by (auto simp: covered_def permission_deny_def Let_def split: if_splits)
next
  case (ModeEvent m)
  then show ?thesis using assms by (simp add: covered_def)
qed

lemma log_step:
  "approvals_log (repl_step e s) = approvals_log s
   \<or> (\<exists>r. approvals_log (repl_step e s) = approvals_log s @ [r]
        \<and> (approval_decision r \<in> {''session-grant'', ''workspace-grant''} \<longrightarrow> (\<forall>part\<in>set (grouping_parts (grouping_key r)). covered s part)))"
proof (cases e)
  case (RequestEvent now steer_ok typed q)
  obtain s' ops where run: "handle_approval now steer_ok typed q s = (s', ops)" by force
  from handle_approval_effect [OF run] show ?thesis using RequestEvent run by auto
qed (auto simp: permission_allow_def permission_remove_def permission_deny_def Let_def)

text \<open>A part explained by the log: some answered prompt of before promised it.\<close>

definition promised :: "approval_record list \<Rightarrow> str \<Rightarrow> bool" where
  "promised log part \<longleftrightarrow>
     (\<exists>r\<in>set log. approval_decision r = ''always-session'' \<and> part \<in> set (grouping_parts (grouping_key r)))"

definition allowed_in :: "repl_event list \<Rightarrow> str \<Rightarrow> bool" where
  "allowed_in es part \<longleftrightarrow> (\<exists>c. AllowEvent c \<in> set es \<and> part = shell_grant_key (normalize_rule c))"

lemma promised_append [simp]: "promised (log @ log') part \<longleftrightarrow> promised log part \<or> promised log' part"
  by (auto simp: promised_def)

lemma repl_run_snoc: "repl_run (es @ [e]) s = repl_step e (repl_run es s)"
  by (simp add: repl_run_def)

lemma covered_run:
  "covered (repl_run es s0) part \<Longrightarrow>
     covered s0 part \<or> promised (approvals_log (repl_run es s0)) part \<or> allowed_in es part"
proof (induction es rule: rev_induct)
  case Nil
  then show ?case by (simp add: repl_run_def)
next
  case (snoc e es)
  let ?s = "repl_run es s0"
  have grows: "promised (approvals_log ?s) p \<Longrightarrow> promised (approvals_log (repl_step e ?s)) p" for p
    using log_step [of e ?s] by auto
  from covered_step [of e ?s part] snoc.prems have
    "covered ?s part \<or> promised (approvals_log (repl_step e ?s)) part \<or> (\<exists>c. e = AllowEvent c \<and> part = shell_grant_key (normalize_rule c))"
    by (auto simp: repl_run_snoc promised_def)
  then show ?case using snoc.IH grows by (auto simp: repl_run_snoc allowed_in_def)
qed

text \<open>C29: The session's record explains every call that ran on a grant. In any session, each part of the key of a call
  that ran unasked was covered when the session began, was promised by an always-answer recorded before
  that call, or was allowed by a \<open>/permissions allow\<close>: no sequence of prompts, answers, denials, removals
  and mode switches lets a grant arise otherwise.\<close>

theorem log_explains_grants:
  assumes "approvals_log s0 = []"
    and "i < length (approvals_log (repl_run es s0))" and "r = approvals_log (repl_run es s0) ! i"
    and "approval_decision r \<in> {''session-grant'', ''workspace-grant''}" and "part \<in> set (grouping_parts (grouping_key r))"
  shows "covered s0 part \<or> promised (take i (approvals_log (repl_run es s0))) part \<or> allowed_in es part"
  using assms(2-5)
proof (induction es arbitrary: r rule: rev_induct)
  case Nil
  then show ?case using assms(1) by (simp add: repl_run_def)
next
  case (snoc e es)
  let ?s = "repl_run es s0"
  have more: "allowed_in es p \<Longrightarrow> allowed_in (es @ [e]) p" for p by (auto simp: allowed_in_def)
  consider (old) "i < length (approvals_log ?s)"
    | (new) q where "approvals_log (repl_step e ?s) = approvals_log ?s @ [q]" "i = length (approvals_log ?s)"
        "approval_decision q \<in> {''session-grant'', ''workspace-grant''} \<longrightarrow> (\<forall>part\<in>set (grouping_parts (grouping_key q)). covered ?s part)"
    using log_step [of e ?s] snoc.prems(1) by (auto simp: repl_run_snoc less_Suc_eq)
  then show ?case
  proof cases
    case old
    have "approvals_log (repl_step e ?s) ! i = approvals_log ?s ! i" "take i (approvals_log (repl_step e ?s)) = take i (approvals_log ?s)"
      using log_step [of e ?s] old by (auto simp: nth_append)
    then show ?thesis using snoc.IH [OF old refl] snoc.prems more by (auto simp: repl_run_snoc)
  next
    case new
    then have "covered ?s part" using snoc.prems by (auto simp: repl_run_snoc)
    from covered_run [OF this] show ?thesis using new(1,2) more by (auto simp: repl_run_snoc)
  qed
qed

definition fresh_repl :: repl_state where
  "fresh_repl = \<lparr>app_mode_of = Agent, approval_mode = ApproveSuggest, allow_shell = True, trust_mode = False, yolo_flag = False,
     plan_restore_mode = None, workspace_key = ''/w'', session_approved = {}, session_denied = {}, grants_store = no_grants,
     approvals_log = [], queued_messages = []\<rparr>"

definition shell_request :: "str \<Rightarrow> str \<Rightarrow> approval_request" where
  "shell_request i key = \<lparr>request_id = i, request_tool = ''exec_shell'', exact_key = ''shell:exec_shell:'' @ i, group_key = key\<rparr>"

lemma log_explains_grants_witness:
  "let es = [RequestEvent 0 True [''a''] (shell_request ''1'' ''shell:cargo build + cargo clippy''),
             RequestEvent 1 True [] (shell_request ''2'' ''shell:cargo build'')]
   in approval_decision (approvals_log (repl_run es fresh_repl) ! 1) = ''session-grant''
      \<and> (covered fresh_repl ''shell:cargo build'' \<or> promised (take 1 (approvals_log (repl_run es fresh_repl))) ''shell:cargo build''
          \<or> allowed_in es ''shell:cargo build'')"
proof -
  let ?es = "[RequestEvent 0 True [''a''] (shell_request ''1'' ''shell:cargo build + cargo clippy''),
             RequestEvent 1 True [] (shell_request ''2'' ''shell:cargo build'')]"
  let ?log = "approvals_log (repl_run ?es fresh_repl)"
  have run: "length ?log = 2 \<and> approval_decision (?log ! 1) = ''session-grant'' \<and> grouping_key (?log ! 1) = ''shell:cargo build''"
    by code_simp
  have parts: "grouping_parts ''shell:cargo build'' = [''shell:cargo build'']" by code_simp
  have "covered fresh_repl ''shell:cargo build'' \<or> promised (take 1 ?log) ''shell:cargo build'' \<or> allowed_in ?es ''shell:cargo build''"
    by (rule log_explains_grants [OF _ _ refl]) (use run parts in \<open>simp_all add: fresh_repl_def\<close>)
  then show ?thesis using run unfolding Let_def by blast
qed

subsection \<open>Two ways a chain is granted otherwise than it was asked\<close>

text \<open>Only the first family of a chain is stored with the prefix under which a single command is looked up: the second
  command of an approved chain is asked about again, and an approval of each command by itself does not
  cover the chain.\<close>

lemma chain_grant_misses_second:
  "let s = fst (handle_approval 0 True [''a''] (shell_request ''1'' ''shell:cargo build + cargo clippy'') fresh_repl)
   in covered s ''shell:cargo build'' \<and> \<not> covered s ''shell:cargo clippy'' \<and> covered s ''cargo clippy''"
  by code_simp

text \<open>And the bare name of a later command is stored as it stands, so it can spell the key of something else: an
  always-answer to a chain whose second command is called \<open>tool:write_file\<close> lets every call of that tool
  run unasked.\<close>

definition chain_env :: key_env where
  "chain_env = \<lparr>parse_bash = (\<lambda>c. if c = ''cargo build && tool:write_file''
        then Some (simple_facts [simple_segment [''cargo'', ''build''],
                                 (simple_segment [''tool:write_file''])\<lparr>join_kind := Some And\<rparr>]) else None),
     split_words = (\<lambda>_. None), short_sha = (\<lambda>t. t), path_hash = concat, parse_url = (\<lambda>_. None), quote_json = (\<lambda>t. t),
     show_number = (\<lambda>_. [])\<rparr>"

lemma chain_can_grant_a_tool:
  "let command = JObj [(''command'', JStr ''cargo build && tool:write_file'')];
       s = fst (handle_approval 0 True [''a''] (shell_request ''1'' (build_approval_grouping_key chain_env ''exec_shell'' command)) fresh_repl);
       q = \<lparr>request_id = ''2'', request_tool = ''write_file'', exact_key = build_approval_key chain_env ''write_file'' input,
            group_key = build_approval_grouping_key chain_env ''write_file'' input\<rparr>
   in snd (handle_approval 1 True [] q s) = [ApproveCall ''2'']"
  by code_simp

subsection \<open>Denials\<close>

lemma denied_stays:
  assumes "key \<in> session_denied s" and "\<And>c. AllowEvent c \<in> set es \<Longrightarrow> shell_grant_key (normalize_rule c) \<noteq> key"
  shows "key \<in> session_denied (repl_run es s)"
  using assms
proof (induction es rule: rev_induct)
  case Nil
  then show ?case by (simp add: repl_run_def)
next
  case (snoc e es)
  let ?s = "repl_run es s"
  have there: "key \<in> session_denied ?s" using snoc by simp
  show ?case
  proof (cases e)
    case (RequestEvent now steer_ok typed q)
    obtain s' ops where run: "handle_approval now steer_ok typed q ?s = (s', ops)" by force
    from handle_approval_effect [OF run] show ?thesis using there RequestEvent run by (auto simp: repl_run_snoc)
  next
    case (AllowEvent c)
    then show ?thesis using there snoc.prems(2) [of c] by (auto simp: repl_run_snoc permission_allow_def Let_def)
  qed (use there in \<open>auto simp: repl_run_snoc permission_remove_def permission_deny_def Let_def\<close>)
qed

text \<open>C30: A denied family stays denied. After \<open>/permissions deny\<close>, whatever happens short of an allow of the same
  family, a later shell command one of whose segments belongs to the family is refused without a question, alone or
  in a chain and whatever the user or the grants file had granted, unless approvals are automatic, the command is
  dangerous (and then asked about as itself), or the family or one sorted before it in the chain contains a blank and a
  plus sign, the start of the separator the key is split at. The last exception is real
  (\<open>separator_word_hides_denial\<close>).\<close>

theorem denied_family_is_refused:
  assumes "s = repl_run es (permission_deny rule s0)" and "approval_mode s \<noteq> ApproveAuto"
    and "split_whitespace (normalize_rule rule) \<noteq> []"
    and "\<And>c. AllowEvent c \<in> set es \<Longrightarrow> shell_grant_key (normalize_rule c) \<noteq> shell_grant_key (normalize_rule rule)"
    and "command_families env (command_of input) = us @ classify_command (split_whitespace (normalize_rule rule)) # vs"
    and "list_all (\<lambda>f. \<not> contains_str f '' +'') (us @ [classify_command (split_whitespace (normalize_rule rule))])"
    and "\<not> is_dangerous env (command_of input)"
    and "request_tool q \<in> set SHELL_TOOLS" and "group_key q = build_approval_grouping_key env (request_tool q) input"
  shows "snd (handle_approval now steer_ok typed q s) = [DenyCall (request_id q)]"
proof -
  let ?family = "classify_command (split_whitespace (normalize_rule rule))" and ?fs = "command_families env (command_of input)"
  have key: "shell_grant_key (normalize_rule rule) = ''shell:'' @ ?family" using assms(3) by (simp add: shell_grant_key_def)
  have "normalize_rule rule \<noteq> []" using assms(3) by (auto simp: split_whitespace_def)
  then have denied: "''shell:'' @ ?family \<in> session_denied s"
    unfolding assms(1) key [symmetric] by (intro denied_stays assms(4)) (simp_all add: permission_deny_def Let_def)
  have some: "?fs \<noteq> []" using assms(5) by auto
  have "grouping_key_kind_of (request_tool q) = ShellPrefix"
    using assms(8) by (auto simp: grouping_key_kind_of_def SHELL_TOOLS_def)
  then have "group_key q = ''shell:'' @ join '' + '' ?fs"
    using assms(9) some assms(7) by (simp add: build_approval_grouping_key_def shell_grouping_key_def Let_def)
  moreover have "list_all plain_part (us @ [?family])" using assms(6) by (simp add: list_all_iff plain_part_def)
  ultimately have "approval_denied_in_session (session_denied s) (exact_key q) (group_key q)"
    using any_family_denies [OF assms(5) _ denied] by simp
  then show ?thesis using assms(2) by (simp add: handle_approval_def)
qed

lemma denied_family_is_refused_witness:
  "let s = repl_run [RequestEvent 0 True [''a''] (shell_request ''1'' ''shell:cargo build'')] (permission_deny ''tool:write_file'' fresh_repl);
       command = JObj [(''command'', JStr ''cargo build && tool:write_file'')]
   in snd (handle_approval 1 True [''y''] (shell_request ''2'' (build_approval_grouping_key chain_env ''exec_shell'' command)) s)
      = [DenyCall ''2'']"
proof -
  let ?s = "repl_run [RequestEvent 0 True [''a''] (shell_request ''1'' ''shell:cargo build'')] (permission_deny ''tool:write_file'' fresh_repl)"
  let ?command = "JObj [(''command'', JStr ''cargo build && tool:write_file'')]"
  have family: "command_families chain_env (command_of ?command)
      = [''cargo build''] @ classify_command (split_whitespace (normalize_rule ''tool:write_file'')) # []"
    by code_simp
  have plain: "list_all (\<lambda>f. \<not> contains_str f '' +'')
      ([''cargo build''] @ [classify_command (split_whitespace (normalize_rule ''tool:write_file''))])" by code_simp
  have safe: "\<not> is_dangerous chain_env (command_of ?command)" by code_simp
  have mode: "approval_mode ?s \<noteq> ApproveAuto" by code_simp
  have words: "split_whitespace (normalize_rule ''tool:write_file'') \<noteq> []" by code_simp
  have "snd (handle_approval 1 True [''y''] (shell_request ''2'' (build_approval_grouping_key chain_env ''exec_shell'' ?command)) ?s)
      = [DenyCall (request_id (shell_request ''2'' (build_approval_grouping_key chain_env ''exec_shell'' ?command)))]"
    by (rule denied_family_is_refused [OF refl mode words _ family plain safe])
      (simp_all add: shell_request_def SHELL_TOOLS_def)
  then show ?thesis by (simp add: Let_def shell_request_def)
qed

text \<open>A word that is a plus sign: the key \<open>shell:npm run + + rustup update\<close> is split into \<open>npm run\<close> and
  \<open>+ rustup update\<close>, so the denied \<open>rustup update\<close> is asked about and runs on a yes.\<close>

definition plus_env :: key_env where
  "plus_env = chain_env\<lparr>parse_bash := (\<lambda>c. if c = ''npm run + && rustup update''
        then Some (simple_facts [simple_segment [''npm'', ''run'', ''+''],
                                 (simple_segment [''rustup'', ''update''])\<lparr>join_kind := Some And\<rparr>]) else None)\<rparr>"

lemma separator_word_hides_denial:
  "let s = permission_deny ''rustup update'' fresh_repl;
       command = JObj [(''command'', JStr ''npm run + && rustup update'')]
   in command_families plus_env (command_of command) = [''npm run +'', ''rustup update'']
      \<and> \<not> is_dangerous plus_env (command_of command)
      \<and> snd (handle_approval 1 True [''y''] (shell_request ''2'' (build_approval_grouping_key plus_env ''exec_shell'' command)) s)
          = [ApproveCall ''2'']"
  by code_simp

subsection \<open>Modes\<close>

text \<open>Coordinator mode is to approve by itself and to have the shell; entered from YOLO mode it has neither, since the
  branch for leaving YOLO runs after the one for entering Coordinator.\<close>

lemma coordinator_after_yolo:
  "app_mode_of s = Yolo \<Longrightarrow> approval_mode (set_mode Coordinator s) = ApproveSuggest \<and> \<not> allow_shell (set_mode Coordinator s)"
  "app_mode_of s \<in> {Agent, Plan} \<Longrightarrow> approval_mode (set_mode Coordinator s) = ApproveAuto \<and> allow_shell (set_mode Coordinator s)"
  by (auto simp: set_mode_def Let_def)

text \<open>A visit to YOLO mode replaces the configured approval mode and the shell permission of the start.\<close>

lemma yolo_forgets_configuration:
  "app_mode_of s = Agent \<Longrightarrow>
     approval_mode (set_mode Agent (set_mode Yolo s)) = ApproveSuggest \<and> \<not> allow_shell (set_mode Agent (set_mode Yolo s))"
  by (simp add: set_mode_def Let_def)

end
