(* ===== verification/PathGuard.thy ===== *)
theory PathGuard
  imports Dispatch
begin

section \<open>The workspace boundary of the tools (crates/agent-runtime/src/tools/spec.rs)\<close>

text \<open>
  \<open>ToolContext::resolve_path\<close> turns the path a tool was given into the path it uses, and refuses what leaves
  the workspace.  A path is its components, without the empty and the dot ones; the file system is a map
  from canonical paths to directories, files and symbolic links, walked the way Unix does, with at most 40
  links.  Permissions, Windows prefixes and changes between the check and the use are left out.
\<close>

subsection \<open>Paths\<close>

record os_path =
  is_absolute :: bool
  parts :: "str list"

definition parse_path :: "str \<Rightarrow> os_path" where
  "parse_path s =
     \<lparr>is_absolute = starts_with s ''/'', parts = filter (\<lambda>c. c \<noteq> [] \<and> c \<noteq> ''.'') (split_char (CHR ''/'') s)\<rparr>"

definition join_path :: "os_path \<Rightarrow> os_path \<Rightarrow> os_path" where
  "join_path base p = (if is_absolute p then p else \<lparr>is_absolute = is_absolute base, parts = parts base @ parts p\<rparr>)"

definition path_starts_with :: "os_path \<Rightarrow> os_path \<Rightarrow> bool" where
  "path_starts_with p base \<longleftrightarrow> is_absolute p = is_absolute base \<and> prefix (parts base) (parts p)"

fun normalize_parts :: "bool \<Rightarrow> str list \<Rightarrow> str list \<Rightarrow> str list" where
  "normalize_parts is_root stack [] = stack"
| "normalize_parts is_root stack (c # cs) =
     (if c = ''..''
      then (if stack \<noteq> []
            then (if last stack = ''..'' then normalize_parts is_root (stack @ [''..'']) cs
                  else normalize_parts is_root (butlast stack) cs)
            else if \<not> is_root then normalize_parts is_root (stack @ [''..'']) cs
            else normalize_parts is_root stack cs)
      else normalize_parts is_root (stack @ [c]) cs)"

definition normalize_path :: "os_path \<Rightarrow> os_path" where
  "normalize_path p = p\<lparr>parts := normalize_parts (is_absolute p) [] (parts p)\<rparr>"

subsection \<open>The file system\<close>

datatype fs_node = DirNode | FileNode | LinkNode os_path

type_synonym file_system = "str list \<rightharpoonup> fs_node"

definition node_at :: "file_system \<Rightarrow> str list \<Rightarrow> fs_node option" where
  "node_at fs p = (if p = [] then Some DirNode else fs p)"

definition MAX_LINKS :: nat where "MAX_LINKS = 40"

text \<open>The walk of a path from a directory; with \<open>create\<close> the last component may be missing, which is how an opening
  that creates the file reads it.\<close>

function walk :: "file_system \<Rightarrow> bool \<Rightarrow> nat \<Rightarrow> str list \<Rightarrow> str list \<Rightarrow> str list option" where
  "walk fs create n cur [] = Some cur"
| "walk fs create n cur (c # rest) =
     (if c = ''..'' then walk fs create n (butlast cur) rest
      else case node_at fs (cur @ [c]) of
             None \<Rightarrow> if create \<and> rest = [] then Some (cur @ [c]) else None
           | Some DirNode \<Rightarrow> walk fs create n (cur @ [c]) rest
           | Some FileNode \<Rightarrow> if rest = [] then Some (cur @ [c]) else None
           | Some (LinkNode t) \<Rightarrow>
               (case n of
                  0 \<Rightarrow> None
                | Suc m \<Rightarrow> walk fs create m (if is_absolute t then [] else cur) (parts t @ rest)))"
  by pat_completeness auto
termination
  by (relation "measures [\<lambda>(_, _, n, _, _). n, \<lambda>(_, _, _, _, rest). length rest]") auto

record tool_context =
  workspace :: os_path
  effective_cwd :: os_path
  trust_mode :: bool
  trusted_external_paths :: "os_path list"
  process_cwd :: "str list"

definition canonicalize :: "file_system \<Rightarrow> tool_context \<Rightarrow> os_path \<Rightarrow> os_path option" where
  "canonicalize fs ctx p =
     map_option (\<lambda>q. \<lparr>is_absolute = True, parts = q\<rparr>)
       (walk fs False MAX_LINKS (if is_absolute p then [] else process_cwd ctx) (parts p))"

definition path_exists :: "file_system \<Rightarrow> tool_context \<Rightarrow> os_path \<Rightarrow> bool" where
  "path_exists fs ctx p \<longleftrightarrow> canonicalize fs ctx p \<noteq> None"

subsection \<open>The check\<close>

definition is_trusted_external_path :: "tool_context \<Rightarrow> os_path \<Rightarrow> bool" where
  "is_trusted_external_path ctx p = list_ex (path_starts_with p) (trusted_external_paths ctx)"

definition file_name :: "os_path \<Rightarrow> str option" where
  "file_name p = (if parts p = [] \<or> last (parts p) = ''..'' then None else Some (last (parts p)))"

definition parent_path :: "os_path \<Rightarrow> os_path option" where
  "parent_path p = (if parts p = [] then None else Some (p\<lparr>parts := butlast (parts p)\<rparr>))"

text \<open>The deepest existing ancestor and, last first, the names below it.\<close>

function existing_ancestor :: "file_system \<Rightarrow> tool_context \<Rightarrow> os_path \<Rightarrow> str list \<Rightarrow> os_path \<times> str list" where
  "existing_ancestor fs ctx p suffix_parts =
     (if path_exists fs ctx p then (p, suffix_parts)
      else
        let suffix' = (case file_name p of Some n \<Rightarrow> suffix_parts @ [n] | None \<Rightarrow> suffix_parts)
        in case parent_path p of
             None \<Rightarrow> (p, suffix')
           | Some q \<Rightarrow> if \<not> is_absolute q \<and> parts q = [] then (p, suffix') else existing_ancestor fs ctx q suffix')"
  by pat_completeness auto
termination
  by (relation "measure (\<lambda>(_, _, p, _). length (parts p))") (auto simp: parent_path_def split: if_splits)

declare existing_ancestor.simps [simp del]

definition resolve_path :: "file_system \<Rightarrow> tool_context \<Rightarrow> str \<Rightarrow> tool_error + os_path" where
  "resolve_path fs ctx raw =
     (let candidate = (if is_absolute (parse_path raw) then parse_path raw else join_path (effective_cwd ctx) (parse_path raw))
      in if trust_mode ctx
         then Inr (case canonicalize fs ctx candidate of Some c \<Rightarrow> c | None \<Rightarrow> candidate)
         else
           let workspace_canonical = (case canonicalize fs ctx (workspace ctx) of Some w \<Rightarrow> w | None \<Rightarrow> workspace ctx);
               candidate_canonical = (case canonicalize fs ctx candidate of Some c \<Rightarrow> c | None \<Rightarrow> normalize_path candidate);
               workspace_normalized = normalize_path workspace_canonical;
               workspace_plain = normalize_path (workspace ctx);
               candidate_normalized = normalize_path candidate
           in if \<not> path_starts_with candidate_canonical workspace_normalized
                 \<and> \<not> path_starts_with candidate_normalized workspace_plain
                 \<and> \<not> is_trusted_external_path ctx candidate_canonical
                 \<and> \<not> is_trusted_external_path ctx candidate_normalized
              then Inl (PathEscape (parts candidate_canonical))
              else case canonicalize fs ctx candidate of
                     Some resolved \<Rightarrow>
                       if \<not> path_starts_with resolved workspace_canonical \<and> \<not> is_trusted_external_path ctx resolved
                       then Inl (PathEscape (parts resolved))
                       else Inr resolved
                   | None \<Rightarrow>
                       let (ancestor, suffix_parts) = existing_ancestor fs ctx (normalize_path candidate) [];
                           canonical_ancestor = (case canonicalize fs ctx ancestor of Some c \<Rightarrow> c | None \<Rightarrow> ancestor);
                           resolved = normalize_path (canonical_ancestor\<lparr>parts := parts canonical_ancestor @ rev suffix_parts\<rparr>)
                       in if \<not> path_starts_with resolved workspace_canonical
                             \<and> \<not> path_starts_with resolved workspace_normalized
                             \<and> \<not> is_trusted_external_path ctx resolved
                          then Inl (PathEscape (parts resolved))
                          else Inr resolved)"

definition escaped_path :: "file_system \<Rightarrow> tool_context \<Rightarrow> str \<Rightarrow> path option" where
  "escaped_path fs ctx raw = (case resolve_path fs ctx raw of Inl (PathEscape p) \<Rightarrow> Some p | _ \<Rightarrow> None)"

definition grant_external_path :: "os_path \<Rightarrow> tool_context \<Rightarrow> tool_context" where
  "grant_external_path p ctx =
     (if p \<in> set (trusted_external_paths ctx) then ctx
      else ctx\<lparr>trusted_external_paths := trusted_external_paths ctx @ [p]\<rparr>)"

definition push_root :: "os_path \<Rightarrow> os_path list \<Rightarrow> os_path list" where
  "push_root p roots = (if p \<in> set roots then roots else roots @ [p])"

definition with_trusted_external_paths :: "file_system \<Rightarrow> os_path list \<Rightarrow> tool_context \<Rightarrow> tool_context" where
  "with_trusted_external_paths fs paths ctx =
     ctx\<lparr>trusted_external_paths :=
       foldl (\<lambda>roots p. case canonicalize fs ctx p of
                          Some c \<Rightarrow> push_root c (push_root p roots)
                        | None \<Rightarrow> push_root p roots) [] paths\<rparr>"

subsection \<open>Canonical paths\<close>

text \<open>A directory reached without a link: every prefix is a directory.\<close>

definition dirs_ok :: "file_system \<Rightarrow> str list \<Rightarrow> bool" where
  "dirs_ok fs p \<longleftrightarrow> ''..'' \<notin> set p \<and> (\<forall>q. prefix q p \<longrightarrow> node_at fs q = Some DirNode)"

lemma dirs_ok_Nil [simp]: "dirs_ok fs []"
  by (simp add: dirs_ok_def node_at_def)

lemma dirs_ok_snoc: "dirs_ok fs (p @ [c]) \<longleftrightarrow> dirs_ok fs p \<and> c \<noteq> ''..'' \<and> node_at fs (p @ [c]) = Some DirNode"
  by (auto simp: dirs_ok_def)

lemma dirs_ok_butlast: "dirs_ok fs p \<Longrightarrow> dirs_ok fs (butlast p)"
  by (cases p rule: rev_cases) (simp_all add: dirs_ok_snoc)

definition canonical_path :: "file_system \<Rightarrow> str list \<Rightarrow> bool" where
  "canonical_path fs p \<longleftrightarrow> dirs_ok fs p \<or> (\<exists>d c. p = d @ [c] \<and> dirs_ok fs d \<and> c \<noteq> ''..'' \<and> node_at fs p = Some FileNode)"

lemma walk_canonical: "walk fs False n cur ps = Some q \<Longrightarrow> dirs_ok fs cur \<Longrightarrow> canonical_path fs q"
proof (induction fs "False" n cur ps rule: walk.induct)
  case (1 fs n cur)
  then show ?case by (simp add: canonical_path_def)
next
  case (2 fs n cur c rest)
  show ?case
  proof (cases "c = ''..''")
    case True
    then show ?thesis using 2 dirs_ok_butlast by simp
  next
    case False
    then show ?thesis using 2
      by (auto simp: canonical_path_def dirs_ok_snoc split: option.splits fs_node.splits if_splits nat.splits)
  qed
qed

lemma canonical_no_dots: "canonical_path fs p \<Longrightarrow> ''..'' \<notin> set p"
  by (auto simp: canonical_path_def dirs_ok_def)

lemma canonical_no_links: "canonical_path fs p \<Longrightarrow> prefix q p \<Longrightarrow> node_at fs q \<noteq> Some (LinkNode t)"
  by (auto simp: canonical_path_def dirs_ok_def)

lemma canonicalize_absolute:
  assumes "canonicalize fs ctx p = Some q" and "is_absolute p"
  shows "is_absolute q \<and> canonical_path fs (parts q)"
  using assms walk_canonical [of fs MAX_LINKS "[]" "parts p"] by (auto simp: canonicalize_def)

lemma normalize_no_dots: "''..'' \<notin> set ps \<Longrightarrow> normalize_parts r st ps = st @ ps"
  by (induction ps arbitrary: st) auto

lemma normalize_absolute: "''..'' \<notin> set st \<Longrightarrow> ''..'' \<notin> set (normalize_parts True st ps)"
proof (induction ps arbitrary: st)
  case (Cons c ps)
  have shorter: "''..'' \<notin> set (butlast st)" using Cons.prems by (meson in_set_butlastD)
  have top: "st \<noteq> [] \<Longrightarrow> last st \<noteq> ''..''" using Cons.prems last_in_set [of st] by metis
  show ?case
  proof (cases "c = ''..''")
    case True
    then show ?thesis using Cons.IH [OF shorter] Cons.IH [OF Cons.prems] top by (cases "st = []") simp_all
  next
    case False
    then have "''..'' \<notin> set (st @ [c])" using Cons.prems by simp
    from Cons.IH [OF this] show ?thesis using False by simp
  qed
qed simp

text \<open>Opening a path without links and dots reaches that path.\<close>

lemma walk_no_links:
  assumes "walk fs create n cur ps = Some q" and "''..'' \<notin> set ps"
    and "\<And>r t. prefix r ps \<Longrightarrow> node_at fs (cur @ r) \<noteq> Some (LinkNode t)"
  shows "q = cur @ ps"
  using assms
proof (induction fs create n cur ps rule: walk.induct)
  case (2 fs create n cur c rest)
  have no_link: "node_at fs (cur @ [c]) \<noteq> Some (LinkNode t)" for t
    using 2(6) [of "[c]" t] by simp
  have below: "node_at fs ((cur @ [c]) @ r) \<noteq> Some (LinkNode t)" if "prefix r rest" for r t
    using 2(6) [of "c # r" t] that by simp
  have c: "c \<noteq> ''..''" and rest: "''..'' \<notin> set rest" using 2(5) by auto
  show ?case
  proof (cases "node_at fs (cur @ [c])")
    case None
    then show ?thesis using 2(4) c by (simp split: if_splits)
  next
    case (Some node)
    show ?thesis
    proof (cases node)
      case DirNode
      then have "walk fs create n (cur @ [c]) rest = Some q" using 2(4) c Some by simp
      from 2(2) [OF c Some DirNode this rest below] show ?thesis by simp
    next
      case FileNode
      then show ?thesis using 2(4) c Some by (simp split: if_splits)
    next
      case (LinkNode t)
      then show ?thesis using no_link [of t] Some by simp
    qed
  qed
qed simp

lemma existing_ancestor_splits:
  assumes "existing_ancestor fs ctx p suf = (a, suf')" and "is_absolute p" and "''..'' \<notin> set (parts p)"
  shows "is_absolute a \<and> path_exists fs ctx a \<and> parts a @ rev suf' = parts p @ rev suf"
  using assms
proof (induction fs ctx p suf rule: existing_ancestor.induct)
  case (1 fs ctx p suf)
  show ?case
  proof (cases "path_exists fs ctx p")
    case True
    then show ?thesis using 1(2,3) by (subst (asm) existing_ancestor.simps) simp
  next
    case False
    have some: "parts p \<noteq> []" using False 1(3) by (auto simp: path_exists_def canonicalize_def)
    let ?q = "p\<lparr>parts := butlast (parts p)\<rparr>"
    have "last (parts p) \<noteq> ''..''" using some 1(4) last_in_set by metis
    then have name: "file_name p = Some (last (parts p))" and up: "parent_path p = Some ?q"
      using some by (simp_all add: file_name_def parent_path_def)
    have run: "existing_ancestor fs ctx ?q (suf @ [last (parts p)]) = (a, suf')"
      using 1(2) False name up 1(3) by (subst (asm) existing_ancestor.simps) simp
    have "''..'' \<notin> set (parts ?q)" using 1(4) by (auto dest: in_set_butlastD)
    from 1(1) [OF False _ up _ run _ this] show ?thesis using name 1(3) some by simp
  qed
qed

lemma parse_path_absolute [simp]: "is_absolute (join_path base p) = (is_absolute p \<or> is_absolute base)"
  by (simp add: join_path_def)

definition candidate_path :: "tool_context \<Rightarrow> str \<Rightarrow> os_path" where
  "candidate_path ctx raw = (if is_absolute (parse_path raw) then parse_path raw else join_path (effective_cwd ctx) (parse_path raw))"

lemma resolve_new:
  assumes "existing_ancestor fs ctx (normalize_path p) [] = (a, suf)" and "is_absolute p"
  shows "\<exists>c. canonicalize fs ctx a = Some c \<and> is_absolute c \<and> ''..'' \<notin> set (parts c @ rev suf)
    \<and> normalize_path (c\<lparr>parts := parts c @ rev suf\<rparr>) = c\<lparr>parts := parts c @ rev suf\<rparr>"
proof -
  have abs: "is_absolute (normalize_path p)" and dots: "''..'' \<notin> set (parts (normalize_path p))"
    using assms(2) normalize_absolute [of "[]" "parts p"] by (simp_all add: normalize_path_def)
  from existing_ancestor_splits [OF assms(1) abs dots]
  have a: "is_absolute a" "path_exists fs ctx a" "''..'' \<notin> set (rev suf)"
    using dots set_append [of "parts a" "rev suf"] by auto
  then obtain c where c: "canonicalize fs ctx a = Some c" by (auto simp: path_exists_def)
  then have "is_absolute c" "''..'' \<notin> set (parts c)" using canonicalize_absolute [OF c a(1)] canonical_no_dots by auto
  then show ?thesis using c a(3) normalize_no_dots [of "parts c @ rev suf" True "[]"] by (auto simp: normalize_path_def)
qed

text \<open>C31: A path the check lets through lies inside the workspace or a trusted root, has no dots, and is the path the
  system will open or create: whatever links, dots and missing directories the raw path went through, the
  opening of the result ends at the result itself. The one exception is a result that did not exist and
  has a symbolic link on it.\<close>

theorem resolved_path_stays_inside:
  assumes "resolve_path fs ctx raw = Inr p" and "\<not> trust_mode ctx"
    and "is_absolute (workspace ctx)" and "is_absolute (effective_cwd ctx)" and "canonicalize fs ctx (workspace ctx) = Some w"
  shows "(path_starts_with p w \<or> (\<exists>root\<in>set (trusted_external_paths ctx). path_starts_with p root))
    \<and> ''..'' \<notin> set (parts p)
    \<and> ((\<forall>q. walk fs True MAX_LINKS [] (parts p) = Some q \<longrightarrow> q = parts p)
       \<or> \<not> path_exists fs ctx (candidate_path ctx raw) \<and> (\<exists>q t. prefix q (parts p) \<and> node_at fs q = Some (LinkNode t)))"
proof -
  let ?c = "candidate_path ctx raw"
  have abs: "is_absolute ?c" using assms(4) by (simp add: candidate_path_def)
  have "''..'' \<notin> set (parts w)" using canonicalize_absolute [OF assms(5,3)] canonical_no_dots by blast
  then have norm_w: "normalize_path w = w"
    using normalize_no_dots [of "parts w" "is_absolute w" "[]"] by (simp add: normalize_path_def)
  show ?thesis
  proof (cases "canonicalize fs ctx ?c")
    case (Some r)
    have r: "canonical_path fs (parts r)" using canonicalize_absolute [OF Some abs] by blast
    have "p = r" and "path_starts_with r w \<or> is_trusted_external_path ctx r"
      using assms(1,2,5) Some by (auto simp: resolve_path_def candidate_path_def [symmetric] Let_def split: if_splits)
    moreover have "walk fs True MAX_LINKS [] (parts r) = Some q \<Longrightarrow> q = parts r" for q
      using walk_no_links [of fs True MAX_LINKS "[]" "parts r" q] canonical_no_dots [OF r] canonical_no_links [OF r] by auto
    ultimately show ?thesis using canonical_no_dots [OF r] by (auto simp: is_trusted_external_path_def list_ex_iff)
  next
    case None
    obtain a suf where split: "existing_ancestor fs ctx (normalize_path ?c) [] = (a, suf)" by force
    from resolve_new [OF split abs] obtain c where c: "canonicalize fs ctx a = Some c" "''..'' \<notin> set (parts c @ rev suf)"
      "normalize_path (c\<lparr>parts := parts c @ rev suf\<rparr>) = c\<lparr>parts := parts c @ rev suf\<rparr>" by blast
    have "p = c\<lparr>parts := parts c @ rev suf\<rparr>" and "path_starts_with p w \<or> is_trusted_external_path ctx p"
      using assms(1,2,5) None split c norm_w
      by (auto simp: resolve_path_def candidate_path_def [symmetric] Let_def split: if_splits)
    moreover from this have "''..'' \<notin> set (parts p)" using c(2) by simp
    moreover have "q = parts p" if "walk fs True MAX_LINKS [] (parts p) = Some q"
        and "\<nexists>q t. prefix q (parts p) \<and> node_at fs q = Some (LinkNode t)" for q
      using walk_no_links [OF that(1) \<open>''..'' \<notin> set (parts p)\<close>] that(2) by auto
    ultimately show ?thesis using None by (auto simp: is_trusted_external_path_def list_ex_iff path_exists_def)
  qed
qed

definition sample_fs :: file_system where
  "sample_fs = [[''w''] \<mapsto> DirNode, [''w'', ''l''] \<mapsto> LinkNode \<lparr>is_absolute = True, parts = [''etc'', ''x'']\<rparr>, [''etc''] \<mapsto> DirNode]"

definition sample_ctx :: tool_context where
  "sample_ctx = \<lparr>workspace = parse_path ''/w'', effective_cwd = parse_path ''/w'', trust_mode = False, trusted_external_paths = [],
     process_cwd = []\<rparr>"

lemma resolved_path_stays_inside_witness:
  "resolve_path sample_fs sample_ctx ''new/../a.rs'' = Inr \<lparr>is_absolute = True, parts = [''w'', ''a.rs'']\<rparr>
   \<and> path_starts_with \<lparr>is_absolute = True, parts = [''w'', ''a.rs'']\<rparr> (parse_path ''/w'')"
proof -
  have run: "resolve_path sample_fs sample_ctx ''new/../a.rs'' = Inr \<lparr>is_absolute = True, parts = [''w'', ''a.rs'']\<rparr>" by code_simp
  have w: "canonicalize sample_fs sample_ctx (workspace sample_ctx) = Some (parse_path ''/w'')" by code_simp
  have "\<not> trust_mode sample_ctx" "is_absolute (workspace sample_ctx)" "is_absolute (effective_cwd sample_ctx)" by code_simp+
  from resolved_path_stays_inside [OF run this w] show ?thesis using run by (simp add: sample_ctx_def)
qed

text \<open>The exception is real: a link in the workspace whose target does not exist counts as a missing file, passes the
  check under its own name, and a write to it creates the target outside.\<close>

lemma dangling_link_leaves_workspace:
  "resolve_path sample_fs sample_ctx ''l'' = Inr \<lparr>is_absolute = True, parts = [''w'', ''l'']\<rparr>
   \<and> walk sample_fs True MAX_LINKS [] [''w'', ''l''] = Some [''etc'', ''x'']"
  by code_simp

text \<open>With a relative workspace a new file at its top is refused: the loop runs off the path and the name it kept is
  appended to a path that still holds it.\<close>

lemma relative_workspace_refuses_new_file:
  "let ctx = sample_ctx\<lparr>workspace := parse_path ''.'', effective_cwd := parse_path ''.'', process_cwd := [''w'']\<rparr>
   in resolve_path sample_fs ctx ''a.rs'' = Inl (PathEscape [''a.rs'', ''a.rs''])"
  by code_simp

end
