(* ===== verification/Freshness.thy ===== *)
theory Freshness
  imports PathGuard PatchFormat "HOL-Library.AList" "HOL-Library.List_Lexorder" "HOL-Library.Char_ord"
begin

section \<open>agent-runtime: read before edit\<close>

text \<open>
  The tracker of file fingerprints and the wrapper that refuses an edit of a file that was not read or has changed
  since (\<open>agent-runtime/src/tools/freshness.rs\<close>), with the questions the registry of \<open>tools/registry.rs\<close> asks a
  wrapped tool. A disk is the tree that paths are resolved in and the result of \<open>stat\<close> for each path; the wrapped
  tool is a function on it. The two hash maps are lists in the order of insertion; what the tracker reports is
  sorted before it is shown.
\<close>

subsection \<open>The tracker\<close>

record file_state =
  mtime :: nat
  file_len :: "64 word"

datatype stat_result = StatOk file_state | StatNoTime | StatNotFound | StatFailed

record disk =
  tree :: file_system
  stat_of :: "os_path \<Rightarrow> stat_result"

definition probe :: "disk \<Rightarrow> os_path \<Rightarrow> file_state option" where
  "probe d p = (case stat_of d p of StatOk s \<Rightarrow> Some s | _ \<Rightarrow> None)"

datatype drift_probe = Present file_state | Deleted | Unknown

definition drift_probe_of :: "disk \<Rightarrow> os_path \<Rightarrow> drift_probe" where
  "drift_probe_of d p =
     (case stat_of d p of StatOk s \<Rightarrow> Present s | StatNoTime \<Rightarrow> Unknown | StatNotFound \<Rightarrow> Deleted | StatFailed \<Rightarrow> Unknown)"

record freshness_tracker =
  states :: "(os_path \<times> file_state) list"
  hinted :: "(os_path \<times> file_state option) list"

definition new_tracker :: freshness_tracker where
  "new_tracker = \<lparr>states = [], hinted = []\<rparr>"

definition record_read :: "disk \<Rightarrow> os_path \<Rightarrow> freshness_tracker \<Rightarrow> freshness_tracker" where
  "record_read d p tr =
     tr\<lparr>states := (case probe d p of Some s \<Rightarrow> AList.update p s (states tr) | None \<Rightarrow> states tr),
        hinted := AList.delete p (hinted tr)\<rparr>"

definition record_write :: "disk \<Rightarrow> os_path \<Rightarrow> freshness_tracker \<Rightarrow> freshness_tracker" where
  "record_write = record_read"

definition display_path :: "os_path \<Rightarrow> str" where
  "display_path p = (if is_absolute p then ''/'' else []) @ join ''/'' (parts p)"

definition validate_path :: "disk \<Rightarrow> freshness_tracker \<Rightarrow> os_path \<Rightarrow> str + unit" where
  "validate_path d tr p =
     (case probe d p of
        None \<Rightarrow> Inr ()
      | Some now \<Rightarrow>
          (case map_of (states tr) p of
             None \<Rightarrow> Inl (''File has not been read in this session: '' @ display_path p
                        @ ''. Read it with read_file first so edits are based on current contents.'')
           | Some known \<Rightarrow>
               if known = now then Inr ()
               else Inl (''File changed on disk since it was last read: '' @ display_path p
                        @ ''. Re-read it with read_file before editing to avoid overwriting external changes.'')))"

definition scan_drift :: "disk \<Rightarrow> freshness_tracker \<Rightarrow> (os_path \<times> file_state option) list" where
  "scan_drift d tr =
     List.map_filter (\<lambda>(p, known).
       case drift_probe_of d p of
         Present s \<Rightarrow> if s = known then None else Some (p, Some s)
       | Deleted \<Rightarrow> Some (p, None)
       | Unknown \<Rightarrow> None) (states tr)"

definition detect_changed :: "disk \<Rightarrow> freshness_tracker \<Rightarrow> os_path list" where
  "detect_changed d tr = map fst (scan_drift d tr)"

fun unhinted :: "(os_path \<times> file_state option) list \<Rightarrow> (os_path \<times> file_state option) list
    \<Rightarrow> os_path list \<times> (os_path \<times> file_state option) list" where
  "unhinted hs [] = ([], hs)"
| "unhinted hs ((p, now) # ds) =
     (if map_of hs p = Some now then unhinted hs ds
      else let (ps, hs') = unhinted (AList.update p now hs) ds in (p # ps, hs'))"

definition detect_unhinted_changed :: "disk \<Rightarrow> freshness_tracker \<Rightarrow> os_path list \<times> freshness_tracker" where
  "detect_unhinted_changed d tr =
     (let (ps, hs) = unhinted (hinted tr) (scan_drift d tr) in (ps, tr\<lparr>hinted := hs\<rparr>))"

subsection \<open>The targets of a call\<close>

datatype freshness_role = ReadRole | WriteRole | ShellProbe

definition SHELL_PROBE_TOOLS :: "str list" where
  "SHELL_PROBE_TOOLS =
     [''exec_shell'', ''exec_shell_wait'', ''exec_shell_interact'', ''exec_shell_cancel'', ''exec_wait'', ''exec_interact'',
      ''task_shell_start'', ''task_shell_wait'']"

definition freshness_role_of :: "str \<Rightarrow> freshness_role option" where
  "freshness_role_of t =
     (if t = ''read_file'' then Some ReadRole
      else if t \<in> set [''edit_file'', ''write_file'', ''fim_edit'', ''apply_patch''] then Some WriteRole
      else if t \<in> set SHELL_PROBE_TOOLS then Some ShellProbe
      else None)"

definition input_path :: "json \<Rightarrow> str option" where
  "input_path input = Option.bind (json_get ''path'' input) as_str"

definition line_target :: "str \<Rightarrow> str option" where
  "line_target l =
     map_option (\<lambda>target. case strip_prefix ''b/'' target of
                            Some p \<Rightarrow> p
                          | None \<Rightarrow> (case strip_prefix ''a/'' target of Some p \<Rightarrow> p | None \<Rightarrow> target))
       (case strip_prefix ''diff --git '' l of
          Some rest \<Rightarrow> (case split_whitespace rest of _ # p # _ \<Rightarrow> Some p | _ \<Rightarrow> None)
        | None \<Rightarrow>
            (case strip_prefix ''+++ '' l of
               Some rest \<Rightarrow> Some (trim rest)
             | None \<Rightarrow> map_option trim (strip_prefix ''--- '' l)))"

text \<open>\<open>retain\<close> with a set of the paths seen keeps the first of each.\<close>

fun keep_first :: "'a set \<Rightarrow> 'a list \<Rightarrow> 'a list" where
  "keep_first seen [] = []"
| "keep_first seen (x # xs) = (if x \<in> seen then keep_first seen xs else x # keep_first (insert x seen) xs)"

definition apply_patch_target_paths :: "json \<Rightarrow> str list" where
  "apply_patch_target_paths input =
     keep_first {[]}
       ((case input_path input of Some p \<Rightarrow> [p] | None \<Rightarrow> [])
        @ (case Option.bind (json_get ''changes'' input) as_array of
             Some changes \<Rightarrow> List.map_filter (\<lambda>c. Option.bind (json_get ''path'' c) as_str) changes
           | None \<Rightarrow> [])
        @ (case Option.bind (json_get ''patch'' input) as_str of
             Some patch \<Rightarrow> List.map_filter line_target (str_lines patch)
           | None \<Rightarrow> []))"

definition target_paths :: "str \<Rightarrow> json \<Rightarrow> str list" where
  "target_paths t input =
     (if t = ''apply_patch'' then apply_patch_target_paths input
      else case input_path input of Some p \<Rightarrow> [p] | None \<Rightarrow> [])"

definition resolved_all :: "disk \<Rightarrow> tool_context \<Rightarrow> str list \<Rightarrow> os_path list" where
  "resolved_all d ctx raws =
     List.map_filter (\<lambda>raw. case resolve_path (tree d) ctx raw of Inr p \<Rightarrow> Some p | Inl e \<Rightarrow> None) raws"

subsection \<open>The wrapped tool\<close>

definition background_task_still_running :: "tool_result \<Rightarrow> bool" where
  "background_task_still_running r \<longleftrightarrow>
     Option.bind (Option.bind (result_metadata r) (json_get ''status'')) as_str = Some ''Running''"

definition stale_read_hint :: "os_path list \<Rightarrow> str option" where
  "stale_read_hint changed =
     (if changed = [] then None
      else
        let sorted = sort_key parts changed; count = length sorted;
            tail = (if 5 < count then '', and '' @ show_nat (count - 5) @ '' more'' else [])
        in Some ([CHR 0x0A, CHR 0x0A]
             @ ''[Files changed on disk since last read (possibly via this command) '' @ [CHR 0xE2, CHR 0x80, CHR 0x94]
             @ '' read_file them again before editing: '' @ join '', '' (map display_path (take 5 sorted)) @ tail @ '']''))"

type_synonym tool_run = "json \<Rightarrow> tool_context \<Rightarrow> disk \<Rightarrow> (tool_error + tool_result) \<times> disk"

fun validate_all :: "disk \<Rightarrow> freshness_tracker \<Rightarrow> os_path list \<Rightarrow> str + unit" where
  "validate_all d tr [] = Inr ()"
| "validate_all d tr (p # ps) = (case validate_path d tr p of Inl m \<Rightarrow> Inl m | Inr _ \<Rightarrow> validate_all d tr ps)"

definition role_targets :: "freshness_role \<Rightarrow> str \<Rightarrow> json \<Rightarrow> tool_context \<Rightarrow> disk \<Rightarrow> os_path list" where
  "role_targets role t input ctx d = (if role = ShellProbe then [] else resolved_all d ctx (target_paths t input))"

text \<open>\<open>meanwhile\<close> is what others do to the disk between the end of the tool and the probes after it.\<close>

definition execute_wrapped :: "bool \<Rightarrow> freshness_role \<Rightarrow> str \<Rightarrow> tool_run \<Rightarrow> json \<Rightarrow> tool_context \<Rightarrow> (disk \<Rightarrow> disk)
    \<Rightarrow> freshness_tracker \<Rightarrow> disk \<Rightarrow> (tool_error + tool_result) \<times> freshness_tracker \<times> disk" where
  "execute_wrapped enabled role t run input ctx meanwhile tr d =
     (if \<not> enabled then (let (r, d') = run input ctx d in (r, tr, meanwhile d'))
      else
        let targets = role_targets role t input ctx d
        in case (if role = WriteRole then validate_all d tr targets else Inr ()) of
             Inl m \<Rightarrow> (Inl (Rejected m), tr, d)
           | Inr _ \<Rightarrow>
               (let (r, d1) = run input ctx d; d' = meanwhile d1
                in case r of
                     Inl e \<Rightarrow> (Inl e, tr, d')
                   | Inr result \<Rightarrow>
                       if \<not> success result then (Inr result, tr, d')
                       else if role \<noteq> ShellProbe then (Inr result, fold (record_read d') targets tr, d')
                       else if background_task_still_running result then (Inr result, tr, d')
                       else
                         let (changed, tr') = detect_unhinted_changed d' tr
                         in (Inr (case stale_read_hint changed of
                                    Some hint \<Rightarrow> result\<lparr>content := content result @ hint\<rparr>
                                  | None \<Rightarrow> result), tr', d')))"

subsection \<open>What the registry asks\<close>

datatype approval_requirement = Auto | Suggest | Required

record tool_spec =
  spec_name :: str
  writes_or_runs :: bool
  approval_for :: "json \<Rightarrow> tool_context \<Rightarrow> approval_requirement"
  escaped_for :: "json \<Rightarrow> tool_context \<Rightarrow> os_path option"
  destructive_for :: "json \<Rightarrow> bool"

text \<open>The wrapper passes on what it overrides; the two methods it does not name are the trait's own.\<close>

definition freshness_wrapped :: "tool_spec \<Rightarrow> tool_spec" where
  "freshness_wrapped inner =
     inner\<lparr>escaped_for := (\<lambda>input ctx. None), destructive_for := (\<lambda>input. writes_or_runs inner)\<rparr>"

definition wrap_if_freshness_eligible :: "tool_spec \<Rightarrow> tool_spec" where
  "wrap_if_freshness_eligible tool = (if freshness_role_of (spec_name tool) = None then tool else freshness_wrapped tool)"

definition approval_requirement_for :: "tool_spec option \<Rightarrow> json \<Rightarrow> tool_context \<Rightarrow> approval_requirement option" where
  "approval_requirement_for found input ctx =
     map_option (\<lambda>spec. if escaped_for spec input ctx \<noteq> None then Required else approval_for spec input ctx) found"

definition touched_paths :: "disk \<Rightarrow> tool_context \<Rightarrow> tool_spec option \<Rightarrow> json \<Rightarrow> os_path list" where
  "touched_paths d ctx found input =
     (case found of None \<Rightarrow> [] | Some spec \<Rightarrow> resolved_all d ctx (target_paths (spec_name spec) input))"

subsection \<open>A session of calls\<close>

text \<open>The calls of a session and what happens to the disk outside them. The state keeps, beside the tracker and the
  disk, the disks so far and the contents each file had at the end of the last successful read or write call
  that had it among its targets. That is more than what the model was shown: a read of a few lines, or of none,
  counts for the whole file, as it does in the code. How contents are read off a disk is an argument.\<close>

datatype session_event =
    Invoke str tool_run json tool_context "(disk \<Rightarrow> disk) option"
  | Outside "disk \<Rightarrow> disk"

record 'c tracked_session =
  tracker :: freshness_tracker
  disk_now :: disk
  past_disks :: "disk list"
  touched_contents :: "os_path \<Rightarrow> 'c option"

definition start_session :: "disk \<Rightarrow> 'c tracked_session" where
  "start_session d = \<lparr>tracker = new_tracker, disk_now = d, past_disks = [d], touched_contents = (\<lambda>p. None)\<rparr>"

definition note_touched :: "(disk \<Rightarrow> os_path \<Rightarrow> 'c) \<Rightarrow> disk \<Rightarrow> os_path list \<Rightarrow> (os_path \<Rightarrow> 'c option) \<Rightarrow> os_path \<Rightarrow> 'c option" where
  "note_touched contents d ps seen p = (if p \<in> set ps \<and> probe d p \<noteq> None then Some (contents d p) else seen p)"

definition invoke :: "(disk \<Rightarrow> os_path \<Rightarrow> 'c) \<Rightarrow> str \<Rightarrow> tool_run \<Rightarrow> json \<Rightarrow> tool_context \<Rightarrow> (disk \<Rightarrow> disk) option
    \<Rightarrow> 'c tracked_session \<Rightarrow> 'c tracked_session" where
  "invoke contents t run input ctx meanwhile s =
     (let d = disk_now s; other = (case meanwhile of Some g \<Rightarrow> g | None \<Rightarrow> (\<lambda>d. d))
      in case freshness_role_of t of
           None \<Rightarrow> let d' = other (snd (run input ctx d)) in s\<lparr>disk_now := d', past_disks := d' # past_disks s\<rparr>
         | Some role \<Rightarrow>
             (case execute_wrapped True role t run input ctx other (tracker s) d of
                (r, tr, d') \<Rightarrow>
                  s\<lparr>tracker := tr, disk_now := d', past_disks := d' # past_disks s,
                    touched_contents := (case r of
                        Inr result \<Rightarrow>
                          if success result
                          then note_touched contents (snd (run input ctx d)) (role_targets role t input ctx d) (touched_contents s)
                          else touched_contents s
                      | Inl e \<Rightarrow> touched_contents s)\<rparr>))"

fun run_session :: "(disk \<Rightarrow> os_path \<Rightarrow> 'c) \<Rightarrow> session_event list \<Rightarrow> 'c tracked_session \<Rightarrow> 'c tracked_session" where
  "run_session contents [] s = s"
| "run_session contents (Invoke t run input ctx meanwhile # es) s =
     run_session contents es (invoke contents t run input ctx meanwhile s)"
| "run_session contents (Outside g # es) s =
     run_session contents es (s\<lparr>disk_now := g (disk_now s), past_disks := g (disk_now s) # past_disks s\<rparr>)"

fun undisturbed :: "session_event \<Rightarrow> bool" where
  "undisturbed (Invoke t run input ctx meanwhile) = (meanwhile = None)"
| "undisturbed (Outside g) = True"

text \<open>The fingerprint tells the contents apart, which the module takes for granted.\<close>

definition stamps_tell :: "(disk \<Rightarrow> os_path \<Rightarrow> 'c) \<Rightarrow> disk set \<Rightarrow> bool" where
  "stamps_tell contents ds \<longleftrightarrow>
     (\<forall>d\<in>ds. \<forall>d'\<in>ds. \<forall>p. probe d p \<noteq> None \<and> probe d p = probe d' p \<longrightarrow> contents d p = contents d' p)"

definition knows_what_it_touched :: "(disk \<Rightarrow> os_path \<Rightarrow> 'c) \<Rightarrow> 'c tracked_session \<Rightarrow> bool" where
  "knows_what_it_touched contents s \<longleftrightarrow> disk_now s \<in> set (past_disks s)
     \<and> (\<forall>p f. map_of (states (tracker s)) p = Some f \<longrightarrow>
          (\<exists>d\<in>set (past_disks s). probe d p = Some f \<and> touched_contents s p = Some (contents d p)))"

lemma record_read_states:
  "map_of (states (record_read d p tr)) q =
     (if q = p \<and> probe d p \<noteq> None then probe d p else map_of (states tr) q)"
  by (auto simp: record_read_def update_conv' split: option.split)

lemma fold_record_states:
  "map_of (states (fold (record_read d) ps tr)) q =
     (if q \<in> set ps \<and> probe d q \<noteq> None then probe d q else map_of (states tr) q)"
  by (induction ps arbitrary: tr) (auto simp: record_read_states)

lemma detect_keeps_states: "states (snd (detect_unhinted_changed d tr)) = states tr"
  by (simp add: detect_unhinted_changed_def split: prod.split)

text \<open>A call ends in one of three ways: refused, run without a change to what is known, or run and recorded.\<close>

lemma execute_wrapped_cases:
  assumes "execute_wrapped True role t run input ctx (\<lambda>d. d) tr d = (r, tr', d')"
  shows "(\<exists>e. r = Inl e \<and> tr' = tr \<and> d' \<in> {d, snd (run input ctx d)})
    \<or> (\<exists>result. r = Inr result \<and> d' = snd (run input ctx d) \<and> success result
         \<and> states tr' = states (fold (record_read d') (role_targets role t input ctx d) tr))
    \<or> (\<exists>result. r = Inr result \<and> \<not> success result \<and> tr' = tr \<and> d' = snd (run input ctx d))"
proof -
  have probed: "role_targets ShellProbe t input ctx d = []" by (simp add: role_targets_def)
  show ?thesis using assms detect_keeps_states [of d' tr]
    by (cases "role = ShellProbe") (auto simp: execute_wrapped_def Let_def probed split: sum.splits if_splits prod.splits option.splits)
qed

lemma knows_more_disks:
  "knows_what_it_touched contents s \<Longrightarrow>
   knows_what_it_touched contents (s\<lparr>disk_now := d, past_disks := d # past_disks s\<rparr>)"
  by (fastforce simp: knows_what_it_touched_def)

lemma invoke_knows:
  assumes "knows_what_it_touched contents s"
  shows "knows_what_it_touched contents (invoke contents t run input ctx None s)"
proof (cases "freshness_role_of t")
  case None
  then show ?thesis using knows_more_disks [OF assms] by (simp add: invoke_def Let_def)
next
  case (Some role)
  obtain r tr' d' where x: "execute_wrapped True role t run input ctx (\<lambda>d. d) (tracker s) (disk_now s) = (r, tr', d')"
    by (metis prod_cases3)
  let ?ps = "role_targets role t input ctx (disk_now s)"
  from execute_wrapped_cases [OF x] show ?thesis
  proof (elim disjE exE conjE)
    fix result assume r: "r = Inr result" "d' = snd (run input ctx (disk_now s))" "success result"
      "states tr' = states (fold (record_read d') ?ps (tracker s))"
    have "invoke contents t run input ctx None s = s\<lparr>tracker := tr', disk_now := d', past_disks := d' # past_disks s,
        touched_contents := note_touched contents d' ?ps (touched_contents s)\<rparr>"
      using Some x r by (simp add: invoke_def Let_def)
    then show ?thesis using assms r(4)
      by (auto simp: knows_what_it_touched_def fold_record_states note_touched_def split: if_splits)
  qed (use Some x knows_more_disks [OF assms, of d'] assms in
      \<open>auto simp: invoke_def Let_def knows_what_it_touched_def split: if_splits\<close>)
qed

lemma session_knows:
  "list_all undisturbed es \<Longrightarrow> knows_what_it_touched contents s \<Longrightarrow> knows_what_it_touched contents (run_session contents es s)"
proof (induction contents es s rule: run_session.induct)
  case (2 contents t run input ctx meanwhile es s)
  then show ?case using invoke_knows [of contents s t run input ctx] by auto
next
  case (3 contents g es s)
  then show ?case using knows_more_disks [of contents s "g (disk_now s)"] by simp
qed simp

lemma validate_all_ok: "validate_all d tr ps = Inr u \<Longrightarrow> p \<in> set ps \<Longrightarrow> validate_path d tr p = Inr ()"
  by (induction ps) (auto split: sum.splits)

text \<open>C34: An edit of a file that changed since the last call on it is refused. After any run of calls and outside
  changes, none of them during a call, a call of an editing tool one of whose targets, as the gate reads them off the
  call, exists and has other contents than at the end of the last successful read or write call with that target, or
  was never the target of one, is refused: the tool does not run and nothing changes. That is as far as the
  fingerprint of time and length tells the contents apart. A read of any range of lines counts as one of the file
  (\<open>read_of_no_line_counts\<close>), a change during a call goes unnoticed
  (\<open>change_during_a_read_is_missed\<close>), and a patch can touch a file that is no target
  (\<open>stamped_header_escapes_the_gate\<close>).\<close>

theorem stale_edit_is_refused:
  assumes "list_all undisturbed es" and "s = run_session contents es (start_session d0)"
    and "stamps_tell contents (set (past_disks s))" and "freshness_role_of t = Some WriteRole"
    and "p \<in> set (resolved_all (disk_now s) ctx (target_paths t input))"
    and "probe (disk_now s) p \<noteq> None" and "touched_contents s p \<noteq> Some (contents (disk_now s) p)"
  shows "\<exists>m. execute_wrapped True WriteRole t run input ctx meanwhile (tracker s) (disk_now s)
    = (Inl (Rejected m), tracker s, disk_now s)"
proof -
  have "knows_what_it_touched contents (start_session d0)" by (simp add: knows_what_it_touched_def start_session_def new_tracker_def)
  then have knows: "knows_what_it_touched contents s" using session_knows [OF assms(1)] assms(2) by simp
  have "validate_path (disk_now s) (tracker s) p \<noteq> Inr ()"
  proof
    assume "validate_path (disk_now s) (tracker s) p = Inr ()"
    then have "map_of (states (tracker s)) p = probe (disk_now s) p"
      using assms(6) by (auto simp: validate_path_def split: option.splits if_splits)
    then obtain d where d: "d \<in> set (past_disks s)" "probe d p = probe (disk_now s) p" "touched_contents s p = Some (contents d p)"
      using knows assms(6) unfolding knows_what_it_touched_def by (metis option.collapse)
    then have "contents d p = contents (disk_now s) p"
      using assms(3,6) knows unfolding stamps_tell_def knows_what_it_touched_def by metis
    then show False using d(3) assms(7) by simp
  qed
  then have "\<exists>m. validate_all (disk_now s) (tracker s) (resolved_all (disk_now s) ctx (target_paths t input)) = Inl m"
    using validate_all_ok [of "disk_now s" "tracker s" _ "()" p] assms(5) by (metis old.unit.exhaust sum.exhaust)
  then show ?thesis by (auto simp: execute_wrapped_def role_targets_def Let_def)
qed

text \<open>A read of a file, a change by an editor, and an edit of it: the edit is refused.\<close>

definition one_file :: "nat \<Rightarrow> disk" where
  "one_file n =
     \<lparr>tree = sample_fs([''w'', ''a.rs''] \<mapsto> FileNode),
      stat_of = (\<lambda>p. if p = \<lparr>is_absolute = True, parts = [''w'', ''a.rs'']\<rparr> then StatOk \<lparr>mtime = n, file_len = 3\<rparr> else StatNotFound)\<rparr>"

definition sample_run :: tool_run where
  "sample_run input ctx d = (Inr (tool_result_success ''ok''), d)"

definition a_rs :: json where "a_rs = JObj [(''path'', JStr ''a.rs'')]"

definition stamp_contents :: "disk \<Rightarrow> os_path \<Rightarrow> nat" where
  "stamp_contents d p = (case probe d p of Some f \<Rightarrow> mtime f | None \<Rightarrow> 0)"

lemma stale_edit_is_refused_witness:
  "let s = run_session stamp_contents
       [Invoke ''read_file'' sample_run a_rs sample_ctx None, Outside (\<lambda>d. one_file 2)] (start_session (one_file 1))
   in touched_contents s \<lparr>is_absolute = True, parts = [''w'', ''a.rs'']\<rparr> = Some 1
      \<and> (\<exists>m. execute_wrapped True WriteRole ''edit_file'' sample_run a_rs sample_ctx (\<lambda>d. d) (tracker s) (disk_now s)
           = (Inl (Rejected m), tracker s, disk_now s))"
proof -
  let ?es = "[Invoke ''read_file'' sample_run a_rs sample_ctx None, Outside (\<lambda>d. one_file 2)]"
  let ?p = "\<lparr>is_absolute = True, parts = [''w'', ''a.rs'']\<rparr>"
  let ?s = "run_session stamp_contents ?es (start_session (one_file 1))"
  have targets: "?p \<in> set (resolved_all (disk_now ?s) sample_ctx (target_paths ''edit_file'' a_rs))" by code_simp
  have seen: "touched_contents ?s ?p = Some 1" by code_simp
  have now: "probe (disk_now ?s) ?p \<noteq> None" "touched_contents ?s ?p \<noteq> Some (stamp_contents (disk_now ?s) ?p)" by code_simp+
  have stamps: "stamps_tell stamp_contents (set (past_disks ?s))"
    by (auto simp: stamps_tell_def stamp_contents_def split: option.splits)
  have "list_all undisturbed ?es" "freshness_role_of ''edit_file'' = Some WriteRole" by code_simp+
  from stale_edit_is_refused [OF this(1) refl stamps this(2) targets now] show ?thesis using seen by (simp add: Let_def)
qed

text \<open>A read that shows nothing of the file, being of lines beyond its end, is a read of the file, so the edit goes
  through.\<close>

lemma read_of_no_line_counts:
  "let beyond = JObj [(''path'', JStr ''a.rs''), (''start_line'', JInt 900), (''max_lines'', JInt 1)];
       s = run_session stamp_contents [Invoke ''read_file'' sample_run beyond sample_ctx None] (start_session (one_file 1))
   in fst (execute_wrapped True WriteRole ''edit_file'' sample_run a_rs sample_ctx (\<lambda>d. d) (tracker s) (disk_now s))
        = Inr (tool_result_success ''ok'')"
  by code_simp

text \<open>The proviso is needed: the fingerprint is taken after the call, so a change between the read and the probe is
  recorded as known, and the edit goes through on contents no call has left or read.\<close>

lemma change_during_a_read_is_missed:
  "let s = run_session stamp_contents
       [Invoke ''read_file'' sample_run a_rs sample_ctx (Some (\<lambda>d. one_file 2))] (start_session (one_file 1))
   in touched_contents s \<lparr>is_absolute = True, parts = [''w'', ''a.rs'']\<rparr> = Some 1
      \<and> stamp_contents (disk_now s) \<lparr>is_absolute = True, parts = [''w'', ''a.rs'']\<rparr> = 2
      \<and> fst (execute_wrapped True WriteRole ''edit_file'' sample_run a_rs sample_ctx (\<lambda>d. d) (tracker s) (disk_now s))
          = Inr (tool_result_success ''ok'')"
  by code_simp

subsection \<open>The files of a patch\<close>

lemma split_ws_acc_nonempty: "cur \<noteq> [] \<Longrightarrow> split_ws_acc cur s \<noteq> []"
proof (induction cur s rule: split_ws_acc.induct)
  case (2 cur c r)
  then show ?case by (cases "0 < ws_len (c # r)") auto
qed simp

lemma trim_start_ws_len: "ws_len (trim_start s) = 0"
proof (induction s rule: trim_start.induct)
  case 1
  show ?case by code_simp
next
  case (2 c r)
  then show ?case by (cases "0 < ws_len (c # r)") simp_all
qed

lemma all_ws_iff: "trim_start s = [] \<longleftrightarrow> split_whitespace s = []"
proof
  assume "split_whitespace s = []"
  then have e: "split_ws_acc [] (trim_start s) = []" using split_whitespace_trim_start [of s] by (simp add: split_whitespace_def)
  show "trim_start s = []"
  proof (rule ccontr)
    assume "trim_start s \<noteq> []"
    then obtain c r where "trim_start s = c # r" by (cases "trim_start s") auto
    then show False using e trim_start_ws_len [of s] split_ws_acc_nonempty [of "[c]" r] by simp
  qed
qed (simp add: split_whitespace_def split_ws_acc_all_ws)

lemma trim_end_twice: "trim_end (trim_end s) = trim_end s"
proof (induction s)
  case (Cons c r)
  show ?case
  proof (cases "trim_start (c # r) = []")
    case False
    then have e: "trim_end (c # r) = c # trim_end r" by (rule trim_end_Cons)
    have "split_whitespace (trim_end (c # r)) = split_whitespace (c # r)" by (simp only: split_whitespace_def split_ws_acc_trim_end)
    then have "trim_start (c # trim_end r) \<noteq> []" using False e by (metis all_ws_iff)
    from trim_end_Cons [OF this] show ?thesis using e Cons by simp
  qed simp
qed simp

lemma trim_twice [simp]: "trim (trim s) = trim s"
proof -
  obtain z where "trim_start s = trim_end (trim_start s) @ z" using trim_end_prefix [of "trim_start s"] by (auto simp: prefix_def)
  then have "ws_len (trim s) = 0" unfolding trim_def using trim_start_ws_len [of s] ws_len_0_prefix by metis
  then show ?thesis using trim_start_ws0 [of "trim s"] trim_end_twice by (simp add: trim_def)
qed

lemma trim_set: "set (trim s) \<subseteq> set s"
proof -
  have "set (trim_start s) \<subseteq> set s"
  proof (induction s rule: trim_start.induct)
    case (2 c r)
    then show ?case using set_drop_subset [of "ws_len (c # r)" "c # r"]
      by (cases "0 < ws_len (c # r)") (auto simp del: drop_Cons)
  qed simp
  then show ?thesis using set_mono_prefix [OF trim_end_prefix, of "trim_start s"] by (auto simp: trim_def)
qed

definition plain_headers :: "str \<Rightarrow> bool" where
  "plain_headers patch =
     list_all (\<lambda>l. starts_with l ''--- '' \<or> starts_with l ''+++ '' \<longrightarrow> CHR 0x09 \<notin> set l \<and> CHR 0x22 \<notin> set l) (str_lines patch)"

lemma plain_path:
  assumes "CHR 0x09 \<notin> set r" and "CHR 0x22 \<notin> set r" and "normalize_diff_path (trim r) = Some p"
  shows "p = (case strip_prefix ''b/'' (trim r) of
      Some q \<Rightarrow> q | None \<Rightarrow> (case strip_prefix ''a/'' (trim r) of Some q \<Rightarrow> q | None \<Rightarrow> trim r))"
proof -
  have tab: "before_char (CHR 0x09) (trim r) = trim r"
    using assms(1) trim_set [of r] by (auto simp: before_char_def takeWhile_eq_all_conv)
  have "CHR 0x22 \<notin> set (trim r)" using assms(2) trim_set [of r] by blast
  moreover have "CHR 0x22 \<notin> set s \<Longrightarrow> dropWhile (\<lambda>c. c \<in> set [CHR 0x22]) s = s" for s by (cases s) auto
  ultimately have quote: "trim_chars [CHR 0x22] (trim r) = trim r"
    by (simp add: trim_chars_def trim_start_chars_def trim_end_chars_def)
  show ?thesis using assms(3) unfolding normalize_diff_path_def Let_def tab trim_twice quote
    by (cases "trim r") (auto simp: strip_prefix_def split: if_splits option.splits)
qed

definition header_names :: "str list \<Rightarrow> str set" where
  "header_names ls = {p. \<exists>r. (''+++ '' @ r \<in> set ls \<or> ''--- '' @ r \<in> set ls) \<and> normalize_diff_path (trim r) = Some p}"

lemma header_names_mono: "set ls \<subseteq> set ls' \<Longrightarrow> header_names ls \<subseteq> header_names ls'"
  by (auto simp: header_names_def)

lemma header_names_target:
  assumes "plain_headers patch" and "p \<in> header_names (str_lines patch)"
  shows "\<exists>l\<in>set (str_lines patch). line_target l = Some p"
proof -
  from assms(2) obtain r where r: "''+++ '' @ r \<in> set (str_lines patch) \<or> ''--- '' @ r \<in> set (str_lines patch)"
    "normalize_diff_path (trim r) = Some p" by (auto simp: header_names_def)
  then have "CHR 0x09 \<notin> set r" "CHR 0x22 \<notin> set r" using assms(1) by (auto simp: plain_headers_def list_all_iff)
  from plain_path [OF this r(2)] have p: "p = (case strip_prefix ''b/'' (trim r) of
      Some q \<Rightarrow> q | None \<Rightarrow> (case strip_prefix ''a/'' (trim r) of Some q \<Rightarrow> q | None \<Rightarrow> trim r))" .
  have "line_target (''+++ '' @ r) = Some p" "line_target (''--- '' @ r) = Some p"
    unfolding p by (simp_all add: line_target_def strip_prefix_def)
  then show ?thesis using r(1) by blast
qed

lemma take_hunk_lines_rest: "set (snd (take_hunk_lines n ls)) \<subseteq> set ls"
  by (induction n ls rule: take_hunk_lines.induct) (auto simp: Let_def split: prod.splits)

lemma parse_hunk_header_rest:
  assumes "parse_hunk_header l ls = Inr (h, rest)"
  shows "set rest \<subseteq> set ls"
proof -
  obtain n where "rest = snd (take_hunk_lines n ls)"
    using assms
    by (auto simp: parse_hunk_header_def Let_def try_bind_Inr_iff case_prod_unfold split: if_splits)
  then show ?thesis by (simp add: take_hunk_lines_rest)
qed

lemma strip_prefix_Some_iff: "strip_prefix p s = Some r \<longleftrightarrow> s = p @ r"
  by (auto simp: strip_prefix_def prefix_def)

lemma resolve_diff_paths_name:
  "resolve_diff_paths old_path new_path create = Inr (p, del, cr) \<Longrightarrow>
   Option.bind new_path normalize_diff_path = Some p \<or> Option.bind old_path normalize_diff_path = Some p"
  by (auto simp: resolve_diff_paths_def Let_def split: option.splits)

lemma parse_files_names:
  assumes "parse_files create ls current old_path = Inr fs"
    and "\<And>r. old_path = Some r \<Longrightarrow> \<exists>q. r = trim q \<and> ''--- '' @ q \<in> set all"
    and "set ls \<subseteq> set all" and "\<And>f. current = Some f \<Longrightarrow> patch_path f \<in> header_names all"
  shows "\<forall>f\<in>set fs. patch_path f \<in> header_names all"
  using assms
proof (induction create ls current old_path arbitrary: fs rule: parse_files.induct)
  case (1 create current old_path)
  then show ?case by (auto simp: finished_def split: option.splits)
next
  case (2 create l ls current old_path)
  show ?case
  proof (cases "starts_with l ''diff --git ''")
    case True
    then obtain gs where gs: "parse_files create ls None None = Inr gs" "fs = finished current @ gs"
      using 2(6) by (auto simp: try_bind_Inr_iff)
    have "\<forall>f\<in>set gs. patch_path f \<in> header_names all" using 2(1) [OF True gs(1)] 2(8) by simp
    then show ?thesis using gs(2) 2(9) by (auto simp: finished_def split: option.splits)
  next
    case no_git: False
    show ?thesis
    proof (cases "strip_prefix ''--- '' l")
      case (Some r)
      then have l: "l = ''--- '' @ r" by (simp add: strip_prefix_Some_iff)
      then have "''--- '' @ r \<in> set all" using 2(8) by simp
      then show ?thesis using 2(5) [OF no_git Some, of fs] 2(6,8,9) no_git Some by auto
    next
      case no_old: None
      show ?thesis
      proof (cases "strip_prefix ''+++ '' l")
        case (Some r)
        then have l: "l = ''+++ '' @ r" by (simp add: strip_prefix_Some_iff)
        then have there: "''+++ '' @ r \<in> set all" using 2(8) by simp
        obtain p del cr where p: "resolve_diff_paths old_path (Some (trim r)) create = Inr (p, del, cr)"
          using 2(6) no_git no_old Some by (auto split: sum.splits)
        let ?f = "\<lparr>patch_path = p, patch_hunks = [], delete_after = del, create_if_missing = cr\<rparr>"
        obtain gs where gs: "parse_files create ls (Some ?f) None = Inr gs" "fs = finished current @ gs"
          using 2(6) no_git no_old Some p by (auto simp: try_bind_Inr_iff)
        have "p \<in> header_names all"
          using resolve_diff_paths_name [OF p] there 2(7) by (auto simp: header_names_def bind_eq_Some_conv)
        then have "\<forall>f\<in>set gs. patch_path f \<in> header_names all"
          using 2(4) [OF no_git no_old Some p _ _ gs(1)] 2(8) by auto
        then show ?thesis using gs(2) 2(9) by (auto simp: finished_def split: option.splits)
      next
        case no_new: None
        show ?thesis
        proof (cases "starts_with l ''@@''")
          case True
          then obtain f h rest where f: "current = Some f" and h: "parse_hunk_header l ls = Inr (h, rest)"
            using 2(6) no_git no_old no_new by (auto split: option.splits sum.splits)
          have "set rest \<subseteq> set all" using parse_hunk_header_rest [OF h] 2(8) by auto
          then show ?thesis using 2(2) [OF no_git no_old no_new True f h refl, of fs] 2(6,7,9) no_git no_old no_new True f h by auto
        next
          case False
          then show ?thesis using 2(3) [OF no_git no_old no_new False, of fs] 2(6,7,8,9) no_git no_old no_new by auto
        qed
      qed
    qed
  qed
qed

lemma push_unique_set [simp]: "set (push_unique xs x) = insert x (set xs)"
  by (auto simp: push_unique_def)

lemma push_all_set: "set (foldl push_unique xs ys) = set xs \<union> set ys"
  by (induction ys arbitrary: xs) auto

lemma changed_files_paths: "changed_files cs = Inr ps \<Longrightarrow> ps = List.map_filter (\<lambda>c. Option.bind (json_get ''path'' c) as_str) cs"
  by (induction cs arbitrary: ps) (auto simp: List.map_filter_simps try_bind_Inr_iff split: option.splits)

lemma add_file_patches_touched:
  "add_file_patches fs s = Inr s' \<Longrightarrow> set (touched_files s') = set (touched_files s) \<union> patch_path ` set fs"
  by (induction fs arbitrary: s) (auto split: if_splits)

lemma keep_first_set: "set (keep_first seen xs) = set xs - seen"
  by (induction xs arbitrary: seen) auto

lemma required_str_Some: "required_str show_json input field = Inr s \<Longrightarrow> Option.bind (json_get field input) as_str = Some s"
  by (auto simp: required_str_def split: option.splits json.splits if_splits)

lemma map_filter_set: "set (List.map_filter f xs) = {y. \<exists>x\<in>set xs. f x = Some y}"
  by (induction xs) (auto simp: List.map_filter_simps split: option.splits)

lemma target_paths_patch:
  "set (apply_patch_target_paths input) =
     (set_option (input_path input)
      \<union> (case Option.bind (json_get ''changes'' input) as_array of
           Some cs \<Rightarrow> set (List.map_filter (\<lambda>c. Option.bind (json_get ''path'' c) as_str) cs) | None \<Rightarrow> {})
      \<union> (case Option.bind (json_get ''patch'' input) as_str of
           Some patch \<Rightarrow> set (List.map_filter line_target (str_lines patch)) | None \<Rightarrow> {})) - {[]}"
  unfolding apply_patch_target_paths_def keep_first_set by (auto split: option.splits)

text \<open>C35: The gate looks at every file a patch will touch. Whatever an accepted patch call touches, through its
  changes, its path or the headers of its text, is a target of the gate (an empty name apart), as long as no
  header line of the patch has a tab or a quotation mark.\<close>

theorem patch_targets_covered:
  assumes "preflight_apply_patch show_json input = Inr pre"
    and "\<And>patch. Option.bind (json_get ''patch'' input) as_str = Some patch \<Longrightarrow> plain_headers patch"
  shows "set (touched_files pre) - {[]} \<subseteq> set (target_paths ''apply_patch'' input)"
proof -
  obtain create kind where plan: "preflight_plan show_json input = Inr (pre, kind)"
    using assms(1) by (auto simp: preflight_apply_patch_def try_bind_Inr_iff)
  have targets: "set (target_paths ''apply_patch'' input) = set (apply_patch_target_paths input)" by (simp add: target_paths_def)
  show ?thesis
  proof (cases "json_get ''changes'' input")
    case (Some v)
    then have "preflight_changes v = Inr pre" using plan by (auto simp: preflight_plan_def try_bind_Inr_iff)
    then obtain cs ps where "as_array v = Some cs" "changed_files cs = Inr ps" "touched_files pre = foldl push_unique [] ps"
      by (auto simp: preflight_changes_def changes_array_def try_bind_Inr_iff split: option.splits if_splits)
    then show ?thesis using Some changed_files_paths [of cs ps] by (auto simp: targets target_paths_patch push_all_set)
  next
    case None
    obtain patch where patch: "Option.bind (json_get ''patch'' input) as_str = Some patch"
      and required: "required_str show_json input ''patch'' = Inr patch"
      using plan None required_str_Some by (auto simp: preflight_plan_def try_bind_Inr_iff)
    show ?thesis
    proof (cases "optional_str input ''path''")
      case (Some p)
      then have "touched_files pre = [p]"
        using plan None required by (auto simp: preflight_plan_def try_bind_Inr_iff Let_def split: if_splits)
      then show ?thesis using Some by (auto simp: targets target_paths_patch input_path_def optional_str_def)
    next
      case no_path: None
      then obtain create fps s0 where fps: "parse_unified_diff_files patch create = Inr fps"
        "add_file_patches fps s0 = Inr pre" "touched_files s0 = []"
        using plan None required by (auto simp: preflight_plan_def try_bind_Inr_iff Let_def split: if_splits)
      have "\<forall>f\<in>set fps. patch_path f \<in> header_names (str_lines patch)"
        using fps(1) parse_files_names [of create "str_lines patch" None None fps "str_lines patch"]
        by (simp add: parse_unified_diff_files_def)
      then have "\<forall>p\<in>set (touched_files pre). \<exists>l\<in>set (str_lines patch). line_target l = Some p"
        using add_file_patches_touched [OF fps(2)] fps(3) header_names_target [OF assms(2) [OF patch]] by auto
      then show ?thesis unfolding targets target_paths_patch patch
        by (auto simp: map_filter_set)
    qed
  qed
qed

definition two_file_patch :: json where
  "two_file_patch = JObj [(''patch'', JStr (join [CHR 0x0A]
     [''--- a/x.rs'', ''+++ b/x.rs'', ''@@ -1,1 +1,1 @@'', ''-a'', ''+b'', ''--- /dev/null'', ''+++ b/y.rs'', ''@@ -0,0 +1,1 @@'', ''+c'']))]"

lemma patch_targets_covered_witness:
  "\<exists>pre. preflight_apply_patch (\<lambda>j. []) two_file_patch = Inr pre \<and> touched_files pre = [''x.rs'', ''y.rs'']
     \<and> set (touched_files pre) - {[]} \<subseteq> set (target_paths ''apply_patch'' two_file_patch)"
proof -
  have "map_option touched_files (case preflight_apply_patch (\<lambda>j. []) two_file_patch of Inr pre \<Rightarrow> Some pre | Inl e \<Rightarrow> None)
      = Some [''x.rs'', ''y.rs'']" by code_simp
  then obtain pre where pre: "preflight_apply_patch (\<lambda>j. []) two_file_patch = Inr pre" "touched_files pre = [''x.rs'', ''y.rs'']"
    by (auto split: sum.splits)
  have "(case Option.bind (json_get ''patch'' two_file_patch) as_str of Some patch \<Rightarrow> plain_headers patch | None \<Rightarrow> False)" by code_simp
  then have "\<And>patch. Option.bind (json_get ''patch'' two_file_patch) as_str = Some patch \<Longrightarrow> plain_headers patch"
    by simp
  from patch_targets_covered [OF pre(1) this] show ?thesis using pre by blast
qed

text \<open>The proviso is needed: with a time stamp after the file name, as \<open>diff -u\<close> writes it, the tool patches the file
  while the gate looks at a name that does not exist, so an unread file is edited.\<close>

definition stamped_patch :: json where
  "stamped_patch = JObj [(''patch'', JStr (join [CHR 0x0A]
     [''--- a/a.rs'' @ CHR 0x09 # ''2024-01-01'', ''+++ b/a.rs'' @ CHR 0x09 # ''2024-01-02'', ''@@ -1,1 +1,1 @@'', ''-a'', ''+b'']))]"

lemma stamped_header_escapes_the_gate:
  "(case preflight_apply_patch (\<lambda>j. []) stamped_patch of Inr pre \<Rightarrow> touched_files pre = [''a.rs''] | Inl e \<Rightarrow> False)
   \<and> ''a.rs'' \<notin> set (target_paths ''apply_patch'' stamped_patch)
   \<and> fst (execute_wrapped True WriteRole ''apply_patch'' sample_run stamped_patch sample_ctx (\<lambda>d. d) new_tracker (one_file 1))
       = Inr (tool_result_success ''ok'')"
  by code_simp

subsection \<open>Hints\<close>

text \<open>A file the model deletes through a tool keeps its fingerprint, so the next shell call announces it as changed on
  disk and asks to read it again.\<close>

lemma own_deletion_is_announced:
  "let p = \<lparr>is_absolute = True, parts = [''w'', ''a.rs'']\<rparr>;
       gone = (one_file 1)\<lparr>stat_of := (\<lambda>p. StatNotFound)\<rparr>;
       tr = record_write gone p (record_read (one_file 1) p new_tracker)
   in fst (detect_unhinted_changed gone tr) = [p]"
  by code_simp

subsection \<open>What the wrapper loses\<close>

text \<open>The wrapper does not pass on the question about a path outside the workspace, so of a wrapped tool the registry
  never learns of one: no approval is required for it and no question asked.\<close>

lemma wrapped_tool_never_asks_about_a_path:
  assumes "freshness_role_of (spec_name tool) \<noteq> None"
  shows "escaped_for (wrap_if_freshness_eligible tool) input ctx = None
    \<and> approval_requirement_for (Some (wrap_if_freshness_eligible tool)) input ctx = Some (approval_for tool input ctx)"
  using assms by (auto simp: wrap_if_freshness_eligible_def freshness_wrapped_def approval_requirement_for_def)

end
