(* ===== verification/WireSanitize.thy ===== *)
theory WireSanitize
  imports Json Text_Lemmas
begin

section \<open>providers: the last check of an outbound history\<close>

text \<open>
  The sweep that brings a converted message list into a shape strict providers accept
  (\<open>providers/src/rig_adapter/wire_sanitize.rs\<close>). Of the message types of the \<open>rig\<close> library the model has what
  the sweep reads: a non-empty list of items per message, the reasoning and media items opaque. The parser of
  JSON text is an argument; the warning at the end is not modelled.
\<close>

subsection \<open>Messages\<close>

datatype result_content = ResultText str | ResultImage str

datatype user_content = UserText str | UserToolResult str "result_content list" | UserMedia str

datatype assistant_content = AssistantText str | ToolCallItem str str json | Reasoning str | AssistantMedia str

datatype rig_message =
    SystemMessage str
  | UserMessage "user_content list"
  | AssistantMessage "str option" "assistant_content list"

fun call_id_of :: "assistant_content \<Rightarrow> str option" where
  "call_id_of (ToolCallItem i name args) = Some i"
| "call_id_of _ = None"

fun result_id_of :: "user_content \<Rightarrow> str option" where
  "result_id_of (UserToolResult i parts) = Some i"
| "result_id_of _ = None"

fun call_ids_of :: "rig_message \<Rightarrow> str list" where
  "call_ids_of (AssistantMessage mid items) = List.map_filter call_id_of items"
| "call_ids_of _ = []"

fun result_ids_of :: "rig_message \<Rightarrow> str list" where
  "result_ids_of (UserMessage items) = List.map_filter result_id_of items"
| "result_ids_of _ = []"

definition content_has_tool_result :: "user_content list \<Rightarrow> bool" where
  "content_has_tool_result items = list_ex (\<lambda>i. result_id_of i \<noteq> None) items"

fun user_has_tool_result :: "rig_message \<Rightarrow> bool" where
  "user_has_tool_result (UserMessage items) = content_has_tool_result items"
| "user_has_tool_result _ = False"

subsection \<open>Pairs of calls and results\<close>

text \<open>The first message that requests an id and the last that answers it.\<close>

fun first_call_pos :: "nat \<Rightarrow> rig_message list \<Rightarrow> str \<Rightarrow> nat option" where
  "first_call_pos idx [] i = None"
| "first_call_pos idx (m # ms) i = (if i \<in> set (call_ids_of m) then Some idx else first_call_pos (Suc idx) ms i)"

fun last_result_pos :: "nat \<Rightarrow> rig_message list \<Rightarrow> str \<Rightarrow> nat option" where
  "last_result_pos idx [] i = None"
| "last_result_pos idx (m # ms) i =
     (case last_result_pos (Suc idx) ms i of
        Some p \<Rightarrow> Some p
      | None \<Rightarrow> if i \<in> set (result_ids_of m) then Some idx else None)"

text \<open>The items of one message that live, with the ids seen so far.\<close>

fun keep_items :: "('a \<Rightarrow> str option) \<Rightarrow> (str \<Rightarrow> bool) \<Rightarrow> str list \<Rightarrow> 'a list \<Rightarrow> 'a list \<times> str list" where
  "keep_items id_of live seen [] = ([], seen)"
| "keep_items id_of live seen (item # items) =
     (case id_of item of
        None \<Rightarrow> let (kept, seen') = keep_items id_of live seen items in (item # kept, seen')
      | Some i \<Rightarrow>
          if live i \<and> i \<notin> set seen
          then let (kept, seen') = keep_items id_of live (i # seen) items in (item # kept, seen')
          else keep_items id_of live seen items)"

text \<open>The two reverse walks: what comes later is done first.\<close>

fun drop_results :: "(str \<Rightarrow> nat option) \<Rightarrow> nat \<Rightarrow> rig_message list \<Rightarrow> rig_message list \<times> str list \<times> bool" where
  "drop_results call_pos idx [] = ([], [], False)"
| "drop_results call_pos idx (m # ms) =
     (let (ms', seen, changed) = drop_results call_pos (Suc idx) ms
      in case m of
           UserMessage items \<Rightarrow>
             let (kept, seen') = keep_items result_id_of (\<lambda>i. case call_pos i of Some p \<Rightarrow> p < idx | None \<Rightarrow> False) seen items
             in if kept = [] then (ms', seen', True)
                else (UserMessage kept # ms', seen', changed \<or> length kept \<noteq> length items)
         | _ \<Rightarrow> (m # ms', seen, changed))"

fun drop_calls :: "(str \<Rightarrow> nat option) \<Rightarrow> nat \<Rightarrow> rig_message list \<Rightarrow> rig_message list \<times> str list \<times> bool" where
  "drop_calls result_pos idx [] = ([], [], False)"
| "drop_calls result_pos idx (m # ms) =
     (let (ms', seen, changed) = drop_calls result_pos (Suc idx) ms
      in case m of
           AssistantMessage mid items \<Rightarrow>
             let (kept, seen') = keep_items call_id_of (\<lambda>i. case result_pos i of Some p \<Rightarrow> idx < p | None \<Rightarrow> False) seen items
             in if kept = [] then (ms', seen', True)
                else (AssistantMessage mid kept # ms', seen', changed \<or> length kept \<noteq> length items)
         | _ \<Rightarrow> (m # ms', seen, changed))"

definition repair_tool_pairs :: "rig_message list \<Rightarrow> rig_message list \<times> bool" where
  "repair_tool_pairs ms =
     (let (ms1, _, changed1) = drop_results (first_call_pos 0 ms) 0 ms;
          (ms2, _, changed2) = drop_calls (last_result_pos 0 ms1) 0 ms1
      in (ms2, changed1 \<or> changed2))"

subsection \<open>Contents\<close>

definition PLACEHOLDER :: str where "PLACEHOLDER = '' ''"

definition text_kept :: "str \<Rightarrow> bool" where
  "text_kept t \<longleftrightarrow> t = PLACEHOLDER \<or> trim t \<noteq> []"

fun assistant_item_kept :: "assistant_content \<Rightarrow> bool" where
  "assistant_item_kept (AssistantText t) = text_kept t"
| "assistant_item_kept _ = True"

fun user_item_kept :: "user_content \<Rightarrow> bool" where
  "user_item_kept (UserText t) = text_kept t"
| "user_item_kept _ = True"

fun result_part_kept :: "result_content \<Rightarrow> bool" where
  "result_part_kept (ResultText t) = (trim t \<noteq> [])"
| "result_part_kept _ = True"

definition result_parts :: "result_content list \<Rightarrow> result_content list" where
  "result_parts ps =
     (let kept = filter result_part_kept ps in if kept = [] then [ResultText ''(empty output)''] else kept)"

fun clean_user_item :: "user_content \<Rightarrow> user_content" where
  "clean_user_item (UserToolResult i ps) = UserToolResult i (result_parts ps)"
| "clean_user_item item = item"

fun user_item_changed :: "user_content \<Rightarrow> bool" where
  "user_item_changed (UserText t) = (\<not> text_kept t)"
| "user_item_changed (UserToolResult i ps) = (length (filter result_part_kept ps) \<noteq> length ps)"
| "user_item_changed (UserMedia u) = False"

fun clean_message :: "rig_message \<Rightarrow> rig_message" where
  "clean_message (SystemMessage t) = SystemMessage (if trim t = [] \<and> t \<noteq> PLACEHOLDER then PLACEHOLDER else t)"
| "clean_message (AssistantMessage mid items) =
     (let kept = filter assistant_item_kept items
      in AssistantMessage mid (if kept = [] then [AssistantText PLACEHOLDER] else kept))"
| "clean_message (UserMessage items) =
     (let kept = map clean_user_item (filter user_item_kept items)
      in UserMessage (if kept = [] then [UserText PLACEHOLDER] else kept))"

fun message_changed :: "rig_message \<Rightarrow> bool" where
  "message_changed (SystemMessage t) = (trim t = [] \<and> t \<noteq> PLACEHOLDER)"
| "message_changed (AssistantMessage mid items) =
     (length (filter assistant_item_kept items) \<noteq> length items \<or> filter assistant_item_kept items = [])"
| "message_changed (UserMessage items) = (list_ex user_item_changed items \<or> filter user_item_kept items = [])"

definition normalize_empty_content :: "rig_message list \<Rightarrow> rig_message list \<times> bool" where
  "normalize_empty_content ms = (map clean_message ms, list_ex message_changed ms)"

subsection \<open>Arguments of calls\<close>

fun is_object :: "json \<Rightarrow> bool" where
  "is_object (JObj es) = True"
| "is_object _ = False"

definition object_or_empty :: "(str \<Rightarrow> json option) \<Rightarrow> json \<Rightarrow> json" where
  "object_or_empty parse_json v =
     (case v of
        JStr inner \<Rightarrow>
          (case parse_json inner of
             Some parsed \<Rightarrow> if is_object parsed then parsed else JObj []
           | None \<Rightarrow> JObj [])
      | _ \<Rightarrow> JObj [])"

fun call_input :: "(str \<Rightarrow> json option) \<Rightarrow> assistant_content \<Rightarrow> assistant_content" where
  "call_input parse_json (ToolCallItem i name args) =
     ToolCallItem i name (if is_object args then args else object_or_empty parse_json args)"
| "call_input parse_json item = item"

fun input_changed :: "assistant_content \<Rightarrow> bool" where
  "input_changed (ToolCallItem i name args) = (\<not> is_object args)"
| "input_changed _ = False"

fun message_inputs :: "(str \<Rightarrow> json option) \<Rightarrow> rig_message \<Rightarrow> rig_message" where
  "message_inputs parse_json (AssistantMessage mid items) = AssistantMessage mid (map (call_input parse_json) items)"
| "message_inputs parse_json m = m"

fun inputs_changed :: "rig_message \<Rightarrow> bool" where
  "inputs_changed (AssistantMessage mid items) = list_ex input_changed items"
| "inputs_changed _ = False"

definition normalize_tool_call_inputs :: "(str \<Rightarrow> json option) \<Rightarrow> rig_message list \<Rightarrow> rig_message list \<times> bool" where
  "normalize_tool_call_inputs parse_json ms = (map (message_inputs parse_json) ms, list_ex inputs_changed ms)"

subsection \<open>Merging\<close>

fun is_reasoning :: "assistant_content \<Rightarrow> bool" where
  "is_reasoning (Reasoning r) = True"
| "is_reasoning _ = False"

text \<open>The stable sort on one bit is a partition.\<close>

definition reasoning_first :: "assistant_content list \<Rightarrow> assistant_content list" where
  "reasoning_first items = filter is_reasoning items @ filter (\<lambda>i. \<not> is_reasoning i) items"

fun merge_pair :: "rig_message \<Rightarrow> rig_message \<Rightarrow> rig_message option" where
  "merge_pair (SystemMessage a) (SystemMessage b) = Some (SystemMessage (a @ [CHR 0x0A, CHR 0x0A] @ b))"
| "merge_pair (AssistantMessage mid a) (AssistantMessage mid' b) = Some (AssistantMessage mid (reasoning_first (a @ b)))"
| "merge_pair (UserMessage a) (UserMessage b) =
     (if \<not> content_has_tool_result a \<and> \<not> content_has_tool_result b then Some (UserMessage (a @ b)) else None)"
| "merge_pair _ _ = None"

fun merge_from :: "rig_message \<Rightarrow> rig_message list \<Rightarrow> rig_message list \<times> bool" where
  "merge_from prev [] = ([prev], False)"
| "merge_from prev (m # ms) =
     (case merge_pair prev m of
        Some merged \<Rightarrow> (fst (merge_from merged ms), True)
      | None \<Rightarrow> let (out, changed) = merge_from m ms in (prev # out, changed))"

definition merge_adjacent_same_role :: "rig_message list \<Rightarrow> rig_message list \<times> bool" where
  "merge_adjacent_same_role ms = (case ms of [] \<Rightarrow> ([], False) | m # rest \<Rightarrow> merge_from m rest)"

subsection \<open>The sweep\<close>

definition CONTINUATION_NOTE :: str where
  "CONTINUATION_NOTE = ''[context note] Earlier conversation context is no longer included in this request. Continue the task from the latest messages below.''"

fun has_plain_text :: "rig_message \<Rightarrow> bool" where
  "has_plain_text (UserMessage items) = (\<not> content_has_tool_result items \<and> list_ex (\<lambda>i. case i of UserText t \<Rightarrow> True | _ \<Rightarrow> False) items)"
| "has_plain_text _ = False"

fun is_system :: "rig_message \<Rightarrow> bool" where
  "is_system (SystemMessage t) = True"
| "is_system _ = False"

definition ensure_user_text_message :: "rig_message list \<Rightarrow> rig_message list \<times> bool" where
  "ensure_user_text_message ms =
     (if list_ex has_plain_text ms then (ms, False)
      else (takeWhile is_system ms @ UserMessage [UserText CONTINUATION_NOTE] # dropWhile is_system ms, True))"

definition sweep :: "(str \<Rightarrow> json option) \<Rightarrow> rig_message list \<Rightarrow> rig_message list \<times> bool" where
  "sweep parse_json ms =
     (let (ms1, c1) = repair_tool_pairs ms;
          (ms2, c2) = normalize_empty_content ms1;
          (ms3, c3) = normalize_tool_call_inputs parse_json ms2;
          (ms4, c4) = merge_adjacent_same_role ms3
      in (ms4, c1 \<or> c2 \<or> c3 \<or> c4))"

definition FIXPOINT_PASSES :: nat where "FIXPOINT_PASSES = 8"

fun sweeps :: "(str \<Rightarrow> json option) \<Rightarrow> nat \<Rightarrow> rig_message list \<Rightarrow> rig_message list" where
  "sweeps parse_json 0 ms = ms"
| "sweeps parse_json (Suc n) ms =
     (let (ms', changed) = sweep parse_json ms in if changed then sweeps parse_json n ms' else ms')"

definition sanitize_wire_messages :: "(str \<Rightarrow> json option) \<Rightarrow> rig_message list \<Rightarrow> rig_message list" where
  "sanitize_wire_messages parse_json ms =
     (let settled = sweeps parse_json FIXPOINT_PASSES ms;
          (noted, inserted) = ensure_user_text_message settled
      in if inserted then fst (merge_adjacent_same_role noted) else noted)"

end
