(* ===== verification/WireHistory.thy ===== *)
theory WireHistory
  imports WireSanitize
begin

section \<open>Histories that strict providers accept\<close>

text \<open>
  The specification of the sweep of WireSanitize and its proof: what leaves is a valid history, valid histories
  are left alone, and only unanswered calls are dropped. The pairing of calls and results is also stated along
  the list (\<open>answers_from\<close>, \<open>calls_later\<close>), which the proofs by induction use.
\<close>

subsection \<open>What strict providers accept\<close>

abbreviation all_calls :: "rig_message list \<Rightarrow> str list" where
  "all_calls ms \<equiv> concat (map call_ids_of ms)"

abbreviation all_results :: "rig_message list \<Rightarrow> str list" where
  "all_results ms \<equiv> concat (map result_ids_of ms)"

definition results_answer_earlier_calls :: "rig_message list \<Rightarrow> bool" where
  "results_answer_earlier_calls ms \<longleftrightarrow> (\<forall>xs m ys. ms = xs @ m # ys \<longrightarrow> set (result_ids_of m) \<subseteq> set (all_calls xs))"

definition calls_answered_later :: "rig_message list \<Rightarrow> bool" where
  "calls_answered_later ms \<longleftrightarrow> (\<forall>xs m ys. ms = xs @ m # ys \<longrightarrow> set (call_ids_of m) \<subseteq> set (all_results ys))"

definition pairs_ok :: "rig_message list \<Rightarrow> bool" where
  "pairs_ok ms \<longleftrightarrow> results_answer_earlier_calls ms \<and> calls_answered_later ms \<and> distinct (all_calls ms) \<and> distinct (all_results ms)"

fun user_item_ok :: "user_content \<Rightarrow> bool" where
  "user_item_ok (UserText t) = text_kept t"
| "user_item_ok (UserToolResult i ps) = (ps \<noteq> [] \<and> list_all result_part_kept ps)"
| "user_item_ok (UserMedia u) = True"

fun content_ok :: "rig_message \<Rightarrow> bool" where
  "content_ok (SystemMessage t) = (t = PLACEHOLDER \<or> trim t \<noteq> [])"
| "content_ok (AssistantMessage mid items) = (items \<noteq> [] \<and> list_all assistant_item_kept items)"
| "content_ok (UserMessage items) = (items \<noteq> [] \<and> list_all user_item_ok items)"

definition inputs_ok :: "rig_message \<Rightarrow> bool" where
  "inputs_ok m \<longleftrightarrow> \<not> inputs_changed m"

definition unmergeable :: "rig_message list \<Rightarrow> bool" where
  "unmergeable ms = successively (\<lambda>a b. merge_pair a b = None) ms"

definition settled :: "rig_message list \<Rightarrow> bool" where
  "settled ms \<longleftrightarrow> pairs_ok ms \<and> list_all content_ok ms \<and> list_all inputs_ok ms \<and> unmergeable ms"

definition wire_valid :: "rig_message list \<Rightarrow> bool" where
  "wire_valid ms \<longleftrightarrow> settled ms \<and> list_ex has_plain_text ms"

subsection \<open>Pairs along the list\<close>

fun answers_from :: "str set \<Rightarrow> rig_message list \<Rightarrow> bool" where
  "answers_from B [] = True"
| "answers_from B (m # ms) = (set (result_ids_of m) \<subseteq> B \<and> answers_from (B \<union> set (call_ids_of m)) ms)"

fun calls_later :: "rig_message list \<Rightarrow> bool" where
  "calls_later [] = True"
| "calls_later (m # ms) = (set (call_ids_of m) \<subseteq> set (all_results ms) \<and> calls_later ms)"

lemma answers_from_split:
  "answers_from B ms \<longleftrightarrow> (\<forall>xs m ys. ms = xs @ m # ys \<longrightarrow> set (result_ids_of m) \<subseteq> B \<union> set (all_calls xs))"
proof (induction ms arbitrary: B)
  case (Cons m ms)
  show ?case
  proof
    assume a: "answers_from B (m # ms)"
    show "\<forall>xs n ys. m # ms = xs @ n # ys \<longrightarrow> set (result_ids_of n) \<subseteq> B \<union> set (all_calls xs)"
    proof (intro allI impI)
      fix xs n ys assume s: "m # ms = xs @ n # ys"
      show "set (result_ids_of n) \<subseteq> B \<union> set (all_calls xs)"
        using s a Cons.IH [of "B \<union> set (call_ids_of m)"] by (cases xs) auto
    qed
  next
    assume a: "\<forall>xs n ys. m # ms = xs @ n # ys \<longrightarrow> set (result_ids_of n) \<subseteq> B \<union> set (all_calls xs)"
    have "set (result_ids_of m) \<subseteq> B" using a [rule_format, of "[]" m ms] by simp
    moreover have "answers_from (B \<union> set (call_ids_of m)) ms"
      unfolding Cons.IH using a [rule_format, of "m # _"] by fastforce
    ultimately show "answers_from B (m # ms)" by simp
  qed
qed simp

lemma calls_later_split: "calls_later ms \<longleftrightarrow> calls_answered_later ms"
proof (induction ms)
  case Nil
  then show ?case by (simp add: calls_answered_later_def)
next
  case (Cons m ms)
  show ?case
  proof
    assume "calls_later (m # ms)"
    then show "calls_answered_later (m # ms)"
      using Cons unfolding calls_answered_later_def by (auto simp: Cons_eq_append_conv) blast+
  next
    assume a: "calls_answered_later (m # ms)"
    have "set (call_ids_of m) \<subseteq> set (all_results ms)"
      using a unfolding calls_answered_later_def by (metis append_Nil)
    moreover have "calls_answered_later ms"
      using a unfolding calls_answered_later_def by (metis append_Cons)
    ultimately show "calls_later (m # ms)" using Cons by simp
  qed
qed

lemma pairs_ok_rec:
  "pairs_ok ms \<longleftrightarrow> answers_from {} ms \<and> calls_later ms \<and> distinct (all_calls ms) \<and> distinct (all_results ms)"
  by (simp add: pairs_ok_def results_answer_earlier_calls_def answers_from_split calls_later_split)

lemma calls_later_subset: "calls_later ms \<Longrightarrow> set (all_calls ms) \<subseteq> set (all_results ms)"
  by (induction ms) auto

lemma ids_apart: "i \<in> set (result_ids_of m) \<Longrightarrow> i \<notin> set (call_ids_of m)"
  by (cases m) auto

lemma answers_from_drop:
  assumes "answers_from (B \<union> D) ms" and "calls_later ms" and "distinct (all_results ms)"
    and "\<And>i. i \<in> D \<Longrightarrow> i \<notin> set (all_results ms) \<or> i \<in> set (all_calls ms)"
  shows "answers_from B ms"
  using assms
proof (induction ms arbitrary: B D)
  case (Cons m ms)
  have "i \<notin> D" if i: "i \<in> set (result_ids_of m)" for i
    using Cons.prems(2,3,4) i ids_apart [OF i] calls_later_subset [of ms] by fastforce
  then have now: "set (result_ids_of m) \<subseteq> B" using Cons.prems(1) by auto
  have "answers_from ((B \<union> set (call_ids_of m)) \<union> (D - set (call_ids_of m))) ms"
    using Cons.prems(1) by (simp add: Un_ac Un_Diff_cancel)
  then have "answers_from (B \<union> set (call_ids_of m)) ms"
  proof (rule Cons.IH)
    show "calls_later ms" "distinct (all_results ms)" using Cons.prems by auto
    show "i \<notin> set (all_results ms) \<or> i \<in> set (all_calls ms)" if "i \<in> D - set (call_ids_of m)" for i
      using Cons.prems(4) [of i] that by auto
  qed
  then show ?case using now by simp
qed simp

subsection \<open>The pairs after the repair\<close>

lemma keep_items_ids:
  assumes "keep_items id_of live seen items = (kept, seen')"
  shows "set (List.map_filter id_of kept) = {i \<in> set (List.map_filter id_of items). live i} - set seen
    \<and> distinct (List.map_filter id_of kept) \<and> set seen' = set seen \<union> set (List.map_filter id_of kept)"
  using assms
  by (induction items arbitrary: seen kept)
    (auto simp: List.map_filter_simps Let_def split: option.splits if_splits prod.splits)

lemma keep_items_all:
  assumes "\<forall>i\<in>set (List.map_filter id_of items). live i \<and> i \<notin> set seen" and "distinct (List.map_filter id_of items)"
  shows "keep_items id_of live seen items = (items, rev (List.map_filter id_of items) @ seen)"
  using assms
proof (induction items arbitrary: seen)
  case (Cons item items)
  show ?case
  proof (cases "id_of item")
    case None
    then show ?thesis using Cons by (simp add: List.map_filter_simps)
  next
    case (Some i)
    then have "keep_items id_of live (i # seen) items = (items, rev (List.map_filter id_of items) @ i # seen)"
      using Cons.IH [of "i # seen"] Cons.prems by (auto simp: List.map_filter_simps)
    then show ?thesis using Some Cons.prems by (simp add: List.map_filter_simps)
  qed
qed (simp add: List.map_filter_simps)

lemma first_call_pos_ge: "first_call_pos idx ms i = Some p \<Longrightarrow> idx \<le> p"
  by (induction ms arbitrary: idx) (fastforce split: if_splits)+

lemma first_call_pos_before:
  "(case first_call_pos idx (xs @ ms) i of Some p \<Rightarrow> p < idx + length xs | None \<Rightarrow> False) = (i \<in> set (all_calls xs))"
proof (induction xs arbitrary: idx)
  case Nil
  show ?case using first_call_pos_ge [of idx ms i] by (auto split: option.split)
next
  case (Cons x xs)
  show ?case using Cons.IH [of "Suc idx"] by (auto split: option.splits)
qed

lemma last_result_pos_some: "last_result_pos idx ms i = None \<longleftrightarrow> i \<notin> set (all_results ms)"
  by (induction ms arbitrary: idx) (simp_all split: option.split, metis not_None_eq)

lemma last_result_pos_ge: "last_result_pos idx ms i = Some p \<Longrightarrow> idx \<le> p"
  by (induction ms arbitrary: idx) (fastforce split: if_splits option.splits)+

lemma last_result_pos_after:
  "(case last_result_pos idx (xs @ m # ms) i of Some p \<Rightarrow> idx + length xs < p | None \<Rightarrow> False) = (i \<in> set (all_results ms))"
proof (induction xs arbitrary: idx)
  case Nil
  show ?case
    using last_result_pos_ge [of "Suc idx" ms i] last_result_pos_some [of "Suc idx" ms i] by (auto split: option.splits)
next
  case (Cons x xs)
  show ?case using Cons.IH [of "Suc idx"] by (auto split: option.splits)
qed

lemma drop_results_pairs:
  assumes "drop_results (first_call_pos 0 (xs @ ms)) (length xs) ms = (ms', seen, changed)"
  shows "answers_from (set (all_calls xs)) ms' \<and> distinct (all_results ms') \<and> set seen = set (all_results ms')
    \<and> all_calls ms' = all_calls ms"
  using assms
proof (induction ms arbitrary: xs ms' seen changed)
  case (Cons m ms)
  obtain out sn ch where r: "drop_results (first_call_pos 0 (xs @ m # ms)) (Suc (length xs)) ms = (out, sn, ch)"
    by (cases "drop_results (first_call_pos 0 (xs @ m # ms)) (Suc (length xs)) ms") auto
  then have ih: "answers_from (set (all_calls (xs @ [m]))) out" "distinct (all_results out)" "set sn = set (all_results out)"
      "all_calls out = all_calls ms"
    using Cons.IH [of "xs @ [m]" out sn ch] by auto
  show ?case
  proof (cases m)
    case (UserMessage items)
    obtain kept sn' where k: "keep_items result_id_of
        (\<lambda>i. case first_call_pos 0 (xs @ m # ms) i of Some p \<Rightarrow> p < length xs | None \<Rightarrow> False) sn items = (kept, sn')"
      by force
    have live: "(case first_call_pos 0 (xs @ m # ms) i of Some p \<Rightarrow> p < length xs | None \<Rightarrow> False) = (i \<in> set (all_calls xs))" for i
      using first_call_pos_before [of 0 xs "m # ms" i] unfolding add_0 .
    note ids = keep_items_ids [OF k, unfolded live]
    show ?thesis
    proof (cases "kept = []")
      case True
      then have "ms' = out" "set seen = set sn" using Cons.prems r k UserMessage ids by (auto simp: List.map_filter_simps)
      then show ?thesis using ih UserMessage by simp
    next
      case False
      then have "ms' = UserMessage kept # out" "seen = sn'" using Cons.prems r k UserMessage by auto
      then show ?thesis using ih ids UserMessage by auto
    qed
  qed (use Cons.prems r ih in auto)
qed simp

lemma drop_calls_pairs:
  assumes "drop_calls (last_result_pos 0 (xs @ ms)) (length xs) ms = (ms', seen, changed)" and "distinct (all_results ms)"
  shows "all_results ms' = all_results ms \<and> distinct (all_calls ms') \<and> set seen = set (all_calls ms') \<and> calls_later ms'
    \<and> (\<forall>B. answers_from B ms \<longrightarrow> answers_from B ms')"
  using assms
proof (induction ms arbitrary: xs ms' seen changed)
  case (Cons m ms)
  obtain out sn ch where r: "drop_calls (last_result_pos 0 (xs @ m # ms)) (Suc (length xs)) ms = (out, sn, ch)"
    by (cases "drop_calls (last_result_pos 0 (xs @ m # ms)) (Suc (length xs)) ms") auto
  then have ih: "all_results out = all_results ms" "distinct (all_calls out)" "set sn = set (all_calls out)" "calls_later out"
      "\<And>B. answers_from B ms \<Longrightarrow> answers_from B out"
    using Cons.IH [of "xs @ [m]" out sn ch] Cons.prems(2) by auto
  show ?case
  proof (cases m)
    case (AssistantMessage mid items)
    obtain kept sn' where k: "keep_items call_id_of
        (\<lambda>i. case last_result_pos 0 (xs @ m # ms) i of Some p \<Rightarrow> length xs < p | None \<Rightarrow> False) sn items = (kept, sn')"
      by force
    have live: "(case last_result_pos 0 (xs @ m # ms) i of Some p \<Rightarrow> length xs < p | None \<Rightarrow> False) = (i \<in> set (all_results ms))" for i
      using last_result_pos_after [of 0 xs m ms i] unfolding add_0 .
    let ?kept = "set (List.map_filter call_id_of kept)"
    note ids = keep_items_ids [OF k, unfolded live]
    have keep: "answers_from (B \<union> ?kept) out" if a: "answers_from B (m # ms)" for B
    proof (rule answers_from_drop [of _ "set (call_ids_of m) - ?kept"])
      have "B \<union> ?kept \<union> (set (call_ids_of m) - ?kept) = B \<union> set (call_ids_of m)" using ids AssistantMessage by auto
      then show "answers_from (B \<union> ?kept \<union> (set (call_ids_of m) - ?kept)) out" using ih(5) a by simp
      show "calls_later out" "distinct (all_results out)" using ih(1,4) Cons.prems(2) by simp_all
      show "i \<notin> set (all_results out) \<or> i \<in> set (all_calls out)" if "i \<in> set (call_ids_of m) - ?kept" for i
        using that ids ih(1,3) AssistantMessage by auto
    qed
    have later: "?kept \<subseteq> set (all_results out)" using ids ih(1) by auto
    show ?thesis
    proof (cases "kept = []")
      case True
      then have "ms' = out" "set seen = set sn" using Cons.prems(1) r k AssistantMessage ids by (auto simp: List.map_filter_simps)
      then show ?thesis using keep ih True AssistantMessage by (auto simp: List.map_filter_simps)
    next
      case False
      then have "ms' = AssistantMessage mid kept # out" "seen = sn'" using Cons.prems(1) r k AssistantMessage by auto
      then show ?thesis using keep ih later ids AssistantMessage by auto
    qed
  qed (use Cons.prems r ih in auto)
qed simp

lemma repair_pairs_ok: "pairs_ok (fst (repair_tool_pairs ms))"
proof -
  obtain ms1 s1 c1 where r1: "drop_results (first_call_pos 0 ms) 0 ms = (ms1, s1, c1)" by (metis prod_cases3)
  obtain ms2 s2 c2 where r2: "drop_calls (last_result_pos 0 ms1) 0 ms1 = (ms2, s2, c2)" by (metis prod_cases3)
  have a: "answers_from {} ms1" "distinct (all_results ms1)" using drop_results_pairs [of "[]" ms ms1 s1 c1] r1 by auto
  have "all_results ms2 = all_results ms1" "distinct (all_calls ms2)" "calls_later ms2" "answers_from {} ms2"
    using drop_calls_pairs [of "[]" ms1 ms2 s2 c2] r2 a by auto
  then show ?thesis using r1 r2 a by (simp add: repair_tool_pairs_def pairs_ok_rec)
qed

subsection \<open>Repaired pairs are left alone\<close>

fun has_items :: "rig_message \<Rightarrow> bool" where
  "has_items (SystemMessage t) = True"
| "has_items (AssistantMessage mid items) = (items \<noteq> [])"
| "has_items (UserMessage items) = (items \<noteq> [])"

lemma drop_results_none:
  assumes "answers_from (set (all_calls xs)) ms" and "distinct (all_results ms)" and "list_all has_items ms"
  shows "\<exists>seen. drop_results (first_call_pos 0 (xs @ ms)) (length xs) ms = (ms, seen, False) \<and> set seen = set (all_results ms)"
  using assms
proof (induction ms arbitrary: xs)
  case (Cons m ms)
  then obtain sn where r: "drop_results (first_call_pos 0 (xs @ m # ms)) (Suc (length xs)) ms = (ms, sn, False)"
      "set sn = set (all_results ms)"
    using Cons.IH [of "xs @ [m]"] by auto
  show ?case
  proof (cases m)
    case (UserMessage items)
    have "keep_items result_id_of
        (\<lambda>i. case first_call_pos 0 (xs @ m # ms) i of Some p \<Rightarrow> p < length xs | None \<Rightarrow> False) sn items =
        (items, rev (List.map_filter result_id_of items) @ sn)"
    proof (rule keep_items_all)
      show "distinct (List.map_filter result_id_of items)" using Cons.prems UserMessage by simp
      have "i \<in> set (all_calls xs)" "i \<notin> set sn" if "i \<in> set (List.map_filter result_id_of items)" for i
        using Cons.prems UserMessage r that by auto
      then show "\<forall>i\<in>set (List.map_filter result_id_of items).
          (case first_call_pos 0 (xs @ m # ms) i of Some p \<Rightarrow> p < length xs | None \<Rightarrow> False) \<and> i \<notin> set sn"
        using first_call_pos_before [of 0 xs "m # ms"] unfolding add_0 by blast
    qed
    then show ?thesis using Cons.prems UserMessage r by auto
  qed (use r in auto)
qed simp

lemma drop_calls_none:
  assumes "calls_later ms" and "distinct (all_calls ms)" and "list_all has_items ms"
  shows "\<exists>seen. drop_calls (last_result_pos 0 (xs @ ms)) (length xs) ms = (ms, seen, False) \<and> set seen = set (all_calls ms)"
  using assms
proof (induction ms arbitrary: xs)
  case (Cons m ms)
  then obtain sn where r: "drop_calls (last_result_pos 0 (xs @ m # ms)) (Suc (length xs)) ms = (ms, sn, False)"
      "set sn = set (all_calls ms)"
    using Cons.IH [of "xs @ [m]"] by auto
  show ?case
  proof (cases m)
    case (AssistantMessage mid items)
    have "keep_items call_id_of
        (\<lambda>i. case last_result_pos 0 (xs @ m # ms) i of Some p \<Rightarrow> length xs < p | None \<Rightarrow> False) sn items =
        (items, rev (List.map_filter call_id_of items) @ sn)"
    proof (rule keep_items_all)
      show "distinct (List.map_filter call_id_of items)" using Cons.prems AssistantMessage by simp
      have "i \<in> set (all_results ms)" "i \<notin> set sn" if "i \<in> set (List.map_filter call_id_of items)" for i
        using Cons.prems AssistantMessage r that by auto
      then show "\<forall>i\<in>set (List.map_filter call_id_of items).
          (case last_result_pos 0 (xs @ m # ms) i of Some p \<Rightarrow> length xs < p | None \<Rightarrow> False) \<and> i \<notin> set sn"
        using last_result_pos_after [of 0 xs m ms] unfolding add_0 by blast
    qed
    then show ?thesis using Cons.prems AssistantMessage r by auto
  qed (use r in auto)
qed simp

lemma repair_none:
  assumes "pairs_ok ms" and "list_all has_items ms"
  shows "repair_tool_pairs ms = (ms, False)"
proof -
  from assms have ok: "answers_from {} ms" "calls_later ms" "distinct (all_calls ms)" "distinct (all_results ms)"
    by (simp_all add: pairs_ok_rec)
  obtain s1 where r1: "drop_results (first_call_pos 0 ms) 0 ms = (ms, s1, False)"
    using drop_results_none [of "[]" ms] ok assms(2) by auto
  obtain s2 where r2: "drop_calls (last_result_pos 0 ms) 0 ms = (ms, s2, False)"
    using drop_calls_none [of ms "[]"] ok assms(2) by auto
  show ?thesis using r1 r2 by (simp add: repair_tool_pairs_def)
qed

subsection \<open>Contents and arguments\<close>

lemma clean_items_ids: "List.map_filter result_id_of (map clean_user_item (filter user_item_kept items)) = List.map_filter result_id_of items"
proof (induction items)
  case (Cons item items)
  then show ?case by (cases item) (simp_all add: List.map_filter_simps)
qed (simp add: List.map_filter_simps)

lemma kept_items_ids: "List.map_filter call_id_of (filter assistant_item_kept items) = List.map_filter call_id_of items"
proof (induction items)
  case (Cons item items)
  then show ?case by (cases item) (simp_all add: List.map_filter_simps)
qed (simp add: List.map_filter_simps)

lemma input_items_ids: "List.map_filter call_id_of (map (call_input p) items) = List.map_filter call_id_of items"
proof (induction items)
  case (Cons item items)
  then show ?case by (cases item) (simp_all add: List.map_filter_simps)
qed (simp add: List.map_filter_simps)

lemma clean_ids [simp]: "call_ids_of (clean_message m) = call_ids_of m" "result_ids_of (clean_message m) = result_ids_of m"
proof -
  show "call_ids_of (clean_message m) = call_ids_of m"
  proof (cases m)
    case (AssistantMessage mid items)
    then show ?thesis using kept_items_ids [of items] by (cases "filter assistant_item_kept items") (simp_all add: Let_def List.map_filter_simps)
  qed (simp_all add: Let_def)
  show "result_ids_of (clean_message m) = result_ids_of m"
  proof (cases m)
    case (UserMessage items)
    then show ?thesis using clean_items_ids [of items]
      by (cases "map clean_user_item (filter user_item_kept items)") (simp_all add: Let_def List.map_filter_simps)
  qed (simp_all add: Let_def)
qed

lemma input_ids [simp]: "call_ids_of (message_inputs p m) = call_ids_of m" "result_ids_of (message_inputs p m) = result_ids_of m"
  by (cases m; simp add: input_items_ids)+

lemma pairs_ok_map:
  assumes "\<And>m. call_ids_of (f m) = call_ids_of m" and "\<And>m. result_ids_of (f m) = result_ids_of m"
  shows "pairs_ok (map f ms) = pairs_ok ms"
proof -
  have "answers_from B (map f ms) = answers_from B ms" for B
    using assms by (induction ms arbitrary: B) auto
  moreover have "calls_later (map f ms) = calls_later ms"
    using assms by (induction ms) (auto simp: comp_def)
  ultimately show ?thesis using assms by (simp add: pairs_ok_rec comp_def)
qed

lemma result_parts_ok: "result_parts ps \<noteq> [] \<and> list_all result_part_kept (result_parts ps)"
proof -
  have "trim ''(empty output)'' \<noteq> []" by code_simp
  then show ?thesis by (auto simp: result_parts_def Let_def list_all_iff)
qed

lemma clean_user_item_ok: "user_item_kept item \<Longrightarrow> user_item_ok (clean_user_item item)"
  by (cases item) (simp_all add: result_parts_ok)

lemma clean_content_ok: "content_ok (clean_message m)"
  using clean_user_item_ok by (cases m) (auto simp: Let_def text_kept_def list_all_iff)

lemma clean_none: "content_ok m \<Longrightarrow> clean_message m = m \<and> \<not> message_changed m"
proof (cases m)
  case (UserMessage items)
  assume ok: "content_ok m"
  have one: "user_item_ok item \<Longrightarrow> user_item_kept item \<and> clean_user_item item = item \<and> \<not> user_item_changed item" for item
    by (cases item) (auto simp: result_parts_def list_all_iff filter_id_conv Let_def)
  have "filter user_item_kept items = items" "map clean_user_item items = items" "\<not> list_ex user_item_changed items"
    using ok UserMessage one by (auto simp: list_all_iff list_ex_iff filter_id_conv intro: map_idI)
  then show ?thesis using ok UserMessage by simp
qed (auto simp: text_kept_def list_all_iff filter_id_conv Let_def)

lemma object_or_empty_object: "is_object (object_or_empty p v)"
  by (auto simp: object_or_empty_def split: json.split option.split)

lemma inputs_done: "inputs_ok (message_inputs p m)"
proof (cases m)
  case (AssistantMessage mid items)
  have "\<not> input_changed (call_input p item)" for item by (cases item) (auto simp: object_or_empty_object)
  then show ?thesis using AssistantMessage by (simp add: inputs_ok_def list_ex_iff)
qed (simp_all add: inputs_ok_def)

lemma inputs_none: "inputs_ok m \<Longrightarrow> message_inputs p m = m"
proof (cases m)
  case (AssistantMessage mid items)
  assume "inputs_ok m"
  moreover have "\<not> input_changed item \<Longrightarrow> call_input p item = item" for item by (cases item) auto
  ultimately show ?thesis using AssistantMessage by (auto simp: inputs_ok_def list_ex_iff intro: map_idI)
qed simp_all

lemma inputs_content: "content_ok (message_inputs p m) = content_ok m"
proof (cases m)
  case (AssistantMessage mid items)
  have "assistant_item_kept (call_input p item) = assistant_item_kept item" for item by (cases item) auto
  then show ?thesis using AssistantMessage by (simp add: list_all_iff)
qed simp_all

subsection \<open>Merging\<close>

datatype message_kind = SystemKind | AssistantKind | PlainUser | ResultUser

fun kind_of :: "rig_message \<Rightarrow> message_kind" where
  "kind_of (SystemMessage t) = SystemKind"
| "kind_of (AssistantMessage mid items) = AssistantKind"
| "kind_of (UserMessage items) = (if content_has_tool_result items then ResultUser else PlainUser)"

lemma merge_pair_none: "merge_pair a b = None \<longleftrightarrow> kind_of a \<noteq> kind_of b \<or> kind_of a = ResultUser"
  by (cases a; cases b) auto

lemma reasoning_first_set [simp]: "set (reasoning_first items) = set items"
  by (auto simp: reasoning_first_def)

lemma reasoning_first_Nil [simp]: "reasoning_first items = [] \<longleftrightarrow> items = []"
  using reasoning_first_set [of items] by (metis set_empty)

lemma reasoning_first_ids: "List.map_filter call_id_of (reasoning_first items) = List.map_filter call_id_of items"
proof -
  have "List.map_filter call_id_of (filter is_reasoning items) = []"
    by (induction items) (auto simp: List.map_filter_simps elim: is_reasoning.elims)
  moreover have "List.map_filter call_id_of (filter (\<lambda>i. \<not> is_reasoning i) items) = List.map_filter call_id_of items"
  proof (induction items)
    case (Cons item items)
    then show ?case by (cases item) (simp_all add: List.map_filter_simps)
  qed (simp add: List.map_filter_simps)
  ultimately show ?thesis by (simp add: reasoning_first_def List.map_filter_def)
qed

lemma no_result_ids: "\<not> content_has_tool_result items \<Longrightarrow> List.map_filter result_id_of items = []"
  by (induction items) (auto simp: content_has_tool_result_def List.map_filter_simps split: option.splits)

lemma merge_pair_kind: "merge_pair a b = Some m \<Longrightarrow> kind_of m = kind_of a \<and> kind_of b = kind_of a"
  by (cases a; cases b) (auto simp: content_has_tool_result_def split: if_splits)

lemma merge_pair_ids:
  assumes "merge_pair a b = Some m"
  shows "result_ids_of a = [] \<and> result_ids_of b = [] \<and> result_ids_of m = [] \<and> call_ids_of m = call_ids_of a @ call_ids_of b"
proof (cases a; cases b)
  fix mid xs mid' ys assume "a = AssistantMessage mid xs" "b = AssistantMessage mid' ys"
  then show ?thesis using assms reasoning_first_ids [of "xs @ ys"] by (auto simp: List.map_filter_def)
next
  fix xs ys assume "a = UserMessage xs" "b = UserMessage ys"
  then show ?thesis using assms no_result_ids [of xs] no_result_ids [of ys]
    by (auto simp: List.map_filter_def split: if_splits)
qed (use assms in auto)

lemma merge_pair_content:
  "merge_pair a b = Some m \<Longrightarrow> content_ok a \<Longrightarrow> content_ok b \<Longrightarrow> content_ok m \<or> is_system m"
  by (cases a; cases b) (auto simp: list_all_iff split: if_splits)

lemma merge_pair_system: "merge_pair a b = Some m \<Longrightarrow> is_system m = is_system a"
  by (cases a; cases b) (auto split: if_splits)

lemma merge_pair_inputs: "merge_pair a b = Some m \<Longrightarrow> inputs_ok a \<Longrightarrow> inputs_ok b \<Longrightarrow> inputs_ok m"
  by (cases a; cases b) (auto simp: inputs_ok_def list_ex_iff split: if_splits)

lemma merge_pair_text: "merge_pair a b = Some m \<Longrightarrow> has_plain_text a \<or> has_plain_text b \<Longrightarrow> has_plain_text m"
  by (cases a; cases b) (auto simp: content_has_tool_result_def split: if_splits)

lemma merge_from_step [simp]:
  "fst (merge_from prev (m # ms)) =
     (case merge_pair prev m of Some merged \<Rightarrow> fst (merge_from merged ms) | None \<Rightarrow> prev # fst (merge_from m ms))"
  "snd (merge_from prev (m # ms)) = (case merge_pair prev m of Some merged \<Rightarrow> True | None \<Rightarrow> snd (merge_from m ms))"
  by (simp_all add: Let_def split: option.split prod.split)

declare merge_from.simps(2) [simp del]

lemma merge_from_ids:
  "all_calls (fst (merge_from prev ms)) = all_calls (prev # ms) \<and> all_results (fst (merge_from prev ms)) = all_results (prev # ms)"
  by (induction ms arbitrary: prev) (auto dest!: merge_pair_ids split: option.split)

lemma merge_from_answers: "answers_from B (prev # ms) \<Longrightarrow> answers_from B (fst (merge_from prev ms))"
proof (induction ms arbitrary: prev B)
  case (Cons m ms)
  show ?case
  proof (cases "merge_pair prev m")
    case None
    then show ?thesis using Cons.IH [of "B \<union> set (call_ids_of prev)" m] Cons.prems by (auto)
  next
    case (Some merged)
    have "answers_from B (merged # ms)" using Cons.prems merge_pair_ids [OF Some] by (simp add: Un_assoc)
    then show ?thesis using Some Cons.IH [of B merged] by simp
  qed
qed simp

lemma merge_from_later: "calls_later (prev # ms) \<Longrightarrow> calls_later (fst (merge_from prev ms))"
proof (induction ms arbitrary: prev)
  case (Cons m ms)
  show ?case
  proof (cases "merge_pair prev m")
    case None
    moreover have "set (all_results (fst (merge_from m ms))) = set (all_results (m # ms))" using merge_from_ids [of m ms] by simp
    ultimately show ?thesis using Cons.IH [of m] Cons.prems by simp
  next
    case (Some merged)
    have "calls_later (merged # ms)" using Cons.prems merge_pair_ids [OF Some] by auto
    then show ?thesis using Some Cons.IH [of merged] by simp
  qed
qed simp

lemma merge_pairs_ok: "pairs_ok ms \<Longrightarrow> pairs_ok (fst (merge_adjacent_same_role ms))"
  using merge_from_ids [of "hd ms" "tl ms"] merge_from_answers [of "{}" "hd ms" "tl ms"] merge_from_later [of "hd ms" "tl ms"]
  by (cases ms) (simp_all add: pairs_ok_rec merge_adjacent_same_role_def)

text \<open>What a merge keeps of each message is kept of the list.\<close>

lemma merge_from_all:
  assumes "\<And>a b m. merge_pair a b = Some m \<Longrightarrow> Q a \<Longrightarrow> Q b \<Longrightarrow> Q m" and "list_all Q (prev # ms)"
  shows "list_all Q (fst (merge_from prev ms))"
  using assms(2)
proof (induction ms arbitrary: prev)
  case (Cons m ms)
  then show ?case using assms(1) [of prev m] by (auto split: option.split)
qed simp

lemma merge_all:
  assumes "\<And>a b m. merge_pair a b = Some m \<Longrightarrow> Q a \<Longrightarrow> Q b \<Longrightarrow> Q m" and "list_all Q ms"
  shows "list_all Q (fst (merge_adjacent_same_role ms))"
  using merge_from_all [of Q, OF assms(1)] assms(2) by (cases ms) (auto simp: merge_adjacent_same_role_def)

lemma merge_text: "list_ex has_plain_text ms \<Longrightarrow> list_ex has_plain_text (fst (merge_adjacent_same_role ms))"
proof -
  have "list_ex has_plain_text (prev # ms) \<Longrightarrow> list_ex has_plain_text (fst (merge_from prev ms))" for prev ms
  proof (induction ms arbitrary: prev)
    case (Cons m ms)
    then show ?case using merge_pair_text [of prev m] by (auto split: option.split)
  qed simp
  then show "list_ex has_plain_text ms \<Longrightarrow> ?thesis" by (cases ms) (auto simp: merge_adjacent_same_role_def)
qed

lemma merge_from_hd: "fst (merge_from prev ms) \<noteq> [] \<and> kind_of (hd (fst (merge_from prev ms))) = kind_of prev"
  by (induction ms arbitrary: prev) (auto dest!: merge_pair_kind split: option.split)

lemma merge_unmergeable: "unmergeable (fst (merge_adjacent_same_role ms))"
proof -
  have "unmergeable (fst (merge_from prev ms))" for prev ms
  proof (induction ms arbitrary: prev)
    case (Cons m ms)
    have "merge_pair prev m = None \<Longrightarrow> merge_pair prev (hd (fst (merge_from m ms))) = None"
      using merge_from_hd [of m ms] by (simp add: merge_pair_none)
    then show ?case using Cons merge_from_hd [of m ms]
      by (auto simp: Let_def unmergeable_def successively_Cons split: option.split)
  qed (simp add: unmergeable_def)
  then show ?thesis by (cases ms) (simp_all add: merge_adjacent_same_role_def unmergeable_def)
qed

lemma merge_none: "unmergeable ms \<Longrightarrow> merge_adjacent_same_role ms = (ms, False)"
proof -
  have "unmergeable (prev # ms) \<Longrightarrow> merge_from prev ms = (prev # ms, False)" for prev ms
    by (induction ms arbitrary: prev) (auto simp: unmergeable_def merge_from.simps(2))
  then show "unmergeable ms \<Longrightarrow> ?thesis" by (cases ms) (simp_all add: merge_adjacent_same_role_def)
qed

lemma merge_unchanged: "\<not> snd (merge_adjacent_same_role ms) \<Longrightarrow> fst (merge_adjacent_same_role ms) = ms"
proof -
  have "\<not> snd (merge_from prev ms) \<Longrightarrow> fst (merge_from prev ms) = prev # ms" for prev ms
    by (induction ms arbitrary: prev) (auto split: option.splits)
  then show "\<not> snd (merge_adjacent_same_role ms) \<Longrightarrow> ?thesis" by (cases ms) (simp_all add: merge_adjacent_same_role_def)
qed

lemma unmergeable_kinds: "map kind_of ms = map kind_of ns \<Longrightarrow> unmergeable ms = unmergeable ns"
proof -
  have "unmergeable ms = successively (\<lambda>a b. a \<noteq> b \<or> a = ResultUser) (map kind_of ms)" for ms
    by (simp add: unmergeable_def successively_map merge_pair_none)
  then show "map kind_of ms = map kind_of ns \<Longrightarrow> ?thesis" by simp
qed

subsection \<open>The sweeps settle\<close>

lemma kinds_of_cleaned: "kind_of (message_inputs p (clean_message m)) = kind_of m"
proof (cases m)
  case (UserMessage items)
  have one: "result_id_of (clean_user_item item) = result_id_of item" "\<not> user_item_kept item \<Longrightarrow> result_id_of item = None" for item
    by (cases item; simp)+
  have "content_has_tool_result (map clean_user_item (filter user_item_kept items)) = content_has_tool_result items"
    using one(1) one(2) [unfolded atomize_imp] by (force simp: content_has_tool_result_def list_ex_iff)
  then show ?thesis using UserMessage by (auto simp: Let_def content_has_tool_result_def)
qed (simp_all add: Let_def)

lemma content_has_items: "content_ok m \<or> is_system m \<Longrightarrow> has_items m"
  by (cases m) auto

definition cleaned :: "(str \<Rightarrow> json option) \<Rightarrow> rig_message list \<Rightarrow> rig_message list" where
  "cleaned p ms = map (message_inputs p) (map clean_message ms)"

lemma cleaned_ok: "list_all content_ok (cleaned p ms)" "list_all inputs_ok (cleaned p ms)" "pairs_ok (cleaned p ms) = pairs_ok ms"
    "map kind_of (cleaned p ms) = map kind_of ms"
  by (simp_all add: cleaned_def list_all_iff clean_content_ok inputs_content inputs_done pairs_ok_map kinds_of_cleaned)

lemma cleaned_none: "list_all content_ok ms \<Longrightarrow> list_all inputs_ok ms \<Longrightarrow> cleaned p ms = ms \<and> \<not> list_ex message_changed ms"
  using clean_none inputs_none by (auto simp: cleaned_def list_all_iff list_ex_iff intro!: map_idI)

lemma sweep_result: "fst (sweep p ms) = fst (merge_adjacent_same_role (cleaned p (fst (repair_tool_pairs ms))))"
  by (simp add: sweep_def cleaned_def normalize_empty_content_def normalize_tool_call_inputs_def split: prod.split)

lemma sweep_changed: "\<not> snd (sweep p ms) \<Longrightarrow> \<not> snd (merge_adjacent_same_role (cleaned p (fst (repair_tool_pairs ms))))"
  by (simp add: sweep_def cleaned_def normalize_empty_content_def normalize_tool_call_inputs_def split: prod.splits)

text \<open>One sweep leaves at most the system messages it merged; the second cleans them.\<close>

definition nearly_settled :: "rig_message list \<Rightarrow> bool" where
  "nearly_settled ms \<longleftrightarrow> pairs_ok ms \<and> list_all (\<lambda>m. content_ok m \<or> is_system m) ms \<and> list_all inputs_ok ms \<and> unmergeable ms"

lemma merge_pair_nearly:
  "merge_pair a b = Some m \<Longrightarrow> content_ok a \<or> is_system a \<Longrightarrow> content_ok b \<or> is_system b \<Longrightarrow> content_ok m \<or> is_system m"
  by (cases a; cases b) (auto simp: list_all_iff split: if_splits)

lemma sweep_nearly: "nearly_settled (fst (sweep p ms))"
proof -
  let ?ms = "cleaned p (fst (repair_tool_pairs ms))"
  have "list_all (\<lambda>m. content_ok m \<or> is_system m) ?ms" using cleaned_ok(1) by (auto simp: list_all_iff)
  then show ?thesis unfolding sweep_result nearly_settled_def
    using merge_pairs_ok [of ?ms] merge_all [of inputs_ok ?ms, OF merge_pair_inputs cleaned_ok(2)] merge_unmergeable [of ?ms]
      merge_all [of "\<lambda>m. content_ok m \<or> is_system m" ?ms, OF merge_pair_nearly] repair_pairs_ok [of ms]
    by (simp add: cleaned_ok)
qed

lemma sweep_unchanged_settled: "\<not> snd (sweep p ms) \<Longrightarrow> settled (fst (sweep p ms))"
  using sweep_nearly [of p ms] merge_unchanged [OF sweep_changed] cleaned_ok(1)
  by (simp add: settled_def nearly_settled_def sweep_result)

lemma sweep_nearly_settles:
  assumes "nearly_settled ms"
  shows "settled (fst (sweep p ms))"
proof -
  have "repair_tool_pairs ms = (ms, False)"
    using assms repair_none [of ms] content_has_items by (auto simp: nearly_settled_def list_all_iff)
  moreover have "unmergeable (cleaned p ms)" using assms unmergeable_kinds [OF cleaned_ok(4)] by (simp add: nearly_settled_def)
  ultimately show ?thesis using assms cleaned_ok merge_none [of "cleaned p ms"]
    by (simp add: sweep_result settled_def nearly_settled_def)
qed

lemma sweep_settled:
  assumes "settled ms"
  shows "sweep p ms = (ms, False)"
proof -
  have "repair_tool_pairs ms = (ms, False)"
    using assms repair_none [of ms] content_has_items by (auto simp: settled_def list_all_iff)
  moreover have "cleaned p ms = ms" "\<not> list_ex message_changed ms" "\<not> list_ex inputs_changed ms" "map clean_message ms = ms"
    using assms cleaned_none [of ms p] clean_none
    by (auto simp: settled_def inputs_ok_def list_all_iff list_ex_iff intro: map_idI)
  ultimately show ?thesis using assms merge_none [of ms]
    by (simp add: sweep_def settled_def cleaned_def normalize_empty_content_def normalize_tool_call_inputs_def del: map_map)
qed

lemma sweeps_settled: "settled ms \<Longrightarrow> sweeps p n ms = ms"
  by (cases n) (simp_all add: sweep_settled)

text \<open>Three passes suffice, the third only to see that nothing changes.\<close>

lemma sweeps_settle: "settled (sweeps p (Suc (Suc n)) ms)"
proof (cases "snd (sweep p ms)")
  case True
  have "settled (fst (sweep p (fst (sweep p ms))))" by (rule sweep_nearly_settles) (rule sweep_nearly)
  then show ?thesis using True by (auto simp: sweeps_settled Let_def split: prod.split)
next
  case False
  then show ?thesis using sweep_unchanged_settled [OF False] by (auto simp: Let_def split: prod.split)
qed

subsection \<open>The user text\<close>

lemma answers_from_append: "answers_from B (xs @ ys) \<longleftrightarrow> answers_from B xs \<and> answers_from (B \<union> set (all_calls xs)) ys"
  by (induction xs arbitrary: B) (auto simp: Un_assoc)

lemma insert_idless:
  assumes "pairs_ok (xs @ ys)" and "call_ids_of u = []" and "result_ids_of u = []"
  shows "pairs_ok (xs @ u # ys)"
proof -
  have "calls_later (xs @ ys) \<Longrightarrow> calls_later (xs @ u # ys)" using assms(2,3) by (induction xs) auto
  then show ?thesis using assms by (auto simp: pairs_ok_rec answers_from_append)
qed

text \<open>Without two systems side by side a merge makes no system message.\<close>

definition systems_apart :: "rig_message list \<Rightarrow> bool" where
  "systems_apart ms = successively (\<lambda>a b. \<not> (is_system a \<and> is_system b)) ms"

lemma merge_content:
  assumes "list_all content_ok ms" and "systems_apart ms"
  shows "list_all content_ok (fst (merge_adjacent_same_role ms))"
proof -
  have "list_all content_ok (prev # ms) \<Longrightarrow> systems_apart (prev # ms) \<Longrightarrow> list_all content_ok (fst (merge_from prev ms))" for prev ms
  proof (induction ms arbitrary: prev)
    case (Cons m ms)
    show ?case
    proof (cases "merge_pair prev m")
      case None
      then show ?thesis using Cons by (simp add: systems_apart_def)
    next
      case (Some merged)
      have kinds: "is_system merged = is_system prev" "is_system m = is_system prev"
        using Some by (cases prev; cases m; auto split: if_splits)+
      then have "\<not> is_system merged" using Cons.prems(2) by (auto simp: systems_apart_def)
      then have "content_ok merged" using merge_pair_content [OF Some] Cons.prems(1) by auto
      moreover have "systems_apart (merged # ms)"
        using Cons.prems(2) \<open>\<not> is_system merged\<close> by (cases ms) (auto simp: systems_apart_def)
      ultimately show ?thesis using Cons.IH [of merged] Cons.prems(1) Some by simp
    qed
  qed simp
  then show ?thesis using assms by (cases ms) (simp_all add: merge_adjacent_same_role_def)
qed

lemma noted_systems_apart:
  assumes "unmergeable ms"
  shows "systems_apart (takeWhile is_system ms @ UserMessage items # dropWhile is_system ms)"
proof -
  have "systems_apart ms" unfolding systems_apart_def
    using assms unfolding unmergeable_def
    by (rule successively_mono) (auto simp: merge_pair_none elim!: is_system.elims)
  then have "systems_apart (takeWhile is_system ms @ dropWhile is_system ms)" by simp
  then show ?thesis unfolding systems_apart_def successively_append_iff by (auto simp: successively_Cons)
qed

lemma ensured_wire_valid:
  assumes "settled ms" and "\<not> list_ex has_plain_text ms"
  shows "wire_valid (fst (merge_adjacent_same_role (fst (ensure_user_text_message ms))))"
proof -
  let ?u = "UserMessage [UserText CONTINUATION_NOTE]"
  let ?ms = "takeWhile is_system ms @ ?u # dropWhile is_system ms"
  have note_kept: "text_kept CONTINUATION_NOTE" by code_simp
  have split: "list_all Q ?ms" if "list_all Q ms" "Q ?u" for Q
    using that by (auto simp: list_all_iff dest: set_takeWhileD set_dropWhileD)
  have "pairs_ok ?ms" using assms(1) by (intro insert_idless) (simp_all add: settled_def List.map_filter_simps)
  moreover have "list_all content_ok ?ms" using assms(1) note_kept by (intro split) (simp_all add: settled_def)
  moreover have "list_all inputs_ok ?ms" using assms(1) by (intro split) (simp_all add: settled_def inputs_ok_def)
  moreover have "list_ex has_plain_text ?ms" by (simp add: content_has_tool_result_def)
  moreover have "systems_apart ?ms" using assms(1) by (intro noted_systems_apart) (simp add: settled_def)
  ultimately show ?thesis using assms(2) merge_unmergeable [of ?ms]
    by (simp add: wire_valid_def settled_def ensure_user_text_message_def merge_pairs_ok merge_content merge_text
        merge_all [of inputs_ok, OF merge_pair_inputs])
qed

subsection \<open>Nothing but orphans is dropped\<close>

text \<open>The ids of the calls that a later message answers.\<close>

fun answered_ids :: "rig_message list \<Rightarrow> str set" where
  "answered_ids [] = {}"
| "answered_ids (m # ms) = set (call_ids_of m) \<inter> set (all_results ms) \<union> answered_ids ms"

lemma drop_results_keeps:
  assumes "drop_results (first_call_pos 0 (xs @ ms)) (length xs) ms = (ms', seen, changed)"
  shows "set (all_results ms') = set (all_calls xs) \<inter> set (all_results ms) \<union> answered_ids ms"
  using assms
proof (induction ms arbitrary: xs ms' seen changed)
  case (Cons m ms)
  obtain out sn ch where r: "drop_results (first_call_pos 0 (xs @ m # ms)) (Suc (length xs)) ms = (out, sn, ch)"
    by (cases "drop_results (first_call_pos 0 (xs @ m # ms)) (Suc (length xs)) ms") auto
  then have ih: "set (all_results out) = set (all_calls (xs @ [m])) \<inter> set (all_results ms) \<union> answered_ids ms"
    using Cons.IH [of "xs @ [m]" out sn ch] by auto
  have seen: "set sn = set (all_results out)" using drop_results_pairs [of "xs @ [m]" ms out sn ch] r by simp
  show ?case
  proof (cases m)
    case (UserMessage items)
    obtain kept sn' where k: "keep_items result_id_of
        (\<lambda>i. case first_call_pos 0 (xs @ m # ms) i of Some p \<Rightarrow> p < length xs | None \<Rightarrow> False) sn items = (kept, sn')"
      by force
    have live: "(case first_call_pos 0 (xs @ m # ms) i of Some p \<Rightarrow> p < length xs | None \<Rightarrow> False) = (i \<in> set (all_calls xs))" for i
      using first_call_pos_before [of 0 xs "m # ms" i] unfolding add_0 .
    note ids = keep_items_ids [OF k, unfolded live]
    have "set (all_results ms') = set (List.map_filter result_id_of kept) \<union> set (all_results out)"
      using Cons.prems r k UserMessage by (auto simp: List.map_filter_simps split: if_splits)
    then show ?thesis using ids ih seen UserMessage by auto
  next
    case (AssistantMessage mid items)
    then have "ms' = m # out" "result_ids_of m = []" using Cons.prems r by auto
    then show ?thesis using ih by (simp add: Int_Un_distrib2 Un_assoc del: set_concat)
  next
    case (SystemMessage s)
    then have "ms' = m # out" using Cons.prems r by auto
    then show ?thesis using ih SystemMessage by (simp del: set_concat)
  qed
qed simp

lemma answered_ids_pairs: "pairs_ok ms \<Longrightarrow> answered_ids ms = set (all_calls ms)"
proof -
  have "calls_later ms \<Longrightarrow> answered_ids ms = set (all_calls ms)" by (induction ms) auto
  then show "pairs_ok ms \<Longrightarrow> ?thesis" by (simp add: pairs_ok_rec)
qed

lemma answers_from_subset: "answers_from B ms \<Longrightarrow> set (all_results ms) \<subseteq> B \<union> set (all_calls ms)"
proof (induction ms arbitrary: B)
  case (Cons m ms)
  then have "set (all_results ms) \<subseteq> (B \<union> set (call_ids_of m)) \<union> set (all_calls ms)" by (simp del: set_concat)
  then show ?case using Cons.prems by (auto simp del: set_concat)
qed simp

lemma pairs_ok_same_ids: "pairs_ok ms \<Longrightarrow> set (all_calls ms) = set (all_results ms)"
  using answers_from_subset [of "{}" ms] calls_later_subset [of ms] by (auto simp: pairs_ok_rec)

lemma repair_keeps: "set (all_calls (fst (repair_tool_pairs ms))) = answered_ids ms"
proof -
  obtain ms1 s1 c1 where r1: "drop_results (first_call_pos 0 ms) 0 ms = (ms1, s1, c1)" by (metis prod_cases3)
  obtain ms2 s2 c2 where r2: "drop_calls (last_result_pos 0 ms1) 0 ms1 = (ms2, s2, c2)" by (metis prod_cases3)
  have "distinct (all_results ms1)" "set (all_results ms1) = answered_ids ms"
    using drop_results_pairs [of "[]" ms ms1 s1 c1] drop_results_keeps [of "[]" ms ms1 s1 c1] r1 by auto
  moreover from this have "all_results ms2 = all_results ms1" using drop_calls_pairs [of "[]" ms1 ms2 s2 c2] r2 by auto
  ultimately show ?thesis using pairs_ok_same_ids [OF repair_pairs_ok [of ms]] r1 r2 by (simp add: repair_tool_pairs_def)
qed

lemma merge_calls: "all_calls (fst (merge_adjacent_same_role ms)) = all_calls ms"
  using merge_from_ids [of "hd ms" "tl ms"] by (cases ms) (simp_all add: merge_adjacent_same_role_def)

lemma sweep_keeps: "set (all_calls (fst (sweep p ms))) = answered_ids ms"
proof -
  have "all_calls (cleaned p ns) = all_calls ns" for ns by (simp add: cleaned_def comp_def)
  then show ?thesis using repair_keeps [of ms] by (simp only: sweep_result merge_calls)
qed

lemma sweeps_keep: "set (all_calls (sweeps p (Suc n) ms)) = answered_ids ms"
proof (induction n arbitrary: ms)
  case 0
  have "sweeps p (Suc 0) ms = fst (sweep p ms)" by (simp add: Let_def split: prod.split)
  then show ?case using sweep_keeps [of p ms] by simp
next
  case (Suc n)
  have "answered_ids (fst (sweep p ms)) = set (all_calls (fst (sweep p ms)))"
    using sweep_nearly [of p ms] by (simp only: answered_ids_pairs nearly_settled_def)
  moreover have "sweeps p (Suc (Suc n)) ms = (if snd (sweep p ms) then sweeps p (Suc n) (fst (sweep p ms)) else fst (sweep p ms))"
    by (subst sweeps.simps) (simp add: Let_def split: prod.split del: sweeps.simps)
  ultimately show ?case using Suc.IH [of "fst (sweep p ms)"] sweep_keeps [of p ms] by simp
qed

lemma ensure_keeps: "all_calls (fst (ensure_user_text_message ms)) = all_calls ms"
proof -
  have "all_calls (takeWhile is_system ms) @ all_calls (dropWhile is_system ms) = all_calls ms"
    by (metis concat_append map_append takeWhile_dropWhile_id)
  then show ?thesis by (simp add: ensure_user_text_message_def)
qed

lemma sanitized_wire_valid: "wire_valid (sanitize_wire_messages p ms)"
proof -
  let ?s = "sweeps p FIXPOINT_PASSES ms"
  have s: "settled ?s" using sweeps_settle [of p 6 ms] by (simp add: FIXPOINT_PASSES_def eval_nat_numeral)
  show ?thesis
  proof (cases "list_ex has_plain_text ?s")
    case True
    then show ?thesis using s by (simp add: sanitize_wire_messages_def Let_def ensure_user_text_message_def wire_valid_def)
  next
    case False
    then show ?thesis using ensured_wire_valid [OF s False] by (simp add: sanitize_wire_messages_def Let_def ensure_user_text_message_def)
  qed
qed

text \<open>C32: Whatever history comes in, what leaves is one strict providers accept: every result answers a call of an
  earlier message and every call is answered by a later one, no id is used twice on either side; no text or
  result is empty, every argument is an object, no two neighbours of one role could be merged, and some user
  message has plain text. And of the calls only the unanswered ones are gone: exactly the ids that a later
  message answered are left.\<close>

theorem sanitized_is_wire_valid:
  "wire_valid (sanitize_wire_messages p ms) \<and> set (all_calls (sanitize_wire_messages p ms)) = answered_ids ms"
proof
  show "wire_valid (sanitize_wire_messages p ms)" by (rule sanitized_wire_valid)
  have "set (all_calls (sweeps p FIXPOINT_PASSES ms)) = answered_ids ms"
    using sweeps_keep [of p 7 ms] by (simp add: FIXPOINT_PASSES_def eval_nat_numeral del: sweeps.simps)
  moreover have "all_calls (sanitize_wire_messages p ms) = all_calls (fst (ensure_user_text_message (sweeps p FIXPOINT_PASSES ms)))"
    using merge_calls by (simp add: sanitize_wire_messages_def Let_def split: prod.split)
  ultimately show "set (all_calls (sanitize_wire_messages p ms)) = answered_ids ms" by (simp only: ensure_keeps)
qed

text \<open>C33: The sanitizer leaves a history alone exactly when it is one that strict providers accept, so a second
  run changes nothing; and its eight passes are more than enough: a further pass would change nothing either.\<close>

theorem valid_histories_unchanged:
  "(sanitize_wire_messages p ms = ms \<longleftrightarrow> wire_valid ms)
   \<and> sanitize_wire_messages p (sanitize_wire_messages p ms) = sanitize_wire_messages p ms
   \<and> sweep p (sweeps p FIXPOINT_PASSES ms) = (sweeps p FIXPOINT_PASSES ms, False)"
proof -
  have fixed: "sanitize_wire_messages p ns = ns" if "wire_valid ns" for ns
    using that by (simp add: sanitize_wire_messages_def wire_valid_def sweeps_settled ensure_user_text_message_def)
  have valid: "wire_valid (sanitize_wire_messages p ns)" for ns by (rule sanitized_wire_valid)
  have "settled (sweeps p FIXPOINT_PASSES ms)" using sweeps_settle [of p 6 ms] by (simp add: FIXPOINT_PASSES_def eval_nat_numeral)
  then show ?thesis using fixed valid [of ms] sweep_settled by metis
qed

subsection \<open>Duplicates in one message\<close>

text \<open>The walk goes backwards over the messages but forwards over the items of one, so of two results with one id in
  the same message the first is kept, and not the latest.\<close>

lemma duplicate_in_a_message_keeps_first:
  "let ms = [UserMessage [UserText ''go''], AssistantMessage None [ToolCallItem ''a'' ''ls'' (JObj [])],
             UserMessage [UserToolResult ''a'' [ResultText ''old''], UserToolResult ''a'' [ResultText ''new'']]]
   in sanitize_wire_messages p ms =
        [UserMessage [UserText ''go''], AssistantMessage None [ToolCallItem ''a'' ''ls'' (JObj [])],
         UserMessage [UserToolResult ''a'' [ResultText ''old'']]]"
  by code_simp

text \<open>A second pass can be needed: two blank system messages merge into a longer blank one.\<close>

lemma blank_systems_need_two_passes:
  "snd (sweep p (fst (sweep p [SystemMessage '' '', SystemMessage '' '', UserMessage [UserText ''go'']])))"
  by code_simp

end
