(* ===== verification/TeamInbox.thy ===== *)
theory TeamInbox
  imports Text_Lemmas Utf8
begin

section \<open>cli: the inboxes of a team\<close>

text \<open>
  The messages between the agents of a team: the inbox files and their owners
  (\<open>cli/src/tools/team/teammate_mailbox.rs\<close>), the scan a teammate makes of its inbox and what it applies of it
  before it answers (\<open>teammate_lifecycle.rs\<close>), and the leader's processing. The inboxes of one team are maps from
  the sanitized name; an operation holds its file lock from its read to its write, so it is one step. The parser
  of a protocol message is an argument, and the JSON text of an inbox is the list it stands for, or text that does
  not parse. Failures of the file system are left out, as are the time stamps of protocol messages, which nothing reads.
\<close>

subsection \<open>Messages\<close>

record teammate_message =
  msg_from :: str
  msg_text :: str
  msg_timestamp :: str
  msg_read :: bool
  msg_color :: "str option"
  msg_summary :: "str option"

datatype idle_reason = Available | Interrupted | FailedTurn

datatype protocol_message =
    ShutdownRequest str str "str option"
  | ShutdownApproved str str "str option"
  | ShutdownRejected str str str
  | IdleNotification str "idle_reason option" "str option" "str option" "str option"
  | TaskAssignment str str str str
  | PermissionRequest str str str str str
  | PermissionResponse str str "str option"
  | PlanApprovalRequest str str str
  | PlanApprovalResponse str bool "str option" "str option"
  | TeamPermissionUpdate str "str list" "str list"
  | ModeSetRequest str str
  | SandboxPermissionRequest str str str str str str
  | SandboxPermissionResponse str str "str option"

definition team_lead_name :: str where "team_lead_name = ''team-lead''"

definition is_structured_protocol_message :: "(str \<Rightarrow> protocol_message option) \<Rightarrow> str \<Rightarrow> bool" where
  "is_structured_protocol_message parse t \<longleftrightarrow> starts_with (trim t) ''{'' \<and> parse (trim t) \<noteq> None"

definition parse_structured_protocol :: "(str \<Rightarrow> protocol_message option) \<Rightarrow> str \<Rightarrow> protocol_message option" where
  "parse_structured_protocol parse t = parse (trim t)"

fun claimed_sender :: "protocol_message \<Rightarrow> str option" where
  "claimed_sender (ShutdownRequest request_id from_name reason) = Some from_name"
| "claimed_sender (ShutdownApproved request_id from_name backend) = Some from_name"
| "claimed_sender (ShutdownRejected request_id from_name reason) = Some from_name"
| "claimed_sender (IdleNotification from_name reason summary task_id task_status) = Some from_name"
| "claimed_sender (TaskAssignment task_id subject description assigned_by) = Some assigned_by"
| "claimed_sender (PermissionRequest request_id agent_id tool use_id description) = Some agent_id"
| "claimed_sender (PermissionResponse request_id subtype err) = None"
| "claimed_sender (PlanApprovalRequest from_name plan_file request_id) = Some from_name"
| "claimed_sender (PlanApprovalResponse request_id approved feedback mode) = None"
| "claimed_sender (TeamPermissionUpdate from_name allowed denied) = Some from_name"
| "claimed_sender (ModeSetRequest from_name mode) = Some from_name"
| "claimed_sender (SandboxPermissionRequest request_id agent_id tool use_id domain description) = Some agent_id"
| "claimed_sender (SandboxPermissionResponse request_id subtype err) = None"

definition parse_structured_protocol_from :: "(str \<Rightarrow> protocol_message option) \<Rightarrow> str \<Rightarrow> str \<Rightarrow> protocol_message option" where
  "parse_structured_protocol_from parse t envelope_from =
     (case parse_structured_protocol parse t of
        None \<Rightarrow> None
      | Some m \<Rightarrow>
          (case claimed_sender m of
             Some claimed \<Rightarrow> if claimed \<noteq> envelope_from then None else Some m
           | None \<Rightarrow> if envelope_from \<noteq> team_lead_name then None else Some m))"

subsection \<open>Inbox files\<close>

definition INBOX_RETENTION_LIMIT :: nat where "INBOX_RETENTION_LIMIT = 1000"

definition sanitize_name :: "str \<Rightarrow> str" where
  "sanitize_name name =
     map (\<lambda>ch. if length ch = 1 \<and> is_ascii_alphanumeric (hd ch) then lower_byte (hd ch) else CHR ''-'') (utf8_chars name)"

text \<open>A character that is not ASCII is one hyphen, so \<open>caf\<close> with an accented e shares a file with \<open>caf-\<close>.\<close>

lemma sanitize_name_by_characters:
  "sanitize_name (''Caf'' @ [CHR 0xC3, CHR 0xA9]) = ''caf-''" "sanitize_name ''Code_Reviewer 2'' = ''code-reviewer-2''"
  by code_simp+

datatype inbox_file = Stored "teammate_message list" | Unparsed str

record team_inboxes =
  inbox_files :: "str \<Rightarrow> inbox_file option"
  inbox_owners :: "str \<Rightarrow> str option"
  quarantined :: "(str \<times> str) list"

definition collision_error :: "str \<Rightarrow> str \<Rightarrow> str" where
  "collision_error agent existing =
     ''inbox name collision: agent '' @ [CHR 0x27] @ agent @ [CHR 0x27] @ '' and '' @ [CHR 0x27] @ existing @ [CHR 0x27]
       @ '' both sanitize to '' @ [CHR 0x27] @ sanitize_name agent @ [CHR 0x27] @ '' and would share one inbox; rename one of them''"

definition ensure_inbox_owner :: "str \<Rightarrow> bool \<Rightarrow> team_inboxes \<Rightarrow> str + team_inboxes" where
  "ensure_inbox_owner agent claim st =
     (let key = sanitize_name agent; claimed = st\<lparr>inbox_owners := (inbox_owners st)(key \<mapsto> agent @ [CHR 0x0A])\<rparr>
      in case inbox_owners st key of
           None \<Rightarrow> Inr (if claim then claimed else st)
         | Some existing \<Rightarrow>
             if trim existing = [] then Inr (if claim then claimed else st)
             else if trim existing \<noteq> agent then Inl (collision_error agent (trim existing))
             else Inr st)"

definition read_mailbox :: "str \<Rightarrow> team_inboxes \<Rightarrow> str + teammate_message list" where
  "read_mailbox agent st =
     (case ensure_inbox_owner agent False st of
        Inl e \<Rightarrow> Inl e
      | Inr _ \<Rightarrow>
          Inr (case inbox_files st (sanitize_name agent) of Some (Stored ms) \<Rightarrow> ms | Some (Unparsed t) \<Rightarrow> [] | None \<Rightarrow> []))"

definition read_unread_messages :: "str \<Rightarrow> team_inboxes \<Rightarrow> str + teammate_message list" where
  "read_unread_messages agent st =
     (case read_mailbox agent st of Inl e \<Rightarrow> Inl e | Inr ms \<Rightarrow> Inr (filter (\<lambda>m. \<not> msg_read m) ms))"

definition read_inbox_or_quarantine :: "str \<Rightarrow> team_inboxes \<Rightarrow> teammate_message list \<times> team_inboxes" where
  "read_inbox_or_quarantine key st =
     (case inbox_files st key of
        None \<Rightarrow> ([], st)
      | Some (Stored ms) \<Rightarrow> (ms, st)
      | Some (Unparsed t) \<Rightarrow>
          ([], st\<lparr>inbox_files := (inbox_files st)(key := None), quarantined := quarantined st @ [(key, t)]\<rparr>))"

definition write_inbox_atomic :: "str \<Rightarrow> teammate_message list \<Rightarrow> team_inboxes \<Rightarrow> team_inboxes" where
  "write_inbox_atomic key ms st = st\<lparr>inbox_files := (inbox_files st)(key \<mapsto> Stored ms)\<rparr>"

definition write_to_mailbox :: "str \<Rightarrow> teammate_message \<Rightarrow> team_inboxes \<Rightarrow> str + team_inboxes" where
  "write_to_mailbox recipient m st =
     (case ensure_inbox_owner recipient True st of
        Inl e \<Rightarrow> Inl e
      | Inr st1 \<Rightarrow>
          let (ms, st2) = read_inbox_or_quarantine (sanitize_name recipient) st1
          in Inr (write_inbox_atomic (sanitize_name recipient) (ms @ [m]) st2))"

definition mark_messages_as_read :: "str \<Rightarrow> team_inboxes \<Rightarrow> str + team_inboxes" where
  "mark_messages_as_read agent st =
     (case ensure_inbox_owner agent False st of
        Inl e \<Rightarrow> Inl e
      | Inr _ \<Rightarrow>
          (case inbox_files st (sanitize_name agent) of
             None \<Rightarrow> Inr st
           | Some _ \<Rightarrow>
               let (ms, st1) = read_inbox_or_quarantine (sanitize_name agent) st;
                   updated = map (\<lambda>m. m\<lparr>msg_read := True\<rparr>) ms
               in Inr (write_inbox_atomic (sanitize_name agent)
                    (drop (length updated - INBOX_RETENTION_LIMIT) updated) st1)))"

definition clear_mailbox :: "str \<Rightarrow> team_inboxes \<Rightarrow> str + team_inboxes" where
  "clear_mailbox agent st =
     (case ensure_inbox_owner agent False st of
        Inl e \<Rightarrow> Inl e
      | Inr _ \<Rightarrow>
          (case inbox_files st (sanitize_name agent) of
             None \<Rightarrow> Inr st
           | Some _ \<Rightarrow> Inr (write_inbox_atomic (sanitize_name agent) [] st)))"

subsection \<open>The scan of a teammate\<close>

record priority_inbox =
  shutdown_request :: "(str \<times> str \<times> str option) option"
  lead_messages :: "teammate_message list"
  peer_messages :: "teammate_message list"
  permission_responses :: "(str \<times> str \<times> str option) list"
  plan_approval_responses :: "(str \<times> bool \<times> str option \<times> str option) list"
  task_assignments :: "(str \<times> str \<times> str \<times> str) list"
  idle_notifications :: "(str \<times> idle_reason option \<times> str option \<times> str option \<times> str option) list"
  mode_set_requests :: "(str \<times> str) list"
  team_permission_updates :: "(str \<times> str list \<times> str list) list"
  other_protocol :: "protocol_message list"

definition empty_inbox :: priority_inbox where
  "empty_inbox =
     \<lparr>shutdown_request = None, lead_messages = [], peer_messages = [], permission_responses = [], plan_approval_responses = [],
      task_assignments = [], idle_notifications = [], mode_set_requests = [], team_permission_updates = [], other_protocol = []\<rparr>"

definition add_protocol :: "protocol_message \<Rightarrow> priority_inbox \<Rightarrow> priority_inbox" where
  "add_protocol p r =
     (case p of
        ShutdownRequest request_id from_name reason \<Rightarrow>
          (if shutdown_request r = None then r\<lparr>shutdown_request := Some (request_id, from_name, reason)\<rparr> else r)
      | PermissionResponse request_id subtype err \<Rightarrow>
          r\<lparr>permission_responses := permission_responses r @ [(request_id, subtype, err)]\<rparr>
      | PlanApprovalResponse request_id approved feedback mode \<Rightarrow>
          r\<lparr>plan_approval_responses := plan_approval_responses r @ [(request_id, approved, feedback, mode)]\<rparr>
      | TaskAssignment task_id subject description assigned_by \<Rightarrow>
          r\<lparr>task_assignments := task_assignments r @ [(task_id, subject, description, assigned_by)]\<rparr>
      | IdleNotification from_name reason summary task_id task_status \<Rightarrow>
          r\<lparr>idle_notifications := idle_notifications r @ [(from_name, reason, summary, task_id, task_status)]\<rparr>
      | ModeSetRequest from_name mode \<Rightarrow> r\<lparr>mode_set_requests := mode_set_requests r @ [(from_name, mode)]\<rparr>
      | TeamPermissionUpdate from_name allowed denied \<Rightarrow>
          r\<lparr>team_permission_updates := team_permission_updates r @ [(from_name, allowed, denied)]\<rparr>
      | _ \<Rightarrow> r\<lparr>other_protocol := other_protocol r @ [p]\<rparr>)"

definition add_message :: "(str \<Rightarrow> protocol_message option) \<Rightarrow> teammate_message \<Rightarrow> priority_inbox \<Rightarrow> priority_inbox" where
  "add_message parse m r =
     (if is_structured_protocol_message parse (msg_text m)
      then (case parse_structured_protocol_from parse (msg_text m) (msg_from m) of Some p \<Rightarrow> add_protocol p r | None \<Rightarrow> r)
      else if msg_from m = team_lead_name then r\<lparr>lead_messages := lead_messages r @ [m]\<rparr>
      else r\<lparr>peer_messages := peer_messages r @ [m]\<rparr>)"

definition sorted_inbox :: "(str \<Rightarrow> protocol_message option) \<Rightarrow> teammate_message list \<Rightarrow> priority_inbox" where
  "sorted_inbox parse ms = fold (add_message parse) ms empty_inbox"

text \<open>The read and the mark take the lock one after the other; \<open>meanwhile\<close> is what other processes do in between.\<close>

definition take_unread :: "str \<Rightarrow> (team_inboxes \<Rightarrow> team_inboxes) \<Rightarrow> team_inboxes \<Rightarrow> (str + teammate_message list) \<times> team_inboxes" where
  "take_unread agent meanwhile st =
     (case read_unread_messages agent st of
        Inl e \<Rightarrow> (Inl e, meanwhile st)
      | Inr unread \<Rightarrow>
          (case mark_messages_as_read agent (meanwhile st) of
             Inl e \<Rightarrow> (Inl e, meanwhile st)
           | Inr st' \<Rightarrow> (Inr unread, st')))"

definition scan_inbox_with_priority :: "(str \<Rightarrow> protocol_message option) \<Rightarrow> str \<Rightarrow> (team_inboxes \<Rightarrow> team_inboxes) \<Rightarrow> team_inboxes
    \<Rightarrow> (str + priority_inbox) \<times> team_inboxes" where
  "scan_inbox_with_priority parse agent meanwhile st =
     (case take_unread agent meanwhile st of
        (Inl e, st') \<Rightarrow> (Inl e, st')
      | (Inr unread, st') \<Rightarrow> (Inr (sorted_inbox parse unread), st'))"

definition process_inbox_messages :: "(str \<Rightarrow> protocol_message option) \<Rightarrow> str \<Rightarrow> (team_inboxes \<Rightarrow> team_inboxes) \<Rightarrow> team_inboxes
    \<Rightarrow> (str + protocol_message list \<times> teammate_message list) \<times> team_inboxes" where
  "process_inbox_messages parse agent meanwhile st =
     (case take_unread agent meanwhile st of
        (Inl e, st') \<Rightarrow> (Inl e, st')
      | (Inr unread, st') \<Rightarrow>
          (Inr (List.map_filter (\<lambda>m. if is_structured_protocol_message parse (msg_text m)
                                     then parse_structured_protocol_from parse (msg_text m) (msg_from m) else None) unread,
                filter (\<lambda>m. \<not> is_structured_protocol_message parse (msg_text m)) unread), st'))"

subsection \<open>What a teammate applies\<close>

datatype permission_decision = Allow | Deny "str option"

record teammate_runtime =
  permission_mode :: str
  allowed_tools :: "str list option"
  pending_requests :: "str list"
  resolved_requests :: "(str \<times> permission_decision) list"

text \<open>The registry: a pending id is resolved once.\<close>

definition resolve_request :: "str \<Rightarrow> permission_decision \<Rightarrow> teammate_runtime \<Rightarrow> teammate_runtime" where
  "resolve_request request_id decision rt =
     (if request_id \<in> set (pending_requests rt)
      then rt\<lparr>pending_requests := filter (\<lambda>r. r \<noteq> request_id) (pending_requests rt),
              resolved_requests := resolved_requests rt @ [(request_id, decision)]\<rparr>
      else rt)"

definition resolve_permission_responses :: "(str \<times> str \<times> str option) list \<Rightarrow> teammate_runtime \<Rightarrow> teammate_runtime" where
  "resolve_permission_responses responses rt =
     fold (\<lambda>(request_id, subtype, err).
       resolve_request request_id (if subtype = ''success'' \<or> subtype = ''allow'' then Allow else Deny err)) responses rt"

definition rejection_note :: "(str \<Rightarrow> str \<Rightarrow> teammate_message) \<Rightarrow> str \<times> bool \<times> str option \<times> str option \<Rightarrow> teammate_message option" where
  "rejection_note note r =
     (case r of (request_id, approved, feedback, mode) \<Rightarrow>
        if approved then None else map_option (note request_id) feedback)"

definition plan_rejection :: "str \<Rightarrow> str \<Rightarrow> str \<Rightarrow> teammate_message" where
  "plan_rejection now request_id feedback =
     \<lparr>msg_from = team_lead_name,
      msg_text = ''Your plan (request '' @ request_id @ '') was rejected by the lead: '' @ feedback,
      msg_timestamp = now, msg_read = True, msg_color = None, msg_summary = Some ''plan rejection feedback''\<rparr>"

definition apply_plan_response :: "str \<times> bool \<times> str option \<times> str option \<Rightarrow> teammate_runtime \<Rightarrow> teammate_runtime" where
  "apply_plan_response r rt =
     (case r of (request_id, approved, feedback, mode) \<Rightarrow>
        if approved then rt\<lparr>permission_mode := (case mode of Some m \<Rightarrow> m | None \<Rightarrow> ''auto'')\<rparr> else rt)"

definition apply_mode_set :: "str \<times> str \<Rightarrow> teammate_runtime \<Rightarrow> teammate_runtime" where
  "apply_mode_set r rt = (if fst r = team_lead_name then rt\<lparr>permission_mode := snd r\<rparr> else rt)"

definition push_new :: "str list \<Rightarrow> str \<Rightarrow> str list" where
  "push_new xs x = (if x \<in> set xs then xs else xs @ [x])"

definition apply_team_permission_update :: "str \<times> str list \<times> str list \<Rightarrow> str list option \<Rightarrow> str list option" where
  "apply_team_permission_update u tools =
     (case u of (from_name, allowed, denied) \<Rightarrow>
        if from_name \<noteq> team_lead_name then tools
        else if tools = None \<and> allowed = [] \<and> denied \<noteq> [] then tools
        else
          let base = (case tools of Some ts \<Rightarrow> ts | None \<Rightarrow> [])
          in Some (filter (\<lambda>t. t \<notin> set denied) (foldl push_new base allowed)))"

definition apply_team_permission_updates :: "(str \<times> str list \<times> str list) list \<Rightarrow> teammate_runtime \<Rightarrow> teammate_runtime" where
  "apply_team_permission_updates us rt = rt\<lparr>allowed_tools := fold apply_team_permission_update us (allowed_tools rt)\<rparr>"

datatype wait_result =
    ShutdownAsked "str \<times> str \<times> str option" priority_inbox
  | NewMessage priority_inbox
  | NothingNew

text \<open>One poll: what is applied of a scanned batch, and what the loop returns; with nothing new it looks for a task.\<close>

definition handle_inbox :: "str \<Rightarrow> priority_inbox \<Rightarrow> teammate_runtime \<Rightarrow> wait_result \<times> teammate_runtime" where
  "handle_inbox now inbox0 rt0 =
     (let rt1 = resolve_permission_responses (permission_responses inbox0) rt0;
          rt2 = fold apply_plan_response (plan_approval_responses inbox0) rt1;
          inbox = inbox0\<lparr>lead_messages := lead_messages inbox0
                    @ List.map_filter (rejection_note (plan_rejection now)) (plan_approval_responses inbox0)\<rparr>;
          rt3 = fold apply_mode_set (mode_set_requests inbox) rt2;
          rt4 = apply_team_permission_updates (team_permission_updates inbox) rt3
      in (case shutdown_request inbox of
            Some entry \<Rightarrow> ShutdownAsked entry inbox
          | None \<Rightarrow>
              if lead_messages inbox \<noteq> [] \<or> peer_messages inbox \<noteq> [] \<or> task_assignments inbox \<noteq> [] then NewMessage inbox
              else NothingNew, rt4))"

subsection \<open>Every message is read once\<close>

text \<open>A team at work: messages are sent, which are always unread, and inboxes are scanned.\<close>

datatype team_event = Send str teammate_message | Scan str

record team_run =
  boxes :: team_inboxes
  delivered :: "str \<Rightarrow> teammate_message list"
  received :: "str \<Rightarrow> teammate_message list"

definition no_inboxes :: team_run where
  "no_inboxes = \<lparr>boxes = \<lparr>inbox_files = (\<lambda>k. None), inbox_owners = (\<lambda>k. None), quarantined = []\<rparr>,
     delivered = (\<lambda>n. []), received = (\<lambda>n. [])\<rparr>"

fun team_step :: "team_event \<Rightarrow> team_run \<Rightarrow> team_run" where
  "team_step (Send n m) s =
     (let sent = m\<lparr>msg_read := False\<rparr>
      in case write_to_mailbox n sent (boxes s) of
           Inl e \<Rightarrow> s
         | Inr b \<Rightarrow> s\<lparr>boxes := b, delivered := (delivered s)(n := delivered s n @ [sent])\<rparr>)"
| "team_step (Scan n) s =
     (case take_unread n (\<lambda>b. b) (boxes s) of
        (Inl e, b) \<Rightarrow> s\<lparr>boxes := b\<rparr>
      | (Inr unread, b) \<Rightarrow> s\<lparr>boxes := b, received := (received s)(n := received s n @ unread)\<rparr>)"

text \<open>A name that its sidecar gives back: it is not empty and has no white space around it.\<close>

definition reads_back :: "str \<Rightarrow> bool" where
  "reads_back n \<longleftrightarrow> n \<noteq> [] \<and> trim (n @ [CHR 0x0A]) = n"

fun event_name :: "team_event \<Rightarrow> str" where
  "event_name (Send n m) = n"
| "event_name (Scan n) = n"

definition unread_of :: "team_inboxes \<Rightarrow> str \<Rightarrow> teammate_message list" where
  "unread_of b n = (case read_unread_messages n b of Inr ms \<Rightarrow> ms | Inl e \<Rightarrow> [])"

text \<open>Every inbox belongs to the one name in its sidecar.\<close>

definition owned :: "team_inboxes \<Rightarrow> bool" where
  "owned b \<longleftrightarrow>
     (\<forall>k. inbox_files b k \<noteq> None \<longrightarrow> inbox_owners b k \<noteq> None \<and> (\<exists>ms. inbox_files b k = Some (Stored ms)))
     \<and> (\<forall>k x. inbox_owners b k = Some x \<longrightarrow> (\<exists>n. reads_back n \<and> sanitize_name n = k \<and> x = n @ [CHR 0x0A]))"

lemma owner_check:
  assumes "owned b" and "reads_back n"
  shows "ensure_inbox_owner n claim b =
    (case inbox_owners b (sanitize_name n) of
       None \<Rightarrow> Inr (if claim then b\<lparr>inbox_owners := (inbox_owners b)(sanitize_name n \<mapsto> n @ [CHR 0x0A])\<rparr> else b)
     | Some x \<Rightarrow> if x = n @ [CHR 0x0A] then Inr b else Inl (collision_error n (trim x)))"
proof (cases "inbox_owners b (sanitize_name n)")
  case (Some x)
  then obtain o' where o: "reads_back o'" "x = o' @ [CHR 0x0A]" using assms(1) unfolding owned_def by blast
  then have "trim x = o'" "o' \<noteq> []" by (auto simp: reads_back_def)
  then show ?thesis using Some o(2) by (auto simp: ensure_inbox_owner_def Let_def)
qed (simp add: ensure_inbox_owner_def Let_def)

lemma unread_of_owned:
  assumes "owned b" and "reads_back n"
  shows "unread_of b n =
    (case inbox_files b (sanitize_name n) of
       Some (Stored ms) \<Rightarrow> if inbox_owners b (sanitize_name n) = Some (n @ [CHR 0x0A]) then filter (\<lambda>m. \<not> msg_read m) ms else []
     | _ \<Rightarrow> [])"
  using assms(1) unfolding unread_of_def read_unread_messages_def read_mailbox_def owner_check [OF assms]
  by (auto simp: owned_def split: option.splits inbox_file.splits)

definition run_ok :: "team_run \<Rightarrow> bool" where
  "run_ok s \<longleftrightarrow> owned (boxes s) \<and> (\<forall>n. reads_back n \<longrightarrow> received s n @ unread_of (boxes s) n = delivered s n)"

lemma write_owned:
  assumes "owned b" and "reads_back n" and "write_to_mailbox n m b = Inr b'"
  shows "owned b' \<and> (\<forall>k. reads_back k \<longrightarrow> unread_of b' k = (if k = n then unread_of b n @ filter (\<lambda>m. \<not> msg_read m) [m] else unread_of b k))"
proof -
  let ?k = "sanitize_name n"
  define ms where "ms = (case inbox_files b ?k of Some (Stored ms) \<Rightarrow> ms | _ \<Rightarrow> [])"
  have owner: "inbox_owners b ?k = None \<or> inbox_owners b ?k = Some (n @ [CHR 0x0A])"
    using assms(3) owner_check [OF assms(1,2), of True] by (auto simp: write_to_mailbox_def split: option.splits if_splits)
  have b': "b' = b\<lparr>inbox_owners := (inbox_owners b)(?k \<mapsto> n @ [CHR 0x0A]), inbox_files := (inbox_files b)(?k \<mapsto> Stored (ms @ [m]))\<rparr>"
    using assms(1,3) owner_check [OF assms(1,2), of True] owner unfolding ms_def
    by (auto simp: write_to_mailbox_def read_inbox_or_quarantine_def write_inbox_atomic_def owned_def fun_upd_idem
        split: option.splits inbox_file.splits if_splits)
  have ok: "owned b'" using assms(1,2) b' by (auto simp: owned_def)
  have "inbox_owners b ?k = None \<Longrightarrow> inbox_files b ?k = None" using assms(1) by (auto simp: owned_def)
  then show ?thesis using ok owner unread_of_owned [OF ok] unread_of_owned [OF assms(1)] assms(2) b'
    by (auto simp: ms_def split: option.splits inbox_file.splits)
qed

lemma take_unread_owned:
  assumes "owned b" and "reads_back n" and "take_unread n (\<lambda>b. b) b = (r, b')"
  shows "owned b' \<and> (\<forall>k. reads_back k \<longrightarrow> unread_of b' k = (if k = n then [] else unread_of b k))
    \<and> (case r of Inr unread \<Rightarrow> unread = unread_of b n | Inl e \<Rightarrow> unread_of b n = [])"
proof -
  let ?k = "sanitize_name n"
  note own = owner_check [OF assms(1,2), of False]
  have same: ?thesis if "b' = b" "unread_of b n = []" "case r of Inr unread \<Rightarrow> unread = [] | Inl e \<Rightarrow> True"
    using that assms(1) by (auto split: sum.splits)
  show ?thesis
  proof (cases "inbox_files b ?k")
    case None
    then have "b' = b" "case r of Inr unread \<Rightarrow> unread = [] | Inl e \<Rightarrow> True"
      using assms(3)
      by (cases "inbox_owners b ?k"; auto simp: own take_unread_def mark_messages_as_read_def read_unread_messages_def
          read_mailbox_def split: if_splits)+
    then show ?thesis using same None unread_of_owned [OF assms(1,2)] by simp
  next
    case (Some f)
    then obtain ms where ms: "inbox_files b ?k = Some (Stored ms)" using assms(1) unfolding owned_def by (metis option.discI)
    show ?thesis
    proof (cases "inbox_owners b ?k = Some (n @ [CHR 0x0A])")
      case False
      then have "ensure_inbox_owner n False b = Inl (collision_error n (trim (the (inbox_owners b ?k))))"
        using own ms assms(1) by (auto simp: owned_def split: option.splits)
      then have "b' = b" "case r of Inr unread \<Rightarrow> unread = [] | Inl e \<Rightarrow> True"
        using assms(3) by (auto simp: take_unread_def read_unread_messages_def read_mailbox_def)
      then show ?thesis using same False ms unread_of_owned [OF assms(1,2)] by simp
    next
      case True
      let ?marked = "map (\<lambda>m. m\<lparr>msg_read := True\<rparr>) ms"
      have run: "r = Inr (filter (\<lambda>m. \<not> msg_read m) ms)"
        "b' = b\<lparr>inbox_files := (inbox_files b)(?k \<mapsto> Stored (drop (length ?marked - INBOX_RETENTION_LIMIT) ?marked))\<rparr>"
        using assms(3) True ms
        by (simp_all add: own take_unread_def mark_messages_as_read_def read_unread_messages_def read_mailbox_def
            read_inbox_or_quarantine_def write_inbox_atomic_def)
      have none: "filter (\<lambda>m. \<not> msg_read m) (drop j ?marked) = []" for j
        by (auto simp: filter_empty_conv dest!: in_set_dropD)
      have ok: "owned b'" using assms(1) run(2) ms by (auto simp: owned_def)
      have here: "unread_of b n = filter (\<lambda>m. \<not> msg_read m) ms" using unread_of_owned [OF assms(1,2)] ms True by simp
      have "unread_of b' k = (if k = n then [] else unread_of b k)" if k: "reads_back k" for k
      proof (cases "sanitize_name k = ?k")
        case same_file: True
        then show ?thesis using unread_of_owned [OF ok k] unread_of_owned [OF assms(1) k] ms True none run(2)
          by (simp add: filter_empty_conv)
      next
        case False
        then have "k \<noteq> n" by auto
        moreover have "inbox_owners b' = inbox_owners b" using run(2) by simp
        ultimately show ?thesis unfolding unread_of_owned [OF ok k] unread_of_owned [OF assms(1) k] using False run(2) by (simp split: option.split inbox_file.split)
      qed
      then show ?thesis using ok here run(1) by simp
    qed
  qed
qed

lemma team_step_ok: "run_ok s \<Longrightarrow> reads_back (event_name e) \<Longrightarrow> run_ok (team_step e s)"
proof (cases e)
  case (Send n m)
  assume a: "run_ok s" "reads_back (event_name e)"
  then show ?thesis using Send write_owned [of "boxes s" n "m\<lparr>msg_read := False\<rparr>"]
    by (auto simp: run_ok_def Let_def split: sum.split)
next
  case (Scan n)
  assume a: "run_ok s" "reads_back (event_name e)"
  obtain r b where t: "take_unread n (\<lambda>b. b) (boxes s) = (r, b)" by force
  then show ?thesis using Scan a take_unread_owned [of "boxes s" n r b]
    by (auto simp: run_ok_def split: sum.splits)
qed

text \<open>C36: No message is lost, doubled or delivered to another. In every sequence of sends and scans by any number of
  agents, what an agent has received from its scans followed by what is unread in its inbox is what was delivered
  to its name, in order. That holds for names without white space around them, and when no message arrives
  between the read and the mark of a scan.\<close>

theorem messages_read_once:
  assumes "list_all (\<lambda>e. reads_back (event_name e)) es" and "reads_back n"
  shows "let s = fold team_step es no_inboxes in received s n @ unread_of (boxes s) n = delivered s n"
proof -
  have "run_ok s \<Longrightarrow> run_ok (fold team_step es s)" for s
    using assms(1) by (induction es arbitrary: s) (simp_all add: team_step_ok)
  moreover have "run_ok no_inboxes"
    by (simp add: run_ok_def no_inboxes_def owned_def unread_of_def read_unread_messages_def read_mailbox_def ensure_inbox_owner_def Let_def)
  ultimately show ?thesis using assms(2) by (simp add: run_ok_def Let_def)
qed

definition two_names :: "team_event list" where
  "two_names =
     (let m = \<lparr>msg_from = ''lead'', msg_text = ''hi'', msg_timestamp = [], msg_read = False, msg_color = None, msg_summary = None\<rparr>
      in [Send ''code reviewer'' m, Send ''code-reviewer'' m, Scan ''code-reviewer'', Scan ''code reviewer'', Send ''code reviewer'' m])"

lemma messages_read_once_witness:
  "let s = fold team_step two_names no_inboxes
   in length (delivered s ''code reviewer'') = 2 \<and> delivered s ''code-reviewer'' = []
      \<and> received s ''code reviewer'' @ unread_of (boxes s) ''code reviewer'' = delivered s ''code reviewer''"
proof -
  have "list_all (\<lambda>e. reads_back (event_name e)) two_names" "reads_back ''code reviewer''" by code_simp+
  note messages_read_once [OF this]
  moreover have "length (delivered (fold team_step two_names no_inboxes) ''code reviewer'') = 2"
    "delivered (fold team_step two_names no_inboxes) ''code-reviewer'' = []" by code_simp+
  ultimately show ?thesis by (simp add: Let_def)
qed

text \<open>Both provisos are needed. A message that arrives between the read and the mark is marked without having been
  read, and no later scan returns it.\<close>

definition sample_message :: "str \<Rightarrow> str \<Rightarrow> teammate_message" where
  "sample_message from_name t =
     \<lparr>msg_from = from_name, msg_text = t, msg_timestamp = [], msg_read = False, msg_color = None, msg_summary = None\<rparr>"

definition deliver :: "str \<Rightarrow> teammate_message \<Rightarrow> team_inboxes \<Rightarrow> team_inboxes" where
  "deliver n m b = (case write_to_mailbox n m b of Inr b' \<Rightarrow> b' | Inl e \<Rightarrow> b)"

lemma message_between_read_and_mark_is_lost:
  "let (r, b) = take_unread ''ann'' (deliver ''ann'' (sample_message ''bob'' ''stop'')) (boxes no_inboxes)
   in r = Inr [] \<and> unread_of b ''ann'' = [] \<and> inbox_files b ''ann'' \<noteq> None"
  by code_simp

text \<open>A name with a space before it is refused its own inbox: the sidecar is trimmed before it is compared.\<close>

lemma padded_name_collides_with_itself:
  "(case write_to_mailbox '' ann'' (sample_message ''bob'' ''one'') (boxes no_inboxes) of
      Inr b \<Rightarrow> (case write_to_mailbox '' ann'' (sample_message ''bob'' ''two'') b of Inl e \<Rightarrow> True | Inr b' \<Rightarrow> False)
    | Inl e \<Rightarrow> False)"
  by code_simp

subsection \<open>Directives come from the lead\<close>

definition accepted :: "(str \<Rightarrow> protocol_message option) \<Rightarrow> teammate_message \<Rightarrow> protocol_message option" where
  "accepted parse m =
     (if is_structured_protocol_message parse (msg_text m)
      then parse_structured_protocol_from parse (msg_text m) (msg_from m) else None)"

lemma accepted_sender:
  "accepted parse m = Some p \<Longrightarrow>
   case claimed_sender p of Some claimed \<Rightarrow> claimed = msg_from m | None \<Rightarrow> msg_from m = team_lead_name"
  by (auto simp: accepted_def parse_structured_protocol_from_def split: if_splits option.splits)

text \<open>The entries one message adds to the lists of the scan.\<close>

fun permission_entries :: "protocol_message option \<Rightarrow> (str \<times> str \<times> str option) list" where
  "permission_entries (Some (PermissionResponse i t e)) = [(i, t, e)]"
| "permission_entries _ = []"

fun plan_entries :: "protocol_message option \<Rightarrow> (str \<times> bool \<times> str option \<times> str option) list" where
  "plan_entries (Some (PlanApprovalResponse i a f m)) = [(i, a, f, m)]"
| "plan_entries _ = []"

fun mode_entries :: "protocol_message option \<Rightarrow> (str \<times> str) list" where
  "mode_entries (Some (ModeSetRequest f m)) = [(f, m)]"
| "mode_entries _ = []"

fun update_entries :: "protocol_message option \<Rightarrow> (str \<times> str list \<times> str list) list" where
  "update_entries (Some (TeamPermissionUpdate f a d)) = [(f, a, d)]"
| "update_entries _ = []"

lemma add_message_entries:
  "permission_responses (add_message parse m r) = permission_responses r @ permission_entries (accepted parse m)"
  "plan_approval_responses (add_message parse m r) = plan_approval_responses r @ plan_entries (accepted parse m)"
  "mode_set_requests (add_message parse m r) = mode_set_requests r @ mode_entries (accepted parse m)"
  "team_permission_updates (add_message parse m r) = team_permission_updates r @ update_entries (accepted parse m)"
  unfolding add_message_def accepted_def
  by (cases "parse_structured_protocol_from parse (msg_text m) (msg_from m)";
      auto simp: add_protocol_def split: protocol_message.splits)+

lemma sorted_inbox_entries:
  "permission_responses (sorted_inbox parse ms) = concat (map (permission_entries \<circ> accepted parse) ms)"
  "plan_approval_responses (sorted_inbox parse ms) = concat (map (plan_entries \<circ> accepted parse) ms)"
  "mode_set_requests (sorted_inbox parse ms) = concat (map (mode_entries \<circ> accepted parse) ms)"
  "team_permission_updates (sorted_inbox parse ms) = concat (map (update_entries \<circ> accepted parse) ms)"
proof -
  have
    "permission_responses (fold (add_message parse) ms r) = permission_responses r @ concat (map (permission_entries \<circ> accepted parse) ms)"
    "plan_approval_responses (fold (add_message parse) ms r) = plan_approval_responses r @ concat (map (plan_entries \<circ> accepted parse) ms)"
    "mode_set_requests (fold (add_message parse) ms r) = mode_set_requests r @ concat (map (mode_entries \<circ> accepted parse) ms)"
    "team_permission_updates (fold (add_message parse) ms r) = team_permission_updates r @ concat (map (update_entries \<circ> accepted parse) ms)"
    for r by (induction ms arbitrary: r) (simp_all add: add_message_entries)
  then show
    "permission_responses (sorted_inbox parse ms) = concat (map (permission_entries \<circ> accepted parse) ms)"
    "plan_approval_responses (sorted_inbox parse ms) = concat (map (plan_entries \<circ> accepted parse) ms)"
    "mode_set_requests (sorted_inbox parse ms) = concat (map (mode_entries \<circ> accepted parse) ms)"
    "team_permission_updates (sorted_inbox parse ms) = concat (map (update_entries \<circ> accepted parse) ms)"
    by (simp_all add: sorted_inbox_def empty_inbox_def)
qed

lemma other_senders:
  assumes "msg_from m \<noteq> team_lead_name"
  shows "permission_entries (accepted parse m) = []" and "plan_entries (accepted parse m) = []"
    and "fold apply_mode_set (mode_entries (accepted parse m)) rt = rt"
    and "fold apply_team_permission_update (update_entries (accepted parse m)) ts = ts"
proof -
  have sender: "claimed_sender p = Some (msg_from m)" if "accepted parse m = Some p" for p
    using accepted_sender [OF that] assms by (auto split: option.splits)
  have "permission_entries (accepted parse m) = [] \<and> plan_entries (accepted parse m) = []
    \<and> fold apply_mode_set (mode_entries (accepted parse m)) rt = rt
    \<and> fold apply_team_permission_update (update_entries (accepted parse m)) ts = ts"
  proof (cases "accepted parse m")
    case (Some p)
    then show ?thesis using sender [OF Some] assms
      by (cases p) (simp_all add: apply_mode_set_def apply_team_permission_update_def)
  qed simp
  then show "permission_entries (accepted parse m) = []" "plan_entries (accepted parse m) = []"
    "fold apply_mode_set (mode_entries (accepted parse m)) rt = rt"
    "fold apply_team_permission_update (update_entries (accepted parse m)) ts = ts" by blast+
qed

abbreviation from_lead :: "teammate_message list \<Rightarrow> teammate_message list" where
  "from_lead ms \<equiv> filter (\<lambda>m. msg_from m = team_lead_name) ms"

lemma lead_entries:
  "concat (map (permission_entries \<circ> accepted parse) (from_lead ms)) = concat (map (permission_entries \<circ> accepted parse) ms)"
  "concat (map (plan_entries \<circ> accepted parse) (from_lead ms)) = concat (map (plan_entries \<circ> accepted parse) ms)"
  "fold apply_mode_set (concat (map (mode_entries \<circ> accepted parse) (from_lead ms))) rt
    = fold apply_mode_set (concat (map (mode_entries \<circ> accepted parse) ms)) rt"
  "fold apply_team_permission_update (concat (map (update_entries \<circ> accepted parse) (from_lead ms))) ts
    = fold apply_team_permission_update (concat (map (update_entries \<circ> accepted parse) ms)) ts"
proof -
  show "concat (map (permission_entries \<circ> accepted parse) (from_lead ms)) = concat (map (permission_entries \<circ> accepted parse) ms)"
    "concat (map (plan_entries \<circ> accepted parse) (from_lead ms)) = concat (map (plan_entries \<circ> accepted parse) ms)"
    by (induction ms) (simp_all add: other_senders)
  show "fold apply_mode_set (concat (map (mode_entries \<circ> accepted parse) (from_lead ms))) rt
    = fold apply_mode_set (concat (map (mode_entries \<circ> accepted parse) ms)) rt"
    by (induction ms arbitrary: rt) (simp_all add: other_senders)
  show "fold apply_team_permission_update (concat (map (update_entries \<circ> accepted parse) (from_lead ms))) ts
    = fold apply_team_permission_update (concat (map (update_entries \<circ> accepted parse) ms)) ts"
    by (induction ms arbitrary: ts) (simp_all add: other_senders)
qed

text \<open>C37: A teammate's permissions answer to the lead's envelope alone. Whatever a batch of messages holds, the mode, the tools
  and the permission requests of the teammate end as if only the messages whose envelope names the lead had come.\<close>

theorem only_lead_envelopes_direct:
  "snd (handle_inbox now (sorted_inbox parse unread) rt) = snd (handle_inbox now (sorted_inbox parse (from_lead unread)) rt)"
  by (simp add: handle_inbox_def Let_def apply_team_permission_updates_def sorted_inbox_entries lead_entries)

text \<open>
  The envelope is what the sender wrote, not proof of who it is, as the mailbox says of itself: a peer that puts the
  lead's name in the envelope and in the payload is obeyed, and one that puts it in the payload alone is not.
\<close>

lemma forged_envelope_is_obeyed:
  "let parse = (\<lambda>t. if t = ''{1}'' then Some (ModeSetRequest ''team-lead'' ''yolo'') else None)
   in permission_mode (snd (handle_inbox [] (sorted_inbox parse [sample_message ''team-lead'' ''{1}'']) rt)) = ''yolo''
      \<and> permission_mode (snd (handle_inbox [] (sorted_inbox parse [sample_message ''bob'' ''{1}'']) rt)) = permission_mode rt"
proof -
  have "trim ''{1}'' = ''{1}''" by code_simp
  then show ?thesis
    by (simp add: Let_def sorted_inbox_def add_message_def is_structured_protocol_message_def sample_message_def
        parse_structured_protocol_from_def parse_structured_protocol_def add_protocol_def empty_inbox_def handle_inbox_def
        team_lead_name_def resolve_permission_responses_def apply_mode_set_def apply_team_permission_updates_def)
qed

text \<open>A shutdown is not one of them: a request that names a peer and comes from that peer is obeyed like the lead's.\<close>

lemma peer_can_ask_for_shutdown:
  "let parse = (\<lambda>t. if t = ''{1}'' then Some (ShutdownRequest ''r1'' ''bob'' None) else None);
       inbox = sorted_inbox parse [sample_message ''bob'' ''{1}'']
   in \<exists>rest. fst (handle_inbox [] inbox rt) = ShutdownAsked (''r1'', ''bob'', None) rest"
proof -
  have "trim ''{1}'' = ''{1}''" by code_simp
  then show ?thesis
    by (simp add: Let_def sorted_inbox_def add_message_def is_structured_protocol_message_def sample_message_def
        parse_structured_protocol_from_def parse_structured_protocol_def add_protocol_def empty_inbox_def handle_inbox_def)
qed

text \<open>An update that grants a tool to a teammate with every tool leaves it that tool only.\<close>

lemma grant_restricts_an_unrestricted_teammate:
  "apply_team_permission_update (team_lead_name, [''web_search''], []) None = Some [''web_search'']"
  by code_simp

end
