(* ===== verification/TeamLoop.thy ===== *)
theory TeamLoop
  imports TaskV2 TeamInbox
begin

section \<open>cli: the loop of a teammate\<close>

text \<open>
  What a teammate does with its inbox and the task list of its team
  (\<open>cli/src/tools/team/teammate_lifecycle.rs\<close>): the claim of a task, one poll, the run of a prompt with the
  report to the lead, the answer to a shutdown request, and the loop that puts them together; and what stopping a
  teammate does to its tasks (\<open>cli/src/tools/tasks.rs\<close>). The run of a prompt by a sub-agent is an argument: it
  yields an outcome and changes the world, which is the task list and the inboxes. So are the parser and the printer
  of protocol messages, and what others do between two steps. A poll is one entry of a list, so the loop is a
  recursion over the polls that have taken place; it has no result while it is still running. Failures of the file system and
  the log are left out.
\<close>

subsection \<open>Claiming a task\<close>

text \<open>The tasks are listed first; \<open>meanwhile\<close> is what other processes do before the first claim.\<close>

definition unresolved_ids :: "task_v2_record list \<Rightarrow> str list" where
  "unresolved_ids tasks = map task_id (filter (\<lambda>t. task_status t \<noteq> Completed) tasks)"

definition claimable :: "str list \<Rightarrow> task_v2_record \<Rightarrow> bool" where
  "claimable unresolved t \<longleftrightarrow>
     task_status t = Pending \<and> owner t = None \<and> list_all (\<lambda>b. b \<notin> set unresolved) (blocked_by t)"

definition with_status :: "task_v2_status \<Rightarrow> json option \<Rightarrow> task_update" where
  "with_status s merge =
     \<lparr>up_status = Some s, up_owner = None, up_subject = None, up_description = None, up_active_form = None,
      up_metadata_merge = merge, up_add_blocks = None, up_add_blocked_by = None\<rparr>"

fun claim_loop :: "int \<Rightarrow> str \<Rightarrow> str list \<Rightarrow> task_v2_record list \<Rightarrow> task_dir \<Rightarrow> task_v2_record option \<times> task_dir" where
  "claim_loop now agent unresolved [] d = (None, d)"
| "claim_loop now agent unresolved (t # ts) d =
     (if \<not> claimable unresolved t then claim_loop now agent unresolved ts d
      else case claim_task d (task_id t) agent of
             (Inl e, d1) \<Rightarrow> claim_loop now agent unresolved ts d1
           | (Inr claimed, d1) \<Rightarrow>
               (case update_task now d1 (task_id t) (with_status InProgress None) of
                  (Inl e, d2) \<Rightarrow> claim_loop now agent unresolved ts (snd (release_task d2 (task_id t)))
                | (Inr r, d2) \<Rightarrow> (Some claimed, d2)))"

definition claim_next_task :: "int \<Rightarrow> str \<Rightarrow> (task_dir \<Rightarrow> task_dir) \<Rightarrow> task_dir \<Rightarrow> task_v2_record option \<times> task_dir" where
  "claim_next_task now agent meanwhile d =
     (let tasks = list_tasks d in claim_loop now agent (unresolved_ids tasks) tasks (meanwhile d))"

subsection \<open>The end of a claimed task\<close>

definition record_task_error :: "int \<Rightarrow> str \<Rightarrow> str \<Rightarrow> task_dir \<Rightarrow> task_dir" where
  "record_task_error now i err d =
     (case update_task now d i (with_status Pending (Some (JObj [(''last_teammate_error'', JStr err)]))) of
        (Inl e, d1) \<Rightarrow> d1
      | (Inr r, d1) \<Rightarrow> snd (release_task d1 i))"

definition mark_task_completed :: "int \<Rightarrow> (task_error \<Rightarrow> str) \<Rightarrow> str \<Rightarrow> str option \<Rightarrow> task_dir \<Rightarrow> task_dir" where
  "mark_task_completed now show_error i summary d =
     (case update_task now d i
             (with_status Completed (map_option (\<lambda>s. JObj [(''teammate_summary'', JStr s)]) summary)) of
        (Inl e, d1) \<Rightarrow> record_task_error now i (''mark completed failed: '' @ show_error e) d1
      | (Inr r, d1) \<Rightarrow> d1)"

subsection \<open>Messages to the lead\<close>

datatype teammate_state =
  Initializing | Active | Idle | ShutdownPending | ShutdownApprovedState | ShutdownRejectedState | Terminated

record team_world =
  w_tasks :: task_dir
  w_boxes :: team_inboxes

definition protocol_letter :: "(protocol_message \<Rightarrow> str) \<Rightarrow> str \<Rightarrow> str \<Rightarrow> str \<Rightarrow> protocol_message \<Rightarrow> teammate_message" where
  "protocol_letter to_text now agent subject_line p =
     \<lparr>msg_from = agent, msg_text = to_text p, msg_timestamp = now, msg_read = False, msg_color = None,
      msg_summary = Some subject_line\<rparr>"

definition send_idle_notification :: "(protocol_message \<Rightarrow> str) \<Rightarrow> str \<Rightarrow> str \<Rightarrow> str option \<Rightarrow> str option \<Rightarrow> team_inboxes
    \<Rightarrow> str + team_inboxes" where
  "send_idle_notification to_text now agent summary completed b =
     write_to_mailbox team_lead_name
       (protocol_letter to_text now agent ''idle notification'' (IdleNotification agent (Some Available) summary completed None)) b"

text \<open>The report after a prompt ignores a delivery that fails.\<close>

definition report_idle :: "(protocol_message \<Rightarrow> str) \<Rightarrow> str \<Rightarrow> str \<Rightarrow> str option \<Rightarrow> str option \<Rightarrow> team_world \<Rightarrow> team_world" where
  "report_idle to_text now agent summary completed w =
     (case send_idle_notification to_text now agent summary completed (w_boxes w) of
        Inl e \<Rightarrow> w
      | Inr b \<Rightarrow> w\<lparr>w_boxes := b\<rparr>)"

definition owns_in_progress :: "str \<Rightarrow> task_dir \<Rightarrow> bool" where
  "owns_in_progress agent d = list_ex (\<lambda>t. owner t = Some agent \<and> task_status t = InProgress) (list_tasks d)"

definition handle_shutdown_request :: "(protocol_message \<Rightarrow> str) \<Rightarrow> str \<Rightarrow> str \<Rightarrow> str \<Rightarrow> team_world
    \<Rightarrow> (str + teammate_state) \<times> team_world" where
  "handle_shutdown_request to_text now request_id agent w =
     (let approved = \<not> owns_in_progress agent (w_tasks w);
          p = (if approved then ShutdownApproved request_id agent None
               else ShutdownRejected request_id agent ''Still has pending work'');
          m = protocol_letter to_text now agent (if approved then ''shutdown approved'' else ''shutdown rejected'') p
      in case write_to_mailbox team_lead_name m (w_boxes w) of
           Inl e \<Rightarrow> (Inl e, w)
         | Inr b \<Rightarrow> (Inr (if approved then ShutdownApprovedState else ShutdownRejectedState), w\<lparr>w_boxes := b\<rparr>))"

subsection \<open>Prompts\<close>

definition format_prompt_from_inbox :: "priority_inbox \<Rightarrow> str" where
  "format_prompt_from_inbox inbox =
     join [CHR 0x0A, CHR 0x0A]
       (map (\<lambda>(i, s, text, assigned_by). ''New task assigned: '' @ s @ [CHR 0x0A, CHR 0x0A] @ text) (task_assignments inbox)
        @ map (\<lambda>m. ''Message from '' @ msg_from m @ '': '' @ msg_text m) (lead_messages inbox)
        @ map (\<lambda>m. ''Message from '' @ msg_from m @ '': '' @ msg_text m) (peer_messages inbox))"

definition task_prompt :: "task_v2_record \<Rightarrow> str" where
  "task_prompt t =
     ''Complete all open tasks. Start with task #'' @ task_id t @ '':'' @ [CHR 0x0A, CHR 0x0A] @ subject t
       @ [CHR 0x0A, CHR 0x0A] @ description t"

record teammate =
  agent_name :: str
  agent_type :: str
  agent_model :: "str option"
  initial_prompt :: str

record prompt_input =
  in_prompt :: str
  in_agent_type :: str
  in_name :: str
  in_model :: "str option"
  in_allowed_tools :: "str list option"

datatype tool_outcome = ToolError str | ToolResult bool str | PromptCancelled

definition execute_teammate_prompt :: "teammate \<Rightarrow> teammate_runtime \<Rightarrow> (prompt_input \<Rightarrow> team_world \<Rightarrow> tool_outcome \<times> team_world)
    \<Rightarrow> str \<Rightarrow> team_world \<Rightarrow> (str + str option) \<times> team_world" where
  "execute_teammate_prompt me rt tool prompt w =
     (case tool \<lparr>in_prompt = prompt, in_agent_type = agent_type me, in_name = agent_name me, in_model = agent_model me,
                 in_allowed_tools = allowed_tools rt\<rparr> w of
        (ToolError e, w1) \<Rightarrow> (Inl e, w1)
      | (PromptCancelled, w1) \<Rightarrow> (Inl ''teammate cancelled during prompt execution'', w1)
      | (ToolResult success text, w1) \<Rightarrow> (if success then Inr (Some text) else Inl text, w1))"

subsection \<open>One poll\<close>

text \<open>What is not the teammate's own doing: the clocks, the cancellation, what others do before the scan, between its two
  steps and before the claim, and the run of the prompt.\<close>

record poll =
  cancelled :: bool
  clock :: int
  clock_text :: str
  others_before :: "team_world \<Rightarrow> team_world"
  others_in_scan :: "team_inboxes \<Rightarrow> team_inboxes"
  others_in_claim :: "task_dir \<Rightarrow> task_dir"
  tool_run :: "prompt_input \<Rightarrow> team_world \<Rightarrow> tool_outcome \<times> team_world"

record loop_state =
  l_runtime :: teammate_runtime
  l_world :: team_world
  l_summary :: "str option"

datatype poll_result = Aborted | Inbox wait_result | TaskClaimed task_v2_record

text \<open>A poll that fails or finds nothing is followed by the next one.\<close>

definition poll_once :: "(str \<Rightarrow> protocol_message option) \<Rightarrow> teammate \<Rightarrow> poll \<Rightarrow> loop_state \<Rightarrow> poll_result \<times> loop_state" where
  "poll_once parse me p st =
     (let w = others_before p (l_world st)
      in if cancelled p then (Aborted, st\<lparr>l_world := w\<rparr>)
         else case scan_inbox_with_priority parse (agent_name me) (others_in_scan p) (w_boxes w) of
                (Inl e, b) \<Rightarrow> (Inbox NothingNew, st\<lparr>l_world := w\<lparr>w_boxes := b\<rparr>\<rparr>)
              | (Inr inbox, b) \<Rightarrow>
                  (case handle_inbox (clock_text p) inbox (l_runtime st) of
                     (NothingNew, rt) \<Rightarrow>
                       (case claim_next_task (clock p) (agent_name me) (others_in_claim p) (w_tasks w) of
                          (None, d) \<Rightarrow>
                            (Inbox NothingNew, st\<lparr>l_runtime := rt, l_world := w\<lparr>w_boxes := b, w_tasks := d\<rparr>\<rparr>)
                        | (Some t, d) \<Rightarrow>
                            (TaskClaimed t, st\<lparr>l_runtime := rt, l_world := w\<lparr>w_boxes := b, w_tasks := d\<rparr>\<rparr>))
                   | (r, rt) \<Rightarrow> (Inbox r, st\<lparr>l_runtime := rt, l_world := w\<lparr>w_boxes := b\<rparr>\<rparr>)))"

subsection \<open>One turn\<close>

definition on_tasks :: "(task_dir \<Rightarrow> task_dir) \<Rightarrow> team_world \<Rightarrow> team_world" where
  "on_tasks f w = w\<lparr>w_tasks := f (w_tasks w)\<rparr>"

definition run_and_report :: "(protocol_message \<Rightarrow> str) \<Rightarrow> teammate \<Rightarrow> poll \<Rightarrow> (str + str option \<Rightarrow> task_dir \<Rightarrow> task_dir)
    \<Rightarrow> str \<Rightarrow> str \<Rightarrow> str option \<Rightarrow> str \<Rightarrow> loop_state \<Rightarrow> loop_state" where
  "run_and_report to_text me p settle finished failed completed prompt st =
     (let (r, w1) = execute_teammate_prompt me (l_runtime st) (tool_run p) prompt (l_world st);
          summary = (case r of Inr s \<Rightarrow> s | Inl e \<Rightarrow> Some (failed @ '': '' @ e));
          reported = (case r of Inr s \<Rightarrow> (case s of Some x \<Rightarrow> s | None \<Rightarrow> Some finished) | Inl e \<Rightarrow> summary)
      in st\<lparr>l_summary := summary,
            l_world := report_idle to_text (clock_text p) (agent_name me) reported completed (on_tasks (settle r) w1)\<rparr>)"

definition settle_task :: "int \<Rightarrow> (task_error \<Rightarrow> str) \<Rightarrow> str \<Rightarrow> str + str option \<Rightarrow> task_dir \<Rightarrow> task_dir" where
  "settle_task now show_error i r =
     (case r of Inr s \<Rightarrow> mark_task_completed now show_error i s | Inl e \<Rightarrow> record_task_error now i e)"

definition teammate_turn :: "(protocol_message \<Rightarrow> str) \<Rightarrow> (task_error \<Rightarrow> str) \<Rightarrow> teammate \<Rightarrow> poll \<Rightarrow> poll_result \<Rightarrow> loop_state
    \<Rightarrow> teammate_state option \<times> loop_state" where
  "teammate_turn to_text show_error me p result st =
     (let keep = (\<lambda>r d. d)
      in case result of
           Aborted \<Rightarrow> (Some Terminated, st)
         | Inbox NothingNew \<Rightarrow> (None, st)
         | Inbox (ShutdownAsked entry inbox) \<Rightarrow>
             (let prompt = format_prompt_from_inbox inbox;
                  st1 = (if prompt = [] then st
                         else run_and_report to_text me p keep ''messages handled'' ''message handling failed'' None prompt st);
                  (answer, w) = handle_shutdown_request to_text (clock_text p) (fst entry) (agent_name me) (l_world st1)
              in if answer = Inr ShutdownApprovedState
                 then (Some ShutdownApprovedState,
                       st1\<lparr>l_world := on_tasks (\<lambda>d. snd (unassign_teammate_tasks d (agent_name me))) w\<rparr>)
                 else (None, st1\<lparr>l_world := w\<rparr>))
         | Inbox (NewMessage inbox) \<Rightarrow>
             (let prompt = format_prompt_from_inbox inbox
              in (None, if prompt = [] then st
                        else run_and_report to_text me p keep ''message handled'' ''message handling failed'' None prompt st))
         | TaskClaimed t \<Rightarrow>
             (None, run_and_report to_text me p (settle_task (clock p) show_error (task_id t)) ''task complete'' ''task failed''
                      (Some (task_id t)) (task_prompt t) st))"

subsection \<open>The loop\<close>

fun teammate_loop :: "(str \<Rightarrow> protocol_message option) \<Rightarrow> (protocol_message \<Rightarrow> str) \<Rightarrow> (task_error \<Rightarrow> str) \<Rightarrow> teammate \<Rightarrow> poll list
    \<Rightarrow> loop_state \<Rightarrow> teammate_state option \<times> loop_state" where
  "teammate_loop parse to_text show_error me [] st = (None, st)"
| "teammate_loop parse to_text show_error me (p # ps) st =
     (case poll_once parse me p st of (result, st1) \<Rightarrow>
        (case teammate_turn to_text show_error me p result st1 of
           (Some final, st2) \<Rightarrow> (Some final, st2)
         | (None, st2) \<Rightarrow> teammate_loop parse to_text show_error me ps st2))"

definition run_teammate_loop :: "(str \<Rightarrow> protocol_message option) \<Rightarrow> (protocol_message \<Rightarrow> str) \<Rightarrow> (task_error \<Rightarrow> str) \<Rightarrow> teammate
    \<Rightarrow> poll \<Rightarrow> poll list \<Rightarrow> teammate_runtime \<Rightarrow> team_world \<Rightarrow> teammate_state option \<times> loop_state" where
  "run_teammate_loop parse to_text show_error me start ps rt w =
     (let st = \<lparr>l_runtime = rt, l_world = w, l_summary = None\<rparr>;
          st1 = (if trim (initial_prompt me) \<noteq> [] \<and> \<not> cancelled start
                 then run_and_report to_text me start (\<lambda>r d. d) ''initial prompt complete'' ''initial prompt failed'' None
                        (initial_prompt me) st
                 else st)
      in teammate_loop parse to_text show_error me ps st1)"

subsection \<open>The leader's poll\<close>

definition protocol_line :: "protocol_message \<Rightarrow> str" where
  "protocol_line p =
     (case p of
        IdleNotification from_name reason summary task status \<Rightarrow>
          ''Teammate '' @ from_name @ '' is idle. '' @ (case summary of Some s \<Rightarrow> s | None \<Rightarrow> [])
      | ShutdownApproved request_id from_name backend \<Rightarrow> ''Teammate '' @ from_name @ '' approved shutdown.''
      | ShutdownRejected request_id from_name reason \<Rightarrow> ''Teammate '' @ from_name @ '' rejected shutdown: '' @ reason
      | _ \<Rightarrow> ''Protocol message from teammate'')"

definition poll_leader_inbox :: "(str \<Rightarrow> protocol_message option) \<Rightarrow> (team_inboxes \<Rightarrow> team_inboxes) \<Rightarrow> team_inboxes
    \<Rightarrow> (str + str list) \<times> team_inboxes" where
  "poll_leader_inbox parse meanwhile b =
     (case process_inbox_messages parse team_lead_name meanwhile b of
        (Inl e, b1) \<Rightarrow> (Inl e, b1)
      | (Inr (ps, ms), b1) \<Rightarrow>
          (Inr (map protocol_line ps @ map (\<lambda>m. ''Message from '' @ msg_from m @ '': '' @ msg_text m) ms), b1))"

subsection \<open>Stopping a teammate\<close>

fun reset_loop :: "int \<Rightarrow> str \<Rightarrow> json \<Rightarrow> task_v2_record list \<Rightarrow> task_dir \<Rightarrow> task_dir" where
  "reset_loop now target stamp [] d = d"
| "reset_loop now target stamp (t # ts) d =
     reset_loop now target stamp ts
       (if owner t = Some target then snd (update_task now d (task_id t) (with_status Pending (Some stamp))) else d)"

definition stop_teammate_tasks :: "int \<Rightarrow> str \<Rightarrow> json \<Rightarrow> task_dir \<Rightarrow> task_dir" where
  "stop_teammate_tasks now target stamp d =
     snd (unassign_teammate_tasks (reset_loop now target stamp (list_tasks d) d) target)"

section \<open>The claim\<close>

lemma get_written: "is_safe_path_component (task_id r)
  \<Longrightarrow> get_task (write_task_file d r) k = (if k = task_id r then Inr r else get_task d k)"
  by (simp add: write_safe get_task_def read_task_file_def task_file_def try_bind_def update_conv')

lemma stored_facts:
  assumes "dir_ok d" and "get_task d i = Inr r"
  shows "task_id r = i" "is_safe_path_component i"
  using assms td.get_key [of d i r] td.get_valid [of d i r] by (simp_all add: get_task_iff dir_ok_def)

lemma listed_facts:
  assumes "dir_ok d"
  shows "t \<in> set (list_tasks d) \<longleftrightarrow> get_task d (task_id t) = Inr t \<and> task_status t \<noteq> Deleted"
  using list_tasks_set [OF assms] stored_facts [OF assms] by (auto simp: get_task_iff)

lemma apply_status_id [simp]: "task_id (apply_status now s r) = task_id r" "owner (apply_status now s r) = owner r"
  "task_status (apply_status now s r) = s"
  by (simp_all add: apply_status_def Let_def)

text \<open>An update of the status, with an object merged into the metadata or not, succeeds on every stored task.\<close>

definition merged :: "json option \<Rightarrow> task_v2_record \<Rightarrow> task_v2_record" where
  "merged merge r = (case merge of Some (JObj vs) \<Rightarrow>
     r\<lparr>metadata := JObj (merge_metadata vs (case metadata r of JObj es \<Rightarrow> es | _ \<Rightarrow> []))\<rparr> | _ \<Rightarrow> r)"

lemma merged_fields [simp]: "task_id (merged merge r) = task_id r" "owner (merged merge r) = owner r"
  "task_status (merged merge r) = task_status r"
  by (simp_all add: merged_def split: option.split json.split)

lemma update_with_status:
  assumes "get_task d i = Inr r" and "s \<noteq> Deleted" and "merge = None \<or> (\<exists>vs. merge = Some (JObj vs))"
  shows "update_task now d i (with_status s merge)
    = (Inr (merged merge (apply_status now s r)), write_task_file d (merged merge (apply_status now s r)))"
  using assms unfolding update_task_def updated_fields_def get_task_def
  by (auto simp: with_status_def opt_update_def check_self_links_def try_bind_def apply_metadata_def merged_def Let_def)

lemma update_missing: "get_task d i = Inl e \<Longrightarrow> update_task now d i up = (Inl e, d)"
  by (simp add: update_task_def get_task_def try_bind_def)

abbreviation busy :: "task_dir \<Rightarrow> str \<Rightarrow> bool" where
  "busy d agent \<equiv> \<exists>k r. get_task d k = Inr r \<and> owner r = Some agent \<and> task_status r = InProgress"

lemma claim_loop_busy:
  assumes "dir_ok d" and "busy d agent" and "\<forall>t\<in>set ts. get_task d (task_id t) = Inr t"
  shows "claim_loop now agent unresolved ts d = (None, d)"
  using assms(3)
proof (induction ts)
  case (Cons t ts)
  have "agent_busy d (task_id t) agent" if "owner t = None"
    using assms(2) Cons.prems that unfolding agent_busy_iff [OF assms(1)] by fastforce
  then show ?case using Cons by (simp add: claim_task_def claimable_def)
qed simp

lemma claim_loop_free:
  assumes "dir_ok d" and "\<not> busy d agent" and "\<forall>t\<in>set ts. get_task d (task_id t) = Inr t"
  shows "claim_loop now agent unresolved ts d = (case find (claimable unresolved) ts of
      None \<Rightarrow> (None, d)
    | Some t \<Rightarrow> (let c = t\<lparr>owner := Some agent\<rparr> in (Some c, write_task_file (write_task_file d c) (apply_status now InProgress c))))"
  using assms(3)
proof (induction ts)
  case (Cons t ts)
  let ?c = "t\<lparr>owner := Some agent\<rparr>"
  have t: "get_task d (task_id t) = Inr t" and free: "\<not> agent_busy d (task_id t) agent"
    using Cons.prems assms(2) by (auto simp: agent_busy_iff [OF assms(1)])
  have "get_task (write_task_file d ?c) (task_id t) = Inr ?c"
    using claim_success(2) [OF assms(1) free t] by simp
  from update_with_status [OF this, of InProgress None now]
  have "update_task now (write_task_file d ?c) (task_id t) (with_status InProgress None)
      = (Inr (apply_status now InProgress ?c), write_task_file (write_task_file d ?c) (apply_status now InProgress ?c))"
    by (simp add: merged_def)
  then show ?case using Cons claim_success(1) [OF assms(1) free t] by (simp add: Let_def)
qed simp

lemma unresolved_iff:
  assumes "dir_ok d"
  shows "b \<in> set (unresolved_ids (list_tasks d)) \<longleftrightarrow>
    (\<exists>q. get_task d b = Inr q \<and> task_status q \<noteq> Completed \<and> task_status q \<noteq> Deleted)"
  using listed_facts [OF assms] stored_facts [OF assms] by (auto simp: unresolved_ids_def image_iff)

lemma claim_next_cases:
  assumes "dir_ok d"
  shows "claim_next_task now agent (\<lambda>d. d) d = (if busy d agent then (None, d)
    else case find (claimable (unresolved_ids (list_tasks d))) (list_tasks d) of
      None \<Rightarrow> (None, d)
    | Some t \<Rightarrow> (let c = t\<lparr>owner := Some agent\<rparr> in (Some c, write_task_file (write_task_file d c) (apply_status now InProgress c))))"
proof -
  have all: "\<forall>t\<in>set (list_tasks d). get_task d (task_id t) = Inr t" using listed_facts [OF assms] by blast
  show ?thesis
  proof (cases "busy d agent")
    case True
    then show ?thesis by (simp only: claim_next_task_def Let_def claim_loop_busy [OF assms True all] if_True)
  next
    case False
    then show ?thesis by (simp only: claim_next_task_def Let_def claim_loop_free [OF assms False all] if_False)
  qed
qed

text \<open>C38: an idle teammate takes the first task it may take. In every run of the task list, undisturbed, the claim yields
  nothing exactly when the teammate has a task in progress or no listed task is pending, without an owner and
  without an open blocker; otherwise it yields the first such task by number, which is afterwards in progress,
  owned by the teammate and started now. Every other task stays as it was.\<close>

theorem claim_takes_first_open_task:
  assumes "task_run strict ids d"
  shows "let open_task = (\<lambda>t. task_status t = Pending \<and> owner t = None
             \<and> (\<forall>b\<in>set (blocked_by t). \<forall>q. get_task d b = Inr q \<longrightarrow> task_status q = Completed \<or> task_status q = Deleted));
             (claimed, d') = claim_next_task now agent (\<lambda>d. d) d
         in claimed = (if \<exists>k r. get_task d k = Inr r \<and> owner r = Some agent \<and> task_status r = InProgress then None
              else map_option (\<lambda>t. t\<lparr>owner := Some agent\<rparr>) (find open_task (list_tasks d)))
          \<and> (\<forall>k. get_task d' k = (case claimed of
                 Some t \<Rightarrow> if k = task_id t
                           then Inr (t\<lparr>task_status := InProgress, started_at := Some now, completed_at := None\<rparr>)
                           else get_task d k
               | None \<Rightarrow> get_task d k))"
proof -
  note dir = run_dir [OF assms]
  let ?open = "\<lambda>t. task_status t = Pending \<and> owner t = None
    \<and> (\<forall>b\<in>set (blocked_by t). \<forall>q. get_task d b = Inr q \<longrightarrow> task_status q = Completed \<or> task_status q = Deleted)"
  have same: "claimable (unresolved_ids (list_tasks d)) = ?open"
    by (rule ext) (auto simp: claimable_def unresolved_iff [OF dir] list_all_iff)
  show ?thesis
  proof (cases "busy d agent \<or> find ?open (list_tasks d) = None")
    case True
    then show ?thesis unfolding claim_next_cases [OF dir] same by auto
  next
    case False
    then obtain t where t: "find ?open (list_tasks d) = Some t" and idle: "\<not> busy d agent" by blast
    have "t \<in> set (list_tasks d)" and pending: "?open t" using t by (auto simp: find_Some_iff)
    then have safe: "is_safe_path_component (task_id t)" using listed_facts [OF dir] stored_facts [OF dir] by blast
    let ?c = "t\<lparr>owner := Some agent\<rparr>"
    have "apply_status now InProgress ?c = ?c\<lparr>task_status := InProgress, started_at := Some now, completed_at := None\<rparr>"
      using pending by (simp add: apply_status_def Let_def)
    then show ?thesis
      unfolding claim_next_cases [OF dir] same using t idle safe by (simp add: Let_def get_written)
  qed
qed

lemma claim_takes_first_open_task_witness:
  "let d' = snd (claim_next_task 7 ''ann'' (\<lambda>d. d) two_tasks)
   in map_sum id task_status (get_task d' ''1'') = Inr InProgress \<and> get_task d' ''2'' = get_task two_tasks ''2''"
proof -
  let ?c = "claim_next_task 7 ''ann'' (\<lambda>d. d) two_tasks"
  have "\<exists>t. fst ?c = Some t \<and> task_id t = ''1''"
  proof -
    have "map_option task_id (fst ?c) = Some ''1''" by code_simp
    then show ?thesis by (simp only: map_option_eq_Some)
  qed
  then obtain t where t: "fst ?c = Some t" "task_id t = ''1''" by blast
  define d' where "d' = snd ?c"
  have c: "?c = (Some t, d')" by (simp only: d'_def t(1) [symmetric] prod.collapse)
  have "\<forall>k. get_task d' k = (if k = ''1'' then Inr (t\<lparr>task_status := InProgress, started_at := Some 7, completed_at := None\<rparr>)
      else get_task two_tasks k)"
    using claim_takes_first_open_task [OF two_tasks_run, of 7 "''ann''"] unfolding Let_def c prod.case option.case t(2)
    by (rule conjunct2)
  then show ?thesis unfolding Let_def d'_def [symmetric] by simp
qed

section \<open>The end of a claimed task\<close>

lemma update_keeps: "dir_ok d \<Longrightarrow> dir_ok (snd (update_task now d i up))"
  using update_task_keeps(1) [of d now i up] update_task_error [of now d i up]
  by (cases "fst (update_task now d i up)") (simp_all add: prod_eq_iff)

lemma mark_completed_at:
  assumes "dir_ok d"
  shows "get_task (mark_task_completed now show_error i summary d) k = (if k = i then map_sum id
      (\<lambda>r. merged (map_option (\<lambda>s. JObj [(''teammate_summary'', JStr s)]) summary) (apply_status now Completed r)) (get_task d i)
    else get_task d k)"
proof (cases "get_task d i")
  case (Inl e)
  then show ?thesis by (simp add: mark_task_completed_def record_task_error_def update_missing)
next
  case (Inr r)
  have "map_option (\<lambda>s. JObj [(''teammate_summary'', JStr s)]) summary = None
      \<or> (\<exists>vs. map_option (\<lambda>s. JObj [(''teammate_summary'', JStr s)]) summary = Some (JObj vs))"
    by (cases summary) simp_all
  with Inr show ?thesis
    using stored_facts [OF assms Inr] by (simp add: mark_task_completed_def update_with_status get_written)
qed

lemma record_error_at:
  assumes "dir_ok d"
  shows "get_task (record_task_error now i err d) k = (if k = i then map_sum id
      (\<lambda>r. released (merged (Some (JObj [(''last_teammate_error'', JStr err)])) (apply_status now Pending r))) (get_task d i)
    else get_task d k)"
proof (cases "get_task d i")
  case (Inl e)
  then show ?thesis by (simp add: record_task_error_def update_missing)
next
  case (Inr r)
  let ?q = "merged (Some (JObj [(''last_teammate_error'', JStr err)])) (apply_status now Pending r)"
  have q: "task_id ?q = i" "is_safe_path_component i" using stored_facts [OF assms Inr] by simp_all
  have "get_task (write_task_file d ?q) i = Inr ?q" using q by (simp add: get_written)
  then have "read_task_file (write_task_file d ?q) i = Inr ?q" by (simp only: get_task_def)
  then show ?thesis
    using Inr q by (simp add: record_task_error_def update_with_status release_task_def get_written)
qed

lemma report_idle_tasks [simp]: "w_tasks (report_idle to_text now agent summary completed w) = w_tasks w"
  by (simp add: report_idle_def split: sum.split)

lemma turn_settles:
  assumes "execute_teammate_prompt me (l_runtime st) (tool_run p) (task_prompt t) (l_world st) = (r, w1)"
  shows "w_tasks (l_world (snd (teammate_turn to_text show_error me p (TaskClaimed t) st)))
    = settle_task (clock p) show_error (task_id t) r (w_tasks w1)"
  using assms by (simp add: teammate_turn_def run_and_report_def Let_def on_tasks_def)

text \<open>C39: a claimed task is settled. Whatever the run of its prompt did to the task list, if the task is still
  stored it ends completed with the owner it had when the run succeeded, and pending without an owner when the
  run failed or was cancelled; so the teammate is not held up by it. A task the run removed stays removed, no
  other task changes, and the loop goes on.\<close>

theorem claimed_task_is_settled:
  assumes "tool_run p \<lparr>in_prompt = task_prompt t, in_agent_type = agent_type me, in_name = agent_name me,
      in_model = agent_model me, in_allowed_tools = allowed_tools (l_runtime st)\<rparr> (l_world st) = (outcome, w1)"
    and "task_run strict ids (w_tasks w1)"
  shows "let (final, st') = teammate_turn to_text show_error me p (TaskClaimed t) st;
             d = w_tasks w1; d' = w_tasks (l_world st')
         in final = None \<and> (\<forall>k. k \<noteq> task_id t \<longrightarrow> get_task d' k = get_task d k)
          \<and> (case get_task d (task_id t) of
                Inl e \<Rightarrow> get_task d' (task_id t) = Inl e
              | Inr r \<Rightarrow> \<exists>r'. get_task d' (task_id t) = Inr r'
                  \<and> (if \<exists>text. outcome = ToolResult True text then task_status r' = Completed \<and> owner r' = owner r
                     else task_status r' = Pending \<and> owner r' = None))"
proof -
  note dir = run_dir [OF assms(2)]
  define r where "r = (case outcome of ToolResult success text \<Rightarrow> (if success then Inr (Some text) else Inl text)
    | ToolError e \<Rightarrow> Inl e | PromptCancelled \<Rightarrow> Inl ''teammate cancelled during prompt execution'')"
  have "execute_teammate_prompt me (l_runtime st) (tool_run p) (task_prompt t) (l_world st) = (r, w1)"
    using assms(1) by (simp add: execute_teammate_prompt_def r_def split: tool_outcome.split)
  from turn_settles [OF this] have turn: "teammate_turn to_text show_error me p (TaskClaimed t) st = (None, st')
      \<Longrightarrow> w_tasks (l_world st') = settle_task (clock p) show_error (task_id t) r (w_tasks w1)" for st'
    by (metis snd_conv)
  obtain st' where st': "teammate_turn to_text show_error me p (TaskClaimed t) st = (None, st')"
    by (simp add: teammate_turn_def Let_def)
  have success: "(\<exists>text. outcome = ToolResult True text) \<longleftrightarrow> (\<exists>s. r = Inr s)"
    by (cases outcome) (simp_all add: r_def)
  show ?thesis
    unfolding st' Let_def prod.case turn [OF st'] success settle_task_def
    using mark_completed_at [OF dir] record_error_at [OF dir]
    by (cases r; cases "get_task (w_tasks w1) (task_id t)") simp_all
qed

text \<open>The turn of a teammate on the first of two tasks, with a run that succeeds and changes nothing.\<close>

definition quiet_poll :: "tool_outcome \<Rightarrow> poll" where
  "quiet_poll outcome =
     \<lparr>cancelled = False, clock = 9, clock_text = [], others_before = (\<lambda>w. w), others_in_scan = (\<lambda>b. b),
      others_in_claim = (\<lambda>d. d), tool_run = (\<lambda>i w. (outcome, w))\<rparr>"

definition ann :: teammate where
  "ann = \<lparr>agent_name = ''ann'', agent_type = ''general'', agent_model = None, initial_prompt = []\<rparr>"

definition ann_state :: "task_dir \<Rightarrow> team_inboxes \<Rightarrow> loop_state" where
  "ann_state d b =
     \<lparr>l_runtime = \<lparr>permission_mode = ''ask'', allowed_tools = None, pending_requests = [], resolved_requests = []\<rparr>,
      l_world = \<lparr>w_tasks = d, w_boxes = b\<rparr>, l_summary = None\<rparr>"

lemma claimed_task_is_settled_witness:
  "let t = (new_task 1 ''1'' (plain_request ''plan'' [] []))\<lparr>owner := Some ''ann''\<rparr>;
       (final, st') = teammate_turn (\<lambda>m. []) (\<lambda>e. []) ann (quiet_poll (ToolResult True ''ok'')) (TaskClaimed t)
         (ann_state started_tasks (boxes no_inboxes))
   in map_sum id (\<lambda>r. (task_status r, owner r)) (get_task (w_tasks (l_world st')) ''1'') = Inr (Completed, Some ''ann'')
    \<and> get_task (w_tasks (l_world st')) ''2'' = get_task started_tasks ''2''"
proof -
  let ?t = "(new_task 1 ''1'' (plain_request ''plan'' [] []))\<lparr>owner := Some ''ann''\<rparr>"
  have run: "tool_run (quiet_poll (ToolResult True ''ok'')) i w = (ToolResult True ''ok'', w)" for i w
    by (simp add: quiet_poll_def)
  have world: "w_tasks (l_world (ann_state started_tasks (boxes no_inboxes))) = started_tasks" by (simp add: ann_state_def)
  have reached: "task_run True [''1'', ''2''] (w_tasks (l_world (ann_state started_tasks (boxes no_inboxes))))"
    by (simp only: world started_tasks_run)
  have stored: "get_task started_tasks ''1'' = Inr ((new_task 1 ''1'' (plain_request ''plan'' [] []))\<lparr>blocks := [''2''],
      owner := Some ''ann'', task_status := InProgress, started_at := Some 4\<rparr>)"
    by (simp add: started_tasks_eval get_task_iff task_at_eq safe_small)
  have id: "task_id ?t = ''1''" by simp
  obtain final st' where turn: "teammate_turn (\<lambda>m. []) (\<lambda>e. []) ann (quiet_poll (ToolResult True ''ok'')) (TaskClaimed ?t)
      (ann_state started_tasks (boxes no_inboxes)) = (final, st')" by fastforce
  show ?thesis
    using claimed_task_is_settled [OF run reached, of "\<lambda>m. []" "\<lambda>e. []" ann ?t]
    unfolding Let_def turn prod.case world id stored by auto
qed

section \<open>The end of the loop\<close>

text \<open>What others do, and the runs of the prompts, keep the task list well-formed.\<close>

definition keeps_tasks :: "poll \<Rightarrow> bool" where
  "keeps_tasks p \<longleftrightarrow>
     (\<forall>w. dir_ok (w_tasks w) \<longrightarrow> dir_ok (w_tasks (others_before p w)))
     \<and> (\<forall>d. dir_ok d \<longrightarrow> dir_ok (others_in_claim p d))
     \<and> (\<forall>i w. dir_ok (w_tasks w) \<longrightarrow> dir_ok (w_tasks (snd (tool_run p i w))))"

lemma claim_loop_keeps: "dir_ok d \<Longrightarrow> dir_ok (snd (claim_loop now agent unresolved ts d))"
proof (induction ts arbitrary: d)
  case (Cons t ts)
  obtain r1 d1 where c: "claim_task d (task_id t) agent = (r1, d1)" by fastforce
  obtain r2 d2 where u: "update_task now d1 (task_id t) (with_status InProgress None) = (r2, d2)" by fastforce
  have d1: "dir_ok d1" using claim_release_keeps(1) [OF Cons.prems, of "task_id t" agent] by (simp add: c)
  then have d2: "dir_ok d2" using update_keeps [of d1 now "task_id t" "with_status InProgress None"] by (simp add: u)
  then have "dir_ok (snd (release_task d2 (task_id t)))" by (rule claim_release_keeps(3))
  with Cons d1 d2 show ?case by (simp add: c u split: sum.split)
qed simp

lemma settle_keeps: "dir_ok d \<Longrightarrow> dir_ok (settle_task now show_error i r d)"
proof -
  have failed: "dir_ok (record_task_error now i err d)" if "dir_ok d" for err d
    using update_keeps [OF that, of now i "with_status Pending (Some (JObj [(''last_teammate_error'', JStr err)]))"]
      claim_release_keeps(3) by (auto simp: record_task_error_def split: prod.split sum.split)
  assume ok: "dir_ok d"
  show ?thesis
  proof (cases r)
    case (Inr s)
    show ?thesis
      using update_keeps [OF ok, of now i "with_status Completed (map_option (\<lambda>s. JObj [(''teammate_summary'', JStr s)]) s)"] failed
      by (auto simp: Inr settle_task_def mark_task_completed_def split: prod.split sum.split)
  qed (simp add: settle_task_def failed ok)
qed

lemma poll_keeps:
  assumes "keeps_tasks p" and "dir_ok (w_tasks (l_world st))"
  shows "dir_ok (w_tasks (l_world (snd (poll_once parse me p st))))"
proof -
  have w: "dir_ok (w_tasks (others_before p (l_world st)))" using assms by (simp add: keeps_tasks_def)
  then have "dir_ok (snd (claim_next_task (clock p) (agent_name me) (others_in_claim p) (w_tasks (others_before p (l_world st)))))"
    using assms(1) claim_loop_keeps by (simp add: claim_next_task_def keeps_tasks_def Let_def)
  with w show ?thesis
    by (auto simp: poll_once_def Let_def split: prod.split sum.split wait_result.split option.split)
qed

lemma run_keeps:
  assumes "keeps_tasks p" and "dir_ok (w_tasks (l_world st))" and "\<And>r d. dir_ok d \<Longrightarrow> dir_ok (settle r d)"
  shows "dir_ok (w_tasks (l_world (run_and_report to_text me p settle finished failed completed prompt st)))"
proof -
  obtain r w1 where x: "execute_teammate_prompt me (l_runtime st) (tool_run p) prompt (l_world st) = (r, w1)" by fastforce
  let ?i = "\<lparr>in_prompt = prompt, in_agent_type = agent_type me, in_name = agent_name me, in_model = agent_model me,
    in_allowed_tools = allowed_tools (l_runtime st)\<rparr>"
  have "w1 = snd (tool_run p ?i (l_world st))"
    using x by (auto simp: execute_teammate_prompt_def split: prod.splits tool_outcome.splits)
  then have "dir_ok (w_tasks w1)" using assms(1,2) by (simp add: keeps_tasks_def)
  with assms(3) show ?thesis by (simp add: run_and_report_def x Let_def on_tasks_def)
qed

lemma last_letter:
  "write_to_mailbox n m b = Inr b' \<Longrightarrow> \<exists>ms. inbox_files b' (sanitize_name n) = Some (Stored (ms @ [m]))"
  by (auto simp: write_to_mailbox_def write_inbox_atomic_def Let_def split: sum.splits prod.splits)

definition released_all :: "str \<Rightarrow> task_dir \<Rightarrow> bool" where
  "released_all agent d \<longleftrightarrow> (\<forall>k r. get_task d k = Inr r \<and> task_status r \<noteq> Deleted \<longrightarrow> owner r \<noteq> Some agent)"

lemma unassign_releases: "dir_ok d \<Longrightarrow> released_all agent (snd (unassign_teammate_tasks d agent))"
  by (auto simp: released_all_def get_task_iff unassign_at split: if_splits) (metis option.distinct(1) released_simps(4))

text \<open>The answer: the lead is told that the shutdown is approved exactly when the teammate has no task in progress.\<close>

lemma shutdown_answer:
  assumes "handle_shutdown_request to_text now request_id agent w = (Inr s, w')"
  shows "s = (if owns_in_progress agent (w_tasks w) then ShutdownRejectedState else ShutdownApprovedState)"
    and "w_tasks w' = w_tasks w"
    and "\<exists>ms m. inbox_files (w_boxes w') (sanitize_name team_lead_name) = Some (Stored (ms @ [m])) \<and> msg_from m = agent
      \<and> msg_text m = to_text (if owns_in_progress agent (w_tasks w) then ShutdownRejected request_id agent ''Still has pending work''
          else ShutdownApproved request_id agent None)"
  using assms last_letter
  by (auto simp: handle_shutdown_request_def protocol_letter_def Let_def split: sum.splits if_splits) fastforce+

lemma owns_in_progress_iff: "dir_ok d \<Longrightarrow> owns_in_progress agent d \<longleftrightarrow> busy d agent"
  by (auto simp: owns_in_progress_def list_ex_iff listed_facts stored_facts) (metis stored_facts(1) task_v2_status.distinct(9))

definition approval_sent :: "(protocol_message \<Rightarrow> str) \<Rightarrow> str \<Rightarrow> team_inboxes \<Rightarrow> bool" where
  "approval_sent to_text agent b \<longleftrightarrow> (\<exists>ms m request_id.
     inbox_files b (sanitize_name team_lead_name) = Some (Stored (ms @ [m])) \<and> msg_from m = agent
     \<and> msg_text m = to_text (ShutdownApproved request_id agent None))"

lemma turn_end:
  assumes keeps: "keeps_tasks p" and ok: "dir_ok (w_tasks (l_world st))"
    and turn: "teammate_turn to_text show_error me p result st = (final, st')"
  shows "dir_ok (w_tasks (l_world st'))"
    and "final = None \<or> final = Some Terminated \<and> result = Aborted
      \<or> final = Some ShutdownApprovedState \<and> released_all (agent_name me) (w_tasks (l_world st'))
        \<and> approval_sent to_text (agent_name me) (w_boxes (l_world st'))"
proof -
  have quiet: "dir_ok (w_tasks (l_world (run_and_report to_text me p (\<lambda>r d. d) a b c prompt st)))" for a b c prompt
    by (rule run_keeps [OF keeps ok])
  have both: "dir_ok (w_tasks (l_world st')) \<and> (final = None \<or> final = Some Terminated \<and> result = Aborted
      \<or> final = Some ShutdownApprovedState \<and> released_all (agent_name me) (w_tasks (l_world st'))
        \<and> approval_sent to_text (agent_name me) (w_boxes (l_world st')))"
  proof (cases "\<exists>entry inbox. result = Inbox (ShutdownAsked entry inbox)")
    case False
    have "dir_ok (w_tasks (l_world (run_and_report to_text me p (settle_task n e i) a b c prompt st)))" for n e i a b c prompt
      by (rule run_keeps [OF keeps ok settle_keeps])
    with quiet ok turn False show ?thesis
      by (auto simp: teammate_turn_def Let_def split: poll_result.splits wait_result.splits)
  next
    case True
    then obtain entry inbox where result: "result = Inbox (ShutdownAsked entry inbox)" by blast
    define st1 where "st1 = (let prompt = format_prompt_from_inbox inbox in if prompt = [] then st
      else run_and_report to_text me p (\<lambda>r d. d) ''messages handled'' ''message handling failed'' None prompt st)"
    have st1: "dir_ok (w_tasks (l_world st1))" using ok quiet by (simp add: st1_def Let_def)
    obtain answer w where answer: "handle_shutdown_request to_text (clock_text p) (fst entry) (agent_name me) (l_world st1) = (answer, w)"
      by fastforce
    have same: "w_tasks w = w_tasks (l_world st1)"
      using answer by (auto simp: handle_shutdown_request_def Let_def split: sum.splits)
    have ends: "(final, st') = (if answer = Inr ShutdownApprovedState
        then (Some ShutdownApprovedState, st1\<lparr>l_world := on_tasks (\<lambda>d. snd (unassign_teammate_tasks d (agent_name me))) w\<rparr>)
        else (None, st1\<lparr>l_world := w\<rparr>))"
    proof -
      have "teammate_turn to_text show_error me p result st = (let (answer, w) = handle_shutdown_request to_text (clock_text p) (fst entry)
          (agent_name me) (l_world st1) in if answer = Inr ShutdownApprovedState
        then (Some ShutdownApprovedState, st1\<lparr>l_world := on_tasks (\<lambda>d. snd (unassign_teammate_tasks d (agent_name me))) w\<rparr>)
        else (None, st1\<lparr>l_world := w\<rparr>))"
        by (simp only: teammate_turn_def result poll_result.case wait_result.case st1_def Let_def)
      then show ?thesis by (simp only: turn answer Let_def prod.case)
    qed
    show ?thesis
    proof (cases "answer = Inr ShutdownApprovedState")
      case True
      have "approval_sent to_text (agent_name me) (w_boxes w)"
        using shutdown_answer(1,3) [OF answer [unfolded True]] unfolding approval_sent_def by (auto split: if_splits)
      then show ?thesis
        using ends True same st1 unassign_keeps(1) [OF st1] unassign_releases [OF st1] by (simp add: on_tasks_def)
    next
      case False
      then show ?thesis using ends same st1 by simp
    qed
  qed
  then show "dir_ok (w_tasks (l_world st'))" by blast
  show "final = None \<or> final = Some Terminated \<and> result = Aborted
      \<or> final = Some ShutdownApprovedState \<and> released_all (agent_name me) (w_tasks (l_world st'))
        \<and> approval_sent to_text (agent_name me) (w_boxes (l_world st'))"
    using both by blast
qed

lemma poll_aborted: "fst (poll_once parse me p st) = Aborted \<Longrightarrow> cancelled p"
  by (auto simp: poll_once_def Let_def split: if_splits prod.splits sum.splits wait_result.splits option.splits)

lemma loop_end:
  assumes "teammate_loop parse to_text show_error me ps st = (Some final, st')"
    and "\<forall>p\<in>set ps. keeps_tasks p" and "dir_ok (w_tasks (l_world st))"
  shows "final = Terminated \<and> (\<exists>p\<in>set ps. cancelled p)
    \<or> final = ShutdownApprovedState \<and> released_all (agent_name me) (w_tasks (l_world st'))
      \<and> approval_sent to_text (agent_name me) (w_boxes (l_world st'))"
  using assms
proof (induction ps arbitrary: st)
  case (Cons p ps)
  obtain result st1 where poll: "poll_once parse me p st = (result, st1)" by fastforce
  obtain f st2 where turn: "teammate_turn to_text show_error me p result st1 = (f, st2)" by fastforce
  have keeps: "keeps_tasks p" using Cons.prems(2) by simp
  have "dir_ok (w_tasks (l_world st1))" using poll_keeps [OF keeps Cons.prems(3), of parse me] by (simp add: poll)
  note ends = turn_end [OF keeps this turn]
  show ?case
  proof (cases f)
    case None
    then show ?thesis using Cons.IH [of st2] Cons.prems ends(1) by (auto simp: poll turn)
  next
    case (Some s)
    then show ?thesis
      using Cons.prems(1) ends(2) poll_aborted [of parse me p st] by (auto simp: poll turn)
  qed
qed simp

lemma run_keeps_start:
  assumes "keeps_tasks start" and "dir_ok (w_tasks w)"
  shows "dir_ok (w_tasks (l_world (if trim (initial_prompt me) \<noteq> [] \<and> \<not> cancelled start
    then run_and_report to_text me start (\<lambda>r d. d) a b None (initial_prompt me) \<lparr>l_runtime = rt, l_world = w, l_summary = None\<rparr>
    else \<lparr>l_runtime = rt, l_world = w, l_summary = None\<rparr>)))"
  using assms by (simp add: run_keeps)

text \<open>C40: a teammate leaves nothing behind. However often it polled and whatever its prompts did, if the loop of a teammate
  ends without a cancellation, then it ends with an approved shutdown: no task of the list that is
  not deleted is owned by the teammate, and the last letter in the inbox of the lead is its approval.\<close>

theorem shutdown_leaves_no_task:
  assumes "run_teammate_loop parse to_text show_error me start ps rt w = (Some final, st')"
    and "\<forall>p\<in>set (start # ps). keeps_tasks p" and "task_run strict ids (w_tasks w)" and "\<forall>p\<in>set ps. \<not> cancelled p"
  shows "final = ShutdownApprovedState
    \<and> (\<forall>k r. get_task (w_tasks (l_world st')) k = Inr r \<and> task_status r \<noteq> Deleted \<longrightarrow> owner r \<noteq> Some (agent_name me))
    \<and> (\<exists>ms m request_id. inbox_files (w_boxes (l_world st')) (sanitize_name team_lead_name) = Some (Stored (ms @ [m]))
        \<and> msg_from m = agent_name me \<and> msg_text m = to_text (ShutdownApproved request_id (agent_name me) None))"
proof -
  have "final = Terminated \<and> (\<exists>p\<in>set ps. cancelled p)
    \<or> final = ShutdownApprovedState \<and> released_all (agent_name me) (w_tasks (l_world st'))
      \<and> approval_sent to_text (agent_name me) (w_boxes (l_world st'))"
  proof (rule loop_end)
    show "teammate_loop parse to_text show_error me ps
        (if trim (initial_prompt me) \<noteq> [] \<and> \<not> cancelled start
         then run_and_report to_text me start (\<lambda>r d. d) ''initial prompt complete'' ''initial prompt failed'' None (initial_prompt me)
                \<lparr>l_runtime = rt, l_world = w, l_summary = None\<rparr>
         else \<lparr>l_runtime = rt, l_world = w, l_summary = None\<rparr>) = (Some final, st')"
      using assms(1) by (simp only: run_teammate_loop_def Let_def)
  qed (use assms(2,3) run_dir run_keeps_start in auto)
  with assms(4) show ?thesis unfolding released_all_def approval_sent_def by blast
qed

text \<open>A teammate that owns a pending task is asked to shut down.\<close>

definition down_parse :: "str \<Rightarrow> protocol_message option" where
  "down_parse t = (if t = ''{down'' then Some (ShutdownRequest ''r1'' team_lead_name None) else None)"

definition down_text :: "protocol_message \<Rightarrow> str" where
  "down_text m = (case m of ShutdownApproved request_id from_name backend \<Rightarrow> ''approved '' @ request_id | _ \<Rightarrow> ''other'')"

definition down_world :: team_world where
  "down_world =
     \<lparr>w_tasks = snd (claim_task two_tasks ''1'' ''ann''),
      w_boxes = deliver ''ann'' (sample_message team_lead_name ''{down'') (boxes no_inboxes)\<rparr>"

definition quiet :: poll where "quiet = quiet_poll (ToolError ''no model'')"

lemma shutdown_leaves_no_task_witness:
  "\<exists>st'. run_teammate_loop down_parse down_text (\<lambda>e. []) ann quiet [quiet]
       \<lparr>permission_mode = ''ask'', allowed_tools = None, pending_requests = [], resolved_requests = []\<rparr> down_world
       = (Some ShutdownApprovedState, st')
     \<and> (\<exists>ms m request_id. inbox_files (w_boxes (l_world st')) (sanitize_name team_lead_name) = Some (Stored (ms @ [m]))
         \<and> msg_from m = ''ann'' \<and> msg_text m = down_text (ShutdownApproved request_id ''ann'' None))"
proof -
  let ?run = "run_teammate_loop down_parse down_text (\<lambda>e. []) ann quiet [quiet]
    \<lparr>permission_mode = ''ask'', allowed_tools = None, pending_requests = [], resolved_requests = []\<rparr> down_world"
  have "fst ?run = Some ShutdownApprovedState" by code_simp
  then have run: "?run = (Some ShutdownApprovedState, snd ?run)" by (simp add: prod_eq_iff)
  have quiet: "\<forall>p\<in>set [quiet, quiet]. keeps_tasks p" "\<forall>p\<in>set [quiet]. \<not> cancelled p"
    by (simp_all add: keeps_tasks_def quiet_def quiet_poll_def)
  have start: "task_run True [''1'', ''2''] (w_tasks down_world)"
    using run_claim [OF two_tasks_run] by (simp add: down_world_def)
  have name: "agent_name ann = ''ann''" by (simp add: ann_def)
  show ?thesis
    using run shutdown_leaves_no_task [OF run quiet(1) start quiet(2), unfolded name] by blast
qed

section \<open>What can go wrong\<close>

text \<open>Between processes the claim is not one step: a teammate that listed the tasks before another one took the first
  of them takes it as well, and both run it.\<close>

lemma two_teammates_take_one_task:
  "let bob = claim_next_task 6 ''bob'' (\<lambda>d. d);
       (t, d) = claim_next_task 7 ''ann'' (\<lambda>d. snd (bob d)) two_tasks
   in map_option task_id (fst (bob two_tasks)) = Some ''1'' \<and> map_option task_id t = Some ''1''
     \<and> map_option owner (task_at d ''1'') = Some (Some ''ann'')"
  by code_simp

text \<open>A run that completed its task and failed afterwards has the task reopened.\<close>

lemma failed_run_reopens_completed_task:
  "let completed = snd (update_task 8 started_tasks ''1'' (status_update Completed))
   in map_option (\<lambda>r. (task_status r, completed_at r)) (task_at completed ''1'') = Some (Completed, Some 8)
    \<and> map_option (\<lambda>r. (task_status r, completed_at r)) (task_at (record_task_error 9 ''1'' ''late'' completed) ''1'')
      = Some (Pending, None)"
  by code_simp

section \<open>The stop\<close>

lemma reset_loop_at:
  assumes "dir_ok d" and "distinct (map task_id ts)" and "\<forall>t\<in>set ts. get_task d (task_id t) = Inr t"
  shows "dir_ok (reset_loop now target (JObj vs) ts d)"
    and "get_task (reset_loop now target (JObj vs) ts d) k = map_sum id
      (\<lambda>r. if r \<in> set ts \<and> owner r = Some target then merged (Some (JObj vs)) (apply_status now Pending r) else r) (get_task d k)"
proof -
  have "dir_ok (reset_loop now target (JObj vs) ts d) \<and> (\<forall>k. get_task (reset_loop now target (JObj vs) ts d) k = map_sum id
      (\<lambda>r. if r \<in> set ts \<and> owner r = Some target then merged (Some (JObj vs)) (apply_status now Pending r) else r) (get_task d k))"
    using assms
  proof (induction ts arbitrary: d)
    case Nil
    have "map_sum id (\<lambda>r. r) x = x" for x :: "task_error + task_v2_record" by (cases x) simp_all
    then show ?case using Nil(1) by (simp only: reset_loop.simps list.set empty_iff simp_thms if_False)
  next
    case (Cons t ts)
    let ?q = "merged (Some (JObj vs)) (apply_status now Pending t)"
    let ?d = "if owner t = Some target then snd (update_task now d (task_id t) (with_status Pending (Some (JObj vs)))) else d"
    have t: "get_task d (task_id t) = Inr t" using Cons.prems(3) by simp
    have at: "get_task ?d k = (if owner t = Some target \<and> k = task_id t then Inr ?q else get_task d k)" for k
      using stored_facts [OF Cons.prems(1) t] by (simp add: update_with_status [OF t] get_written)
    have ok: "dir_ok ?d" using update_keeps [OF Cons.prems(1)] Cons.prems(1) by simp
    have fresh: "task_id u \<noteq> task_id t" if "u \<in> set ts" for u
      using imageI [OF that, of task_id] Cons.prems(2) by (metis distinct.simps(2) list.simps(9) list.set_map)
    have rest: "\<forall>u\<in>set ts. get_task ?d (task_id u) = Inr u"
    proof
      fix u assume u: "u \<in> set ts"
      show "get_task ?d (task_id u) = Inr u" using Cons.prems(3) u unfolding at by (simp add: fresh [OF u])
    qed
    have "distinct (map task_id ts)" using Cons.prems(2) by simp
    note step = Cons.IH [OF ok this rest]
    have "map_sum id (\<lambda>r. if r \<in> set ts \<and> owner r = Some target then merged (Some (JObj vs)) (apply_status now Pending r) else r) (get_task ?d k)
      = map_sum id (\<lambda>r. if r \<in> set (t # ts) \<and> owner r = Some target then merged (Some (JObj vs)) (apply_status now Pending r) else r) (get_task d k)"
      for k
    proof (cases "k = task_id t")
      case True
      have "?q \<notin> set ts" "t \<notin> set ts" using fresh by fastforce+
      then show ?thesis by (simp only: at True t map_sum.simps list.set insert_iff simp_thms if_cancel split: if_split) simp
    next
      case False
      have "r \<noteq> t" if "get_task d k = Inr r" for r using that stored_facts(1) [OF Cons.prems(1) that] False by blast
      then show ?thesis using False unfolding at by (cases "get_task d k") simp_all
    qed
    with step show ?case by (simp only: reset_loop.simps simp_thms)
  qed
  then show "dir_ok (reset_loop now target (JObj vs) ts d)"
    "get_task (reset_loop now target (JObj vs) ts d) k = map_sum id
      (\<lambda>r. if r \<in> set ts \<and> owner r = Some target then merged (Some (JObj vs)) (apply_status now Pending r) else r) (get_task d k)"
    by blast+
qed

lemma merged_release [simp]: "(merged merge r)\<lparr>owner := None\<rparr> = merged merge (r\<lparr>owner := None\<rparr>)"
  by (simp add: merged_def split: option.split json.split)

text \<open>Stopping a teammate makes every task it owns pending and takes the owner off, whatever its status was; the other
  tasks stay as they were.\<close>

lemma stopped_tasks:
  assumes "dir_ok d"
  shows "get_task (stop_teammate_tasks now target (JObj vs) d) k = map_sum id
    (\<lambda>r. if owner r = Some target \<and> task_status r \<noteq> Deleted
         then merged (Some (JObj vs)) ((apply_status now Pending r)\<lparr>owner := None\<rparr>) else r) (get_task d k)"
proof -
  let ?d = "reset_loop now target (JObj vs) (list_tasks d) d"
  have "distinct (map task_order (list_tasks d))"
    using list_tasks_order [OF assms] strict_sorted_iff by blast
  then have dist: "distinct (map task_id (list_tasks d))"
    by (auto simp: distinct_map inj_on_def task_order_def)
  have all: "\<forall>t\<in>set (list_tasks d). get_task d (task_id t) = Inr t" using listed_facts [OF assms] by blast
  note reset = reset_loop_at [OF assms dist all, of now target vs]
  have other: "get_task e k = (if is_safe_path_component k
      then case task_at e k of None \<Rightarrow> Inl (TaskNotFound k) | Some r \<Rightarrow> Inr r else Inl (InvalidId k))" for e
    by (simp add: get_task_def read_task_file_def task_file_def try_bind_def task_at_eq)
  have "get_task (snd (unassign_teammate_tasks ?d target)) k = map_sum id
      (\<lambda>r. if owner r = Some target \<and> task_status r \<noteq> Deleted then released r else r) (get_task ?d k)"
    by (simp add: other unassign_at [OF reset(1)] split: option.split)
  moreover have "r \<in> set (list_tasks d) \<longleftrightarrow> task_status r \<noteq> Deleted" if "get_task d k = Inr r" for r
    using that listed_facts [OF assms] stored_facts(1) [OF assms that] by simp
  ultimately show ?thesis
    unfolding stop_teammate_tasks_def reset(2) by (cases "get_task d k") (auto simp: released_def)
qed

text \<open>So stopping a teammate reopens the work it had completed.\<close>

lemma stop_reopens_completed_task:
  "map_option (\<lambda>r. (task_status r, completed_at r)) (task_at (stop_teammate_tasks 9 ''ann'' (JObj [])
     (snd (update_task 8 started_tasks ''1'' (status_update Completed)))) ''1'') = Some (Pending, None)"
  by code_simp

end
