(* ===== verification/Spec2Isabelle.thy ===== *)
theory Spec2Isabelle
  imports
    ExecPolicy NetworkPolicy JobManager TaskV2 CommandSafety SandboxRules PrefixRules
    Dispatch LoopGuard RoundDrivers TodoList PlanState
    SessionLog JournalFile SessionRepair TranscriptPaths FactLedger Artifacts SessionStore
    PatchFormat PatchApply ApprovalRouter ApprovalGrants ApprovalGate PathGuard Freshness
    WireSanitize WireHistory TeamInbox TeamLoop
begin

text \<open>
  CodeSmith: a model of the decision-making core of a terminal coding agent.

  CodeSmith drives a language model in rounds. The model answers with tool calls; the engine plans and runs
  them, appends the results to the transcript and asks again. Around that loop stand the parts modelled here:
  the gates a tool call passes before it runs (is this command safe, is it allowed, may it reach that host),
  the plans and counters that keep a turn in order, the state the tools keep, and the session that survives a
  crash. All paths below are under \<open>src/crates/\<close>.

  The parts and the theories that hold them.

  Shell commands. A command is parsed by tree-sitter into facts (\<open>sandbox/src/bash_ast/facts.rs\<close>: BashFacts).
  \<open>sandbox/src/command_safety.rs\<close> (CommandSafety) classifies it by the facts; \<open>sandbox/src/execpolicy/\<close> holds
  the user's rules: the wildcard matcher (CommandMatcher), prefix allow rules (PrefixAllow), the rule groups
  of \<open>execpolicy.toml\<close> (SandboxRules) and the \<open>prefix_rule\<close> files (PrefixRules). The second engine,
  \<open>execpolicy/src/lib.rs\<close> (ExecPolicy), layers rulesets over the arity dictionary of \<open>bash_arity.rs\<close>
  (BashArity) and decides by approval mode. Both allow-rule matchers meet the locales of Allow_Interface.

  Network. \<open>sandbox/src/network_policy.rs\<close> (NetworkPolicy, with the address parser of std in Ip_Address): the
  host lists, the session cache of answers, the fake-IP ranges and the audit line.

  Background work. The job queue of \<open>core/src/lib.rs\<close> (JobManager) over the \<open>jobs\<close> table of \<open>state/src/lib.rs\<close>
  (JobStore), and the task directory of \<open>agent-runtime/src/tool_state/task_v2.rs\<close> (TaskV2). Both are instances
  of the locale of Record_Store; the histories are instances of the locale of Bounded_Log.

  The turn. \<open>agent-runtime/src/engine/dispatch.rs\<close> (Dispatch) splits a turn's calls into batches by the access
  each call declares, \<open>engine/loop_guard.rs\<close> (LoopGuard) counts repetitions and failures, and
  \<open>tool_state/goal.rs\<close>, \<open>engine/idle_wake.rs\<close> and \<open>compaction/circuit_breaker.rs\<close> (RoundDrivers) bound the
  rounds driven without a user. The todo list and the plan (TodoList, PlanState) live in their tools and are
  rebuilt from the transcript, whose messages and projections are in Transcript and whose modes are in Modes.

  The session. \<open>session/src/zones.rs\<close> (SessionLog) holds the transcript with the journal cursor;
  \<open>session/src/journal.rs\<close> (JournalFile) writes what the cursor drains and reads it back; \<open>store.rs\<close>
  (SessionStore) saves snapshots, recovers from the journal, lists and evicts. \<open>transcript.rs\<close> and the repair
  of \<open>store.rs\<close> (SessionRepair, TranscriptPaths) close interrupted calls and find paths; \<open>fact_ledger.rs\<close>
  (FactLedger) keeps what a compaction may not lose; \<open>artifacts.rs\<close> (Artifacts) keeps large outputs.

  Patches. \<open>tool-impls/src/tools/apply_patch.rs\<close> parses a unified diff (PatchFormat), locates each hunk with
  some slack, applies the hunks to each file and writes the files with a rollback (PatchApply).

  Approvals. A call that needs consent gets two keys from \<open>agent-runtime/src/tools/approval_cache.rs\<close>
  (ApprovalKeys). The engine waits for the answer on a channel shared by all waiters,
  \<open>agent-runtime/src/engine/approval.rs\<close> (ApprovalRouter). The terminal answers from what the user granted
  before or asks, \<open>cli/src/interactive/render.rs\<close>, \<open>state.rs\<close> and \<open>commands/permission_cmds.rs\<close>
  (ApprovalGate), and keeps the grants of a workspace in a file other sessions also write,
  \<open>cli/src/approval_grants.rs\<close> (ApprovalGrants).

  Paths. \<open>ToolContext::resolve_path\<close> of \<open>agent-runtime/src/tools/spec.rs\<close> (PathGuard) keeps the paths of the
  tools inside the workspace, over a model of a file system with symbolic links.
  \<open>agent-runtime/src/tools/freshness.rs\<close> (Freshness) wraps the file tools so that a file is read before it is
  edited, and finds the files a patch names.

  The wire. \<open>providers/src/rig_adapter/wire_sanitize.rs\<close> (WireSanitize, its specification and proof in
  WireHistory) brings the history of a request into a shape strict providers accept.

  Teams. The agents of a team write into each other's inbox files, \<open>cli/src/tools/team/teammate_mailbox.rs\<close>,
  and apply what the lead sends, \<open>teammate_lifecycle.rs\<close> (TeamInbox); the loop of a teammate there claims tasks
  of the list, runs prompts, settles what it claimed and answers the request to shut down (TeamLoop).

  How the model corresponds to the code. A struct is a record and an enum a datatype, with the source's names
  where Isabelle allows them; a method is a function of the same name that takes the state and returns it
  updated; a \<open>Result\<close> is a sum with the error on the left; a loop is a recursion on what it consumes. A \<open>str\<close>
  is its UTF-8 bytes (Prelude, Text_Lemmas, Utf8 give the standard library's operations on it). A \<open>u32\<close>
  or \<open>u64\<close> is a word where it can wrap or saturate; a \<open>usize\<close> that only counts is a \<open>nat\<close>. JSON values are
  those of Json. The state store, a directory and a file system are maps; a mutex taken once by every
  operation is the state the operation threads.

  Arguments of the model are the bash parser, the word splitter of shlex, the regular-expression engine, the
  JSON text of a record and its parser, the TOML text of the grants, the URL parser, the Starlark evaluator of
  a policy file, the parser of protocol messages, hashes, the clock, the file system and the outcome of each
  read and write of a patch, the lines the user types, and the Unicode lowercase map beyond ASCII. Where a
  theorem needs something of them, it is an assumption with a name and the witness of the theorem gives an
  instance.

  What the lemmas show, by group. Gates: no allow rule passes a command with one of the execution payloads listed
  in BashArity, a denial holds in every mode, a one-word denial forbids the commands that run that program and
  no others, and the classification of a command is that of an independent account of destructive segments; the
  gaps of that account (a deletion in a subshell after a pipe, writers that are not listed, a later output of
  a download) are findings with a lemma each. The scans the code avoids are refinements. State: the invariants of jobs,
  tasks, todo list, plan and caches hold in every reachable state, ids are not reused, links of tasks agree but
  for what a blocked creation or a raw delete leaves, and restarts and rebuilds give back the state that was
  left. Turn: batches keep order without races; guards, breakers and goal rounds stop what repeats. Session: the
  journal tells the log, survives a torn write, and a crash before a snapshot loses nothing that reached it;
  the repair adds one terminator for each interrupted call, at its place, and nothing else, and agrees with the
  terminator the live engine writes, whatever its origin; ledger and store stay within their caps. Patches: for
  a diff whose text reads back without doubt (the hypotheses name the lines that do not), the text of a patch reads
  back as the patch and an applied patch gives the new side of the diff; a failed one restores the files, but for
  the directory error the theorem excludes. Approvals: no answer is lost in any interleaving, every call that
  ran unasked is explained by the log of what the user granted, and a denied family is refused when its words
  hold no separator. Paths: what the boundary lets through is where it says, but for dangling links; an edit of a
  file that changed since the last successful read or write call on it is refused. Wire: every history leaves
  valid, valid ones unchanged, and the code's eight passes suffice. Teams: every message is read once, but for
  one that arrives inside a scan; the mode, tools and permission requests of a teammate answer to messages whose
  envelope names the lead, which is no proof of the sender; a teammate takes the first open task, leaves it
  completed or given back, and ends an approved shutdown owning nothing.

  Recursion and bounds. Every function here terminates by its argument or by a measure and none is partial;
  the caps (50 sessions, 64 history entries, 25 goal rounds, 8 sweeps and the like) are the code's. The lone
  run of a waiter in ApprovalRouter takes a number of steps: five for each decision that is sent suffice, as
  proved. The walk of a path in PathGuard follows 40 links at most, as the kernel of Linux does. The loop of a
  teammate recurses over the polls that have taken place and has no result while it is running.

  Not modelled. Input and output, processes and threads: the shell manager, the network clients, the adapters
  of the providers, the sandbox back ends of the operating systems, the terminal interface. The engine's own
  loop (\<open>agent-runtime/src/engine/host_executor.rs\<close>, \<open>turn/\<close>) runs these and is represented by the operations
  it calls. Code whose content is text for a model (prompts, descriptions, schemas) and configuration parsing
  have no behaviour the kernel could check beyond their constants. The manifest lists each part left out with
  its reason.
\<close>

end
